(* ===== verification/Mdbx_Prelude.thy ===== *)
theory Mdbx_Prelude
  imports Main "HOL-Library.Word"
begin

text \<open>
  Shared vocabulary of the development: a state monad with failures in which every C++ function
  that touches memory is written, its weakest-precondition transformer \<open>wp\<close>, and the generic
  list and map lemmas that the components share.

  A computation takes the state and returns either \<open>Inl e\<close> (an R condition, a jump or undefined
  behaviour) or \<open>Inr x\<close> (the C++ result), together with the state it leaves. A failure keeps the
  state: what a function wrote to memory before it threw stays written.
\<close>

section \<open>The monad\<close>

type_synonym ('e, 's, 'a) sem = "'s \<Rightarrow> ('e + 'a) \<times> 's"

definition returnM :: "'a \<Rightarrow> ('e, 's, 'a) sem" where
  "returnM x s = (Inr x, s)"

definition stopM :: "'e \<Rightarrow> ('e, 's, 'a) sem" where
  "stopM e s = (Inl e, s)"

definition bindM :: "('e, 's, 'a) sem \<Rightarrow> ('a \<Rightarrow> ('e, 's, 'b) sem) \<Rightarrow> ('e, 's, 'b) sem" where
  "bindM m f s = (case m s of (Inl e, s') \<Rightarrow> (Inl e, s') | (Inr x, s') \<Rightarrow> f x s')"

definition thenM :: "('e, 's, 'a) sem \<Rightarrow> ('e, 's, 'b) sem \<Rightarrow> ('e, 's, 'b) sem" where
  "thenM m k = bindM m (\<lambda>_. k)"

definition getsM :: "('s \<Rightarrow> 'a) \<Rightarrow> ('e, 's, 'a) sem" where
  "getsM f s = (Inr (f s), s)"

definition modifyM :: "('s \<Rightarrow> 's) \<Rightarrow> ('e, 's, unit) sem" where
  "modifyM f s = (Inr (), f s)"

definition whenM :: "bool \<Rightarrow> ('e, 's, unit) sem \<Rightarrow> ('e, 's, unit) sem" where
  "whenM b m = (if b then m else returnM ())"

text \<open>Read an optional cell of the state; \<open>e\<close> is what reading an absent one amounts to.\<close>

definition fetchM :: "'e \<Rightarrow> ('s \<Rightarrow> 'a option) \<Rightarrow> ('e, 's, 'a) sem" where
  "fetchM e f s = (case f s of None \<Rightarrow> (Inl e, s) | Some x \<Rightarrow> (Inr x, s))"

primrec forM :: "'a list \<Rightarrow> ('a \<Rightarrow> ('e, 's, unit) sem) \<Rightarrow> ('e, 's, unit) sem" where
  "forM [] f = returnM ()"
| "forM (x # xs) f = thenM (f x) (forM xs f)"

text \<open>A pure function that may fail, run in the monad.\<close>

definition liftM :: "'e + 'a \<Rightarrow> ('e, 's, 'a) sem" where
  "liftM r = (case r of Inl e \<Rightarrow> stopM e | Inr x \<Rightarrow> returnM x)"

text \<open>The scope of a \<open>std::unique_ptr\<close>: when the body throws, the object is freed on the way out.\<close>

definition unwindM :: "('e, 's, 'a) sem \<Rightarrow> ('e, 's, unit) sem \<Rightarrow> ('e, 's, 'a) sem" where
  "unwindM m cleanup s =
     (case m s of
        (Inr x, s') \<Rightarrow> (Inr x, s')
      | (Inl e, s') \<Rightarrow> thenM cleanup (stopM e) s')"

lemmas run_simps =
  returnM_def stopM_def bindM_def thenM_def getsM_def modifyM_def whenM_def fetchM_def liftM_def

section \<open>Weakest preconditions\<close>

definition wp :: "('e, 's, 'a) sem \<Rightarrow> ('a \<Rightarrow> 's \<Rightarrow> bool) \<Rightarrow> ('e \<Rightarrow> 's \<Rightarrow> bool) \<Rightarrow> 's \<Rightarrow> bool" where
  "wp m Q E s = (case m s of (Inl e, s') \<Rightarrow> E e s' | (Inr x, s') \<Rightarrow> Q x s')"

named_theorems wp_simps "weakest preconditions computed by rewriting"

lemma wp_return [wp_simps]: "wp (returnM x) Q E s = Q x s"
  by (simp add: wp_def returnM_def)

lemma wp_stop [wp_simps]: "wp (stopM e) Q E s = E e s"
  by (simp add: wp_def stopM_def)

lemma wp_bind [wp_simps]: "wp (bindM m f) Q E s = wp m (\<lambda>x. wp (f x) Q E) E s"
  by (auto simp: wp_def bindM_def split: prod.splits sum.splits)

lemma wp_then [wp_simps]: "wp (thenM m k) Q E s = wp m (\<lambda>_. wp k Q E) E s"
  by (simp add: thenM_def wp_bind)

lemma wp_gets [wp_simps]: "wp (getsM f) Q E s = Q (f s) s"
  by (simp add: wp_def getsM_def)

lemma wp_modify [wp_simps]: "wp (modifyM f) Q E s = Q () (f s)"
  by (simp add: wp_def modifyM_def)

lemma wp_fetch [wp_simps]:
  "wp (fetchM e f) Q E s = (case f s of None \<Rightarrow> E e s | Some x \<Rightarrow> Q x s)"
  by (simp add: wp_def fetchM_def split: option.splits)

lemma wp_unwind [wp_simps]:
  "wp (unwindM m c) Q E s = wp m Q (\<lambda>e. wp c (\<lambda>_. E e) E) s"
  by (auto simp: wp_def unwindM_def thenM_def bindM_def stopM_def split: prod.splits sum.splits)

lemma wp_if [wp_simps]:
  "wp (if b then m else k) Q E s = (if b then wp m Q E s else wp k Q E s)"
  by simp

lemma wp_when [wp_simps]: "wp (whenM b m) Q E s = (if b then wp m Q E s else Q () s)"
  by (simp add: whenM_def wp_simps)

lemma wp_lift [wp_simps]:
  "wp (liftM r) Q E s = (case r of Inl e \<Rightarrow> E e s | Inr x \<Rightarrow> Q x s)"
  by (simp add: liftM_def wp_simps split: sum.splits)

lemma wp_Let [wp_simps]: "wp (let x = t in f x) Q E s = (let x = t in wp (f x) Q E s)"
  by (simp add: Let_def)

lemma wp_case_option [wp_simps]:
  "wp (case v of None \<Rightarrow> m | Some x \<Rightarrow> k x) Q E s
     = (case v of None \<Rightarrow> wp m Q E s | Some x \<Rightarrow> wp (k x) Q E s)"
  by (cases v) simp_all

lemma wp_case_prod [wp_simps]:
  "wp (case v of (x, y) \<Rightarrow> k x y) Q E s = (case v of (x, y) \<Rightarrow> wp (k x y) Q E s)"
  by (cases v) simp

lemma wp_for_Nil [wp_simps]: "wp (forM [] f) Q E s = Q () s"
  by (simp add: wp_simps)

lemma wp_for_Cons [wp_simps]:
  "wp (forM (x # xs) f) Q E s = wp (f x) (\<lambda>_. wp (forM xs f) Q E) E s"
  by (simp add: wp_simps)

text \<open>A stronger result from a weaker one, and the two ways to read a \<open>wp\<close> back.\<close>

lemma wp_mono:
  assumes "wp m Q E s"
    and "\<And>x s'. Q x s' \<Longrightarrow> Q' x s'" and "\<And>e s'. E e s' \<Longrightarrow> E' e s'"
  shows "wp m Q' E' s"
  using assms by (auto simp: wp_def split: prod.splits sum.splits)

lemma wp_conj:
  assumes "wp m Q E s" and "wp m Q' E' s"
  shows "wp m (\<lambda>x s'. Q x s' \<and> Q' x s') (\<lambda>e s'. E e s' \<and> E' e s') s"
  using assms by (auto simp: wp_def split: prod.splits sum.splits)

lemma wpI:
  assumes "\<And>x s'. m s = (Inr x, s') \<Longrightarrow> Q x s'" and "\<And>e s'. m s = (Inl e, s') \<Longrightarrow> E e s'"
  shows "wp m Q E s"
  using assms by (auto simp: wp_def split: prod.splits sum.splits)

lemma wp_returns: "wp m Q E s \<Longrightarrow> m s = (Inr x, s') \<Longrightarrow> Q x s'"
  by (simp add: wp_def)

lemma wp_fails: "wp m Q E s \<Longrightarrow> m s = (Inl e, s') \<Longrightarrow> E e s'"
  by (simp add: wp_def)

lemma wp_any [simp]: "wp m (\<lambda>_ _. True) (\<lambda>_ _. True) s"
  by (simp add: wp_def split: prod.splits sum.splits)

lemma wp_ends: "wp m (\<lambda>_. P) (\<lambda>_. P) s \<Longrightarrow> m s = (r, w) \<Longrightarrow> P w"
  by (simp add: wp_def split: sum.splits)

text \<open>A loop keeps what its body keeps.\<close>

lemma wp_for_inv:
  assumes "\<And>x s. x \<in> set xs \<Longrightarrow> I s \<Longrightarrow> wp (f x) (\<lambda>_. I) E s" and "I s"
  shows "wp (forM xs f) (\<lambda>_. I) E s"
  using assms
proof (induction xs arbitrary: s)
  case Nil
  then show ?case by (simp add: wp_simps)
next
  case (Cons x xs)
  have "wp (f x) (\<lambda>_. I) E s" using Cons.prems by simp
  moreover have "I s' \<Longrightarrow> wp (forM xs f) (\<lambda>_. I) E s'" for s'
    using Cons.IH [of s'] Cons.prems(1) by simp
  ultimately show ?case by (auto simp only: wp_for_Cons elim: wp_mono)
qed

section \<open>Generic lemmas\<close>

lemma removeAll_distinct_length: "distinct xs \<Longrightarrow> length xs \<le> 1 \<Longrightarrow> x \<in> set xs \<Longrightarrow> removeAll x xs = []"
  by (cases xs) auto

lemma find_SomeD: "find P xs = Some x \<Longrightarrow> x \<in> set xs \<and> P x"
  by (induction xs) (auto split: if_splits)

lemma find_NoneD: "find P xs = None \<Longrightarrow> y \<in> set xs \<Longrightarrow> \<not> P y"
  by (induction xs) (auto split: if_splits)

lemma find_append: "find P xs = Some x \<Longrightarrow> find P (xs @ ys) = Some x"
  by (induction xs) (auto split: if_splits)

lemma find_after: "(\<And>x. x \<in> set xs \<Longrightarrow> \<not> P x) \<Longrightarrow> find P (xs @ ys) = find P ys"
  by (induction xs) simp_all

lemma find_snoc: "find P xs = None \<Longrightarrow> P x \<Longrightarrow> find P (xs @ [x]) = Some x"
  by (induction xs) (auto split: if_splits)

text \<open>
  A static table searched from the front for the entry with a given key, which is how the error
  table and the flag tables are read. With distinct keys the search finds the entry, wherever it
  stands.
\<close>

locale keyed_table =
  fixes table :: "'e list" and key :: "'e \<Rightarrow> 'k"
  assumes distinct_keys: "distinct (map key table)"
begin

lemma find_hit: "e \<in> set table \<Longrightarrow> find (\<lambda>x. key x = key e) table = Some e"
  using distinct_keys by (induction table) (auto simp: image_iff)

lemma find_sound: "find (\<lambda>x. key x = k) table = Some e \<Longrightarrow> e \<in> set table \<and> key e = k"
  by (rule find_SomeD)

lemma find_miss: "find (\<lambda>x. key x = k) table = None \<longleftrightarrow> k \<notin> key ` set table"
  by (auto simp: find_None_iff)

lemma find_iff: "find (\<lambda>x. key x = k) table = Some e \<longleftrightarrow> e \<in> set table \<and> key e = k"
  using find_hit find_sound by blast

end

lemma map_of_find: "map_of xs k = map_option snd (find (\<lambda>p. fst p = k) xs)"
  by (induction xs) auto

end
