(* ===== verification/Mdbx_Codes.thy ===== *)
theory Mdbx_Codes
  imports Mdbx_Prelude
begin

text \<open>
  The constants of \<open>src/src/vendor/libmdbx/mdbx.h\<close> that the package's C++ names: status codes
  (\<open>enum MDBX_error\<close>), environment and transaction flags (32-bit words), and the handful of
  put, database and cursor constants. Only the constants are taken from the vendored library; its
  functions are parameters of the model (theory \<open>Mdbx_State\<close>).
\<close>

type_synonym u32 = "32 word"

section \<open>Status codes\<close>

definition MDBX_SUCCESS :: int where "MDBX_SUCCESS = 0"
definition MDBX_RESULT_TRUE :: int where "MDBX_RESULT_TRUE = -1"
definition MDBX_KEYEXIST :: int where "MDBX_KEYEXIST = -30799"
definition MDBX_NOTFOUND :: int where "MDBX_NOTFOUND = -30798"
definition MDBX_CORRUPTED :: int where "MDBX_CORRUPTED = -30796"
definition MDBX_PANIC :: int where "MDBX_PANIC = -30795"
definition MDBX_VERSION_MISMATCH :: int where "MDBX_VERSION_MISMATCH = -30794"
definition MDBX_INVALID :: int where "MDBX_INVALID = -30793"
definition MDBX_MAP_FULL :: int where "MDBX_MAP_FULL = -30792"
definition MDBX_DBS_FULL :: int where "MDBX_DBS_FULL = -30791"
definition MDBX_READERS_FULL :: int where "MDBX_READERS_FULL = -30790"
definition MDBX_TXN_FULL :: int where "MDBX_TXN_FULL = -30788"
definition MDBX_PAGE_FULL :: int where "MDBX_PAGE_FULL = -30786"
definition MDBX_UNABLE_EXTEND_MAPSIZE :: int where "MDBX_UNABLE_EXTEND_MAPSIZE = -30785"
definition MDBX_INCOMPATIBLE :: int where "MDBX_INCOMPATIBLE = -30784"
definition MDBX_BAD_RSLOT :: int where "MDBX_BAD_RSLOT = -30783"
definition MDBX_BAD_TXN :: int where "MDBX_BAD_TXN = -30782"
definition MDBX_BAD_VALSIZE :: int where "MDBX_BAD_VALSIZE = -30781"
definition MDBX_BAD_DBI :: int where "MDBX_BAD_DBI = -30780"
definition MDBX_PROBLEM :: int where "MDBX_PROBLEM = -30779"
definition MDBX_BUSY :: int where "MDBX_BUSY = -30778"
definition MDBX_EBADSIGN :: int where "MDBX_EBADSIGN = -30420"
definition MDBX_WANNA_RECOVERY :: int where "MDBX_WANNA_RECOVERY = -30419"
definition MDBX_EKEYMISMATCH :: int where "MDBX_EKEYMISMATCH = -30418"
definition MDBX_TOO_LARGE :: int where "MDBX_TOO_LARGE = -30417"
definition MDBX_THREAD_MISMATCH :: int where "MDBX_THREAD_MISMATCH = -30416"
definition MDBX_TXN_OVERLAPPING :: int where "MDBX_TXN_OVERLAPPING = -30415"
definition MDBX_DANGLING_DBI :: int where "MDBX_DANGLING_DBI = -30412"

lemmas code_defs =
  MDBX_SUCCESS_def MDBX_RESULT_TRUE_def MDBX_KEYEXIST_def MDBX_NOTFOUND_def MDBX_CORRUPTED_def
  MDBX_PANIC_def MDBX_VERSION_MISMATCH_def MDBX_INVALID_def MDBX_MAP_FULL_def MDBX_DBS_FULL_def
  MDBX_READERS_FULL_def MDBX_TXN_FULL_def MDBX_PAGE_FULL_def MDBX_UNABLE_EXTEND_MAPSIZE_def
  MDBX_INCOMPATIBLE_def MDBX_BAD_RSLOT_def MDBX_BAD_TXN_def MDBX_BAD_VALSIZE_def
  MDBX_BAD_DBI_def MDBX_PROBLEM_def MDBX_BUSY_def MDBX_EBADSIGN_def MDBX_WANNA_RECOVERY_def
  MDBX_EKEYMISMATCH_def MDBX_TOO_LARGE_def MDBX_THREAD_MISMATCH_def MDBX_TXN_OVERLAPPING_def
  MDBX_DANGLING_DBI_def

text \<open>The codes the C++ branches on are pairwise different.\<close>

lemma branch_codes_distinct [simp]:
  "MDBX_RESULT_TRUE \<noteq> MDBX_SUCCESS" "MDBX_NOTFOUND \<noteq> MDBX_SUCCESS"
  "MDBX_KEYEXIST \<noteq> MDBX_SUCCESS" "MDBX_THREAD_MISMATCH \<noteq> MDBX_SUCCESS"
  "MDBX_BUSY \<noteq> MDBX_SUCCESS" "MDBX_THREAD_MISMATCH \<noteq> MDBX_RESULT_TRUE"
  "MDBX_SUCCESS \<noteq> MDBX_RESULT_TRUE" "MDBX_SUCCESS \<noteq> MDBX_NOTFOUND"
  "MDBX_SUCCESS \<noteq> MDBX_KEYEXIST" "MDBX_SUCCESS \<noteq> MDBX_THREAD_MISMATCH"
  "MDBX_SUCCESS \<noteq> MDBX_BUSY" "MDBX_RESULT_TRUE \<noteq> MDBX_THREAD_MISMATCH"
  by (simp_all add: code_defs)

section \<open>Flags\<close>

definition MDBX_ENV_DEFAULTS :: u32 where "MDBX_ENV_DEFAULTS = 0"
definition MDBX_VALIDATION :: u32 where "MDBX_VALIDATION = 0x2000"
definition MDBX_NOSUBDIR :: u32 where "MDBX_NOSUBDIR = 0x4000"
definition MDBX_RDONLY :: u32 where "MDBX_RDONLY = 0x20000"
definition MDBX_EXCLUSIVE :: u32 where "MDBX_EXCLUSIVE = 0x400000"
definition MDBX_ACCEDE :: u32 where "MDBX_ACCEDE = 0x40000000"
definition MDBX_WRITEMAP :: u32 where "MDBX_WRITEMAP = 0x80000"
definition MDBX_NOSTICKYTHREADS :: u32 where "MDBX_NOSTICKYTHREADS = 0x200000"
definition MDBX_NORDAHEAD :: u32 where "MDBX_NORDAHEAD = 0x800000"
definition MDBX_NOMEMINIT :: u32 where "MDBX_NOMEMINIT = 0x1000000"
definition MDBX_LIFORECLAIM :: u32 where "MDBX_LIFORECLAIM = 0x4000000"
definition MDBX_NOMETASYNC :: u32 where "MDBX_NOMETASYNC = 0x40000"
definition MDBX_SAFE_NOSYNC :: u32 where "MDBX_SAFE_NOSYNC = 0x10000"
definition MDBX_UTTERLY_NOSYNC :: u32 where "MDBX_UTTERLY_NOSYNC = 0x110000"

definition MDBX_TXN_READWRITE :: u32 where "MDBX_TXN_READWRITE = 0"
definition MDBX_TXN_RDONLY :: u32 where "MDBX_TXN_RDONLY = 0x20000"
definition MDBX_TXN_TRY :: u32 where "MDBX_TXN_TRY = 0x10000000"
definition MDBX_TXN_NOMETASYNC :: u32 where "MDBX_TXN_NOMETASYNC = 0x40000"
definition MDBX_TXN_NOSYNC :: u32 where "MDBX_TXN_NOSYNC = 0x10000"
definition MDBX_TXN_ERROR :: u32 where "MDBX_TXN_ERROR = 0x02"

definition MDBX_DB_DEFAULTS :: u32 where "MDBX_DB_DEFAULTS = 0"
definition MDBX_CREATE :: u32 where "MDBX_CREATE = 0x40000"
definition MDBX_UPSERT :: u32 where "MDBX_UPSERT = 0"
definition MDBX_NOOVERWRITE :: u32 where "MDBX_NOOVERWRITE = 0x10"

lemmas flag_defs =
  MDBX_ENV_DEFAULTS_def MDBX_VALIDATION_def MDBX_NOSUBDIR_def MDBX_RDONLY_def MDBX_EXCLUSIVE_def
  MDBX_ACCEDE_def MDBX_WRITEMAP_def MDBX_NOSTICKYTHREADS_def MDBX_NORDAHEAD_def
  MDBX_NOMEMINIT_def MDBX_LIFORECLAIM_def MDBX_NOMETASYNC_def MDBX_SAFE_NOSYNC_def
  MDBX_UTTERLY_NOSYNC_def MDBX_TXN_READWRITE_def MDBX_TXN_RDONLY_def MDBX_TXN_TRY_def
  MDBX_TXN_NOMETASYNC_def MDBX_TXN_NOSYNC_def MDBX_TXN_ERROR_def MDBX_DB_DEFAULTS_def
  MDBX_CREATE_def MDBX_UPSERT_def MDBX_NOOVERWRITE_def

text \<open>The cursor operations \<open>scan_call\<close> uses, and the environment options \<open>open_call\<close> sets.\<close>

datatype MDBX_cursor_op = MDBX_FIRST | MDBX_LAST | MDBX_NEXT | MDBX_PREV | MDBX_SET_RANGE

datatype MDBX_option = MDBX_opt_max_db | MDBX_opt_max_readers

end
