(* ===== verification/Mdbx_Double.thy ===== *)
theory Mdbx_Double
  imports Mdbx_Prelude Complex_Main "HOL-Library.Log_Nat"
begin

text \<open>
  C++ \<open>double\<close> as the package uses it: arguments that arrive from R and are narrowed to integers
  (\<open>mdbx_env_open_\<close>, \<open>mdbx_scan_\<close>, \<open>mdbx_limits_\<close>, \<open>mdbx_dbi_sequence_\<close>), and 64-bit
  counters that leave as doubles (\<open>as_num\<close>). A finite double is the rational it denotes; an
  operation rounds its exact result to 53 significant bits, ties to even. The operands here lie
  between \<open>2^-52\<close> and \<open>2^65\<close>, so subnormals and overflow to infinity do not arise and the
  exponent is not bounded.
\<close>

section \<open>Rounding\<close>

datatype dbl = NaN | PosInf | NegInf | Fin rat

text \<open>The integer nearest to a rational, ties to even.\<close>

definition round_even :: "rat \<Rightarrow> int" where
  "round_even q =
     (let f = \<lfloor>q\<rfloor>; r = q - of_int f
      in if r < 1 / 2 then f else if r > 1 / 2 then f + 1 else if even f then f else f + 1)"

definition pow2 :: "int \<Rightarrow> rat" where
  "pow2 e = (if 0 \<le> e then 2 ^ nat e else 1 / 2 ^ nat (- e))"

text \<open>The exponent of the leading bit of a positive rational.\<close>

definition lead_exp :: "rat \<Rightarrow> int" where
  "lead_exp q =
     (let (n, d) = quotient_of q; k = bitlen n - bitlen d
      in if pow2 k \<le> q then k else k - 1)"

text \<open>Rounding a non-negative rational to 53 bits.\<close>

definition round53 :: "rat \<Rightarrow> rat" where
  "round53 q =
     (if q \<le> 0 then q
      else let e = lead_exp q - 52 in of_int (round_even (q / pow2 e)) * pow2 e)"

definition dround :: "rat \<Rightarrow> rat" where
  "dround q = (if q < 0 then - round53 (- q) else round53 q)"

section \<open>Comparisons, subtraction, conversion\<close>

text \<open>IEEE comparisons: every comparison with a NaN is false.\<close>

fun dle :: "dbl \<Rightarrow> dbl \<Rightarrow> bool" where
  "dle NaN _ = False"
| "dle _ NaN = False"
| "dle NegInf _ = True"
| "dle _ PosInf = True"
| "dle (Fin a) (Fin b) = (a \<le> b)"
| "dle _ _ = False"

fun dlt :: "dbl \<Rightarrow> dbl \<Rightarrow> bool" where
  "dlt NaN _ = False"
| "dlt _ NaN = False"
| "dlt (Fin a) (Fin b) = (a < b)"
| "dlt NegInf NegInf = False"
| "dlt NegInf _ = True"
| "dlt PosInf _ = False"
| "dlt (Fin _) PosInf = True"
| "dlt (Fin _) NegInf = False"

text \<open>\<open>x - y\<close> for the one subtraction the source performs, whose left operand is finite.\<close>

fun dsub :: "dbl \<Rightarrow> dbl \<Rightarrow> dbl" where
  "dsub NaN _ = NaN"
| "dsub _ NaN = NaN"
| "dsub (Fin a) (Fin b) = Fin (dround (a - b))"
| "dsub PosInf PosInf = NaN"
| "dsub NegInf NegInf = NaN"
| "dsub PosInf _ = PosInf"
| "dsub NegInf _ = NegInf"
| "dsub (Fin _) PosInf = NegInf"
| "dsub (Fin _) NegInf = PosInf"

text \<open>\<open>static_cast<double>(uint64_t)\<close>, also \<open>as_num\<close>.\<close>

definition as_num :: "nat \<Rightarrow> dbl" where
  "as_num n = Fin (dround (of_nat n))"

text \<open>
  \<open>static_cast\<close> of a double to an unsigned type of \<open>bits\<close> bits, or to a signed one: truncation
  toward zero, and undefined behaviour (\<open>None\<close>) when the truncated value does not fit.
\<close>

definition trunc_rat :: "rat \<Rightarrow> int" where
  "trunc_rat q = (if q < 0 then \<lceil>q\<rceil> else \<lfloor>q\<rfloor>)"

definition cast_unsigned :: "nat \<Rightarrow> dbl \<Rightarrow> nat option" where
  "cast_unsigned bits d =
     (case d of Fin q \<Rightarrow> (let t = trunc_rat q in if 0 \<le> t \<and> t < 2 ^ bits then Some (nat t) else None)
      | _ \<Rightarrow> None)"

definition cast_signed :: "nat \<Rightarrow> dbl \<Rightarrow> int option" where
  "cast_signed bits d =
     (case d of Fin q \<Rightarrow> (let t = trunc_rat q
                          in if - (2 ^ (bits - 1)) \<le> t \<and> t < 2 ^ (bits - 1) then Some t else None)
      | _ \<Rightarrow> None)"

text \<open>\<open>max_exact_integer\<close> and \<open>max_native_integer\<close>; the size of a pointer is the platform's.\<close>

definition max_exact_integer :: dbl where
  "max_exact_integer = Fin 9007199254740992"

definition max_native_integer :: "nat \<Rightarrow> dbl" where
  "max_native_integer sizeof_voidp =
     (if 8 \<le> sizeof_voidp then max_exact_integer else Fin 2147483647)"

section \<open>Facts about rounding\<close>

lemma pow2_pos [simp]: "0 < pow2 e"
  by (simp add: pow2_def)

lemma round_even_of_int [simp]: "round_even (of_int n) = n"
  by (simp add: round_even_def)

lemma round_even_mono_int:
  assumes "of_int k \<le> q"
  shows "k \<le> round_even q"
proof -
  have "k \<le> \<lfloor>q\<rfloor>" using assms by (simp add: le_floor_iff)
  then show ?thesis by (auto simp: round_even_def Let_def)
qed

lemma pow2_powi: "pow2 e = 2 powi e"
  by (simp add: pow2_def power_int_def divide_simps)

lemma pow2_add: "pow2 (a + b) = pow2 a * pow2 b"
  by (simp add: pow2_powi power_int_add)

lemma pow2_diff: "pow2 (a - b) = pow2 a / pow2 b"
  by (simp add: pow2_powi power_int_diff)

lemma pow2_less_iff [simp]: "pow2 a < pow2 b \<longleftrightarrow> a < b"
proof -
  have "x < y \<Longrightarrow> pow2 x < pow2 y" for x y
    by (simp add: pow2_powi power_int_strict_increasing)
  then show ?thesis by (metis linorder_neqE_linordered_idom order_less_asym order_less_irrefl)
qed

lemma pow2_le_iff [simp]: "pow2 a \<le> pow2 b \<longleftrightarrow> a \<le> b"
  using pow2_less_iff [of b a] by (simp add: linorder_not_less [symmetric] del: pow2_less_iff)

lemma bitlen_sandwich:
  assumes "0 < n"
  shows "pow2 (bitlen n - 1) \<le> of_int n" and "of_int n < pow2 (bitlen n)"
proof -
  have b: "0 < bitlen n" using assms bitlen_bounds [OF assms] by (cases "bitlen n \<le> 0") auto
  have *: "2 ^ nat (bitlen n - 1) \<le> n \<and> n < 2 ^ nat (bitlen n)"
    using bitlen_bounds [OF assms] .
  have "(2::rat) ^ nat (bitlen n - 1) = of_int (2 ^ nat (bitlen n - 1))"
       "(2::rat) ^ nat (bitlen n) = of_int (2 ^ nat (bitlen n))" by simp_all
  then show "pow2 (bitlen n - 1) \<le> of_int n" "of_int n < pow2 (bitlen n)"
    using * b by (simp_all only: pow2_def of_int_le_iff of_int_less_iff) simp_all
qed

text \<open>\<open>lead_exp\<close> is the floor of the binary logarithm.\<close>

lemma lead_exp_bounds:
  assumes "0 < q"
  shows "pow2 (lead_exp q) \<le> q" and "q < pow2 (lead_exp q + 1)"
proof -
  obtain n d where nd: "quotient_of q = (n, d)" by (cases "quotient_of q") auto
  have d: "0 < d" using nd by (rule quotient_of_denom_pos)
  have q: "q = of_int n / of_int d" using nd by (rule quotient_of_div)
  have n: "0 < n" using assms d q by (simp add: zero_less_divide_iff)
  let ?k = "bitlen n - bitlen d"
  have up: "q < pow2 (?k + 1)"
  proof -
    have "of_int n * pow2 (bitlen d - 1) < pow2 (bitlen n) * of_int d"
      using bitlen_sandwich [OF n] bitlen_sandwich [OF d] d n
      by (intro mult_less_le_imp_less) simp_all
    then show ?thesis
      using d by (simp add: q divide_simps pow2_diff pow2_add mult.commute) (simp add: pow2_def field_simps)
  qed
  have lo: "pow2 (?k - 1) \<le> q"
  proof -
    have "pow2 (bitlen n - 1) * of_int d \<le> of_int n * pow2 (bitlen d)"
      using bitlen_sandwich [OF n] bitlen_sandwich [OF d] d n
      by (intro mult_mono) simp_all
    then show ?thesis
      using d by (simp add: q divide_simps pow2_diff mult.commute) (simp add: pow2_def field_simps)
  qed
  show "pow2 (lead_exp q) \<le> q" "q < pow2 (lead_exp q + 1)"
    using up lo by (auto simp: lead_exp_def nd Let_def)
qed

text \<open>Integers up to \<open>2^53\<close> are doubles; nothing at or above \<open>2^53\<close> rounds below it.\<close>

lemma round53_exact:
  assumes "0 \<le> n" and "n \<le> 2 ^ 53"
  shows "round53 (of_int n) = of_int n"
proof (cases "n = 0 \<or> n = 2 ^ 53")
  case True
  have "round53 (2 ^ 53) = 2 ^ 53" by code_simp
  with True show ?thesis by (auto simp: round53_def)
next
  case False
  then have n: "0 < n" "n < 2 ^ 53" using assms by auto
  define e where "e = lead_exp (of_int n) - 52"
  have "pow2 (lead_exp (of_int n)) \<le> of_int n" using lead_exp_bounds(1) n by simp
  also have "(of_int n :: rat) < of_int (2 ^ 53)" using n by (simp only: of_int_less_iff)
  also have "(of_int (2 ^ 53) :: rat) = pow2 53" by (simp add: pow2_def)
  finally have e: "e \<le> 0" by (simp add: e_def)
  then have "(of_int n :: rat) / pow2 e = of_int (n * 2 ^ nat (- e))"
    by (auto simp: pow2_def)
  then have "of_int (round_even (of_int n / pow2 e)) * pow2 e = (of_int n :: rat)"
    by (metis nonzero_eq_divide_eq order_less_irrefl pow2_pos round_even_of_int)
  then show ?thesis using n by (simp add: round53_def e_def Let_def)
qed

lemma round53_ge:
  assumes "2 ^ 53 \<le> q"
  shows "2 ^ 53 \<le> round53 q"
proof -
  have q: "0 < q" using assms by (rule less_le_trans [rotated]) simp
  define e where "e = lead_exp q - 52"
  have "pow2 53 \<le> q" using assms by (simp add: pow2_def)
  also have "q < pow2 (lead_exp q + 1)" using lead_exp_bounds(2) q .
  finally have e: "1 \<le> e" by (simp add: e_def)
  have "of_int (2 ^ 52) \<le> q / pow2 e"
    using lead_exp_bounds(1) [OF q] by (simp add: e_def pow2_diff field_simps) (simp add: pow2_def)
  then have "2 ^ 52 \<le> round_even (q / pow2 e)" by (rule round_even_mono_int)
  then have "(2 ^ 52 :: rat) \<le> of_int (round_even (q / pow2 e))"
    by (metis of_int_le_iff of_int_numeral of_int_power)
  moreover have "2 \<le> pow2 e" using e pow2_le_iff [of 1 e] by (simp add: pow2_def)
  ultimately have "2 ^ 52 * 2 \<le> of_int (round_even (q / pow2 e)) * pow2 e"
    by (intro mult_mono) simp_all
  then show ?thesis using q by (simp add: round53_def e_def Let_def)
qed

lemma dround_exact: "\<bar>n\<bar> \<le> 2 ^ 53 \<Longrightarrow> dround (of_int n) = of_int n"
  using round53_exact [of n] round53_exact [of "- n"] by (auto simp: dround_def)

lemma as_num_exact: "n \<le> 2 ^ 53 \<Longrightarrow> as_num n = Fin (of_nat n)"
  using dround_exact [of "int n"] by (simp add: as_num_def)

lemma as_num_ge:
  assumes "2 ^ 53 \<le> n"
  shows "\<exists>q. as_num n = Fin q \<and> 2 ^ 53 \<le> q"
proof -
  have "(2 ^ 53 :: rat) \<le> of_nat n" using assms by (metis of_nat_le_iff of_nat_numeral of_nat_power)
  then show ?thesis using round53_ge [of "of_nat n"] by (simp add: as_num_def dround_def)
qed

section \<open>Narrowing casts after the range checks\<close>

lemma trunc_nonneg: "0 \<le> q \<Longrightarrow> trunc_rat q = \<lfloor>q\<rfloor>"
  by (auto simp: trunc_rat_def)

text \<open>A double between zero and an integral bound that fits is converted, and rounded down.\<close>

lemma cast_unsigned_defined:
  assumes "dle (Fin 0) d" and "dle d (Fin (of_int b))" and "b < 2 ^ bits"
  obtains q where "d = Fin q" and "0 \<le> q" and "cast_unsigned bits d = Some (nat \<lfloor>q\<rfloor>)"
proof (cases d)
  case (Fin q)
  then have q: "0 \<le> q" "q \<le> of_int b" using assms(1,2) by simp_all
  then have "\<lfloor>q\<rfloor> \<le> b" by (simp add: floor_le_iff)
  then have "\<lfloor>q\<rfloor> < 2 ^ bits" using assms(3) by simp
  then show thesis using that [OF Fin q(1)] q(1) Fin by (simp add: cast_unsigned_def trunc_nonneg)
qed (use assms in simp_all)

lemma cast_signed_defined:
  assumes "dle (Fin 0) d" and "dle d (Fin (of_int b))" and "b < 2 ^ (bits - 1)"
  obtains q where "d = Fin q" and "0 \<le> q" and "cast_signed bits d = Some \<lfloor>q\<rfloor>"
proof (cases d)
  case (Fin q)
  then have q: "0 \<le> q" "q \<le> of_int b" using assms(1,2) by simp_all
  then have "\<lfloor>q\<rfloor> \<le> b" by (simp add: floor_le_iff)
  then have "\<lfloor>q\<rfloor> < 2 ^ (bits - 1)" using assms(3) by linarith
  moreover have "- (2 ^ (bits - 1)) \<le> \<lfloor>q\<rfloor>"
    by (rule order.trans [of _ 0]) (use q(1) in simp_all)
  ultimately have "cast_signed bits d = Some \<lfloor>q\<rfloor>"
    unfolding cast_signed_def Fin dbl.case trunc_nonneg [OF q(1)] Let_def by (simp only: simp_thms if_True)
  then show thesis by (rule that [OF Fin q(1)])
qed (use assms in simp_all)

lemma max_exact_of_int: "max_exact_integer = Fin (of_int 9007199254740992)"
  by (simp add: max_exact_integer_def)

text \<open>The bound of a native integer, and that it fits an \<open>intptr_t\<close> and a \<open>size_t\<close>.\<close>

definition native_bound :: "nat \<Rightarrow> int" where
  "native_bound sz = (if 8 \<le> sz then 9007199254740992 else 2147483647)"

lemma max_native_of_int: "max_native_integer sz = Fin (of_int (native_bound sz))"
  by (simp add: max_native_integer_def native_bound_def max_exact_integer_def)

lemma native_bound_fits:
  assumes "4 \<le> sz"
  shows "native_bound sz < 2 ^ (8 * sz - 1)" and "native_bound sz < 2 ^ (8 * sz)"
proof -
  show s: "native_bound sz < 2 ^ (8 * sz - 1)"
  proof (cases "8 \<le> sz")
    case True
    then have "(2::int) ^ 63 \<le> 2 ^ (8 * sz - 1)" by (intro power_increasing) auto
    then show ?thesis using True by (simp add: native_bound_def)
  next
    case False
    have "(2::int) ^ 31 \<le> 2 ^ (8 * sz - 1)" using assms by (intro power_increasing) auto
    then show ?thesis using False by (simp add: native_bound_def)
  qed
  also have "(2::int) ^ (8 * sz - 1) \<le> 2 ^ (8 * sz)" by (intro power_increasing) auto
  finally show "native_bound sz < 2 ^ (8 * sz)" .
qed

end
