(* ===== verification/Mdbx_Text.thy ===== *)
theory Mdbx_Text
  imports Mdbx_Prelude
begin

text \<open>
  C strings and the fixed buffers of \<open>r_mdbx_hooks.cpp\<close>: \<open>mdbx_r_copy_text\<close>, which copies a
  panic message into a static buffer, and the structure it fills. A buffer is the list of its
  bytes; a write or a read outside its object is \<open>None\<close>, so that the theorem that the copy
  returns \<open>Some\<close> is the theorem that it stays in bounds.
\<close>

section \<open>Memory objects\<close>

abbreviation NUL :: char where "NUL \<equiv> CHR 0x00"

text \<open>What \<open>%s\<close> prints of a buffer: the bytes before its first NUL.\<close>

definition c_string :: "char list \<Rightarrow> string" where
  "c_string buf = takeWhile (\<lambda>c. c \<noteq> NUL) buf"

definition buf_write :: "char list \<Rightarrow> nat \<Rightarrow> char \<Rightarrow> char list option" where
  "buf_write buf i c = (if i < length buf then Some (buf[i := c]) else None)"

text \<open>A source string \<open>s\<close> is an object of \<open>length s + 1\<close> bytes, the last of them NUL.\<close>

definition src_read :: "string \<Rightarrow> nat \<Rightarrow> char option" where
  "src_read s i = (if i < length s then Some (s ! i) else if i = length s then Some NUL else None)"

section \<open>mdbx_r_copy_text\<close>

text \<open>The \<open>while\<close> loop; it returns the buffer and the index it stopped at.\<close>

function copy_loop :: "nat \<Rightarrow> string \<Rightarrow> nat \<Rightarrow> char list \<Rightarrow> (char list \<times> nat) option" where
  "copy_loop sz source index buf =
     (if index + 1 < sz then
        (case src_read source index of
           None \<Rightarrow> None
         | Some c \<Rightarrow>
             if c \<noteq> NUL then
               (case buf_write buf index c of
                  None \<Rightarrow> None
                | Some buf' \<Rightarrow> copy_loop sz source (index + 1) buf')
             else Some (buf, index))
      else Some (buf, index))"
  by pat_completeness auto
termination by (relation "measure (\<lambda>(sz, source, index, buf). sz - index)") auto

declare copy_loop.simps [simp del]

definition mdbx_r_copy_text :: "char list \<Rightarrow> nat \<Rightarrow> string option \<Rightarrow> char list option" where
  "mdbx_r_copy_text destination sz source =
     (if sz = 0 then Some destination
      else
        case (case source of None \<Rightarrow> Some (destination, 0) | Some s \<Rightarrow> copy_loop sz s 0 destination) of
          None \<Rightarrow> None
        | Some (buf, index) \<Rightarrow> buf_write buf index NUL)"

section \<open>The panic record\<close>

definition MDBX_R_PANIC_MESSAGE_SIZE :: nat where "MDBX_R_PANIC_MESSAGE_SIZE = 256"
definition MDBX_R_PANIC_FUNCTION_SIZE :: nat where "MDBX_R_PANIC_FUNCTION_SIZE = 128"

record panic_info =
  pi_message :: "char list"
  pi_function :: "char list"
  pi_line :: nat

text \<open>\<open>mdbx_r_panic_info panic = {}\<close>, and the static \<open>mdbx_r_last_panic\<close> at load.\<close>

definition zero_panic :: panic_info where
  "zero_panic =
     \<lparr>pi_message = replicate MDBX_R_PANIC_MESSAGE_SIZE NUL,
      pi_function = replicate MDBX_R_PANIC_FUNCTION_SIZE NUL, pi_line = 0\<rparr>"

definition panic_wf :: "panic_info \<Rightarrow> bool" where
  "panic_wf p \<longleftrightarrow> length (pi_message p) = MDBX_R_PANIC_MESSAGE_SIZE
     \<and> length (pi_function p) = MDBX_R_PANIC_FUNCTION_SIZE"

text \<open>The three statements of \<open>mdbx_r_panic\<close> that fill the record.\<close>

definition record_panic :: "string option \<Rightarrow> string option \<Rightarrow> nat \<Rightarrow> panic_info \<Rightarrow> panic_info option" where
  "record_panic msg func line p =
     (case mdbx_r_copy_text (pi_message p) MDBX_R_PANIC_MESSAGE_SIZE
             (Some (case msg of Some m \<Rightarrow> m | None \<Rightarrow> ''(unknown assertion)'')) of
        None \<Rightarrow> None
      | Some m \<Rightarrow>
          (case mdbx_r_copy_text (pi_function p) MDBX_R_PANIC_FUNCTION_SIZE
                  (Some (case func of Some f \<Rightarrow> f | None \<Rightarrow> ''(unknown function)'')) of
             None \<Rightarrow> None
           | Some f \<Rightarrow> Some \<lparr>pi_message = m, pi_function = f, pi_line = line\<rparr>))"

section \<open>Correctness\<close>

lemma c_string_no_NUL: "NUL \<notin> set (c_string s)"
  by (auto simp: c_string_def dest: set_takeWhileD)

lemma copy_loop_spec:
  assumes "sz \<le> length buf" and "index \<le> length (c_string s)" and "index < sz"
    and "take index buf = take index (c_string s)"
  shows "\<exists>buf' n. copy_loop sz s index buf = Some (buf', n)
           \<and> n = min (sz - 1) (length (c_string s))
           \<and> length buf' = length buf \<and> take n buf' = take n (c_string s)"
  using assms
proof (induction sz s index buf rule: copy_loop.induct)
  case (1 sz s index buf)
  have le: "length (c_string s) \<le> length s" by (simp add: c_string_def length_takeWhile_le)
  consider (stop) "\<not> index + 1 < sz" | (nul) "index + 1 < sz" "index = length (c_string s)"
    | (go) "index + 1 < sz" "index < length (c_string s)"
    using "1.prems" by linarith
  then show ?case
  proof cases
    case stop
    then show ?thesis using "1.prems" by (subst copy_loop.simps) auto
  next
    case nul
    have "src_read s index = Some NUL"
      using nul le nth_length_takeWhile [of "\<lambda>c. c \<noteq> NUL" s]
      by (auto simp: src_read_def c_string_def)
    then show ?thesis using nul "1.prems" by (subst copy_loop.simps) auto
  next
    case go
    have c: "s ! index = c_string s ! index" using go by (simp add: c_string_def takeWhile_nth)
    moreover have "c_string s ! index \<noteq> NUL"
      using nth_mem [OF go(2)] c_string_no_NUL [of s] by metis
    ultimately have r: "src_read s index = Some (c_string s ! index)" "c_string s ! index \<noteq> NUL"
      using go le by (auto simp: src_read_def)
    have w: "buf_write buf index (c_string s ! index) = Some (buf[index := c_string s ! index])"
      using go "1.prems" by (simp add: buf_write_def)
    have t: "take (index + 1) (buf[index := c_string s ! index]) = take (index + 1) (c_string s)"
      using go "1.prems" by (simp add: take_Suc_conv_app_nth)
    from "1.IH" [OF go(1) r w] go "1.prems" t show ?thesis
      by (subst copy_loop.simps) (simp add: r w)
  qed
qed

lemma c_string_idem: "NUL \<notin> set s \<Longrightarrow> c_string (s @ NUL # rest) = s"
  by (induction s) (auto simp: c_string_def)

lemma copy_text_spec:
  assumes "length buf = sz" and "0 < sz"
  shows "\<exists>buf'. mdbx_r_copy_text buf sz (Some s) = Some buf' \<and> length buf' = sz
           \<and> c_string buf' = take (sz - 1) (c_string s)"
proof -
  obtain b n where b: "copy_loop sz s 0 buf = Some (b, n)" "n = min (sz - 1) (length (c_string s))"
      "length b = sz" "take n b = take n (c_string s)"
    using copy_loop_spec [of sz buf 0 s] assms by auto
  then have n: "n < length b" using assms by auto
  have "b[n := NUL] = take n (c_string s) @ NUL # drop (Suc n) b"
    using n b(4) by (simp add: upd_conv_take_nth_drop)
  moreover have "NUL \<notin> set (take n (c_string s))"
    using c_string_no_NUL [of s] by (meson in_set_takeD)
  ultimately have "c_string (b[n := NUL]) = take n (c_string s)"
    using c_string_idem by metis
  moreover have "take n (c_string s) = take (sz - 1) (c_string s)"
    using b(2) by (simp add: min_def)
  ultimately show ?thesis
    using b n assms by (simp add: mdbx_r_copy_text_def buf_write_def)
qed

lemma panic_wf_zero [simp]: "panic_wf zero_panic"
  by (simp add: panic_wf_def zero_panic_def)

lemma record_panic_spec:
  assumes "panic_wf p"
  shows "\<exists>q. record_panic msg func line p = Some q \<and> panic_wf q \<and> pi_line q = line
     \<and> c_string (pi_message q) = take 255 (c_string (case msg of Some m \<Rightarrow> m | None \<Rightarrow> ''(unknown assertion)''))
     \<and> c_string (pi_function q) = take 127 (c_string (case func of Some f \<Rightarrow> f | None \<Rightarrow> ''(unknown function)''))"
proof -
  let ?m = "case msg of Some m \<Rightarrow> m | None \<Rightarrow> ''(unknown assertion)''"
  let ?f = "case func of Some f \<Rightarrow> f | None \<Rightarrow> ''(unknown function)''"
  obtain m where "mdbx_r_copy_text (pi_message p) MDBX_R_PANIC_MESSAGE_SIZE (Some ?m) = Some m"
      "length m = MDBX_R_PANIC_MESSAGE_SIZE" "c_string m = take 255 (c_string ?m)"
    using copy_text_spec [of "pi_message p" MDBX_R_PANIC_MESSAGE_SIZE ?m] assms
    by (auto simp: panic_wf_def MDBX_R_PANIC_MESSAGE_SIZE_def)
  moreover obtain f where "mdbx_r_copy_text (pi_function p) MDBX_R_PANIC_FUNCTION_SIZE (Some ?f) = Some f"
      "length f = MDBX_R_PANIC_FUNCTION_SIZE" "c_string f = take 127 (c_string ?f)"
    using copy_text_spec [of "pi_function p" MDBX_R_PANIC_FUNCTION_SIZE ?f] assms
    by (auto simp: panic_wf_def MDBX_R_PANIC_FUNCTION_SIZE_def)
  ultimately show ?thesis by (simp add: record_panic_def panic_wf_def)
qed

end
