(* ===== verification/Mdbx_State.thy ===== *)
theory Mdbx_State
  imports Mdbx_Prelude Mdbx_Codes Mdbx_Double Mdbx_Text
begin

text \<open>
  The state of the R process as the package's C++ sees it (\<open>r_mdbx.h\<close> and the file-scope
  variables of \<open>r_mdbx.cpp\<close> and \<open>r_mdbx_hooks.cpp\<close>), and the vendored library as a parameter.

  \<^item> \<open>env_handle\<close> and \<open>txn_handle\<close> objects live in two heaps indexed by address; \<open>delete\<close>
    removes the entry, and reading or writing an absent one is the error \<open>Undefined\<close>.
  \<^item> R external pointers live in a third heap: address, tag, protected field, class, attributes.
  \<^item> libmdbx is a record of functions over an abstract state \<open>'n\<close>. Each may panic, that is,
    call \<open>mdbx_r_panic\<close> (theory \<open>Mdbx_Hooks\<close>) instead of returning.
  \<^item> Native objects are numbered in the order libmdbx creates them; the package only ever compares
    a native pointer with null, so the numbers are as good as the addresses.
  \<^item> \<open>w_usable_envs\<close> and \<open>w_usable_txns\<close> record which native objects the documentation of
    \<open>mdbx.h\<close> still allows to be used: a closed environment, an ended transaction, an environment
    that panicked and everything inherited across a \<open>fork()\<close> are not usable, and a call on an
    object that is not usable is \<open>Undefined\<close>. No C++ variable corresponds to these two fields.
\<close>

section \<open>R values and external pointers\<close>

type_synonym bytes = "char list"

text \<open>An R object an entry point may be handed; external pointers are references.\<close>

datatype rsexp = R_NilValue | R_ExtPtr nat | R_Raw bytes | R_Other

datatype rattr = AString string | ALogical bool

text \<open>The address in an external pointer; \<open>AForeign\<close> is some other package's object.\<close>

datatype paddr = ANull | AEnv nat | ATxn nat | AForeign

record xptr =
  xp_addr :: paddr
  xp_tag :: string
  xp_prot :: rsexp
  xp_class :: "string list"
  xp_attrs :: "(string \<times> rattr) list"

definition env_tag :: string where "env_tag = ''mdbx_env_handle''"
definition txn_tag :: string where "txn_tag = ''mdbx_txn_handle''"

lemma tags_differ [simp]: "env_tag \<noteq> txn_tag" "txn_tag \<noteq> env_tag"
  by (simp_all add: env_tag_def txn_tag_def)

section \<open>Handles\<close>

text \<open>Where a native pointer is null or not, \<open>None\<close> is null.\<close>

record env_handle =
  eh_env :: "nat option"
  eh_poisoned :: bool
  eh_pid :: int
  eh_key :: string
  eh_path :: string
  eh_live :: "nat list"
  eh_roots :: "nat option \<times> nat option"

datatype txn_state = st_active | st_committed | st_aborted

record txn_handle =
  th_txn :: "nat option"
  th_owner :: "nat option"
  th_state :: txn_state
  th_write :: bool
  th_poisoned :: bool
  th_pid :: int
  th_dbi :: nat
  th_main_dbi :: nat
  th_main_ready :: bool
  th_named :: "(string \<times> nat) list"

text \<open>What the abandoned registry may hold.\<close>

datatype native_ptr = PEnv nat | PTxn nat | PRoot nat

section \<open>The world\<close>

text \<open>
  The two counters are of the type \<open>int\<close> of C, 32 bits read with a sign. C++ leaves an increment
  past \<open>INT_MAX\<close> undefined; it is written here as the wrap-around of the machine, and takes more than
  two thousand million handles alive at once.
\<close>

record 'n world =
  w_pid :: int
  w_next :: nat
  w_envs :: "nat \<rightharpoonup> env_handle"
  w_txns :: "nat \<rightharpoonup> txn_handle"
  w_xps :: "nat \<rightharpoonup> xptr"
  w_live_env_handles :: "32 word"
  w_live_txn_handles :: "32 word"
  w_open :: "nat list"
  w_abandoned :: "native_ptr list option"
  w_guard :: "nat list"
  w_last_panic :: panic_info
  w_lib :: 'n
  w_ids :: nat
  w_usable_envs :: "nat list"
  w_usable_txns :: "(nat \<times> nat) list"

text \<open>The process right after the package is loaded.\<close>

definition initial_world :: "int \<Rightarrow> 'n \<Rightarrow> 'n world" where
  "initial_world pid n =
     \<lparr>w_pid = pid, w_next = 0, w_envs = Map.empty, w_txns = Map.empty, w_xps = Map.empty,
      w_live_env_handles = 0, w_live_txn_handles = 0, w_open = [], w_abandoned = None,
      w_guard = [], w_last_panic = zero_panic, w_lib = n, w_ids = 0,
      w_usable_envs = [], w_usable_txns = []\<rparr>"

section \<open>What can go wrong\<close>

text \<open>The R condition \<open>check()\<close> signals.\<close>

record mdbx_condition =
  mc_message :: string
  mc_code :: int
  mc_name :: "string option"
  mc_class :: "string list"

text \<open>
  \<open>Undefined\<close> is undefined behaviour: a read of freed memory, a confused type, a call that breaks
  libmdbx's contract, a conversion out of range. \<open>Longjmp k\<close> is a jump to guard frame \<open>k\<close>. The
  others are R conditions, one constructor per message of the source.
\<close>

datatype err =
    Undefined
  | Longjmp nat
  | RfError string string nat
  | AssertFailed string string nat
  | MdbxError mdbx_condition
  | NotEnv | NotTxn | NotRaw
  | EnvForeignUse int int | EnvForeignClose int int | EnvClosed | EnvUnusable
  | TxnForeign int int | TxnInvalid | TxnUnusable | TxnAlready txn_state
  | OwnerClosed | OwnerUnusable
  | ReadOnlyTxn | CreateNeedsWrite
  | MaxDbsTooLarge | MapSizeTooLarge | MaxReadersTooLarge | LimitTooLarge | PageSizeTooLarge
  | AlreadyOpen string | AlreadyOpenAs string string
  | EnvHasTxns nat | TxnAlreadyOpen | FlagsDuringTxn
  | RolledBack
  | MissingDbi string string
  | EmptyMainWithNamed | DeleteMain
  | ScanOutOfMemory | ListOutOfMemory
  | SequencePast dbl dbl | SequenceOverflow dbl
  | BadPageSize dbl
  | UnknownFlag string
  | InitFailed
  | PanicNotSeen | PanicNotPoisoned

type_synonym ('n, 'a) mem = "(err, 'n world, 'a) sem"

section \<open>The vendored library, as a parameter\<close>

text \<open>A call returns, or panics with a message, a function name and a line.\<close>

datatype 'a nres = NRet 'a | NPanic "string option" "string option" nat

record mdbx_stat =
  ms_psize :: nat
  ms_depth :: nat
  ms_branch_pages :: nat
  ms_leaf_pages :: nat
  ms_overflow_pages :: nat
  ms_entries :: nat
  ms_mod_txnid :: nat

record mdbx_envinfo =
  mi_geo_lower :: nat
  mi_geo_upper :: nat
  mi_geo_current :: nat
  mi_geo_shrink :: nat
  mi_geo_grow :: nat
  mi_mapsize :: nat
  mi_dxb_fsize :: nat
  mi_last_pgno :: nat
  mi_recent_txnid :: nat
  mi_latter_reader_txnid :: nat
  mi_maxreaders :: nat
  mi_numreaders :: nat
  mi_dxb_pagesize :: nat
  mi_sys_pagesize :: nat

text \<open>
  The calls the package makes, in the order it makes them. \<open>L_env_create\<close> and \<open>L_txn_begin\<close>
  are told the number of the object they create if they succeed. \<open>L_alloc n\<close> says whether a C++
  allocation of \<open>n\<close> bytes inside a guarded call succeeds; \<open>L_tables\<close> yields the names
  \<open>mdbx_enumerate_tables\<close> visits and the status it ends with when no visitor stops it.
  \<open>L_commit_off_thread\<close> is \<open>mdbx_txn_commit\<close> called on a thread that did not begin the transaction.
  The sizes are those of \<open>void *\<close> and of \<open>mdbx_mode_t\<close>, which is \<open>mode_t\<close> or an \<open>unsigned short\<close>.
\<close>

record 'n libmdbx =
  L_sizeof_voidp :: nat
  L_sizeof_mode :: nat
  L_ENOMEM :: int
  L_alloc :: "nat \<Rightarrow> 'n \<Rightarrow> bool \<times> 'n"
  L_strerror :: "int \<Rightarrow> string"
  L_setup_debug :: "'n \<Rightarrow> int nres \<times> 'n"
  L_env_create :: "nat \<Rightarrow> 'n \<Rightarrow> int nres \<times> 'n"
  L_env_set_option :: "nat \<Rightarrow> MDBX_option \<Rightarrow> nat \<Rightarrow> 'n \<Rightarrow> int nres \<times> 'n"
  L_env_set_geometry :: "nat \<Rightarrow> int \<Rightarrow> 'n \<Rightarrow> int nres \<times> 'n"
  L_env_open :: "nat \<Rightarrow> string \<Rightarrow> u32 \<Rightarrow> int \<Rightarrow> 'n \<Rightarrow> int nres \<times> 'n"
  L_env_get_flags :: "nat \<Rightarrow> 'n \<Rightarrow> (int \<times> u32) nres \<times> 'n"
  L_env_set_flags :: "nat \<Rightarrow> u32 \<Rightarrow> bool \<Rightarrow> 'n \<Rightarrow> int nres \<times> 'n"
  L_env_sync_ex :: "nat \<Rightarrow> bool \<Rightarrow> bool \<Rightarrow> 'n \<Rightarrow> int nres \<times> 'n"
  L_env_close :: "nat \<Rightarrow> 'n \<Rightarrow> int nres \<times> 'n"
  L_reader_check :: "nat \<Rightarrow> 'n \<Rightarrow> (int \<times> int) nres \<times> 'n"
  L_env_get_path :: "nat \<Rightarrow> 'n \<Rightarrow> (int \<times> string option) nres \<times> 'n"
  L_heap_roots :: "nat \<Rightarrow> 'n \<Rightarrow> nat option \<times> nat option"
  L_env_stat_ex :: "nat \<Rightarrow> nat option \<Rightarrow> 'n \<Rightarrow> (int \<times> mdbx_stat) nres \<times> 'n"
  L_env_info_ex :: "nat \<Rightarrow> nat option \<Rightarrow> 'n \<Rightarrow> (int \<times> mdbx_envinfo) nres \<times> 'n"
  L_txn_begin :: "nat \<Rightarrow> u32 \<Rightarrow> nat \<Rightarrow> 'n \<Rightarrow> int nres \<times> 'n"
  L_txn_commit :: "nat \<Rightarrow> 'n \<Rightarrow> int nres \<times> 'n"
  L_commit_off_thread :: "nat \<Rightarrow> 'n \<Rightarrow> int nres \<times> 'n"
  L_txn_abort :: "nat \<Rightarrow> 'n \<Rightarrow> int nres \<times> 'n"
  L_txn_flags :: "nat \<Rightarrow> 'n \<Rightarrow> u32 nres \<times> 'n"
  L_txn_id :: "nat \<Rightarrow> 'n \<Rightarrow> nat nres \<times> 'n"
  L_dbi_open :: "nat \<Rightarrow> string option \<Rightarrow> u32 \<Rightarrow> 'n \<Rightarrow> (int \<times> nat) nres \<times> 'n"
  L_dbi_stat :: "nat \<Rightarrow> nat \<Rightarrow> 'n \<Rightarrow> (int \<times> mdbx_stat) nres \<times> 'n"
  L_dbi_sequence :: "nat \<Rightarrow> nat \<Rightarrow> nat \<Rightarrow> 'n \<Rightarrow> (int \<times> nat) nres \<times> 'n"
  L_drop :: "nat \<Rightarrow> nat \<Rightarrow> bool \<Rightarrow> 'n \<Rightarrow> int nres \<times> 'n"
  L_tables :: "nat \<Rightarrow> 'n \<Rightarrow> (bytes list \<times> int) nres \<times> 'n"
  L_get :: "nat \<Rightarrow> nat \<Rightarrow> bytes \<Rightarrow> 'n \<Rightarrow> (int \<times> bytes) nres \<times> 'n"
  L_put :: "nat \<Rightarrow> nat \<Rightarrow> bytes \<Rightarrow> bytes \<Rightarrow> u32 \<Rightarrow> 'n \<Rightarrow> int nres \<times> 'n"
  L_del :: "nat \<Rightarrow> nat \<Rightarrow> bytes \<Rightarrow> 'n \<Rightarrow> int nres \<times> 'n"
  L_cursor_open :: "nat \<Rightarrow> nat \<Rightarrow> 'n \<Rightarrow> (int \<times> nat) nres \<times> 'n"
  L_cursor_get :: "nat \<Rightarrow> bytes \<Rightarrow> MDBX_cursor_op \<Rightarrow> 'n \<Rightarrow> (int \<times> bytes \<times> bytes) nres \<times> 'n"
  L_cursor_close :: "nat \<Rightarrow> 'n \<Rightarrow> unit nres \<times> 'n"
  L_cmp :: "nat \<Rightarrow> nat \<Rightarrow> bytes \<Rightarrow> bytes \<Rightarrow> 'n \<Rightarrow> int nres \<times> 'n"
  L_limits :: "int \<Rightarrow> int \<times> int \<times> int \<times> int \<times> int"
  L_keysize_min :: int
  L_valsize_min :: int
  L_default_pagesize :: nat

section \<open>Memory operations\<close>

definition env_at :: "nat \<Rightarrow> ('n, env_handle) mem" where
  "env_at a = fetchM Undefined (\<lambda>w. w_envs w a)"

definition txn_at :: "nat \<Rightarrow> ('n, txn_handle) mem" where
  "txn_at t = fetchM Undefined (\<lambda>w. w_txns w t)"

definition xptr_at :: "nat \<Rightarrow> ('n, xptr) mem" where
  "xptr_at x = fetchM Undefined (\<lambda>w. w_xps w x)"

definition put_env :: "nat \<Rightarrow> env_handle \<Rightarrow> 'n world \<Rightarrow> 'n world" where
  "put_env a h w = w\<lparr>w_envs := (w_envs w)(a \<mapsto> h)\<rparr>"

definition put_txn :: "nat \<Rightarrow> txn_handle \<Rightarrow> 'n world \<Rightarrow> 'n world" where
  "put_txn t h w = w\<lparr>w_txns := (w_txns w)(t \<mapsto> h)\<rparr>"

definition put_xptr :: "nat \<Rightarrow> xptr \<Rightarrow> 'n world \<Rightarrow> 'n world" where
  "put_xptr x p w = w\<lparr>w_xps := (w_xps w)(x \<mapsto> p)\<rparr>"

definition set_env :: "nat \<Rightarrow> (env_handle \<Rightarrow> env_handle) \<Rightarrow> ('n, unit) mem" where
  "set_env a f = bindM (env_at a) (\<lambda>h. modifyM (put_env a (f h)))"

definition set_txn :: "nat \<Rightarrow> (txn_handle \<Rightarrow> txn_handle) \<Rightarrow> ('n, unit) mem" where
  "set_txn t f = bindM (txn_at t) (\<lambda>h. modifyM (put_txn t (f h)))"

definition set_xptr :: "nat \<Rightarrow> (xptr \<Rightarrow> xptr) \<Rightarrow> ('n, unit) mem" where
  "set_xptr x f = bindM (xptr_at x) (\<lambda>p. modifyM (put_xptr x (f p)))"

definition delete_env :: "nat \<Rightarrow> ('n, unit) mem" where
  "delete_env a = bindM (env_at a) (\<lambda>_. modifyM (\<lambda>w. w\<lparr>w_envs := (w_envs w)(a := None)\<rparr>))"

definition delete_txn :: "nat \<Rightarrow> ('n, unit) mem" where
  "delete_txn t = bindM (txn_at t) (\<lambda>_. modifyM (\<lambda>w. w\<lparr>w_txns := (w_txns w)(t := None)\<rparr>))"

text \<open>\<open>new\<close> and \<open>R_MakeExternalPtr\<close>: a fresh address.\<close>

definition new_env :: "env_handle \<Rightarrow> ('n, nat) mem" where
  "new_env h = bindM (getsM w_next) (\<lambda>a.
     thenM (modifyM (\<lambda>w. put_env a h (w\<lparr>w_next := a + 1\<rparr>))) (returnM a))"

definition new_txn :: "txn_handle \<Rightarrow> ('n, nat) mem" where
  "new_txn h = bindM (getsM w_next) (\<lambda>a.
     thenM (modifyM (\<lambda>w. put_txn a h (w\<lparr>w_next := a + 1\<rparr>))) (returnM a))"

definition new_xptr :: "xptr \<Rightarrow> ('n, nat) mem" where
  "new_xptr p = bindM (getsM w_next) (\<lambda>a.
     thenM (modifyM (\<lambda>w. put_xptr a p (w\<lparr>w_next := a + 1\<rparr>))) (returnM a))"

lemma put_simps [simp]:
  "w_envs (put_env a h w) = (w_envs w)(a \<mapsto> h)"
  "w_txns (put_env a h w) = w_txns w" "w_xps (put_env a h w) = w_xps w"
  "w_envs (put_txn t k w) = w_envs w"
  "w_txns (put_txn t k w) = (w_txns w)(t \<mapsto> k)" "w_xps (put_txn t k w) = w_xps w"
  "w_envs (put_xptr x p w) = w_envs w" "w_txns (put_xptr x p w) = w_txns w"
  "w_xps (put_xptr x p w) = (w_xps w)(x \<mapsto> p)"
  by (simp_all add: put_env_def put_txn_def put_xptr_def)

lemma put_frame [simp]:
  "w_pid (put_env a h w) = w_pid w" "w_pid (put_txn t k w) = w_pid w" "w_pid (put_xptr x p w) = w_pid w"
  "w_next (put_env a h w) = w_next w" "w_next (put_txn t k w) = w_next w" "w_next (put_xptr x p w) = w_next w"
  "w_open (put_env a h w) = w_open w" "w_open (put_txn t k w) = w_open w" "w_open (put_xptr x p w) = w_open w"
  "w_abandoned (put_env a h w) = w_abandoned w" "w_abandoned (put_txn t k w) = w_abandoned w" "w_abandoned (put_xptr x p w) = w_abandoned w"
  "w_guard (put_env a h w) = w_guard w" "w_guard (put_txn t k w) = w_guard w" "w_guard (put_xptr x p w) = w_guard w"
  "w_last_panic (put_env a h w) = w_last_panic w" "w_last_panic (put_txn t k w) = w_last_panic w" "w_last_panic (put_xptr x p w) = w_last_panic w"
  "w_lib (put_env a h w) = w_lib w" "w_lib (put_txn t k w) = w_lib w" "w_lib (put_xptr x p w) = w_lib w"
  "w_ids (put_env a h w) = w_ids w" "w_ids (put_txn t k w) = w_ids w" "w_ids (put_xptr x p w) = w_ids w"
  "w_usable_envs (put_env a h w) = w_usable_envs w" "w_usable_envs (put_txn t k w) = w_usable_envs w" "w_usable_envs (put_xptr x p w) = w_usable_envs w"
  "w_usable_txns (put_env a h w) = w_usable_txns w" "w_usable_txns (put_txn t k w) = w_usable_txns w" "w_usable_txns (put_xptr x p w) = w_usable_txns w"
  "w_live_env_handles (put_env a h w) = w_live_env_handles w" "w_live_env_handles (put_txn t k w) = w_live_env_handles w" "w_live_env_handles (put_xptr x p w) = w_live_env_handles w"
  "w_live_txn_handles (put_env a h w) = w_live_txn_handles w" "w_live_txn_handles (put_txn t k w) = w_live_txn_handles w" "w_live_txn_handles (put_xptr x p w) = w_live_txn_handles w"
  by (simp_all add: put_env_def put_txn_def put_xptr_def)

lemma wp_env_at [wp_simps]:
  "wp (env_at a) Q E w = (case w_envs w a of None \<Rightarrow> E Undefined w | Some h \<Rightarrow> Q h w)"
  by (simp add: env_at_def wp_simps)

lemma wp_txn_at [wp_simps]:
  "wp (txn_at t) Q E w = (case w_txns w t of None \<Rightarrow> E Undefined w | Some h \<Rightarrow> Q h w)"
  by (simp add: txn_at_def wp_simps)

lemma wp_xptr_at [wp_simps]:
  "wp (xptr_at x) Q E w = (case w_xps w x of None \<Rightarrow> E Undefined w | Some p \<Rightarrow> Q p w)"
  by (simp add: xptr_at_def wp_simps)

lemma wp_set_env [wp_simps]:
  "wp (set_env a f) Q E w
     = (case w_envs w a of None \<Rightarrow> E Undefined w | Some h \<Rightarrow> Q () (put_env a (f h) w))"
  by (simp add: set_env_def wp_simps split: option.splits)

lemma wp_set_txn [wp_simps]:
  "wp (set_txn t f) Q E w
     = (case w_txns w t of None \<Rightarrow> E Undefined w | Some h \<Rightarrow> Q () (put_txn t (f h) w))"
  by (simp add: set_txn_def wp_simps split: option.splits)

lemma wp_set_xptr [wp_simps]:
  "wp (set_xptr x f) Q E w
     = (case w_xps w x of None \<Rightarrow> E Undefined w | Some p \<Rightarrow> Q () (put_xptr x (f p) w))"
  by (simp add: set_xptr_def wp_simps split: option.splits)

lemma wp_delete_env [wp_simps]:
  "wp (delete_env a) Q E w
     = (case w_envs w a of None \<Rightarrow> E Undefined w | Some h \<Rightarrow> Q () (w\<lparr>w_envs := (w_envs w)(a := None)\<rparr>))"
  by (simp add: delete_env_def wp_simps split: option.splits)

lemma wp_delete_txn [wp_simps]:
  "wp (delete_txn t) Q E w
     = (case w_txns w t of None \<Rightarrow> E Undefined w | Some h \<Rightarrow> Q () (w\<lparr>w_txns := (w_txns w)(t := None)\<rparr>))"
  by (simp add: delete_txn_def wp_simps split: option.splits)

lemma wp_new_env [wp_simps]:
  "wp (new_env h) Q E w = Q (w_next w) (put_env (w_next w) h (w\<lparr>w_next := w_next w + 1\<rparr>))"
  by (simp add: new_env_def wp_simps)

lemma wp_new_txn [wp_simps]:
  "wp (new_txn h) Q E w = Q (w_next w) (put_txn (w_next w) h (w\<lparr>w_next := w_next w + 1\<rparr>))"
  by (simp add: new_txn_def wp_simps)

lemma wp_new_xptr [wp_simps]:
  "wp (new_xptr p) Q E w = Q (w_next w) (put_xptr (w_next w) p (w\<lparr>w_next := w_next w + 1\<rparr>))"
  by (simp add: new_xptr_def wp_simps)

end
