(* ===== verification/Mdbx_Hooks.thy ===== *)
theory Mdbx_Hooks
  imports Mdbx_State
begin

text \<open>
  The protected-call boundary: \<open>r_mdbx_hooks.cpp\<close>, and \<open>guard\<close> and \<open>stop_after_panic\<close> of
  \<open>r_mdbx.cpp\<close>. The chain of active guard frames is the list \<open>w_guard\<close>, innermost first; a frame
  is named by the depth at which it was pushed. \<open>setjmp\<close>/\<open>longjmp\<close> is the error \<open>Longjmp k\<close>,
  which only the call that pushed frame \<open>k\<close> catches.

  \<open>env_call\<close> and \<open>txn_call\<close> are how a guarded function calls libmdbx: the object must be usable
  (theory \<open>Mdbx_State\<close>), and a panic makes the environment it belongs to unusable for good.
\<close>

section \<open>mdbx_r_panic\<close>

definition mdbx_r_panic :: "string option \<Rightarrow> string option \<Rightarrow> nat \<Rightarrow> ('n, 'a) mem" where
  "mdbx_r_panic msg func line =
     bindM (getsM w_guard) (\<lambda>frames.
       case frames of
         k # _ \<Rightarrow>
           bindM (getsM w_last_panic) (\<lambda>p.
             case record_panic msg func line p of
               None \<Rightarrow> stopM Undefined
             | Some q \<Rightarrow> thenM (modifyM (\<lambda>w. w\<lparr>w_last_panic := q\<rparr>)) (stopM (Longjmp k)))
       | [] \<Rightarrow>
           stopM (RfError (case msg of Some m \<Rightarrow> m | None \<Rightarrow> ''(unknown assertion)'')
                          (case func of Some f \<Rightarrow> f | None \<Rightarrow> ''(unknown function)'') line))"

section \<open>Calls into libmdbx\<close>

definition kill_env :: "nat \<Rightarrow> 'n world \<Rightarrow> 'n world" where
  "kill_env e w =
     w\<lparr>w_usable_envs := removeAll e (w_usable_envs w),
       w_usable_txns := filter (\<lambda>p. snd p \<noteq> e) (w_usable_txns w)\<rparr>"

definition native :: "('n world \<Rightarrow> 'n world) \<Rightarrow> ('n \<Rightarrow> 'a nres \<times> 'n) \<Rightarrow> ('n, 'a) mem" where
  "native damage f w =
     (case f (w_lib w) of
        (NRet x, n) \<Rightarrow> (Inr x, w\<lparr>w_lib := n\<rparr>)
      | (NPanic msg func line, n) \<Rightarrow> mdbx_r_panic msg func line (damage (w\<lparr>w_lib := n\<rparr>)))"

definition env_call :: "nat option \<Rightarrow> (nat \<Rightarrow> 'n \<Rightarrow> 'a nres \<times> 'n) \<Rightarrow> ('n, 'a) mem" where
  "env_call p f =
     (case p of
        None \<Rightarrow> stopM Undefined
      | Some e \<Rightarrow> bindM (getsM w_usable_envs) (\<lambda>us.
          if e \<in> set us then native (kill_env e) (f e) else stopM Undefined))"

definition txn_call :: "nat option \<Rightarrow> (nat \<Rightarrow> 'n \<Rightarrow> 'a nres \<times> 'n) \<Rightarrow> ('n, 'a) mem" where
  "txn_call p f =
     (case p of
        None \<Rightarrow> stopM Undefined
      | Some t \<Rightarrow> bindM (getsM w_usable_txns) (\<lambda>us.
          case map_of us t of None \<Rightarrow> stopM Undefined | Some e \<Rightarrow> native (kill_env e) (f t)))"

text \<open>
  A call made on a thread of its own. The chain of guard frames is thread-local, so none is active
  there, and a panic would raise an R error off the main thread, which R does not define.
\<close>

definition off_thread :: "('n \<Rightarrow> 'a nres \<times> 'n) \<Rightarrow> ('n, 'a) mem" where
  "off_thread f w =
     (case f (w_lib w) of
        (NRet x, n) \<Rightarrow> (Inr x, w\<lparr>w_lib := n\<rparr>)
      | (NPanic msg func line, n) \<Rightarrow> (Inl Undefined, w\<lparr>w_lib := n\<rparr>))"

section \<open>mdbx_r_run_guarded\<close>

datatype 'a guard_result = GuardOk 'a | GuardPanic panic_info

definition push_frame :: "'n world \<Rightarrow> 'n world" where
  "push_frame w = w\<lparr>w_guard := length (w_guard w) # w_guard w\<rparr>"

definition set_guard :: "nat list \<Rightarrow> 'n world \<Rightarrow> 'n world" where
  "set_guard fs w = w\<lparr>w_guard := fs\<rparr>"

text \<open>\<open>if (poison != NULL) poison(data);\<close>\<close>

definition run_poison :: "('n, unit) mem option \<Rightarrow> ('n, unit) mem" where
  "run_poison poison = (case poison of None \<Rightarrow> returnM () | Some p \<Rightarrow> p)"

lemma run_poison_simps [simp]: "run_poison None = returnM ()" "run_poison (Some p) = p"
  by (simp_all add: run_poison_def)

definition mdbx_r_run_guarded ::
  "('n, 'a) mem \<Rightarrow> ('n, unit) mem option \<Rightarrow> ('n, 'a guard_result) mem" where
  "mdbx_r_run_guarded function poison w =
     (let previous = w_guard w; frame = length previous in
      case function (push_frame w) of
        (Inr x, w') \<Rightarrow> (Inr (GuardOk x), set_guard previous w')
      | (Inl (Longjmp k), w') \<Rightarrow>
          if k = frame then
            thenM (run_poison poison)
                  (bindM (getsM w_last_panic) (\<lambda>info. returnM (GuardPanic info)))
                  (set_guard previous w')
          else (Inl (Longjmp k), w')
      | (Inl e, w') \<Rightarrow> (Inl e, w'))"

definition stop_after_panic :: "panic_info \<Rightarrow> ('n, 'a) mem" where
  "stop_after_panic p =
     stopM (AssertFailed (c_string (pi_message p)) (c_string (pi_function p)) (pi_line p))"

definition guard :: "('n, 'a) mem \<Rightarrow> ('n, unit) mem option \<Rightarrow> ('n, 'a) mem" where
  "guard call poison =
     bindM (mdbx_r_run_guarded call poison) (\<lambda>result.
       case result of GuardOk x \<Rightarrow> returnM x | GuardPanic panic \<Rightarrow> stop_after_panic panic)"

section \<open>Weakest preconditions of the boundary\<close>

lemma kill_env_frame [simp]:
  "w_pid (kill_env e w) = w_pid w" "w_next (kill_env e w) = w_next w"
  "w_envs (kill_env e w) = w_envs w" "w_txns (kill_env e w) = w_txns w"
  "w_xps (kill_env e w) = w_xps w" "w_open (kill_env e w) = w_open w"
  "w_abandoned (kill_env e w) = w_abandoned w" "w_guard (kill_env e w) = w_guard w"
  "w_last_panic (kill_env e w) = w_last_panic w" "w_lib (kill_env e w) = w_lib w"
  "w_ids (kill_env e w) = w_ids w"
  "w_live_env_handles (kill_env e w) = w_live_env_handles w"
  "w_live_txn_handles (kill_env e w) = w_live_txn_handles w"
  "w_usable_envs (kill_env e w) = removeAll e (w_usable_envs w)"
  "w_usable_txns (kill_env e w) = filter (\<lambda>p. snd p \<noteq> e) (w_usable_txns w)"
  by (simp_all add: kill_env_def)

text \<open>What a panic leaves: the last-panic record overwritten, nothing else.\<close>

definition panicked :: "'n world \<Rightarrow> 'n world \<Rightarrow> bool" where
  "panicked w w' \<longleftrightarrow> (\<exists>q. panic_wf q \<and> w' = w\<lparr>w_last_panic := q\<rparr>)"

lemma wp_panic:
  assumes "panic_wf (w_last_panic w)" and "w_guard w = k # fs"
    and "\<And>w'. panicked w w' \<Longrightarrow> E (Longjmp k) w'"
  shows "wp (mdbx_r_panic msg func line) Q E w"
proof -
  obtain q where "record_panic msg func line (w_last_panic w) = Some q" "panic_wf q"
    using record_panic_spec [OF assms(1)] by blast
  then show ?thesis
    using assms by (auto simp: mdbx_r_panic_def wp_simps panicked_def)
qed

lemma wp_native:
  assumes "panic_wf (w_last_panic w)" and "w_guard w = k # fs"
    and "\<And>v. panic_wf (w_last_panic v) = panic_wf (w_last_panic (damage v))"
    and "\<And>v. w_guard (damage v) = w_guard v"
    and "\<And>x n. f (w_lib w) = (NRet x, n) \<Longrightarrow> Q x (w\<lparr>w_lib := n\<rparr>)"
    and "\<And>n w'. panicked (damage (w\<lparr>w_lib := n\<rparr>)) w' \<Longrightarrow> E (Longjmp k) w'"
  shows "wp (native damage f) Q E w"
proof (cases "f (w_lib w)")
  case (Pair r n)
  show ?thesis
  proof (cases r)
    case (NRet x)
    then show ?thesis using Pair assms(5) by (simp add: wp_def native_def)
  next
    case (NPanic msg func line)
    have "wp (mdbx_r_panic msg func line) Q E (damage (w\<lparr>w_lib := n\<rparr>))"
    proof (rule wp_panic)
      show "panic_wf (w_last_panic (damage (w\<lparr>w_lib := n\<rparr>)))"
        using assms(1) assms(3) [of "w\<lparr>w_lib := n\<rparr>"] by simp
      show "w_guard (damage (w\<lparr>w_lib := n\<rparr>)) = k # fs" using assms(2,4) by simp
    qed (rule assms(6))
    then show ?thesis using Pair NPanic by (simp add: wp_def native_def)
  qed
qed

lemma wp_env_call:
  assumes "e \<in> set (w_usable_envs w)" and "panic_wf (w_last_panic w)" and "w_guard w = k # fs"
    and "\<And>x n. f e (w_lib w) = (NRet x, n) \<Longrightarrow> Q x (w\<lparr>w_lib := n\<rparr>)"
    and "\<And>n w'. panicked (kill_env e (w\<lparr>w_lib := n\<rparr>)) w' \<Longrightarrow> E (Longjmp k) w'"
  shows "wp (env_call (Some e) f) Q E w"
  using assms by (auto simp: env_call_def wp_simps intro!: wp_native)

lemma wp_txn_call:
  assumes "map_of (w_usable_txns w) t = Some e" and "panic_wf (w_last_panic w)" and "w_guard w = k # fs"
    and "\<And>x n. f t (w_lib w) = (NRet x, n) \<Longrightarrow> Q x (w\<lparr>w_lib := n\<rparr>)"
    and "\<And>n w'. panicked (kill_env e (w\<lparr>w_lib := n\<rparr>)) w' \<Longrightarrow> E (Longjmp k) w'"
  shows "wp (txn_call (Some t) f) Q E w"
  using assms by (auto simp: txn_call_def wp_simps intro!: wp_native)

text \<open>
  A guarded call: the body runs under a new frame; a normal return and a jump to that frame both
  restore the chain, and the jump runs the poison callback before the result is returned.
\<close>

lemma wp_run_guarded:
  assumes "wp function
      (\<lambda>x w'. Q (GuardOk x) (set_guard (w_guard w) w'))
      (\<lambda>e w'. if e = Longjmp (length (w_guard w))
              then wp (run_poison poison)
                     (\<lambda>_ w''. Q (GuardPanic (w_last_panic w'')) w'') E (set_guard (w_guard w) w')
              else E e w') (push_frame w)"
  shows "wp (mdbx_r_run_guarded function poison) Q E w"
proof (cases "function (push_frame w)")
  case (Pair r w')
  show ?thesis
  proof (cases r)
    case (Inr x)
    then show ?thesis using assms Pair by (simp add: wp_def mdbx_r_run_guarded_def)
  next
    case (Inl e)
    show ?thesis
    proof (cases "e = Longjmp (length (w_guard w))")
      case True
      have "wp (thenM (run_poison poison)
                  (bindM (getsM w_last_panic) (\<lambda>info. returnM (GuardPanic info)))) Q E
              (set_guard (w_guard w) w')"
        using assms Pair Inl True unfolding wp_then wp_bind wp_gets wp_return
        by (simp add: wp_def [where m = "function"])
      then show ?thesis using Pair Inl True by (simp add: wp_def mdbx_r_run_guarded_def)
    next
      case False
      then show ?thesis using assms Pair Inl
        by (cases e) (simp_all add: wp_def mdbx_r_run_guarded_def)
    qed
  qed
qed

lemma wp_guard_result:
  "wp (case r of GuardOk x \<Rightarrow> f x | GuardPanic p \<Rightarrow> g p) Q E w
     = (case r of GuardOk x \<Rightarrow> wp (f x) Q E w | GuardPanic p \<Rightarrow> wp (g p) Q E w)"
  by (cases r) simp_all

lemma wp_guard:
  assumes "wp call
      (\<lambda>x w'. Q x (set_guard (w_guard w) w'))
      (\<lambda>e w'. if e = Longjmp (length (w_guard w))
              then wp (run_poison poison)
                     (\<lambda>_ w''. \<forall>m f l. E (AssertFailed m f l) w'') E (set_guard (w_guard w) w')
              else E e w') (push_frame w)"
  shows "wp (guard call poison) Q E w"
  unfolding guard_def wp_bind
  by (rule wp_run_guarded)
     (rule wp_mono [OF assms]; auto simp: wp_simps stop_after_panic_def split: if_splits elim: wp_mono)

text \<open>
  The native calls of the package run with an empty chain and leave their body in no other way than
  a jump to the one frame they push: \<open>R\<close> is what holds where the jump lands.
\<close>

lemma wp_run_guarded_calm:
  assumes "w_guard w = []"
    and "wp function (\<lambda>x v. Q (GuardOk x) (set_guard [] v)) (\<lambda>e v. e = Longjmp 0 \<and> R v) (push_frame w)"
    and "\<And>v. R v \<Longrightarrow> wp (run_poison poison) (\<lambda>_ u. Q (GuardPanic (w_last_panic u)) u) E (set_guard [] v)"
  shows "wp (mdbx_r_run_guarded function poison) Q E w"
  by (rule wp_run_guarded, rule wp_mono [OF assms(2)]) (use assms(1,3) in auto)

lemma wp_guard_calm:
  assumes "w_guard w = []"
    and "wp call (\<lambda>x v. Q x (set_guard [] v)) (\<lambda>e v. e = Longjmp 0 \<and> R v) (push_frame w)"
    and "\<And>v. R v \<Longrightarrow> wp (run_poison poison) (\<lambda>_ u. \<forall>m f l. E (AssertFailed m f l) u) E (set_guard [] v)"
  shows "wp (guard call poison) Q E w"
  by (rule wp_guard, rule wp_mono [OF assms(2)]) (use assms(1,3) in auto)

end
