(* ===== verification/Mdbx_Errors.thy ===== *)
theory Mdbx_Errors
  imports Mdbx_State
begin

text \<open>
  Error translation: \<open>error_table\<close>, \<open>error_name\<close>, \<open>subclass_of\<close> and \<open>check\<close> of
  \<open>r_mdbx.cpp\<close>, which turn a libmdbx status into a structured R condition.
\<close>

section \<open>The table\<close>

record error_entry =
  ee_name :: string
  ee_code :: int

definition error_table :: "error_entry list" where
  "error_table =
    [\<lparr>ee_name = ''MDBX_KEYEXIST'', ee_code = MDBX_KEYEXIST\<rparr>,
     \<lparr>ee_name = ''MDBX_NOTFOUND'', ee_code = MDBX_NOTFOUND\<rparr>,
     \<lparr>ee_name = ''MDBX_CORRUPTED'', ee_code = MDBX_CORRUPTED\<rparr>,
     \<lparr>ee_name = ''MDBX_PANIC'', ee_code = MDBX_PANIC\<rparr>,
     \<lparr>ee_name = ''MDBX_VERSION_MISMATCH'', ee_code = MDBX_VERSION_MISMATCH\<rparr>,
     \<lparr>ee_name = ''MDBX_INVALID'', ee_code = MDBX_INVALID\<rparr>,
     \<lparr>ee_name = ''MDBX_MAP_FULL'', ee_code = MDBX_MAP_FULL\<rparr>,
     \<lparr>ee_name = ''MDBX_DBS_FULL'', ee_code = MDBX_DBS_FULL\<rparr>,
     \<lparr>ee_name = ''MDBX_READERS_FULL'', ee_code = MDBX_READERS_FULL\<rparr>,
     \<lparr>ee_name = ''MDBX_TXN_FULL'', ee_code = MDBX_TXN_FULL\<rparr>,
     \<lparr>ee_name = ''MDBX_PAGE_FULL'', ee_code = MDBX_PAGE_FULL\<rparr>,
     \<lparr>ee_name = ''MDBX_UNABLE_EXTEND_MAPSIZE'', ee_code = MDBX_UNABLE_EXTEND_MAPSIZE\<rparr>,
     \<lparr>ee_name = ''MDBX_INCOMPATIBLE'', ee_code = MDBX_INCOMPATIBLE\<rparr>,
     \<lparr>ee_name = ''MDBX_BAD_RSLOT'', ee_code = MDBX_BAD_RSLOT\<rparr>,
     \<lparr>ee_name = ''MDBX_BAD_TXN'', ee_code = MDBX_BAD_TXN\<rparr>,
     \<lparr>ee_name = ''MDBX_BAD_VALSIZE'', ee_code = MDBX_BAD_VALSIZE\<rparr>,
     \<lparr>ee_name = ''MDBX_BAD_DBI'', ee_code = MDBX_BAD_DBI\<rparr>,
     \<lparr>ee_name = ''MDBX_PROBLEM'', ee_code = MDBX_PROBLEM\<rparr>,
     \<lparr>ee_name = ''MDBX_BUSY'', ee_code = MDBX_BUSY\<rparr>,
     \<lparr>ee_name = ''MDBX_EBADSIGN'', ee_code = MDBX_EBADSIGN\<rparr>,
     \<lparr>ee_name = ''MDBX_WANNA_RECOVERY'', ee_code = MDBX_WANNA_RECOVERY\<rparr>,
     \<lparr>ee_name = ''MDBX_EKEYMISMATCH'', ee_code = MDBX_EKEYMISMATCH\<rparr>,
     \<lparr>ee_name = ''MDBX_TOO_LARGE'', ee_code = MDBX_TOO_LARGE\<rparr>,
     \<lparr>ee_name = ''MDBX_THREAD_MISMATCH'', ee_code = MDBX_THREAD_MISMATCH\<rparr>,
     \<lparr>ee_name = ''MDBX_TXN_OVERLAPPING'', ee_code = MDBX_TXN_OVERLAPPING\<rparr>,
     \<lparr>ee_name = ''MDBX_DANGLING_DBI'', ee_code = MDBX_DANGLING_DBI\<rparr>]"

definition error_name :: "int \<Rightarrow> string option" where
  "error_name rc = map_option ee_name (find (\<lambda>entry. ee_code entry = rc) error_table)"

section \<open>The condition\<close>

text \<open>\<open>std::tolower\<close> in the C locale.\<close>

definition tolower :: "char \<Rightarrow> char" where
  "tolower c =
     (let n = of_char c :: nat in if 65 \<le> n \<and> n \<le> 90 then char_of (n + 32) else c)"

definition subclass_of :: "string \<Rightarrow> string" where
  "subclass_of name = map tolower name"

text \<open>\<open>%d\<close>.\<close>

fun show_nat :: "nat \<Rightarrow> string" where
  "show_nat n =
     (if n < 10 then [char_of (48 + n)] else show_nat (n div 10) @ [char_of (48 + n mod 10)])"

declare show_nat.simps [simp del]

definition show_int :: "int \<Rightarrow> string" where
  "show_int i = (if i < 0 then ''-'' @ show_nat (nat (- i)) else show_nat (nat i))"

text \<open>\<open>snprintf\<close> into a buffer of \<open>cap\<close> bytes keeps at most \<open>cap - 1\<close> of them.\<close>

definition snprintf :: "nat \<Rightarrow> string \<Rightarrow> string" where
  "snprintf cap s = take (cap - 1) s"

definition condition_of :: "'n libmdbx \<Rightarrow> int \<Rightarrow> mdbx_condition" where
  "condition_of L rc =
     (let name = error_name rc in
      \<lparr>mc_message = snprintf 512 (L_strerror L rc @ '' (mdbx error '' @ show_int rc @ '')''),
       mc_code = rc,
       mc_name = name,
       mc_class = (case name of Some n \<Rightarrow> [subclass_of n] | None \<Rightarrow> [])
                    @ [''mdbx_error'', ''error'', ''condition'']\<rparr>)"

definition check :: "'n libmdbx \<Rightarrow> int \<Rightarrow> ('n, unit) mem" where
  "check L rc = (if rc = MDBX_SUCCESS then returnM () else stopM (MdbxError (condition_of L rc)))"

lemma wp_check [wp_simps]:
  "wp (check L rc) Q E w
     = (if rc = MDBX_SUCCESS then Q () w else E (MdbxError (condition_of L rc)) w)"
  by (simp add: check_def wp_simps)

text \<open>\<open>mdbx_test_error_codes_\<close>: the table as a named vector; and \<open>mdbx_test_check_\<close>.\<close>

definition mdbx_test_error_codes :: "(string \<times> int) list" where
  "mdbx_test_error_codes = map (\<lambda>entry. (ee_name entry, ee_code entry)) error_table"

definition mdbx_test_check :: "'n libmdbx \<Rightarrow> int \<Rightarrow> ('n, unit) mem" where
  "mdbx_test_check L rc = check L rc"

section \<open>The table is a bijection\<close>

lemma error_codes_distinct: "distinct (map ee_code error_table)"
  by (simp add: error_table_def code_defs)

lemma error_names_distinct: "distinct (map ee_name error_table)"
  by (simp add: error_table_def)

interpretation by_code: keyed_table error_table ee_code
  by unfold_locales (rule error_codes_distinct)

interpretation by_name: keyed_table error_table ee_name
  by unfold_locales (rule error_names_distinct)

lemma error_name_Some: "error_name rc = Some n \<longleftrightarrow> (\<exists>e \<in> set error_table. ee_code e = rc \<and> ee_name e = n)"
  by (auto simp: error_name_def by_code.find_iff)

lemma error_name_inj: "error_name r = Some n \<Longrightarrow> error_name s = Some n \<Longrightarrow> r = s"
  unfolding error_name_Some by (metis by_name.find_iff option.inject)

lemma success_not_named: "error_name MDBX_SUCCESS = None" "error_name MDBX_RESULT_TRUE = None"
  by (simp_all add: error_name_def error_table_def code_defs)

text \<open>The subclasses differ too, so a handler for one status never sees another.\<close>

lemma subclasses_distinct: "distinct (map (\<lambda>e. subclass_of (ee_name e)) error_table)"
  by (simp add: error_table_def subclass_of_def tolower_def)

end
