(* ===== verification/Mdbx_Handles.thy ===== *)
theory Mdbx_Handles
  imports Mdbx_Hooks Mdbx_Errors
begin

text \<open>
  Handles and registries of \<open>r_mdbx.cpp\<close>: recognising external pointers (\<open>is_env_sexp\<close>,
  \<open>env_from_sexp\<close> and their transaction twins), the registry of open environments, the
  registry of abandoned native objects, the recorded heap roots, and the bookkeeping that ends a
  transaction (\<open>unregister_txn\<close>, \<open>mark_finished\<close>, \<open>poison_txn\<close>).
\<close>

section \<open>External pointers\<close>

definition current_pid :: "('n, int) mem" where
  "current_pid = getsM w_pid"

definition has_tag :: "string \<Rightarrow> string \<Rightarrow> rsexp \<Rightarrow> ('n, bool) mem" where
  "has_tag cls tag x =
     (case x of
        R_ExtPtr i \<Rightarrow> bindM (xptr_at i) (\<lambda>p. returnM (cls \<in> set (xp_class p) \<and> xp_tag p = tag))
      | _ \<Rightarrow> returnM False)"

definition is_env_sexp :: "rsexp \<Rightarrow> ('n, bool) mem" where
  "is_env_sexp x = has_tag ''mdbx_env'' env_tag x"

definition is_txn_sexp :: "rsexp \<Rightarrow> ('n, bool) mem" where
  "is_txn_sexp x = has_tag ''mdbx_txn'' txn_tag x"

text \<open>
  \<open>static_cast<env_handle *>(R_ExternalPtrAddr(x))\<close>. The source dereferences every non-null
  result, so a pointer to something else is a confused type.
\<close>

definition env_addr :: "rsexp \<Rightarrow> ('n, nat option) mem" where
  "env_addr x =
     (case x of
        R_ExtPtr i \<Rightarrow> bindM (xptr_at i) (\<lambda>p.
          case xp_addr p of ANull \<Rightarrow> returnM None | AEnv a \<Rightarrow> returnM (Some a)
          | ATxn t \<Rightarrow> stopM Undefined | AForeign \<Rightarrow> stopM Undefined)
      | _ \<Rightarrow> stopM Undefined)"

definition txn_addr :: "rsexp \<Rightarrow> ('n, nat option) mem" where
  "txn_addr x =
     (case x of
        R_ExtPtr i \<Rightarrow> bindM (xptr_at i) (\<lambda>p.
          case xp_addr p of ANull \<Rightarrow> returnM None | ATxn t \<Rightarrow> returnM (Some t)
          | AEnv a \<Rightarrow> stopM Undefined | AForeign \<Rightarrow> stopM Undefined)
      | _ \<Rightarrow> stopM Undefined)"

definition env_from_sexp :: "rsexp \<Rightarrow> ('n, nat) mem" where
  "env_from_sexp x =
     bindM (is_env_sexp x) (\<lambda>ok.
     if \<not> ok then stopM NotEnv else
     bindM (env_addr x) (\<lambda>handle.
     bindM current_pid (\<lambda>pid.
     case handle of
       None \<Rightarrow> stopM EnvClosed
     | Some a \<Rightarrow> bindM (env_at a) (\<lambda>h.
         if eh_pid h \<noteq> pid then stopM (EnvForeignUse (eh_pid h) pid)
         else if eh_env h = None then stopM EnvClosed
         else if eh_poisoned h then stopM EnvUnusable
         else returnM a))))"

definition txn_from_sexp :: "rsexp \<Rightarrow> ('n, nat) mem" where
  "txn_from_sexp x =
     bindM (is_txn_sexp x) (\<lambda>ok.
     if \<not> ok then stopM NotTxn else
     bindM (txn_addr x) (\<lambda>handle.
     bindM current_pid (\<lambda>pid.
     case handle of
       None \<Rightarrow> stopM TxnInvalid
     | Some t \<Rightarrow> bindM (txn_at t) (\<lambda>h.
         if th_pid h \<noteq> pid then stopM (TxnForeign (th_pid h) pid)
         else if th_poisoned h then stopM TxnUnusable
         else if th_txn h = None
           then stopM (TxnAlready (if th_state h = st_committed then st_committed else st_aborted))
         else case th_owner h of
           None \<Rightarrow> stopM OwnerClosed
         | Some a \<Rightarrow> bindM (env_at a) (\<lambda>o_h.
             if eh_env o_h = None then stopM OwnerClosed
             else if eh_poisoned o_h then stopM OwnerUnusable
             else returnM t)))))"

section \<open>A registry, as an interface\<close>

text \<open>
  Both registries of handles (\<open>open_envs\<close>, and \<open>live_txns\<close> of each environment) are vectors
  used as sets: \<open>push_back\<close> adds an entry that is not there, erase-remove takes it out. What the
  rest of the code relies on is stated once.
\<close>

locale handle_registry =
  fixes add :: "'a \<Rightarrow> 'r \<Rightarrow> 'r" and remove :: "'a \<Rightarrow> 'r \<Rightarrow> 'r" and entries :: "'r \<Rightarrow> 'a list"
  assumes add_entries: "entries (add x r) = entries r @ [x]"
    and remove_entries: "entries (remove x r) = removeAll x (entries r)"
begin

lemma add_set: "set (entries (add x r)) = insert x (set (entries r))"
  by (simp add: add_entries)

lemma remove_set: "set (entries (remove x r)) = set (entries r) - {x}"
  by (simp add: remove_entries)

lemma add_distinct: "distinct (entries r) \<Longrightarrow> x \<notin> set (entries r) \<Longrightarrow> distinct (entries (add x r))"
  by (simp add: add_entries)

lemma remove_distinct: "distinct (entries r) \<Longrightarrow> distinct (entries (remove x r))"
  by (simp add: remove_entries distinct_removeAll)

lemma add_remove: "x \<notin> set (entries r) \<Longrightarrow> entries (remove x (add x r)) = entries r"
  by (simp add: add_entries remove_entries)

lemma remove_idem: "entries (remove x (remove x r)) = entries (remove x r)"
  by (simp add: remove_entries)

lemma remove_only: "distinct (entries r) \<Longrightarrow> length (entries r) \<le> 1 \<Longrightarrow> x \<in> set (entries r)
    \<Longrightarrow> entries (remove x r) = []"
  by (simp add: remove_entries removeAll_distinct_length)

end

definition open_add :: "nat \<Rightarrow> 'n world \<Rightarrow> 'n world" where
  "open_add a w = w\<lparr>w_open := w_open w @ [a]\<rparr>"

definition open_remove :: "nat \<Rightarrow> 'n world \<Rightarrow> 'n world" where
  "open_remove a w = w\<lparr>w_open := removeAll a (w_open w)\<rparr>"

interpretation open_reg: handle_registry open_add open_remove w_open
  by unfold_locales (simp_all add: open_add_def open_remove_def)

definition live_add :: "nat \<Rightarrow> env_handle \<Rightarrow> env_handle" where
  "live_add t h = h\<lparr>eh_live := eh_live h @ [t]\<rparr>"

definition live_remove :: "nat \<Rightarrow> env_handle \<Rightarrow> env_handle" where
  "live_remove t h = h\<lparr>eh_live := removeAll t (eh_live h)\<rparr>"

interpretation live_reg: handle_registry live_add live_remove eh_live
  by unfold_locales (simp_all add: live_add_def live_remove_def)

section \<open>The registries\<close>

definition register_env :: "nat \<Rightarrow> ('n, unit) mem" where
  "register_env a = modifyM (open_add a)"

definition unregister_env :: "nat \<Rightarrow> ('n, unit) mem" where
  "unregister_env a = modifyM (open_remove a)"

primrec find_open_loop :: "string \<Rightarrow> nat list \<Rightarrow> ('n, nat option) mem" where
  "find_open_loop key [] = returnM None"
| "find_open_loop key (a # rest) =
     bindM (env_at a) (\<lambda>h. bindM current_pid (\<lambda>pid.
       if eh_key h = key \<and> eh_pid h = pid then returnM (Some a) else find_open_loop key rest))"

definition find_open_env :: "string \<Rightarrow> ('n, nat option) mem" where
  "find_open_env key = bindM (getsM w_open) (find_open_loop key)"

definition abandon :: "native_ptr option \<Rightarrow> ('n, unit) mem" where
  "abandon p =
     (case p of
        None \<Rightarrow> returnM ()
      | Some x \<Rightarrow> modifyM (\<lambda>w.
          w\<lparr>w_abandoned := Some ((case w_abandoned w of None \<Rightarrow> [] | Some xs \<Rightarrow> xs) @ [x])\<rparr>))"

definition abandon_env :: "nat \<Rightarrow> ('n, unit) mem" where
  "abandon_env a =
     bindM (env_at a) (\<lambda>h.
     thenM (abandon (map_option PEnv (eh_env h)))
    (thenM (abandon (map_option PRoot (fst (eh_roots h))))
           (abandon (map_option PRoot (snd (eh_roots h))))))"

text \<open>Reading the list starts of a native environment; it must be usable.\<close>

definition heap_roots_call :: "'n libmdbx \<Rightarrow> nat option \<Rightarrow> ('n, nat option \<times> nat option) mem" where
  "heap_roots_call L p =
     (case p of
        None \<Rightarrow> stopM Undefined
      | Some e \<Rightarrow> bindM (getsM w_usable_envs) (\<lambda>us.
          if e \<in> set us then getsM (\<lambda>w. L_heap_roots L e (w_lib w)) else stopM Undefined))"

definition record_heap_roots :: "'n libmdbx \<Rightarrow> nat \<Rightarrow> ('n, unit) mem" where
  "record_heap_roots L a =
     bindM (env_at a) (\<lambda>h. bindM current_pid (\<lambda>pid.
       if eh_env h \<noteq> None \<and> \<not> eh_poisoned h \<and> eh_pid h = pid
       then bindM (heap_roots_call L (eh_env h)) (\<lambda>roots. set_env a (\<lambda>h. h\<lparr>eh_roots := roots\<rparr>))
       else returnM ()))"

section \<open>Ending a transaction\<close>

definition unregister_txn :: "nat \<Rightarrow> ('n, unit) mem" where
  "unregister_txn t =
     bindM (txn_at t) (\<lambda>h.
       case th_owner h of
         None \<Rightarrow> returnM ()
       | Some a \<Rightarrow> set_env a (live_remove t))"

definition mark_finished :: "'n libmdbx \<Rightarrow> nat \<Rightarrow> txn_state \<Rightarrow> ('n, unit) mem" where
  "mark_finished L t state =
     bindM (txn_at t) (\<lambda>h.
     thenM (case th_owner h of
              Some a \<Rightarrow> whenM (th_write h) (record_heap_roots L a)
            | None \<Rightarrow> returnM ())
    (thenM (set_txn t (\<lambda>h. h\<lparr>th_txn := None, th_state := state\<rparr>))
    (thenM (unregister_txn t)
           (set_txn t (\<lambda>h. h\<lparr>th_owner := None\<rparr>)))))"

text \<open>Poison callbacks: \<open>poison_txn\<close> and the ones that mark an environment.\<close>

definition poison_txn :: "nat \<Rightarrow> ('n, unit) mem" where
  "poison_txn t =
     thenM (set_txn t (\<lambda>h. h\<lparr>th_poisoned := True\<rparr>))
    (bindM (txn_at t) (\<lambda>h.
       case th_owner h of
         None \<Rightarrow> returnM ()
       | Some a \<Rightarrow> set_env a (\<lambda>e. e\<lparr>eh_poisoned := True\<rparr>)))"

definition poison_env :: "nat \<Rightarrow> ('n, unit) mem" where
  "poison_env a = set_env a (\<lambda>h. h\<lparr>eh_poisoned := True\<rparr>)"

text \<open>
  The callback each guarded call installs. It reads the handle out of the context of that call; the
  model is given the handle.
\<close>

abbreviation (input) poison_reader_check :: "nat \<Rightarrow> ('n, unit) mem" where
  "poison_reader_check a \<equiv> poison_env a"

abbreviation (input) poison_open :: "nat \<Rightarrow> ('n, unit) mem" where
  "poison_open a \<equiv> poison_env a"

abbreviation (input) poison_close :: "nat \<Rightarrow> ('n, unit) mem" where
  "poison_close a \<equiv> poison_env a"

abbreviation (input) poison_path :: "nat \<Rightarrow> ('n, unit) mem" where
  "poison_path a \<equiv> poison_env a"

abbreviation (input) poison_begin :: "nat \<Rightarrow> ('n, unit) mem" where
  "poison_begin a \<equiv> poison_env a"

abbreviation (input) poison_stat :: "nat \<Rightarrow> ('n, unit) mem" where
  "poison_stat a \<equiv> poison_env a"

abbreviation (input) poison_info :: "nat \<Rightarrow> ('n, unit) mem" where
  "poison_info a \<equiv> poison_env a"

abbreviation (input) poison_sync :: "nat \<Rightarrow> ('n, unit) mem" where
  "poison_sync a \<equiv> poison_env a"

abbreviation (input) poison_flags :: "nat \<Rightarrow> ('n, unit) mem" where
  "poison_flags a \<equiv> poison_env a"

abbreviation (input) poison_finish :: "nat \<Rightarrow> ('n, unit) mem" where
  "poison_finish t \<equiv> poison_txn t"

abbreviation (input) poison_dbi :: "nat \<Rightarrow> ('n, unit) mem" where
  "poison_dbi t \<equiv> poison_txn t"

abbreviation (input) poison_get :: "nat \<Rightarrow> ('n, unit) mem" where
  "poison_get t \<equiv> poison_txn t"

abbreviation (input) poison_put :: "nat \<Rightarrow> ('n, unit) mem" where
  "poison_put t \<equiv> poison_txn t"

abbreviation (input) poison_del :: "nat \<Rightarrow> ('n, unit) mem" where
  "poison_del t \<equiv> poison_txn t"

abbreviation (input) poison_scan :: "nat \<Rightarrow> ('n, unit) mem" where
  "poison_scan t \<equiv> poison_txn t"

abbreviation (input) poison_dbi_stat :: "nat \<Rightarrow> ('n, unit) mem" where
  "poison_dbi_stat t \<equiv> poison_txn t"

abbreviation (input) poison_drop :: "nat \<Rightarrow> ('n, unit) mem" where
  "poison_drop t \<equiv> poison_txn t"

abbreviation (input) poison_sequence :: "nat \<Rightarrow> ('n, unit) mem" where
  "poison_sequence t \<equiv> poison_txn t"

abbreviation (input) poison_count :: "nat \<Rightarrow> ('n, unit) mem" where
  "poison_count t \<equiv> poison_txn t"

abbreviation (input) poison_list :: "nat \<Rightarrow> ('n, unit) mem" where
  "poison_list t \<equiv> poison_txn t"

section \<open>Weakest preconditions\<close>

lemma wp_current_pid [wp_simps]: "wp current_pid Q E w = Q (w_pid w) w"
  by (simp add: current_pid_def wp_simps)

lemma wp_register_env [wp_simps]:
  "wp (register_env a) Q E w = Q () (open_add a w)"
  by (simp add: register_env_def wp_simps)

lemma wp_unregister_env [wp_simps]:
  "wp (unregister_env a) Q E w = Q () (open_remove a w)"
  by (simp add: unregister_env_def wp_simps)

text \<open>Abandoning only grows the abandoned list.\<close>

definition abandoned_more :: "'n world \<Rightarrow> 'n world \<Rightarrow> bool" where
  "abandoned_more w w' \<longleftrightarrow> (\<exists>xs. w' = w\<lparr>w_abandoned := xs\<rparr>)"

lemma abandoned_more_refl [simp]: "abandoned_more w w"
  unfolding abandoned_more_def by (rule exI [of _ "w_abandoned w"]) simp

lemma abandoned_more_trans: "abandoned_more u v \<Longrightarrow> abandoned_more v w \<Longrightarrow> abandoned_more u w"
  by (auto simp: abandoned_more_def)

lemma wp_abandon:
  assumes "\<And>w'. abandoned_more w w' \<Longrightarrow> Q () w'"
  shows "wp (abandon p) Q E w"
proof (cases p)
  case None
  then show ?thesis using assms [OF abandoned_more_refl] by (simp add: abandon_def wp_simps)
next
  case (Some x)
  then show ?thesis by (auto simp: abandon_def wp_simps abandoned_more_def intro!: assms)
qed

lemma wp_abandon_env:
  assumes "w_envs w a = Some h" and "\<And>w'. abandoned_more w w' \<Longrightarrow> Q () w'"
  shows "wp (abandon_env a) Q E w"
proof -
  have "abandoned_more w u \<Longrightarrow> abandoned_more u v \<Longrightarrow> abandoned_more v x \<Longrightarrow> Q () x" for u v x
    by (rule assms(2)) (blast intro: abandoned_more_trans)
  then show ?thesis using assms(1) by (auto simp: abandon_env_def wp_simps intro!: wp_abandon)
qed

end
