(* ===== verification/Mdbx_Flags.thy ===== *)
theory Mdbx_Flags
  imports Mdbx_State
begin

text \<open>
  The flag vocabulary of \<open>r_flags.cpp\<close>: the two tables, names to bits (\<open>bits_from\<close>), bits to
  names (\<open>names_from\<close>) and the listing \<open>mdbx_flags_\<close>. The three environment operations of
  that file are in theory \<open>Mdbx_EnvOps\<close>.
\<close>

unbundle bit_operations_syntax

section \<open>The tables\<close>

record flag_entry =
  fe_name :: string
  fe_bit :: u32
  fe_settable :: bool
  fe_runtime :: bool

definition env_flags :: "flag_entry list" where
  "env_flags =
    [\<lparr>fe_name = ''UTTERLY_NOSYNC'', fe_bit = MDBX_UTTERLY_NOSYNC, fe_settable = True, fe_runtime = True\<rparr>,
     \<lparr>fe_name = ''SAFE_NOSYNC'', fe_bit = MDBX_SAFE_NOSYNC, fe_settable = True, fe_runtime = True\<rparr>,
     \<lparr>fe_name = ''NOMETASYNC'', fe_bit = MDBX_NOMETASYNC, fe_settable = True, fe_runtime = True\<rparr>,
     \<lparr>fe_name = ''WRITEMAP'', fe_bit = MDBX_WRITEMAP, fe_settable = True, fe_runtime = False\<rparr>,
     \<lparr>fe_name = ''LIFORECLAIM'', fe_bit = MDBX_LIFORECLAIM, fe_settable = True, fe_runtime = True\<rparr>,
     \<lparr>fe_name = ''NORDAHEAD'', fe_bit = MDBX_NORDAHEAD, fe_settable = True, fe_runtime = False\<rparr>,
     \<lparr>fe_name = ''NOMEMINIT'', fe_bit = MDBX_NOMEMINIT, fe_settable = True, fe_runtime = True\<rparr>,
     \<lparr>fe_name = ''EXCLUSIVE'', fe_bit = MDBX_EXCLUSIVE, fe_settable = True, fe_runtime = False\<rparr>,
     \<lparr>fe_name = ''ACCEDE'', fe_bit = MDBX_ACCEDE, fe_settable = True, fe_runtime = False\<rparr>,
     \<lparr>fe_name = ''VALIDATION'', fe_bit = MDBX_VALIDATION, fe_settable = True, fe_runtime = False\<rparr>,
     \<lparr>fe_name = ''RDONLY'', fe_bit = MDBX_RDONLY, fe_settable = False, fe_runtime = False\<rparr>,
     \<lparr>fe_name = ''NOSUBDIR'', fe_bit = MDBX_NOSUBDIR, fe_settable = False, fe_runtime = False\<rparr>,
     \<lparr>fe_name = ''NOSTICKYTHREADS'', fe_bit = MDBX_NOSTICKYTHREADS, fe_settable = False, fe_runtime = False\<rparr>]"

definition txn_flags :: "flag_entry list" where
  "txn_flags =
    [\<lparr>fe_name = ''NOSYNC'', fe_bit = MDBX_TXN_NOSYNC, fe_settable = True, fe_runtime = False\<rparr>,
     \<lparr>fe_name = ''NOMETASYNC'', fe_bit = MDBX_TXN_NOMETASYNC, fe_settable = True, fe_runtime = False\<rparr>,
     \<lparr>fe_name = ''TRY'', fe_bit = MDBX_TXN_TRY, fe_settable = True, fe_runtime = False\<rparr>]"

section \<open>Names to bits\<close>

text \<open>The outer loop of \<open>bits_from\<close>; the inner one is the search for the first matching entry.\<close>

fun bits_loop :: "flag_entry list \<Rightarrow> u32 \<Rightarrow> string list \<Rightarrow> err + u32" where
  "bits_loop table bits [] = Inr bits"
| "bits_loop table bits (name # names) =
     (case find (\<lambda>entry. fe_name entry = name) table of
        Some entry \<Rightarrow> bits_loop table (bits OR fe_bit entry) names
      | None \<Rightarrow> Inl (UnknownFlag name))"

definition bits_from :: "string list \<Rightarrow> flag_entry list \<Rightarrow> err + u32" where
  "bits_from names table = bits_loop table 0 names"

definition env_flags_from_names :: "string list \<Rightarrow> err + u32" where
  "env_flags_from_names names = bits_from names env_flags"

definition txn_flags_from_names :: "string list \<Rightarrow> err + u32" where
  "txn_flags_from_names names = bits_from names txn_flags"

section \<open>Bits to names\<close>

text \<open>The loop of \<open>names_from\<close> over the table, with its flag \<open>utterly\<close>.\<close>

fun names_loop :: "u32 \<Rightarrow> bool \<Rightarrow> string list \<Rightarrow> flag_entry list \<Rightarrow> string list" where
  "names_loop bits utterly out [] = out"
| "names_loop bits utterly out (entry # rest) =
     (if bits AND fe_bit entry \<noteq> fe_bit entry then names_loop bits utterly out rest
      else
        let utterly' = (if fe_name entry = ''UTTERLY_NOSYNC'' then True else utterly) in
        if utterly' \<and> fe_name entry = ''SAFE_NOSYNC'' then names_loop bits utterly' out rest
        else names_loop bits utterly' (out @ [fe_name entry]) rest)"

definition names_from :: "u32 \<Rightarrow> string list" where
  "names_from bits = names_loop bits False [] env_flags"

section \<open>The vocabulary as data\<close>

text \<open>The rows of \<open>mdbx_flags_\<close>: flag, scope, settable, runtime.\<close>

definition mdbx_flags :: "(string \<times> string \<times> bool \<times> bool) list" where
  "mdbx_flags =
     map (\<lambda>e. (fe_name e, ''env'', fe_settable e, fe_runtime e)) env_flags
     @ map (\<lambda>e. (fe_name e, ''txn'', fe_settable e, fe_runtime e)) txn_flags"

section \<open>Correctness of the translation\<close>

lemma env_names_distinct: "distinct (map fe_name env_flags)"
  by (simp add: env_flags_def)

lemma txn_names_distinct: "distinct (map fe_name txn_flags)"
  by (simp add: txn_flags_def)

interpretation env_table: keyed_table env_flags fe_name
  by unfold_locales (rule env_names_distinct)

interpretation txn_table: keyed_table txn_flags fe_name
  by unfold_locales (rule txn_names_distinct)

text \<open>The bit an entry contributes, by name; the zero word for a name that is in no entry.\<close>

definition bit_of :: "flag_entry list \<Rightarrow> string \<Rightarrow> u32" where
  "bit_of table name =
     (case find (\<lambda>e. fe_name e = name) table of Some e \<Rightarrow> fe_bit e | None \<Rightarrow> 0)"

lemma bits_loop_known:
  assumes "set names \<subseteq> fe_name ` set table"
  shows "bits_loop table bits names = Inr (foldl (\<lambda>b n. b OR bit_of table n) bits names)"
  using assms
proof (induction names arbitrary: bits)
  case Nil
  then show ?case by simp
next
  case (Cons n ns)
  then obtain e where "find (\<lambda>e. fe_name e = n) table = Some e"
    by (cases "find (\<lambda>e. fe_name e = n) table") (auto simp: find_None_iff)
  then show ?case using Cons by (simp add: bit_of_def)
qed

lemma bits_loop_unknown:
  assumes "\<not> set names \<subseteq> fe_name ` set table"
  shows "\<exists>n. bits_loop table bits names = Inl (UnknownFlag n) \<and> n \<in> set names \<and> n \<notin> fe_name ` set table"
  using assms
proof (induction names arbitrary: bits)
  case Nil
  then show ?case by simp
next
  case (Cons n ns)
  show ?case
  proof (cases "find (\<lambda>e. fe_name e = n) table")
    case None
    then have "n \<notin> fe_name ` set table" by (auto simp: find_None_iff)
    with None show ?thesis by simp
  next
    case (Some e)
    then have "n \<in> fe_name ` set table" by (auto dest: find_SomeD)
    then show ?thesis using Cons Some by auto
  qed
qed

lemma bit_foldl_or:
  "bit (foldl (\<lambda>b n. b OR f n) b0 ns) i \<longleftrightarrow> bit b0 i \<or> (\<exists>n \<in> set ns. bit (f n :: u32) i)"
  by (induction ns arbitrary: b0) (auto simp: bit_or_iff)

text \<open>Order and repetition of the names do not matter.\<close>

lemma foldl_or_set:
  assumes "set ns = set ms"
  shows "foldl (\<lambda>b n. b OR f n) (b0 :: u32) ns = foldl (\<lambda>b n. b OR f n) b0 ms"
  by (rule bit_eqI) (simp add: bit_foldl_or assms)

text \<open>\<open>names_loop\<close> is a filter of the table.\<close>

definition reported :: "u32 \<Rightarrow> flag_entry \<Rightarrow> bool" where
  "reported bits e \<longleftrightarrow>
     bits AND fe_bit e = fe_bit e
     \<and> \<not> (fe_name e = ''SAFE_NOSYNC'' \<and> bits AND MDBX_UTTERLY_NOSYNC = MDBX_UTTERLY_NOSYNC)"

lemma names_loop_rest:
  assumes "\<forall>e \<in> set es. fe_name e \<noteq> ''UTTERLY_NOSYNC'' \<and> fe_name e \<noteq> ''SAFE_NOSYNC''"
  shows "names_loop bits u out es = out @ map fe_name (filter (\<lambda>e. bits AND fe_bit e = fe_bit e) es)"
  using assms by (induction es arbitrary: out) auto

lemma names_loop_two:
  assumes "fe_name u = ''UTTERLY_NOSYNC''" and "fe_name s = ''SAFE_NOSYNC''"
    and "\<forall>e \<in> set rest. fe_name e \<noteq> ''UTTERLY_NOSYNC'' \<and> fe_name e \<noteq> ''SAFE_NOSYNC''"
  shows "names_loop bits False [] (u # s # rest)
    = map fe_name (filter (\<lambda>e. bits AND fe_bit e = fe_bit e
          \<and> \<not> (fe_name e = ''SAFE_NOSYNC'' \<and> bits AND fe_bit u = fe_bit u)) (u # s # rest))"
proof -
  have "filter (\<lambda>e. bits AND fe_bit e = fe_bit e \<and> fe_name e \<noteq> ''SAFE_NOSYNC'') rest
      = filter (\<lambda>e. bits AND fe_bit e = fe_bit e) rest"
    using assms(3) by (intro filter_cong) auto
  then show ?thesis
    using assms by (cases "bits AND fe_bit u = fe_bit u") (simp_all add: names_loop_rest Let_def)
qed

lemma names_from_filter: "names_from bits = map fe_name (filter (reported bits) env_flags)"
proof -
  have "env_flags = env_flags ! 0 # env_flags ! 1 # drop 2 env_flags"
    by (simp add: env_flags_def)
  moreover have "\<forall>e \<in> set (drop 2 env_flags). fe_name e \<noteq> ''UTTERLY_NOSYNC'' \<and> fe_name e \<noteq> ''SAFE_NOSYNC''"
    by (simp add: env_flags_def)
  moreover have "fe_name (env_flags ! 0) = ''UTTERLY_NOSYNC''" "fe_name (env_flags ! 1) = ''SAFE_NOSYNC''"
      "fe_bit (env_flags ! 0) = MDBX_UTTERLY_NOSYNC"
    by (simp_all add: env_flags_def)
  ultimately show ?thesis
    using names_loop_two [of "env_flags ! 0" "env_flags ! 1" "drop 2 env_flags" bits]
    unfolding names_from_def reported_def by metis
qed

lemma reported_names_known: "set (names_from bits) \<subseteq> fe_name ` set env_flags"
  by (auto simp: names_from_filter)

end
