(* ===== verification/Mdbx_Lifecycle.thy ===== *)
theory Mdbx_Lifecycle
  imports Mdbx_Handles Mdbx_Flags
begin

unbundle bit_operations_syntax

text \<open>
  The life of environments and transactions in \<open>r_mdbx.cpp\<close>: open, close, begin, commit, abort,
  state, and the two finalizers. Each definition follows its function statement by statement; a
  \<open>std::unique_ptr\<close> that is still owning when an error is thrown becomes an explicit delete.
\<close>

section \<open>Guarded calls\<close>

text \<open>
  Creating and ending native objects. \<open>mdbx_env_create\<close> leaves a null pointer behind when it
  fails. \<open>mdbx_env_close\<close> needs every transaction of the environment ended and destroys it on
  every status but \<open>MDBX_BUSY\<close>; a commit or an abort ends the transaction on every status but
  \<open>MDBX_THREAD_MISMATCH\<close>.
\<close>

definition env_created :: "'n world \<Rightarrow> 'n world" where
  "env_created w = w\<lparr>w_usable_envs := w_ids w # w_usable_envs w, w_ids := w_ids w + 1\<rparr>"

definition txn_created :: "nat \<Rightarrow> 'n world \<Rightarrow> 'n world" where
  "txn_created e w = w\<lparr>w_usable_txns := (w_ids w, e) # w_usable_txns w, w_ids := w_ids w + 1\<rparr>"

definition txn_ended :: "nat \<Rightarrow> 'n world \<Rightarrow> 'n world" where
  "txn_ended p w = w\<lparr>w_usable_txns := filter (\<lambda>q. fst q \<noteq> p) (w_usable_txns w)\<rparr>"

definition env_create_call :: "'n libmdbx \<Rightarrow> nat \<Rightarrow> ('n, int) mem" where
  "env_create_call L a =
     thenM (set_env a (\<lambda>h. h\<lparr>eh_env := None\<rparr>))
    (bindM (getsM w_ids) (\<lambda>e.
     bindM (native (\<lambda>w. w) (L_env_create L e)) (\<lambda>rc.
     thenM (whenM (rc = MDBX_SUCCESS)
              (thenM (modifyM env_created) (set_env a (\<lambda>h. h\<lparr>eh_env := Some e\<rparr>))))
           (returnM rc))))"

definition txn_begin_call :: "'n libmdbx \<Rightarrow> nat option \<Rightarrow> u32 \<Rightarrow> ('n, int \<times> nat option) mem" where
  "txn_begin_call L p flags =
     bindM (getsM w_ids) (\<lambda>t.
     bindM (env_call p (\<lambda>e. L_txn_begin L e flags t)) (\<lambda>rc.
     if rc = MDBX_SUCCESS
     then thenM (case p of Some e \<Rightarrow> modifyM (txn_created e) | None \<Rightarrow> returnM ())
                (returnM (rc, Some t))
     else returnM (rc, None)))"

definition txn_end_call :: "nat option \<Rightarrow> (nat \<Rightarrow> 'n \<Rightarrow> int nres \<times> 'n) \<Rightarrow> ('n, int) mem" where
  "txn_end_call p f =
     bindM (txn_call p f) (\<lambda>rc.
     thenM (case p of Some t \<Rightarrow> whenM (rc \<noteq> MDBX_THREAD_MISMATCH) (modifyM (txn_ended t))
                    | None \<Rightarrow> returnM ())
           (returnM rc))"

definition env_close_call :: "'n libmdbx \<Rightarrow> nat option \<Rightarrow> ('n, int) mem" where
  "env_close_call L p =
     (case p of
        None \<Rightarrow> stopM Undefined
      | Some e \<Rightarrow> bindM (getsM w_usable_txns) (\<lambda>us.
          if e \<in> set (map snd us) then stopM Undefined
          else bindM (env_call p (L_env_close L)) (\<lambda>rc.
               thenM (whenM (rc \<noteq> MDBX_BUSY) (modifyM (kill_env e))) (returnM rc))))"

definition close_call :: "'n libmdbx \<Rightarrow> nat \<Rightarrow> ('n, int) mem" where
  "close_call L a = bindM (env_at a) (\<lambda>h. env_close_call L (eh_env h))"

definition begin_call :: "'n libmdbx \<Rightarrow> nat \<Rightarrow> u32 \<Rightarrow> ('n, int \<times> nat option) mem" where
  "begin_call L a flags = bindM (env_at a) (\<lambda>h. txn_begin_call L (eh_env h) flags)"

definition finish_call :: "'n libmdbx \<Rightarrow> nat \<Rightarrow> bool \<Rightarrow> ('n, int) mem" where
  "finish_call L t commit =
     bindM (txn_at t) (\<lambda>h.
       txn_end_call (th_txn h) (if commit then L_txn_commit L else L_txn_abort L))"

text \<open>\<open>static_cast<mdbx_mode_t>\<close>: the low bits, an unsigned number.\<close>

definition mode_cast :: "'n libmdbx \<Rightarrow> int \<Rightarrow> int" where
  "mode_cast L mode = mode mod 2 ^ (8 * L_sizeof_mode L)"

text \<open>
  \<open>open_call\<close>: create, three optional settings, open, read the flags back; the first failure
  ends it. The result is the status and \<open>actual_flags\<close>.
\<close>

definition open_call ::
  "'n libmdbx \<Rightarrow> nat \<Rightarrow> string \<Rightarrow> u32 \<Rightarrow> nat \<Rightarrow> nat \<Rightarrow> int \<Rightarrow> int \<Rightarrow> ('n, int \<times> u32) mem" where
  "open_call L a path flags max_dbs max_readers map_size mode =
     bindM (env_create_call L a) (\<lambda>rc.
     if rc \<noteq> MDBX_SUCCESS then returnM (rc, 0) else
     bindM (env_at a) (\<lambda>h.
     bindM (if max_dbs > 0
            then env_call (eh_env h) (\<lambda>e. L_env_set_option L e MDBX_opt_max_db max_dbs)
            else returnM MDBX_SUCCESS) (\<lambda>rc.
     if rc \<noteq> MDBX_SUCCESS then returnM (rc, 0) else
     bindM (if max_readers > 0
            then env_call (eh_env h) (\<lambda>e. L_env_set_option L e MDBX_opt_max_readers max_readers)
            else returnM MDBX_SUCCESS) (\<lambda>rc.
     if rc \<noteq> MDBX_SUCCESS then returnM (rc, 0) else
     bindM (if map_size > 0
            then env_call (eh_env h) (\<lambda>e. L_env_set_geometry L e map_size)
            else returnM MDBX_SUCCESS) (\<lambda>rc.
     if rc \<noteq> MDBX_SUCCESS then returnM (rc, 0) else
     bindM (env_call (eh_env h) (\<lambda>e. L_env_open L e path flags (mode_cast L mode))) (\<lambda>rc.
     if rc \<noteq> MDBX_SUCCESS then returnM (rc, 0) else
     env_call (eh_env h) (L_env_get_flags L)))))))"

section \<open>Closing and finalizing\<close>

definition close_handle :: "'n libmdbx \<Rightarrow> nat \<Rightarrow> bool \<Rightarrow> ('n, unit) mem" where
  "close_handle L a propagate =
     bindM (env_at a) (\<lambda>h.
     if eh_env h = None then returnM () else
     thenM (unregister_env a)
    (bindM current_pid (\<lambda>pid.
     if eh_pid h \<noteq> pid then
       thenM (abandon_env a)
      (thenM (set_env a (\<lambda>h. h\<lparr>eh_env := None\<rparr>))
             (if propagate then stopM (EnvForeignClose (eh_pid h) pid) else returnM ()))
     else if eh_poisoned h then
       thenM (abandon_env a) (set_env a (\<lambda>h. h\<lparr>eh_env := None\<rparr>))
     else
       bindM (mdbx_r_run_guarded (close_call L a) (Some (poison_close a))) (\<lambda>result.
       thenM (set_env a (\<lambda>h. h\<lparr>eh_env := None\<rparr>))
             (if \<not> propagate then returnM ()
              else case result of GuardPanic panic \<Rightarrow> stop_after_panic panic
                                | GuardOk rc \<Rightarrow> check L rc)))))"

definition is_ok :: "'a guard_result \<Rightarrow> bool" where
  "is_ok r = (case r of GuardOk _ \<Rightarrow> True | GuardPanic _ \<Rightarrow> False)"

text \<open>One turn of the loop of \<open>detach_txns\<close>.\<close>

definition detach_one :: "'n libmdbx \<Rightarrow> bool \<Rightarrow> nat \<Rightarrow> ('n, unit) mem" where
  "detach_one L usable t =
     bindM (txn_at t) (\<lambda>h.
     bindM (if usable \<and> th_txn h \<noteq> None \<and> \<not> th_poisoned h
            then bindM (mdbx_r_run_guarded (finish_call L t False) (Some (poison_finish t)))
                       (\<lambda>r. returnM (is_ok r))
            else returnM False) (\<lambda>ended.
     thenM (whenM (\<not> ended) (bindM (txn_at t) (\<lambda>h. abandon (map_option PTxn (th_txn h)))))
           (set_txn t (\<lambda>h. h\<lparr>th_txn := None, th_state := st_aborted, th_owner := None\<rparr>))))"

definition detach_txns :: "'n libmdbx \<Rightarrow> nat \<Rightarrow> ('n, unit) mem" where
  "detach_txns L a =
     bindM (env_at a) (\<lambda>h. bindM current_pid (\<lambda>pid.
     thenM (forM (eh_live h)
              (detach_one L (eh_env h \<noteq> None \<and> \<not> eh_poisoned h \<and> eh_pid h = pid)))
           (set_env a (\<lambda>h. h\<lparr>eh_live := []\<rparr>))))"

definition finalize_env :: "'n libmdbx \<Rightarrow> nat \<Rightarrow> ('n, unit) mem" where
  "finalize_env L x =
     bindM (env_addr (R_ExtPtr x)) (\<lambda>handle.
     case handle of
       None \<Rightarrow> returnM ()
     | Some a \<Rightarrow>
         thenM (set_xptr x (\<lambda>p. p\<lparr>xp_addr := ANull\<rparr>))
        (thenM (detach_txns L a)
        (thenM (close_handle L a False)
        (thenM (delete_env a)
               (modifyM (\<lambda>w. w\<lparr>w_live_env_handles := w_live_env_handles w - 1\<rparr>))))))"

text \<open>The condition under which \<open>finalize_txn\<close> still aborts natively.\<close>

definition finalizer_may_abort :: "txn_handle \<Rightarrow> ('n, bool) mem" where
  "finalizer_may_abort h =
     (if th_txn h = None \<or> th_poisoned h then returnM False
      else case th_owner h of
        None \<Rightarrow> returnM False
      | Some a \<Rightarrow> bindM (env_at a) (\<lambda>o_h. bindM current_pid (\<lambda>pid.
          returnM (eh_env o_h \<noteq> None \<and> \<not> eh_poisoned o_h \<and> th_pid h = pid))))"

definition finalize_txn :: "'n libmdbx \<Rightarrow> nat \<Rightarrow> ('n, unit) mem" where
  "finalize_txn L x =
     bindM (txn_addr (R_ExtPtr x)) (\<lambda>handle.
     case handle of
       None \<Rightarrow> returnM ()
     | Some t \<Rightarrow>
         thenM (set_xptr x (\<lambda>p. p\<lparr>xp_addr := ANull\<rparr>))
        (bindM (txn_at t) (\<lambda>h.
         bindM (finalizer_may_abort h) (\<lambda>may.
         bindM (if may
                then bindM (mdbx_r_run_guarded (finish_call L t False) (Some (poison_finish t)))
                           (\<lambda>r. returnM (is_ok r))
                else returnM False) (\<lambda>ended.
         bindM (txn_at t) (\<lambda>h.
         thenM (if th_txn h \<noteq> None
                then thenM (whenM (\<not> ended) (abandon (map_option PTxn (th_txn h))))
                           (mark_finished L t st_aborted)
                else unregister_txn t)
        (thenM (delete_txn t)
               (modifyM (\<lambda>w. w\<lparr>w_live_txn_handles := w_live_txn_handles w - 1\<rparr>)))))))))"

section \<open>Building the R objects\<close>

definition new_env_sexp :: "nat \<Rightarrow> string \<Rightarrow> bool \<Rightarrow> bool \<Rightarrow> ('n, rsexp) mem" where
  "new_env_sexp a path readonly subdir =
     bindM (new_xptr \<lparr>xp_addr = AEnv a, xp_tag = env_tag, xp_prot = R_NilValue,
                      xp_class = [], xp_attrs = []\<rparr>) (\<lambda>x.
     thenM (modifyM (\<lambda>w. w\<lparr>w_live_env_handles := w_live_env_handles w + 1\<rparr>))
    (thenM (set_xptr x (\<lambda>p. p\<lparr>xp_attrs := [(''path'', AString path),
              (''readonly'', ALogical readonly), (''subdir'', ALogical subdir)]\<rparr>))
    (thenM (set_xptr x (\<lambda>p. p\<lparr>xp_class := [''mdbx_env'']\<rparr>))
           (returnM (R_ExtPtr x)))))"

definition get_attrib :: "rsexp \<Rightarrow> string \<Rightarrow> ('n, rattr option) mem" where
  "get_attrib x name =
     (case x of R_ExtPtr i \<Rightarrow> bindM (xptr_at i) (\<lambda>p. returnM (map_of (xp_attrs p) name))
      | _ \<Rightarrow> returnM None)"

definition new_txn_sexp :: "nat \<Rightarrow> rsexp \<Rightarrow> bool \<Rightarrow> ('n, rsexp) mem" where
  "new_txn_sexp t env_sexp is_write =
     bindM (new_xptr \<lparr>xp_addr = ATxn t, xp_tag = txn_tag, xp_prot = env_sexp,
                      xp_class = [], xp_attrs = []\<rparr>) (\<lambda>x.
     thenM (modifyM (\<lambda>w. w\<lparr>w_live_txn_handles := w_live_txn_handles w + 1\<rparr>))
    (thenM (bindM (txn_at t) (\<lambda>h.
       case th_owner h of None \<Rightarrow> stopM Undefined
       | Some a \<Rightarrow> set_env a (live_add t)))
    (bindM (get_attrib env_sexp ''path'') (\<lambda>path.
     thenM (set_xptr x (\<lambda>p. p\<lparr>xp_attrs := (''write'', ALogical is_write)
              # (case path of Some v \<Rightarrow> [(''path'', v)] | None \<Rightarrow> [])\<rparr>))
    (thenM (set_xptr x (\<lambda>p. p\<lparr>xp_class := [''mdbx_txn'']\<rparr>))
           (returnM (R_ExtPtr x)))))))"

section \<open>Opening\<close>

definition fresh_env_handle :: "int \<Rightarrow> env_handle" where
  "fresh_env_handle pid =
     \<lparr>eh_env = None, eh_poisoned = False, eh_pid = pid, eh_key = '''', eh_path = '''',
      eh_live = [], eh_roots = (None, None)\<rparr>"

text \<open>A narrowing cast; out of range it is undefined behaviour.\<close>

definition castM :: "'a option \<Rightarrow> ('n, 'a) mem" where
  "castM c = (case c of None \<Rightarrow> stopM Undefined | Some x \<Rightarrow> returnM x)"

definition positive_or_zero :: "dbl \<Rightarrow> dbl" where
  "positive_or_zero d = (if dlt (Fin 0) d then d else Fin 0)"

definition open_flags :: "u32 \<Rightarrow> bool \<Rightarrow> bool \<Rightarrow> u32" where
  "open_flags extra readonly subdir =
     (let flags = MDBX_ENV_DEFAULTS OR extra;
          flags = (if readonly then flags OR MDBX_RDONLY else flags)
      in if \<not> subdir then flags OR MDBX_NOSUBDIR else flags)"

text \<open>
  The guarded open and its two failure paths: a panic abandons the half-built environment, a
  status closes it. The result is \<open>actual_flags\<close>.
\<close>

definition open_guarded ::
  "'n libmdbx \<Rightarrow> nat \<Rightarrow> string \<Rightarrow> u32 \<Rightarrow> nat \<Rightarrow> nat \<Rightarrow> int \<Rightarrow> int \<Rightarrow> ('n, u32) mem" where
  "open_guarded L a path flags max_dbs max_readers map_size mode =
     bindM (mdbx_r_run_guarded (open_call L a path flags max_dbs max_readers map_size mode)
              (Some (poison_open a))) (\<lambda>result.
     case result of
       GuardPanic panic \<Rightarrow> thenM (abandon_env a) (stop_after_panic panic)
     | GuardOk outcome \<Rightarrow>
         if fst outcome \<noteq> MDBX_SUCCESS then
           bindM (env_at a) (\<lambda>h.
           thenM (whenM (eh_env h \<noteq> None) (close_handle L a False))
          (thenM (check L (fst outcome)) (returnM (snd outcome))))
         else returnM (snd outcome))"

definition mdbx_env_open ::
  "'n libmdbx \<Rightarrow> string \<Rightarrow> string \<Rightarrow> bool \<Rightarrow> bool \<Rightarrow> dbl \<Rightarrow> dbl \<Rightarrow> dbl \<Rightarrow> int \<Rightarrow> string list
     \<Rightarrow> ('n, rsexp) mem" where
  "mdbx_env_open L path key readonly subdir max_dbs map_size max_readers mode extra_flags =
     bindM (liftM (env_flags_from_names extra_flags)) (\<lambda>extra.
     let flags = open_flags extra readonly subdir in
     if \<not> dle max_dbs max_exact_integer then stopM MaxDbsTooLarge else
     if \<not> dle map_size (max_native_integer (L_sizeof_voidp L)) then stopM MapSizeTooLarge else
     if \<not> dle max_readers max_exact_integer then stopM MaxReadersTooLarge else
     bindM (find_open_env key) (\<lambda>found.
     case found of
       Some i \<Rightarrow> bindM (env_at i) (\<lambda>incumbent.
         if eh_path incumbent = path then stopM (AlreadyOpen path)
         else stopM (AlreadyOpenAs path (eh_path incumbent)))
     | None \<Rightarrow>
         bindM current_pid (\<lambda>pid.
         bindM (castM (cast_unsigned 64 (positive_or_zero max_dbs))) (\<lambda>dbs.
         bindM (castM (cast_unsigned 64 (positive_or_zero max_readers))) (\<lambda>readers.
         bindM (castM (cast_signed (8 * L_sizeof_voidp L) (positive_or_zero map_size))) (\<lambda>map_sz.
         bindM (new_env (fresh_env_handle pid)) (\<lambda>a.
         bindM (unwindM (open_guarded L a path flags dbs readers map_sz mode) (delete_env a)) (\<lambda>actual_flags.
         let actual_subdir = (actual_flags AND MDBX_NOSUBDIR = 0) in
         thenM (set_env a (\<lambda>h. h\<lparr>eh_key := key, eh_path := path\<rparr>))
        (thenM (record_heap_roots L a)
        (bindM (new_env_sexp a path readonly actual_subdir) (\<lambda>env.
         thenM (register_env a) (returnM env))))))))))))"

section \<open>Environment entry points\<close>

definition mdbx_env_close :: "'n libmdbx \<Rightarrow> rsexp \<Rightarrow> ('n, unit) mem" where
  "mdbx_env_close L env =
     bindM (is_env_sexp env) (\<lambda>ok.
     if \<not> ok then stopM NotEnv else
     bindM (env_addr env) (\<lambda>handle.
     case handle of
       None \<Rightarrow> returnM ()
     | Some a \<Rightarrow>
         bindM (env_at a) (\<lambda>h.
         thenM (whenM (eh_poisoned h) (detach_txns L a))
        (bindM (env_at a) (\<lambda>h.
         if eh_live h \<noteq> [] then stopM (EnvHasTxns (length (eh_live h)))
         else close_handle L a True)))))"

definition mdbx_env_is_open :: "rsexp \<Rightarrow> ('n, bool) mem" where
  "mdbx_env_is_open env =
     bindM (is_env_sexp env) (\<lambda>ok.
     if \<not> ok then stopM NotEnv else
     bindM (env_addr env) (\<lambda>handle.
     case handle of
       None \<Rightarrow> returnM False
     | Some a \<Rightarrow> bindM (env_at a) (\<lambda>h. bindM current_pid (\<lambda>pid.
         returnM (eh_env h \<noteq> None \<and> \<not> eh_poisoned h \<and> eh_pid h = pid)))))"

section \<open>Transaction entry points\<close>

definition fresh_txn_handle :: "nat \<Rightarrow> bool \<Rightarrow> int \<Rightarrow> txn_handle" where
  "fresh_txn_handle a is_write pid =
     \<lparr>th_txn = None, th_owner = Some a, th_state = st_active, th_write = is_write,
      th_poisoned = False, th_pid = pid, th_dbi = 0, th_main_dbi = 0, th_main_ready = False,
      th_named = []\<rparr>"

definition mdbx_txn_begin :: "'n libmdbx \<Rightarrow> rsexp \<Rightarrow> bool \<Rightarrow> string list \<Rightarrow> ('n, rsexp) mem" where
  "mdbx_txn_begin L env is_write extra_flags =
     bindM (env_from_sexp env) (\<lambda>a.
     bindM (env_at a) (\<lambda>owner.
     if eh_live owner \<noteq> [] then stopM TxnAlreadyOpen else
     bindM current_pid (\<lambda>pid.
     bindM (new_txn (fresh_txn_handle a is_write pid)) (\<lambda>t.
     bindM (unwindM
       (bindM (liftM (txn_flags_from_names extra_flags)) (\<lambda>extra.
        let flags = (if is_write then MDBX_TXN_READWRITE else MDBX_TXN_RDONLY) OR extra in
        bindM (guard (begin_call L a flags) (Some (poison_begin a))) (\<lambda>outcome.
        thenM (check L (fst outcome)) (returnM (snd outcome)))))
       (delete_txn t)) (\<lambda>native_txn.
     thenM (set_txn t (\<lambda>h. h\<lparr>th_txn := native_txn\<rparr>))
           (new_txn_sexp t env is_write))))))"

definition set_prot :: "rsexp \<Rightarrow> rsexp \<Rightarrow> ('n, unit) mem" where
  "set_prot x v =
     (case x of R_ExtPtr i \<Rightarrow> set_xptr i (\<lambda>p. p\<lparr>xp_prot := v\<rparr>) | _ \<Rightarrow> stopM Undefined)"

definition finish_txn :: "'n libmdbx \<Rightarrow> rsexp \<Rightarrow> bool \<Rightarrow> ('n, unit) mem" where
  "finish_txn L txn commit =
     bindM (txn_from_sexp txn) (\<lambda>t.
     bindM (guard (finish_call L t commit) (Some (poison_finish t))) (\<lambda>rc.
     thenM (whenM (rc = MDBX_THREAD_MISMATCH) (check L rc))
    (thenM (mark_finished L t (if commit \<and> rc = MDBX_SUCCESS then st_committed else st_aborted))
    (thenM (set_prot txn R_NilValue)
           (if rc = MDBX_RESULT_TRUE then stopM RolledBack else check L rc)))))"

definition mdbx_txn_commit :: "'n libmdbx \<Rightarrow> rsexp \<Rightarrow> ('n, unit) mem" where
  "mdbx_txn_commit L txn = finish_txn L txn True"

text \<open>Is the ownership graph of this transaction broken in this process?\<close>

definition broken_graph :: "txn_handle \<Rightarrow> ('n, bool) mem" where
  "broken_graph h =
     bindM current_pid (\<lambda>pid.
     if th_pid h \<noteq> pid then returnM False
     else if th_poisoned h then returnM True
     else case th_owner h of
       None \<Rightarrow> returnM True
     | Some a \<Rightarrow> bindM (env_at a) (\<lambda>o_h. returnM (eh_env o_h = None \<or> eh_poisoned o_h)))"

definition mdbx_txn_abort :: "'n libmdbx \<Rightarrow> rsexp \<Rightarrow> ('n, unit) mem" where
  "mdbx_txn_abort L txn =
     bindM (is_txn_sexp txn) (\<lambda>ok.
     if \<not> ok then stopM NotTxn else
     bindM (txn_addr txn) (\<lambda>handle.
     case handle of
       None \<Rightarrow> returnM ()
     | Some t \<Rightarrow> bindM (txn_at t) (\<lambda>h.
         if th_txn h = None then returnM () else
         bindM (broken_graph h) (\<lambda>broken.
         if broken then
           thenM (abandon (map_option PTxn (th_txn h)))
          (thenM (mark_finished L t st_aborted)
                 (set_prot txn R_NilValue))
         else finish_txn L txn False))))"

text \<open>A call outside the guard: a panic becomes the direct \<open>Rf_error\<close>.\<close>

datatype txn_report = Rep_invalid | Rep_poisoned | Rep_failed | Rep_active | Rep_committed | Rep_aborted

definition mdbx_txn_state :: "'n libmdbx \<Rightarrow> rsexp \<Rightarrow> ('n, txn_report) mem" where
  "mdbx_txn_state L txn =
     bindM (is_txn_sexp txn) (\<lambda>ok.
     if \<not> ok then stopM NotTxn else
     bindM (txn_addr txn) (\<lambda>handle.
     case handle of
       None \<Rightarrow> returnM Rep_invalid
     | Some t \<Rightarrow> bindM (txn_at t) (\<lambda>h. bindM current_pid (\<lambda>pid.
         if th_pid h \<noteq> pid then returnM Rep_invalid else
         bindM (case th_owner h of None \<Rightarrow> returnM False
                | Some a \<Rightarrow> bindM (env_at a) (\<lambda>o_h. returnM (eh_poisoned o_h))) (\<lambda>owner_poisoned.
         if th_state h = st_active \<and> (th_poisoned h \<or> owner_poisoned) then returnM Rep_poisoned
         else case th_state h of
           st_active \<Rightarrow>
             if th_txn h \<noteq> None then
               bindM (txn_call (th_txn h) (L_txn_flags L)) (\<lambda>flags.
               returnM (if flags AND MDBX_TXN_ERROR \<noteq> 0 then Rep_failed else Rep_active))
             else returnM Rep_active
         | st_committed \<Rightarrow> returnM Rep_committed
         | st_aborted \<Rightarrow> returnM Rep_aborted)))))"

definition mdbx_txn_id :: "'n libmdbx \<Rightarrow> rsexp \<Rightarrow> ('n, dbl) mem" where
  "mdbx_txn_id L txn =
     bindM (txn_from_sexp txn) (\<lambda>t.
     bindM (txn_at t) (\<lambda>h.
     bindM (txn_call (th_txn h) (L_txn_id L)) (\<lambda>txnid.
     returnM (as_num txnid))))"

section \<open>Test hooks and counters\<close>

text \<open>\<open>static_cast<int>\<close> of a \<open>size_t\<close> keeps the low 32 bits.\<close>

definition size_to_int :: "nat \<Rightarrow> int" where
  "size_to_int n = sint (of_nat n :: u32)"

lemma size_to_int_exact: "n < 2 ^ 31 \<Longrightarrow> size_to_int n = int n"
  by (simp add: size_to_int_def signed_of_nat signed_take_bit_int_eq_self_iff)

definition mdbx_txn_live_count :: "('n, int) mem" where
  "mdbx_txn_live_count = getsM (\<lambda>w. sint (w_live_txn_handles w))"

definition mdbx_env_live_count :: "('n, int) mem" where
  "mdbx_env_live_count = getsM (\<lambda>w. sint (w_live_env_handles w))"

definition mdbx_env_open_count :: "('n, int) mem" where
  "mdbx_env_open_count = getsM (\<lambda>w. size_to_int (length (w_open w)))"

definition mdbx_env_txn_count :: "rsexp \<Rightarrow> ('n, int) mem" where
  "mdbx_env_txn_count env =
     bindM (env_from_sexp env) (\<lambda>a. bindM (env_at a) (\<lambda>h. returnM (size_to_int (length (eh_live h)))))"

text \<open>
  \<open>mdbx_test_thread_mismatch_\<close> commits from a thread of its own and waits for it; on every status but
  \<open>MDBX_THREAD_MISMATCH\<close> libmdbx has freed the transaction, and the handle is marked as aborted.
\<close>

definition commit_off_thread :: "'n libmdbx \<Rightarrow> nat option \<Rightarrow> ('n, int) mem" where
  "commit_off_thread L p =
     (case p of
        None \<Rightarrow> stopM Undefined
      | Some t \<Rightarrow> bindM (getsM w_usable_txns) (\<lambda>us.
          case map_of us t of
            None \<Rightarrow> stopM Undefined
          | Some e \<Rightarrow> bindM (off_thread (L_commit_off_thread L t)) (\<lambda>rc.
              thenM (whenM (rc \<noteq> MDBX_THREAD_MISMATCH) (modifyM (txn_ended t))) (returnM rc))))"

definition mdbx_test_thread_mismatch :: "'n libmdbx \<Rightarrow> rsexp \<Rightarrow> ('n, int) mem" where
  "mdbx_test_thread_mismatch L txn =
     bindM (txn_from_sexp txn) (\<lambda>t.
     bindM (txn_at t) (\<lambda>h.
     bindM (commit_off_thread L (th_txn h)) (\<lambda>rc.
     thenM (whenM (rc \<noteq> MDBX_THREAD_MISMATCH) (mark_finished L t st_aborted))
           (returnM rc))))"

end
