(* ===== verification/Mdbx_Inv.thy ===== *)
theory Mdbx_Inv
  imports Mdbx_Lifecycle
begin

text \<open>
  The invariant of the package's memory between two calls from R, in five parts, and the pure
  state transformers that every operation amounts to, each shown to keep it.

  \<^item> \<open>heap_inv\<close>: addresses are allocated, and the two counters count the live handles;
  \<^item> \<open>ptr_inv\<close>: an external pointer carrying one of the private tags addresses a live handle of
    that kind or nothing, and no two of them address the same handle;
  \<^item> \<open>own_inv\<close>: the live-transaction registry of an environment and the owner fields of the
    transactions agree, and an environment has at most one live transaction;
  \<^item> \<open>open_inv\<close>: the open registry holds exactly the handles whose environment is not closed, and
    two of one process never share a key;
  \<^item> \<open>use_inv\<close>: a handle of this process that is not poisoned holds a usable native object, and
    libmdbx considers no transaction live that its environment does not register.
\<close>

section \<open>The invariant\<close>

definition heap_inv :: "'n world \<Rightarrow> bool" where
  "heap_inv w \<longleftrightarrow>
     finite (dom (w_envs w)) \<and> finite (dom (w_txns w))
     \<and> (\<forall>a h. w_envs w a = Some h \<longrightarrow> a < w_next w)
     \<and> (\<forall>t h. w_txns w t = Some h \<longrightarrow> t < w_next w)
     \<and> (\<forall>x p. w_xps w x = Some p \<longrightarrow> x < w_next w)
     \<and> w_live_env_handles w = of_nat (card (dom (w_envs w)))
     \<and> w_live_txn_handles w = of_nat (card (dom (w_txns w)))"

definition ptr_inv :: "'n world \<Rightarrow> bool" where
  "ptr_inv w \<longleftrightarrow>
     (\<forall>x p. w_xps w x = Some p \<longrightarrow>
        (xp_tag p = env_tag \<longrightarrow> xp_addr p = ANull \<or> (\<exists>a h. xp_addr p = AEnv a \<and> w_envs w a = Some h))
        \<and> (xp_tag p = txn_tag \<longrightarrow> xp_addr p = ANull \<or> (\<exists>t h. xp_addr p = ATxn t \<and> w_txns w t = Some h))
        \<and> (\<forall>a. xp_addr p = AEnv a \<longrightarrow> xp_tag p = env_tag)
        \<and> (\<forall>t. xp_addr p = ATxn t \<longrightarrow> xp_tag p = txn_tag))
     \<and> (\<forall>x y p q. w_xps w x = Some p \<and> w_xps w y = Some q \<and> xp_addr p = xp_addr q
          \<and> xp_addr p \<noteq> ANull \<and> xp_addr p \<noteq> AForeign \<longrightarrow> x = y)"

definition own_inv :: "'n world \<Rightarrow> bool" where
  "own_inv w \<longleftrightarrow>
     (\<forall>a h. w_envs w a = Some h \<longrightarrow>
        (\<forall>t \<in> set (eh_live h). \<exists>th. w_txns w t = Some th \<and> th_owner th = Some a)
        \<and> length (eh_live h) \<le> 1 \<and> (eh_env h = None \<longrightarrow> eh_live h = []))
     \<and> (\<forall>t th. w_txns w t = Some th \<longrightarrow>
        (th_owner th = None \<longrightarrow> th_txn th = None \<and> th_state th \<noteq> st_active)
        \<and> (\<forall>a. th_owner th = Some a \<longrightarrow>
             (\<exists>h. w_envs w a = Some h \<and> eh_live h = [t] \<and> th_pid th = eh_pid h
                \<and> (th_poisoned th \<longrightarrow> eh_poisoned h))
             \<and> th_txn th \<noteq> None \<and> th_state th = st_active))"

definition open_inv :: "'n world \<Rightarrow> bool" where
  "open_inv w \<longleftrightarrow>
     distinct (w_open w)
     \<and> (\<forall>a. a \<in> set (w_open w) \<longleftrightarrow> (\<exists>h. w_envs w a = Some h \<and> eh_env h \<noteq> None))
     \<and> (\<forall>a b h k. w_envs w a = Some h \<and> w_envs w b = Some k \<and> eh_env h \<noteq> None \<and> eh_env k \<noteq> None
          \<and> a \<noteq> b \<and> eh_pid h = eh_pid k \<longrightarrow> eh_key h \<noteq> eh_key k)"

text \<open>The environment may still be handed to libmdbx by this process.\<close>

definition healthy :: "'n world \<Rightarrow> env_handle \<Rightarrow> bool" where
  "healthy w h \<longleftrightarrow> \<not> eh_poisoned h \<and> eh_pid h = w_pid w"

definition use_inv :: "'n world \<Rightarrow> bool" where
  "use_inv w \<longleftrightarrow>
     (\<forall>a h e. w_envs w a = Some h \<and> eh_env h = Some e \<longrightarrow>
        e < w_ids w \<and> (healthy w h \<longrightarrow> e \<in> set (w_usable_envs w)))
     \<and> (\<forall>t th p. w_txns w t = Some th \<and> th_txn th = Some p \<longrightarrow> p < w_ids w)
     \<and> (\<forall>a b h k e. w_envs w a = Some h \<and> w_envs w b = Some k \<and> eh_env h = Some e
          \<and> eh_env k = Some e \<longrightarrow> a = b)
     \<and> (\<forall>s t sh th p. w_txns w s = Some sh \<and> w_txns w t = Some th \<and> th_txn sh = Some p
          \<and> th_txn th = Some p \<longrightarrow> s = t)
     \<and> (\<forall>t th p a h e. w_txns w t = Some th \<and> th_txn th = Some p \<and> th_owner th = Some a
          \<and> w_envs w a = Some h \<and> eh_env h = Some e \<and> healthy w h \<longrightarrow> (p, e) \<in> set (w_usable_txns w))
     \<and> distinct (map fst (w_usable_txns w))
     \<and> (\<forall>p e. (p, e) \<in> set (w_usable_txns w) \<longrightarrow> p < w_ids w \<and> e < w_ids w)
     \<and> (\<forall>p e a h. (p, e) \<in> set (w_usable_txns w) \<and> w_envs w a = Some h \<and> eh_env h = Some e
          \<and> healthy w h \<longrightarrow> (\<exists>t th. eh_live h = [t] \<and> w_txns w t = Some th \<and> th_txn th = Some p))"

definition calm :: "'n world \<Rightarrow> bool" where
  "calm w \<longleftrightarrow> w_guard w = [] \<and> panic_wf (w_last_panic w)"

definition inv :: "'n world \<Rightarrow> bool" where
  "inv w \<longleftrightarrow> heap_inv w \<and> ptr_inv w \<and> own_inv w \<and> open_inv w \<and> use_inv w \<and> calm w"

lemmas inv_parts = heap_inv_def ptr_inv_def own_inv_def open_inv_def use_inv_def calm_def

theorem inv_initial: "inv (initial_world pid n)"
  by (simp add: inv_def inv_parts initial_world_def)

section \<open>Reading the invariant\<close>

text \<open>Introduction and destruction rules of the two parts with many clauses.\<close>

lemma use_invI:
  assumes "\<And>a h e. w_envs w a = Some h \<Longrightarrow> eh_env h = Some e \<Longrightarrow> e < w_ids w"
    and "\<And>a h e. w_envs w a = Some h \<Longrightarrow> eh_env h = Some e \<Longrightarrow> healthy w h \<Longrightarrow> e \<in> set (w_usable_envs w)"
    and "\<And>t th p. w_txns w t = Some th \<Longrightarrow> th_txn th = Some p \<Longrightarrow> p < w_ids w"
    and "\<And>a b h k e. w_envs w a = Some h \<Longrightarrow> w_envs w b = Some k \<Longrightarrow> eh_env h = Some e
          \<Longrightarrow> eh_env k = Some e \<Longrightarrow> a = b"
    and "\<And>s t sh th p. w_txns w s = Some sh \<Longrightarrow> w_txns w t = Some th \<Longrightarrow> th_txn sh = Some p
          \<Longrightarrow> th_txn th = Some p \<Longrightarrow> s = t"
    and "\<And>t th p a h e. w_txns w t = Some th \<Longrightarrow> th_txn th = Some p \<Longrightarrow> th_owner th = Some a
          \<Longrightarrow> w_envs w a = Some h \<Longrightarrow> eh_env h = Some e \<Longrightarrow> healthy w h \<Longrightarrow> (p, e) \<in> set (w_usable_txns w)"
    and "distinct (map fst (w_usable_txns w))"
    and "\<And>p e. (p, e) \<in> set (w_usable_txns w) \<Longrightarrow> p < w_ids w \<and> e < w_ids w"
    and "\<And>p e a h. (p, e) \<in> set (w_usable_txns w) \<Longrightarrow> w_envs w a = Some h \<Longrightarrow> eh_env h = Some e
          \<Longrightarrow> healthy w h \<Longrightarrow> \<exists>t th. eh_live h = [t] \<and> w_txns w t = Some th \<and> th_txn th = Some p"
  shows "use_inv w"
  unfolding use_inv_def
  apply (intro conjI)
  subgoal using assms(1,2) by blast
  subgoal using assms(3) by blast
  subgoal using assms(4) by blast
  subgoal using assms(5) by blast
  subgoal using assms(6) by blast
  subgoal by (rule assms(7))
  subgoal using assms(8) by blast
  subgoal using assms(9) by blast
  done

lemma use_invD:
  assumes "use_inv w"
  shows "\<And>a h e. w_envs w a = Some h \<Longrightarrow> eh_env h = Some e \<Longrightarrow> e < w_ids w"
    and "\<And>a h e. w_envs w a = Some h \<Longrightarrow> eh_env h = Some e \<Longrightarrow> healthy w h \<Longrightarrow> e \<in> set (w_usable_envs w)"
    and "\<And>t th p. w_txns w t = Some th \<Longrightarrow> th_txn th = Some p \<Longrightarrow> p < w_ids w"
    and "\<And>a b h k e. w_envs w a = Some h \<Longrightarrow> w_envs w b = Some k \<Longrightarrow> eh_env h = Some e
          \<Longrightarrow> eh_env k = Some e \<Longrightarrow> a = b"
    and "\<And>s t sh th p. w_txns w s = Some sh \<Longrightarrow> w_txns w t = Some th \<Longrightarrow> th_txn sh = Some p
          \<Longrightarrow> th_txn th = Some p \<Longrightarrow> s = t"
    and "\<And>t th p a h e. w_txns w t = Some th \<Longrightarrow> th_txn th = Some p \<Longrightarrow> th_owner th = Some a
          \<Longrightarrow> w_envs w a = Some h \<Longrightarrow> eh_env h = Some e \<Longrightarrow> healthy w h \<Longrightarrow> (p, e) \<in> set (w_usable_txns w)"
    and "distinct (map fst (w_usable_txns w))"
    and "\<And>p e. (p, e) \<in> set (w_usable_txns w) \<Longrightarrow> p < w_ids w \<and> e < w_ids w"
    and "\<And>p e a h. (p, e) \<in> set (w_usable_txns w) \<Longrightarrow> w_envs w a = Some h \<Longrightarrow> eh_env h = Some e
          \<Longrightarrow> healthy w h \<Longrightarrow> \<exists>t th. eh_live h = [t] \<and> w_txns w t = Some th \<and> th_txn th = Some p"
  using assms unfolding use_inv_def by - (elim conjE, metis)+

lemma inv_D:
  assumes "inv w"
  shows "heap_inv w" "ptr_inv w" "own_inv w" "open_inv w" "use_inv w" "calm w"
  using assms by (simp_all add: inv_def)

lemma invI: "heap_inv w \<Longrightarrow> ptr_inv w \<Longrightarrow> own_inv w \<Longrightarrow> open_inv w \<Longrightarrow> use_inv w \<Longrightarrow> calm w \<Longrightarrow> inv w"
  by (simp add: inv_def)

lemma heap_invD:
  assumes "heap_inv w"
  shows "finite (dom (w_envs w))" "finite (dom (w_txns w))"
    "\<And>a h. w_envs w a = Some h \<Longrightarrow> a < w_next w" "\<And>t h. w_txns w t = Some h \<Longrightarrow> t < w_next w"
    "\<And>x p. w_xps w x = Some p \<Longrightarrow> x < w_next w"
    "w_live_env_handles w = of_nat (card (dom (w_envs w)))"
    "w_live_txn_handles w = of_nat (card (dom (w_txns w)))"
  using assms unfolding heap_inv_def by - (elim conjE, metis)+

lemma ptr_invD:
  assumes "ptr_inv w"
  shows "\<And>x p. w_xps w x = Some p \<Longrightarrow> xp_tag p = env_tag
          \<Longrightarrow> xp_addr p = ANull \<or> (\<exists>a h. xp_addr p = AEnv a \<and> w_envs w a = Some h)"
    "\<And>x p. w_xps w x = Some p \<Longrightarrow> xp_tag p = txn_tag
          \<Longrightarrow> xp_addr p = ANull \<or> (\<exists>t h. xp_addr p = ATxn t \<and> w_txns w t = Some h)"
    "\<And>x p a. w_xps w x = Some p \<Longrightarrow> xp_addr p = AEnv a \<Longrightarrow> xp_tag p = env_tag"
    "\<And>x p t. w_xps w x = Some p \<Longrightarrow> xp_addr p = ATxn t \<Longrightarrow> xp_tag p = txn_tag"
    "\<And>x y p q. w_xps w x = Some p \<Longrightarrow> w_xps w y = Some q \<Longrightarrow> xp_addr p = xp_addr q
          \<Longrightarrow> xp_addr p \<noteq> ANull \<Longrightarrow> xp_addr p \<noteq> AForeign \<Longrightarrow> x = y"
  using assms unfolding ptr_inv_def by - (elim conjE, metis)+

lemma ptr_invI:
  assumes "\<And>x p. w_xps w x = Some p \<Longrightarrow> xp_tag p = env_tag
          \<Longrightarrow> xp_addr p = ANull \<or> (\<exists>a h. xp_addr p = AEnv a \<and> w_envs w a = Some h)"
    "\<And>x p. w_xps w x = Some p \<Longrightarrow> xp_tag p = txn_tag
          \<Longrightarrow> xp_addr p = ANull \<or> (\<exists>t h. xp_addr p = ATxn t \<and> w_txns w t = Some h)"
    "\<And>x p a. w_xps w x = Some p \<Longrightarrow> xp_addr p = AEnv a \<Longrightarrow> xp_tag p = env_tag"
    "\<And>x p t. w_xps w x = Some p \<Longrightarrow> xp_addr p = ATxn t \<Longrightarrow> xp_tag p = txn_tag"
    "\<And>x y p q. w_xps w x = Some p \<Longrightarrow> w_xps w y = Some q \<Longrightarrow> xp_addr p = xp_addr q
          \<Longrightarrow> xp_addr p \<noteq> ANull \<Longrightarrow> xp_addr p \<noteq> AForeign \<Longrightarrow> x = y"
  shows "ptr_inv w"
  unfolding ptr_inv_def
  apply (intro conjI)
  subgoal using assms(1-4) by blast
  subgoal using assms(5) by blast
  done

lemma open_invD:
  assumes "open_inv w"
  shows "distinct (w_open w)"
    "\<And>a. a \<in> set (w_open w) \<longleftrightarrow> (\<exists>h. w_envs w a = Some h \<and> eh_env h \<noteq> None)"
    "\<And>a b h k. w_envs w a = Some h \<Longrightarrow> w_envs w b = Some k \<Longrightarrow> eh_env h \<noteq> None \<Longrightarrow> eh_env k \<noteq> None
          \<Longrightarrow> a \<noteq> b \<Longrightarrow> eh_pid h = eh_pid k \<Longrightarrow> eh_key h \<noteq> eh_key k"
  using assms unfolding open_inv_def by - (elim conjE, metis)+

lemma open_invI:
  assumes "distinct (w_open w)"
    "\<And>a. a \<in> set (w_open w) \<longleftrightarrow> (\<exists>h. w_envs w a = Some h \<and> eh_env h \<noteq> None)"
    "\<And>a b h k. w_envs w a = Some h \<Longrightarrow> w_envs w b = Some k \<Longrightarrow> eh_env h \<noteq> None \<Longrightarrow> eh_env k \<noteq> None
          \<Longrightarrow> a \<noteq> b \<Longrightarrow> eh_pid h = eh_pid k \<Longrightarrow> eh_key h \<noteq> eh_key k"
  shows "open_inv w"
  unfolding open_inv_def
  apply (intro conjI)
  subgoal by (rule assms(1))
  subgoal using assms(2) by blast
  subgoal using assms(3) by blast
  done

lemma own_invD:
  assumes "own_inv w"
  shows "\<And>a h t. w_envs w a = Some h \<Longrightarrow> t \<in> set (eh_live h)
          \<Longrightarrow> \<exists>th. w_txns w t = Some th \<and> th_owner th = Some a"
    and "\<And>a h. w_envs w a = Some h \<Longrightarrow> length (eh_live h) \<le> 1"
    and "\<And>a h. w_envs w a = Some h \<Longrightarrow> eh_env h = None \<Longrightarrow> eh_live h = []"
    and "\<And>t th. w_txns w t = Some th \<Longrightarrow> th_owner th = None
          \<Longrightarrow> th_txn th = None \<and> th_state th \<noteq> st_active"
    and "\<And>t th a. w_txns w t = Some th \<Longrightarrow> th_owner th = Some a
          \<Longrightarrow> th_txn th \<noteq> None \<and> th_state th = st_active"
    and "\<And>t th a. w_txns w t = Some th \<Longrightarrow> th_owner th = Some a
          \<Longrightarrow> \<exists>h. w_envs w a = Some h \<and> eh_live h = [t] \<and> th_pid th = eh_pid h
                \<and> (th_poisoned th \<longrightarrow> eh_poisoned h)"
  using assms unfolding own_inv_def by - (elim conjE, metis)+

lemma own_invI:
  assumes "\<And>a h t. w_envs w a = Some h \<Longrightarrow> t \<in> set (eh_live h)
          \<Longrightarrow> \<exists>th. w_txns w t = Some th \<and> th_owner th = Some a"
    and "\<And>a h. w_envs w a = Some h \<Longrightarrow> length (eh_live h) \<le> 1"
    and "\<And>a h. w_envs w a = Some h \<Longrightarrow> eh_env h = None \<Longrightarrow> eh_live h = []"
    and "\<And>t th. w_txns w t = Some th \<Longrightarrow> th_owner th = None
          \<Longrightarrow> th_txn th = None \<and> th_state th \<noteq> st_active"
    and "\<And>t th a. w_txns w t = Some th \<Longrightarrow> th_owner th = Some a
          \<Longrightarrow> th_txn th \<noteq> None \<and> th_state th = st_active"
    and "\<And>t th a. w_txns w t = Some th \<Longrightarrow> th_owner th = Some a
          \<Longrightarrow> \<exists>h. w_envs w a = Some h \<and> eh_live h = [t] \<and> th_pid th = eh_pid h
                \<and> (th_poisoned th \<longrightarrow> eh_poisoned h)"
  shows "own_inv w"
  unfolding own_inv_def
  apply (intro conjI)
  subgoal using assms(1-3) by blast
  subgoal using assms(4-6) by blast
  done


lemma inv_calm: "inv w \<Longrightarrow> w_guard w = []" "inv w \<Longrightarrow> panic_wf (w_last_panic w)"
  by (simp_all add: inv_def calm_def)

lemma inv_env_usable:
  "inv w \<Longrightarrow> w_envs w a = Some h \<Longrightarrow> eh_env h = Some e \<Longrightarrow> healthy w h \<Longrightarrow> e \<in> set (w_usable_envs w)"
  using use_invD(2) [of w a h e] by (simp add: inv_def)

lemma inv_owner:
  assumes "inv w" and "w_txns w t = Some th" and "th_owner th = Some a"
  obtains h p where "w_envs w a = Some h" and "eh_live h = [t]" and "th_txn th = Some p"
    and "th_state th = st_active" and "th_pid th = eh_pid h" and "th_poisoned th \<Longrightarrow> eh_poisoned h"
    and "eh_env h \<noteq> None"
proof -
  have o: "own_inv w" using assms(1) by (simp add: inv_def)
  obtain h where h: "w_envs w a = Some h" "eh_live h = [t]" "th_pid th = eh_pid h"
      "th_poisoned th \<longrightarrow> eh_poisoned h"
    using own_invD(6) [OF o assms(2,3)] by blast
  moreover have "eh_env h \<noteq> None" using own_invD(3) [OF o h(1)] h(2) by auto
  moreover obtain p where "th_txn th = Some p" "th_state th = st_active"
    using own_invD(5) [OF o assms(2,3)] by blast
  ultimately show thesis using that by blast
qed

lemma inv_live:
  assumes "inv w" and "w_envs w a = Some h" and "t \<in> set (eh_live h)"
  obtains th p where "w_txns w t = Some th" and "th_owner th = Some a" and "th_txn th = Some p"
    and "eh_live h = [t]" and "eh_env h \<noteq> None"
proof -
  have o: "own_inv w" using assms(1) by (simp add: inv_def)
  obtain th where th: "w_txns w t = Some th" "th_owner th = Some a"
    using own_invD(1) [OF o assms(2,3)] by blast
  obtain k p where k: "w_envs w a = Some k" "eh_live k = [t]" "th_txn th = Some p" "eh_env k \<noteq> None"
    by (rule inv_owner [OF assms(1) th]) blast
  then have "k = h" using assms(2) by simp
  with th k show thesis using that by blast
qed

lemma inv_no_owner:
  assumes "inv w" and "w_txns w t = Some th" and "th_owner th = None"
  shows "th_txn th = None" and "th_state th \<noteq> st_active"
  using own_invD(4) [of w t th] assms by (simp_all add: inv_def)

lemma inv_txn_usable:
  assumes "inv w" and "w_txns w t = Some th" and "th_owner th = Some a" and "w_envs w a = Some h"
    and "healthy w h" and "th_txn th = Some p" and "eh_env h = Some e"
  shows "map_of (w_usable_txns w) p = Some e"
proof -
  have u: "use_inv w" using assms(1) by (simp add: inv_def)
  have "(p, e) \<in> set (w_usable_txns w)"
    by (rule use_invD(6) [OF u assms(2) assms(6) assms(3) assms(4) assms(7) assms(5)])
  moreover have "distinct (map fst (w_usable_txns w))" using u by (simp add: use_inv_def)
  ultimately show ?thesis by simp
qed

lemma inv_fresh:
  assumes "inv w"
  shows "w_envs w (w_next w) = None" "w_txns w (w_next w) = None" "w_xps w (w_next w) = None"
  using heap_invD(3-5) [OF inv_D(1) [OF assms]] by (metis less_irrefl not_None_eq)+

lemma inv_env_ptr:
  assumes "inv w" and "w_xps w x = Some p" and "xp_tag p = env_tag"
  shows "xp_addr p = ANull \<or> (\<exists>a h. xp_addr p = AEnv a \<and> w_envs w a = Some h)"
  by (rule ptr_invD(1) [OF inv_D(2) [OF assms(1)] assms(2,3)])

lemma inv_txn_ptr:
  assumes "inv w" and "w_xps w x = Some p" and "xp_tag p = txn_tag"
  shows "xp_addr p = ANull \<or> (\<exists>t h. xp_addr p = ATxn t \<and> w_txns w t = Some h)"
  by (rule ptr_invD(2) [OF inv_D(2) [OF assms(1)] assms(2,3)])

section \<open>Transformers\<close>

lemma ptr_inv_dom:
  assumes "ptr_inv w" and "w_xps w' = w_xps w"
    and "dom (w_envs w) \<subseteq> dom (w_envs w')" and "dom (w_txns w) \<subseteq> dom (w_txns w')"
  shows "ptr_inv w'"
proof -
  have e: "w_envs w a = Some h \<Longrightarrow> \<exists>h. w_envs w' a = Some h" for a h using assms(3) by blast
  have t: "w_txns w a = Some h \<Longrightarrow> \<exists>h. w_txns w' a = Some h" for a h using assms(4) by blast
  show ?thesis
    apply (rule ptr_invI; unfold assms(2))
    subgoal using ptr_invD(1) [OF assms(1)] e by blast
    subgoal using ptr_invD(2) [OF assms(1)] t by blast
    subgoal by (rule ptr_invD(3) [OF assms(1)])
    subgoal by (rule ptr_invD(4) [OF assms(1)])
    subgoal by (rule ptr_invD(5) [OF assms(1)])
    done
qed

text \<open>
  Most steps change no handle but in its caches and roots, or mark it poisoned: a handle keeps
  everything the invariant reads. Native objects may die, but only those no healthy handle holds.
\<close>

definition env_le :: "env_handle \<Rightarrow> env_handle \<Rightarrow> bool" where
  "env_le h k \<longleftrightarrow> eh_env k = eh_env h \<and> eh_pid k = eh_pid h \<and> eh_key k = eh_key h
     \<and> eh_live k = eh_live h \<and> (eh_poisoned h \<longrightarrow> eh_poisoned k)"

definition txn_le :: "txn_handle \<Rightarrow> txn_handle \<Rightarrow> bool" where
  "txn_le h k \<longleftrightarrow> th_txn k = th_txn h \<and> th_owner k = th_owner h \<and> th_state k = th_state h
     \<and> th_pid k = th_pid h"

lemma le_refl [simp]: "env_le h h" "txn_le k k"
  by (simp_all add: env_le_def txn_le_def)

definition same_frame :: "'n world \<Rightarrow> 'n world \<Rightarrow> bool" where
  "same_frame w w' \<longleftrightarrow>
     w_pid w' = w_pid w \<and> w_next w \<le> w_next w' \<and> w_xps w' = w_xps w
     \<and> w_live_env_handles w' = w_live_env_handles w
     \<and> w_live_txn_handles w' = w_live_txn_handles w \<and> w_open w' = w_open w
     \<and> w_guard w' = w_guard w \<and> panic_wf (w_last_panic w') \<and> w_ids w \<le> w_ids w'"

text \<open>Every handle of either world is one of the other, relabelled.\<close>

definition relabels :: "'n world \<Rightarrow> 'n world \<Rightarrow> bool" where
  "relabels w w' \<longleftrightarrow>
     (\<forall>a. rel_option env_le (w_envs w a) (w_envs w' a)) \<and> (\<forall>t. rel_option txn_le (w_txns w t) (w_txns w' t))"

lemma relabelsD:
  assumes "relabels w w'"
  shows "\<And>a k. w_envs w' a = Some k \<Longrightarrow> \<exists>h. w_envs w a = Some h \<and> env_le h k"
    and "\<And>a h. w_envs w a = Some h \<Longrightarrow> \<exists>k. w_envs w' a = Some k \<and> env_le h k"
    and "\<And>t k. w_txns w' t = Some k \<Longrightarrow> \<exists>h. w_txns w t = Some h \<and> txn_le h k"
    and "\<And>t h. w_txns w t = Some h \<Longrightarrow> \<exists>k. w_txns w' t = Some k \<and> txn_le h k"
    and "dom (w_envs w') = dom (w_envs w)" and "dom (w_txns w') = dom (w_txns w)"
  using assms unfolding relabels_def dom_def by (metis option_rel_Some1 option_rel_Some2 rel_option_None1 rel_option_None2)+

lemma own_inv_relabels:
  assumes J: "own_inv w" and R: "relabels w w'"
    and P: "\<And>t th a h. w_txns w' t = Some th \<Longrightarrow> th_owner th = Some a \<Longrightarrow> w_envs w' a = Some h
        \<Longrightarrow> th_poisoned th \<Longrightarrow> eh_poisoned h"
  shows "own_inv w'"
proof -
  note D = own_invD [OF J] and eb = relabelsD(1) [OF R] and ef = relabelsD(2) [OF R]
    and tb = relabelsD(3) [OF R] and tf = relabelsD(4) [OF R]
  show ?thesis
    apply (rule own_invI)
    subgoal using D(1) eb tf unfolding env_le_def txn_le_def by metis
    subgoal using D(2) eb unfolding env_le_def by metis
    subgoal using D(3) eb unfolding env_le_def by metis
    subgoal using D(4) tb unfolding txn_le_def by metis
    subgoal using D(5) tb unfolding txn_le_def by metis
    subgoal for t th a
      using D(6) tb [of t th] ef [of a] P [of t th a] unfolding env_le_def txn_le_def by metis
    done
qed

lemma open_inv_relabels:
  assumes J: "open_inv w" and R: "relabels w w'" and c: "w_open w' = w_open w"
  shows "open_inv w'"
proof -
  note D = open_invD [OF J] and eb = relabelsD(1) [OF R] and ef = relabelsD(2) [OF R]
  show ?thesis
    apply (rule open_invI)
    subgoal unfolding c by (rule D(1))
    subgoal using D(2) eb ef unfolding c env_le_def by metis
    subgoal for a b h k using D(3) [of a _ b] eb [of a h] eb [of b k] unfolding env_le_def by metis
    done
qed

lemma use_inv_relabels:
  assumes J: "use_inv w" and R: "relabels w w'" and c: "w_pid w' = w_pid w" and le: "w_ids w \<le> w_ids w'"
    and UE: "\<And>a h e. w_envs w' a = Some h \<Longrightarrow> eh_env h = Some e \<Longrightarrow> healthy w' h
        \<Longrightarrow> e \<in> set (w_usable_envs w) \<Longrightarrow> e \<in> set (w_usable_envs w')"
    and UT: "w_usable_txns w' = filter K (w_usable_txns w)"
    and K: "\<And>a h e p. w_envs w' a = Some h \<Longrightarrow> eh_env h = Some e \<Longrightarrow> healthy w' h \<Longrightarrow> K (p, e)"
  shows "use_inv w'"
proof -
  note D = use_invD [OF J] and eb = relabelsD(1) [OF R] and tb = relabelsD(3) [OF R] and tf = relabelsD(4) [OF R]
  have hb: "healthy w h" if "healthy w' k" "env_le h k" for h k
    using that by (auto simp: healthy_def env_le_def c)
  show ?thesis
    apply (rule use_invI)
    subgoal for a h e using D(1) [of a _ e] eb [of a h] le unfolding env_le_def by (metis less_le_trans)
    subgoal for a h e using D(2) eb [of a h] hb [of h] UE [of a h e] unfolding env_le_def by (metis env_le_def)
    subgoal for t th p using D(3) [of t _ p] tb [of t th] le unfolding txn_le_def by (metis less_le_trans)
    subgoal for a b h k e
      using D(4) [of a _ b _ e] eb [of a h] eb [of b k] unfolding env_le_def by metis
    subgoal for s t sh th p
      using D(5) [of s _ t _ p] tb [of s sh] tb [of t th] unfolding txn_le_def by metis
    subgoal for t th p a h e
      using D(6) tb [of t th] eb [of a h] hb [of h] K [of a h e p]
      unfolding UT env_le_def txn_le_def by (metis (no_types, lifting) env_le_def mem_Collect_eq set_filter)
    subgoal using D(7) unfolding UT by (rule distinct_map_filter)
    subgoal using D(8) le unfolding UT by (auto intro: less_le_trans)
    subgoal for p e a h
      using D(9) [of p e a] eb [of a h] hb [of h] tf unfolding UT env_le_def txn_le_def
      by (metis (no_types, lifting) env_le_def mem_Collect_eq set_filter)
    done
qed

lemma inv_relabel:
  assumes I: "inv w" and F: "same_frame w w'"
    and E: "\<And>a. rel_option env_le (w_envs w a) (w_envs w' a)"
    and T: "\<And>t. rel_option txn_le (w_txns w t) (w_txns w' t)"
    and P: "\<And>t th a h. w_txns w' t = Some th \<Longrightarrow> th_owner th = Some a \<Longrightarrow> w_envs w' a = Some h
        \<Longrightarrow> th_poisoned th \<Longrightarrow> eh_poisoned h"
    and UE: "\<And>a h e. w_envs w' a = Some h \<Longrightarrow> eh_env h = Some e \<Longrightarrow> healthy w' h
        \<Longrightarrow> e \<in> set (w_usable_envs w) \<Longrightarrow> e \<in> set (w_usable_envs w')"
    and UT: "w_usable_txns w' = filter K (w_usable_txns w)"
    and K: "\<And>a h e p. w_envs w' a = Some h \<Longrightarrow> eh_env h = Some e \<Longrightarrow> healthy w' h \<Longrightarrow> K (p, e)"
  shows "inv w'"
proof (rule invI)
  note I = inv_D [OF I] and f = F [unfolded same_frame_def]
  have R: "relabels w w'" using E T by (simp add: relabels_def)
  show "heap_inv w'"
    using I(1) f relabelsD(1,3) [OF R] unfolding heap_inv_def relabelsD(5,6) [OF R] by (metis less_le_trans)
  show "ptr_inv w'" by (rule ptr_inv_dom [OF I(2)]) (use f relabelsD(5,6) [OF R] in auto)
  show "own_inv w'" by (rule own_inv_relabels [OF I(3) R P])
  show "open_inv w'" by (rule open_inv_relabels [OF I(4) R]) (use f in simp)
  show "use_inv w'" by (rule use_inv_relabels [OF I(5) R _ _ UE UT K]) (use f in simp_all)
  show "calm w'" using I(6) f by (simp add: calm_def)
qed

end
