(* ===== verification/Mdbx_Moves.thy ===== *)
theory Mdbx_Moves
  imports Mdbx_Inv
begin

text \<open>
  The state changes the operations amount to, each shown to keep the invariant: caches, roots and
  poisoning, the end of a transaction, the close of an environment, the birth of both, the
  deletion of handles, the changes R can make to an external pointer, and \<open>fork()\<close>.
\<close>

section \<open>Nothing but labels\<close>

lemma open_inv_cong:
  assumes "open_inv w" and "w_open w' = w_open w" and "w_envs w' = w_envs w"
  shows "open_inv w'"
  using assms(1) unfolding open_inv_def assms(2,3) .

lemma inv_same:
  assumes "inv w" and "same_frame w w'" and "w_envs w' = w_envs w" and "w_txns w' = w_txns w"
    and "set (w_usable_envs w) \<subseteq> set (w_usable_envs w')" and "w_usable_txns w' = w_usable_txns w"
  shows "inv w'"
proof (rule inv_relabel [OF assms(1,2), where K = "\<lambda>_. True"])
  show "rel_option env_le (w_envs w a) (w_envs w' a)" for a
    unfolding assms(3) by (cases "w_envs w a") auto
  show "rel_option txn_le (w_txns w t) (w_txns w' t)" for t
    unfolding assms(4) by (cases "w_txns w t") auto
  show "eh_poisoned h" if "w_txns w' t = Some th" "th_owner th = Some a" "w_envs w' a = Some h" "th_poisoned th"
    for t th a h
    using own_invD(6) [OF inv_D(3) [OF assms(1)], of t th a] that unfolding assms(3,4) by auto
qed (use assms(5,6) in auto)

lemma use_inv_cong:
  assumes "use_inv w" and "w_pid w' = w_pid w" and "w_envs w' = w_envs w" and "w_txns w' = w_txns w"
    and "w_ids w' = w_ids w" and "w_usable_envs w' = w_usable_envs w" and "w_usable_txns w' = w_usable_txns w"
  shows "use_inv w'"
proof -
  have h: "healthy w' = healthy w" by (simp add: fun_eq_iff healthy_def assms(2))
  show ?thesis using assms(1) unfolding use_inv_def h assms(3-7) .
qed

lemma same_frameI:
  "inv w \<Longrightarrow> w_pid w' = w_pid w \<Longrightarrow> w_next w \<le> w_next w' \<Longrightarrow> w_xps w' = w_xps w
    \<Longrightarrow> w_live_env_handles w' = w_live_env_handles w \<Longrightarrow> w_live_txn_handles w' = w_live_txn_handles w
    \<Longrightarrow> w_open w' = w_open w \<Longrightarrow> w_guard w' = w_guard w \<Longrightarrow> panic_wf (w_last_panic w')
    \<Longrightarrow> w_ids w \<le> w_ids w' \<Longrightarrow> same_frame w w'"
  by (simp add: same_frame_def)

lemma inv_lib [simp]: "inv w \<Longrightarrow> inv (w\<lparr>w_lib := n\<rparr>)"
  by (rule inv_same) (auto simp: same_frame_def inv_calm)

lemma inv_panic_record: "inv w \<Longrightarrow> panic_wf q \<Longrightarrow> inv (w\<lparr>w_last_panic := q\<rparr>)"
  by (rule inv_same) (auto simp: same_frame_def)

lemma inv_next: "inv w \<Longrightarrow> w_next w \<le> n \<Longrightarrow> inv (w\<lparr>w_next := n\<rparr>)"
  by (rule inv_same) (auto simp: same_frame_def inv_calm)

lemma inv_abandoned_list: "inv w \<Longrightarrow> inv (w\<lparr>w_abandoned := xs\<rparr>)"
  by (rule inv_same) (auto simp: same_frame_def inv_calm)

lemma inv_abandoned: "inv w \<Longrightarrow> abandoned_more w w' \<Longrightarrow> inv w'"
  unfolding abandoned_more_def using inv_abandoned_list by blast

lemma inv_put_env:
  assumes "inv w" and "w_envs w a = Some h" and "env_le h k"
  shows "inv (put_env a k w)"
proof (rule inv_relabel [OF assms(1), where K = "\<lambda>_. True"])
  show "same_frame w (put_env a k w)" using inv_calm [OF assms(1)] by (simp add: same_frame_def)
  show "rel_option env_le (w_envs w b) (w_envs (put_env a k w) b)" for b
    using assms(2,3) by (cases "w_envs w b") auto
  show "rel_option txn_le (w_txns w t) (w_txns (put_env a k w) t)" for t
    by (cases "w_txns w t") auto
  show "eh_poisoned g" if "w_txns (put_env a k w) t = Some th" "th_owner th = Some b"
      "w_envs (put_env a k w) b = Some g" "th_poisoned th" for t th b g
    using own_invD(6) [OF inv_D(3) [OF assms(1)], of t th b] that assms(2,3)
    by (auto simp: env_le_def split: if_splits)
qed auto

lemma inv_put_txn:
  assumes "inv w" and "w_txns w t = Some h" and "txn_le h k" and "th_poisoned k \<Longrightarrow> th_poisoned h"
  shows "inv (put_txn t k w)"
proof (rule inv_relabel [OF assms(1), where K = "\<lambda>_. True"])
  show "same_frame w (put_txn t k w)" using inv_calm [OF assms(1)] by (simp add: same_frame_def)
  show "rel_option env_le (w_envs w b) (w_envs (put_txn t k w) b)" for b
    by (cases "w_envs w b") auto
  show "rel_option txn_le (w_txns w s) (w_txns (put_txn t k w) s)" for s
    using assms(2,3) by (cases "w_txns w s") auto
  show "eh_poisoned g" if "w_txns (put_txn t k w) s = Some th" "th_owner th = Some b"
      "w_envs (put_txn t k w) b = Some g" "th_poisoned th" for s th b g
    using own_invD(6) [OF inv_D(3) [OF assms(1)], of s _ b] that assms(2-4)
    by (fastforce simp: txn_le_def split: if_splits)
qed auto

section \<open>After a panic\<close>

text \<open>
  Between the panic and the poison callback: the native environment is dead, or is left alone, and
  nothing else changed.
\<close>

definition dead :: "nat \<Rightarrow> 'n world \<Rightarrow> 'n world \<Rightarrow> bool" where
  "dead e w w' \<longleftrightarrow>
     set (w_usable_envs w) - {e} \<subseteq> set (w_usable_envs w')
     \<and> (\<exists>K. w_usable_txns w' = filter K (w_usable_txns w) \<and> (\<forall>q. snd q \<noteq> e \<longrightarrow> K q))"

definition crashed :: "nat \<Rightarrow> 'n world \<Rightarrow> 'n world \<Rightarrow> bool" where
  "crashed e w w' \<longleftrightarrow>
     same_frame w w' \<and> w_envs w' = w_envs w \<and> w_txns w' = w_txns w \<and> dead e w w'"

lemma dead_kill: "w_usable_envs w' = removeAll e (w_usable_envs w)
    \<Longrightarrow> w_usable_txns w' = filter (\<lambda>p. snd p \<noteq> e) (w_usable_txns w) \<Longrightarrow> dead e w w'"
  by (auto simp: dead_def)

lemma dead_same: "w_usable_envs w' = w_usable_envs w \<Longrightarrow> w_usable_txns w' = w_usable_txns w \<Longrightarrow> dead e w w'"
  unfolding dead_def by (auto intro!: exI [of _ "\<lambda>_. True"])

lemma poisoned_unhealthy [simp]: "\<not> healthy w (h\<lparr>eh_poisoned := True\<rparr>)"
  by (simp add: healthy_def)

lemma inv_crash_env:
  assumes I: "inv w" and C: "crashed e w v" and h: "w_envs w a = Some h" "eh_env h = Some e"
  shows "inv (put_env a (h\<lparr>eh_poisoned := True\<rparr>) v)"
proof -
  obtain K where K: "w_usable_txns v = filter K (w_usable_txns w)" "\<And>q. snd q \<noteq> e \<Longrightarrow> K q"
    using C by (auto simp: crashed_def dead_def)
  have U: "e' \<in> set (w_usable_envs v)" if "e' \<in> set (w_usable_envs w)" "e' \<noteq> e" for e'
    using C that by (auto simp: crashed_def dead_def)
  let ?w = "put_env a (h\<lparr>eh_poisoned := True\<rparr>) v"
  note c = C [unfolded crashed_def]
  have other: "e' \<noteq> e" if "w_envs ?w b = Some k" "eh_env k = Some e'" "healthy ?w k" for b k e'
    using that c h use_invD(4) [OF inv_D(5) [OF I], of a h b k e] by (auto split: if_splits)
  show ?thesis
  proof (rule inv_relabel [OF I, where K = K])
    show "same_frame w ?w" using c by (simp add: same_frame_def)
    show "rel_option env_le (w_envs w b) (w_envs ?w b)" for b
      using h c by (cases "w_envs w b") (auto simp: env_le_def)
    show "rel_option txn_le (w_txns w t) (w_txns ?w t)" for t
      using c by (cases "w_txns w t") auto
    show "eh_poisoned g" if "w_txns ?w t = Some th" "th_owner th = Some b"
        "w_envs ?w b = Some g" "th_poisoned th" for t th b g
      using own_invD(6) [OF inv_D(3) [OF I], of t th b] that c by (auto split: if_splits)
    show "w_usable_txns ?w = filter K (w_usable_txns w)" using K by simp
    show "e' \<in> set (w_usable_envs ?w)" if "w_envs ?w b = Some k" "eh_env k = Some e'" "healthy ?w k"
        "e' \<in> set (w_usable_envs w)" for b k e'
      using other [OF that(1-3)] that(4) U by simp
    show "K (p, e')" if "w_envs ?w b = Some k" "eh_env k = Some e'" "healthy ?w k" for b k e' p
      using other [OF that] K(2) by simp
  qed
qed

lemma inv_crash_txn:
  assumes I: "inv w" and C: "crashed e w v" and h: "w_envs w a = Some h" "eh_env h = Some e"
    and t: "w_txns w t = Some th" "th_owner th = Some a"
  shows "inv (put_env a (h\<lparr>eh_poisoned := True\<rparr>) (put_txn t (th\<lparr>th_poisoned := True\<rparr>) v))"
proof -
  obtain K where K: "w_usable_txns v = filter K (w_usable_txns w)" "\<And>q. snd q \<noteq> e \<Longrightarrow> K q"
    using C by (auto simp: crashed_def dead_def)
  have U: "e' \<in> set (w_usable_envs v)" if "e' \<in> set (w_usable_envs w)" "e' \<noteq> e" for e'
    using C that by (auto simp: crashed_def dead_def)
  let ?w = "put_env a (h\<lparr>eh_poisoned := True\<rparr>) (put_txn t (th\<lparr>th_poisoned := True\<rparr>) v)"
  note c = C [unfolded crashed_def]
  have other: "e' \<noteq> e" if "w_envs ?w b = Some k" "eh_env k = Some e'" "healthy ?w k" for b k e'
    using that c h use_invD(4) [OF inv_D(5) [OF I], of a h b k e] by (auto split: if_splits)
  show ?thesis
  proof (rule inv_relabel [OF I, where K = K])
    show "same_frame w ?w" using c by (simp add: same_frame_def)
    show "rel_option env_le (w_envs w b) (w_envs ?w b)" for b
      using h c by (cases "w_envs w b") (auto simp: env_le_def)
    show "rel_option txn_le (w_txns w s) (w_txns ?w s)" for s
      using t c by (cases "w_txns w s") (auto simp: txn_le_def)
    show "eh_poisoned g" if "w_txns ?w s = Some sh" "th_owner sh = Some b"
        "w_envs ?w b = Some g" "th_poisoned sh" for s sh b g
      using own_invD(6) [OF inv_D(3) [OF I], of s sh b] that c t by (auto split: if_splits)
    show "w_usable_txns ?w = filter K (w_usable_txns w)" using K by simp
    show "e' \<in> set (w_usable_envs ?w)" if "w_envs ?w b = Some k" "eh_env k = Some e'" "healthy ?w k"
        "e' \<in> set (w_usable_envs w)" for b k e'
      using other [OF that(1-3)] that(4) U by simp
    show "K (p, e')" if "w_envs ?w b = Some k" "eh_env k = Some e'" "healthy ?w k" for b k e' p
      using other [OF that] K(2) by simp
  qed
qed

section \<open>The end of a transaction\<close>

text \<open>The entries of \<open>w_usable_txns\<close> of another healthy environment are not this transaction's.\<close>

lemma inv_other_txn:
  assumes "inv w" and "w_txns w t = Some th" "th_txn th = Some p" "th_owner th = Some a"
    and "w_envs w b = Some k" "eh_env k = Some e" "healthy w k" "b \<noteq> a" "(q, e) \<in> set (w_usable_txns w)"
  shows "q \<noteq> p"
proof
  assume "q = p"
  then obtain s sh where s: "eh_live k = [s]" "w_txns w s = Some sh" "th_txn sh = Some p"
    using use_invD(9) [OF inv_D(5) [OF assms(1)] assms(9,5,6,7)] by blast
  then have "s = t" using use_invD(5) [OF inv_D(5) [OF assms(1)] _ assms(2) _ assms(3)] by blast
  moreover have "th_owner sh = Some b"
    using own_invD(1) [OF inv_D(3) [OF assms(1)] assms(5)] s by fastforce
  ultimately show False using s(2) assms(2,4,8) by simp
qed

text \<open>
  The end of transaction \<open>t\<close> of environment \<open>a\<close>, as a relation of the states before and after: the
  handles are detached from each other, and \<open>K\<close> says which native transactions may be used still.
\<close>

definition txn_over :: "'n world \<Rightarrow> 'n world \<Rightarrow> nat \<Rightarrow> txn_handle \<Rightarrow> txn_handle \<Rightarrow> nat \<Rightarrow> env_handle \<Rightarrow> env_handle \<Rightarrow> (nat \<times> nat \<Rightarrow> bool) \<Rightarrow> bool" where
  "txn_over w w' t th th' a h h' K \<longleftrightarrow>
     same_frame w w' \<and> (w_txns w t = Some th \<and> th_owner th = Some a \<and> w_envs w a = Some h)
   \<and> (w_txns w' = (w_txns w)(t \<mapsto> th') \<and> th_txn th' = None \<and> th_owner th' = None \<and> th_state th' \<noteq> st_active)
   \<and> (w_envs w' = (w_envs w)(a \<mapsto> h') \<and> eh_live h' = [] \<and> eh_env h' = eh_env h \<and> eh_pid h' = eh_pid h
      \<and> eh_key h' = eh_key h \<and> (eh_poisoned h \<longrightarrow> eh_poisoned h'))
   \<and> (\<forall>b k e. w_envs w' b = Some k \<and> eh_env k = Some e \<and> healthy w k \<and> e \<in> set (w_usable_envs w) \<longrightarrow> e \<in> set (w_usable_envs w'))
   \<and> w_usable_txns w' = filter K (w_usable_txns w)
   \<and> (\<forall>b k e q. b \<noteq> a \<and> w_envs w b = Some k \<and> eh_env k = Some e \<and> healthy w k \<and> (q, e) \<in> set (w_usable_txns w) \<longrightarrow> K (q, e))
   \<and> (\<forall>p e. healthy w h' \<and> th_txn th = Some p \<and> eh_env h = Some e \<longrightarrow> \<not> K (p, e))"

lemma txn_overD:
  assumes "txn_over w w' t th th' a h h' K"
  shows "same_frame w w'" "w_txns w t = Some th" "th_owner th = Some a" "w_envs w a = Some h"
    "w_txns w' = (w_txns w)(t \<mapsto> th')" "th_txn th' = None" "th_owner th' = None" "th_state th' \<noteq> st_active"
    "w_envs w' = (w_envs w)(a \<mapsto> h')" "eh_live h' = []" "eh_env h' = eh_env h" "eh_pid h' = eh_pid h" "eh_key h' = eh_key h"
    "eh_poisoned h \<Longrightarrow> eh_poisoned h'"
    "\<And>b k e. w_envs w' b = Some k \<Longrightarrow> eh_env k = Some e \<Longrightarrow> healthy w k \<Longrightarrow> e \<in> set (w_usable_envs w) \<Longrightarrow> e \<in> set (w_usable_envs w')"
    "w_usable_txns w' = filter K (w_usable_txns w)"
    "\<And>b k e q. b \<noteq> a \<Longrightarrow> w_envs w b = Some k \<Longrightarrow> eh_env k = Some e \<Longrightarrow> healthy w k \<Longrightarrow> (q, e) \<in> set (w_usable_txns w) \<Longrightarrow> K (q, e)"
    "\<And>p e. healthy w h' \<Longrightarrow> th_txn th = Some p \<Longrightarrow> eh_env h = Some e \<Longrightarrow> \<not> K (p, e)"
  using assms unfolding txn_over_def by - (elim conjE, metis)+

lemma txn_over_handles:
  assumes I: "inv w" and B: "txn_over w w' t th th' a h h' K"
  shows "healthy w' = healthy w" "eh_live h = [t]"
    and "w_txns w s = Some sh \<Longrightarrow> th_owner sh = Some a \<Longrightarrow> s = t"
    and "w_envs w' b = Some k \<Longrightarrow> \<exists>g. w_envs w b = Some g \<and> eh_env g = eh_env k \<and> eh_pid g = eh_pid k \<and> eh_key g = eh_key k
      \<and> (healthy w k \<longrightarrow> healthy w g)"
proof -
  note J = inv_D [OF I] and F = txn_overD [OF B]
  show "healthy w' = healthy w" using F(1) by (simp add: healthy_def fun_eq_iff same_frame_def)
  show live: "eh_live h = [t]" using inv_owner [OF I F(2,3)] F(4) by (metis option.inject)
  show "w_txns w s = Some sh \<Longrightarrow> th_owner sh = Some a \<Longrightarrow> s = t" using own_invD(6) [OF J(3), of s sh a] F(4) live by auto
  show "w_envs w' b = Some k \<Longrightarrow> \<exists>g. w_envs w b = Some g \<and> eh_env g = eh_env k \<and> eh_pid g = eh_pid k \<and> eh_key g = eh_key k
      \<and> (healthy w k \<longrightarrow> healthy w g)"
    using F(4,9-14) by (auto simp: healthy_def split: if_splits)
qed

lemma txn_over_heap:
  assumes I: "inv w" and B: "txn_over w w' t th th' a h h' K"
  shows "heap_inv w'" "ptr_inv w'" "open_inv w'"
proof -
  note J = inv_D [OF I] and F = txn_overD [OF B]
  have c: "w_xps w' = w_xps w" "w_open w' = w_open w" "w_live_env_handles w' = w_live_env_handles w"
      "w_live_txn_handles w' = w_live_txn_handles w" "w_next w \<le> w_next w'"
    using F(1) by (simp_all add: same_frame_def)
  have de: "dom (w_envs w') = dom (w_envs w)" "dom (w_txns w') = dom (w_txns w)" using F(2,4,5,9) by auto
  show "heap_inv w'"
    using J(1) c(5) F(2,4) unfolding heap_inv_def de c(1-4)
    by (auto simp: F(5,9) intro: less_le_trans split: if_splits)
  show "ptr_inv w'" by (rule ptr_inv_dom [OF J(2) c(1)]) (simp_all add: de)
  show "open_inv w'"
    apply (rule open_invI)
    subgoal unfolding c by (rule open_invD(1) [OF J(4)])
    subgoal for b using open_invD(2) [OF J(4), of b] F(4,9,11) unfolding c by (cases "b = a") auto
    subgoal for b d k g
      using open_invD(3) [OF J(4), of b _ d] txn_over_handles(4) [OF I B, of b k] txn_over_handles(4) [OF I B, of d g] by metis
    done
qed

lemma txn_over_own:
  assumes I: "inv w" and B: "txn_over w w' t th th' a h h' K"
  shows "own_inv w'"
proof -
  note J = inv_D [OF I] and F = txn_overD [OF B]
  show ?thesis
    apply (rule own_invI)
    subgoal for b k s using own_invD(1) [OF J(3), of b k s] F(2,3,5,7,9,10) by (cases "b = a"; cases "s = t") auto
    subgoal for b k using own_invD(2) [OF J(3), of b k] F(9,10) by (cases "b = a") auto
    subgoal for b k using own_invD(3) [OF J(3), of b k] F(9,10) by (cases "b = a") auto
    subgoal for s sh using own_invD(4) [OF J(3), of s sh] F(5-8) by (cases "s = t") auto
    subgoal for s sh b using own_invD(5) [OF J(3), of s sh b] F(5,7) by (cases "s = t") auto
    subgoal for s sh b
    proof -
      assume u: "w_txns w' s = Some sh" "th_owner sh = Some b"
      have s: "w_txns w s = Some sh" "s \<noteq> t" using u F(5,7) by (auto split: if_splits)
      have "b \<noteq> a" using txn_over_handles(3) [OF I B s(1)] u(2) s(2) by auto
      then show ?thesis using own_invD(6) [OF J(3) s(1) u(2)] F(9) by auto
    qed
    done
qed

lemma txn_over_usable:
  assumes I: "inv w" and B: "txn_over w w' t th th' a h h' K"
    and u: "(p, e) \<in> set (w_usable_txns w')" "w_envs w' b = Some k" "eh_env k = Some e" "healthy w k"
  shows "\<exists>s sh. eh_live k = [s] \<and> w_txns w' s = Some sh \<and> th_txn sh = Some p"
proof -
  note J = inv_D [OF I] and F = txn_overD [OF B] and H = txn_over_handles [OF I B]
  show ?thesis
  proof (cases "b = a")
    case True
    then have k: "k = h'" "eh_env h = Some e" "healthy w h" using u F(9-14) by (auto simp: healthy_def)
    obtain s sh where "eh_live h = [s]" "w_txns w s = Some sh" "th_txn sh = Some p"
      using use_invD(9) [OF J(5) _ F(4) k(2,3), of p] u(1) F(16) by auto
    then have "\<not> K (p, e)" using F(18) [of p e] k u(4) H(2) F(2) by auto
    then show ?thesis using u(1) F(16) by auto
  next
    case False
    have k: "w_envs w b = Some k" using False u(2) F(9) by simp
    obtain s sh where s: "eh_live k = [s]" "w_txns w s = Some sh" "th_txn sh = Some p"
      using use_invD(9) [OF J(5) _ k u(3,4), of p] u(1) F(16) by auto
    have "th_owner sh = Some b" using own_invD(1) [OF J(3) k, of s] s by auto
    then have "s \<noteq> t" using False s(2) F(2,3) by auto
    then show ?thesis using s F(5) by auto
  qed
qed

lemma txn_over_use:
  assumes I: "inv w" and B: "txn_over w w' t th th' a h h' K"
  shows "use_inv w'"
proof -
  note J = inv_D [OF I] and F = txn_overD [OF B] and H = txn_over_handles [OF I B]
  have le: "w_ids w \<le> w_ids w'" using F(1) by (simp add: same_frame_def)
  have own: "(p, e) \<in> set (w_usable_txns w')" if u: "w_txns w' s = Some sh" "th_txn sh = Some p" "th_owner sh = Some b"
      "w_envs w' b = Some k" "eh_env k = Some e" "healthy w k" for s sh p b k e
  proof -
    have s: "w_txns w s = Some sh" "s \<noteq> t" using u(1,2) F(5,6) by (auto split: if_splits)
    have b: "b \<noteq> a" using H(3) [OF s(1)] u(3) s(2) by auto
    have k: "w_envs w b = Some k" using u(4) b F(9) by simp
    have "(p, e) \<in> set (w_usable_txns w)" by (rule use_invD(6) [OF J(5) s(1) u(2,3) k u(5,6)])
    then show ?thesis using F(17) [OF b k u(5,6)] F(16) by simp
  qed
  show ?thesis
    apply (rule use_invI; (unfold H(1))?)
    subgoal for b k e using use_invD(1) [OF J(5), of b _ e] H(4) [of b k] le by (metis less_le_trans)
    subgoal for b k e using use_invD(2) [OF J(5), of b _ e] H(4) [of b k] F(15) [of b k e] by metis
    subgoal for s sh p using use_invD(3) [OF J(5), of s sh p] F(5,6) le by (cases "s = t") auto
    subgoal for b d k g e using use_invD(4) [OF J(5), of b _ d _ e] H(4) [of b k] H(4) [of d g] by metis
    subgoal for r s rh sh p using use_invD(5) [OF J(5), of r rh s sh p] F(5,6) by (cases "r = t"; cases "s = t") auto
    subgoal by (rule own)
    subgoal using use_invD(7) [OF J(5)] unfolding F(16) by (rule distinct_map_filter)
    subgoal using use_invD(8) [OF J(5)] le unfolding F(16) by (auto intro: less_le_trans)
    subgoal by (rule txn_over_usable [OF I B])
    done
qed

lemma inv_end_txn:
  assumes I: "inv w" and F: "same_frame w w'"
    and t: "w_txns w t = Some th" "th_owner th = Some a" and a: "w_envs w a = Some h"
    and t': "w_txns w' = (w_txns w)(t \<mapsto> th')" "th_txn th' = None" "th_owner th' = None"
      "th_state th' \<noteq> st_active"
    and a': "w_envs w' = (w_envs w)(a \<mapsto> h')" "eh_live h' = []" "eh_env h' = eh_env h"
      "eh_pid h' = eh_pid h" "eh_key h' = eh_key h" "eh_poisoned h \<Longrightarrow> eh_poisoned h'"
    and UE: "\<And>b k e. w_envs w' b = Some k \<Longrightarrow> eh_env k = Some e \<Longrightarrow> healthy w k
        \<Longrightarrow> e \<in> set (w_usable_envs w) \<Longrightarrow> e \<in> set (w_usable_envs w')"
    and UT: "w_usable_txns w' = filter K (w_usable_txns w)"
    and K: "\<And>b k e q. b \<noteq> a \<Longrightarrow> w_envs w b = Some k \<Longrightarrow> eh_env k = Some e \<Longrightarrow> healthy w k
        \<Longrightarrow> (q, e) \<in> set (w_usable_txns w) \<Longrightarrow> K (q, e)"
    and N: "\<And>p e. healthy w h' \<Longrightarrow> th_txn th = Some p \<Longrightarrow> eh_env h = Some e \<Longrightarrow> \<not> K (p, e)"
  shows "inv w'"
proof -
  have B: "txn_over w w' t th th' a h h' K"
    unfolding txn_over_def using F t a t' a' UE UT K N by (intro conjI allI impI; (elim conjE)?; blast)
  have "calm w'" using inv_D(6) [OF I] F by (simp add: calm_def same_frame_def)
  then show ?thesis
    using txn_over_heap [OF I B] txn_over_own [OF I B] txn_over_use [OF I B] by (simp add: inv_def)
qed

section \<open>The close of an environment\<close>

lemma inv_close:
  assumes I: "inv w" and F: "same_frame (open_remove a w) w'"
    and a: "w_envs w a = Some h" "eh_live h = []"
    and a': "w_envs w' = (w_envs w)(a \<mapsto> h')" "eh_env h' = None" "eh_live h' = []"
    and T: "w_txns w' = w_txns w"
    and UE: "\<And>b k e. b \<noteq> a \<Longrightarrow> w_envs w b = Some k \<Longrightarrow> eh_env k = Some e \<Longrightarrow> healthy w k
        \<Longrightarrow> e \<in> set (w_usable_envs w) \<Longrightarrow> e \<in> set (w_usable_envs w')"
    and UT: "w_usable_txns w' = filter K (w_usable_txns w)"
    and K: "\<And>b k e q. b \<noteq> a \<Longrightarrow> w_envs w b = Some k \<Longrightarrow> eh_env k = Some e \<Longrightarrow> healthy w k
        \<Longrightarrow> (q, e) \<in> set (w_usable_txns w) \<Longrightarrow> K (q, e)"
  shows "inv w'"
proof (rule invI)
  note J = inv_D [OF I]
  have c: "w_pid w' = w_pid w" "w_xps w' = w_xps w" "w_open w' = removeAll a (w_open w)"
      "w_live_env_handles w' = w_live_env_handles w" "w_live_txn_handles w' = w_live_txn_handles w"
    and le: "w_next w \<le> w_next w'" "w_ids w \<le> w_ids w'"
    using F by (simp_all add: same_frame_def open_remove_def)
  have de: "dom (w_envs w') = dom (w_envs w)" using a by (auto simp: a'(1))
  have hb: "healthy w' = healthy w" by (simp add: healthy_def fun_eq_iff c)
  have no_owner: "th_owner th \<noteq> Some a" if "w_txns w t = Some th" for t th
    using own_invD(6) [OF J(3) that, of a] a by auto
  have held: "w_envs w b = Some k \<and> b \<noteq> a" if "w_envs w' b = Some k" "eh_env k \<noteq> None" for b k
    using that a'(1,2) by (auto split: if_splits)
  show "heap_inv w'"
    using J(1) le(1) a unfolding heap_inv_def de T c
    by (auto simp: a'(1) intro: less_le_trans split: if_splits)
  show "ptr_inv w'" by (rule ptr_inv_dom [OF J(2) c(2)]) (simp_all add: de T)
  show "own_inv w'"
    apply (rule own_invI; (unfold T)?)
    subgoal for b k s using own_invD(1) [OF J(3), of b k s] a' by (cases "b = a") auto
    subgoal for b k using own_invD(2) [OF J(3), of b k] a' by (cases "b = a") auto
    subgoal for b k using own_invD(3) [OF J(3), of b k] a' by (cases "b = a") auto
    subgoal by (rule own_invD(4) [OF J(3)])
    subgoal by (rule own_invD(5) [OF J(3)])
    subgoal for s sh b using own_invD(6) [OF J(3), of s sh b] no_owner [of s sh] a'(1) by auto
    done
  show "open_inv w'"
    apply (rule open_invI)
    subgoal unfolding c by (rule distinct_removeAll) (rule open_invD(1) [OF J(4)])
    subgoal for b using open_invD(2) [OF J(4), of b] a'(1,2) unfolding c by (cases "b = a") auto
    subgoal for b d k g
      using open_invD(3) [OF J(4), of b k d g] held [of b k] held [of d g] by blast
    done
  show "use_inv w'"
    apply (rule use_invI; (unfold hb T)?)
    subgoal for b k e using use_invD(1) [OF J(5), of b k e] held [of b k] le(2) by auto
    subgoal for b k e using use_invD(2) [OF J(5), of b k e] held [of b k] UE [of b k e] by auto
    subgoal for s sh p using use_invD(3) [OF J(5), of s sh p] le(2) by auto
    subgoal for b d k g e using use_invD(4) [OF J(5), of b k d g e] held [of b k] held [of d g] by auto
    subgoal by (rule use_invD(5) [OF J(5)])
    subgoal for s sh p b k e
      using use_invD(6) [OF J(5), of s sh p b k e] held [of b k] K [of b k e p] UT by auto
    subgoal using use_invD(7) [OF J(5)] unfolding UT by (rule distinct_map_filter)
    subgoal using use_invD(8) [OF J(5)] le(2) unfolding UT by (auto intro: less_le_trans)
    subgoal for p e b k using use_invD(9) [OF J(5), of p e b k] held [of b k] UT by auto
    done
  show "calm w'" using J(6) F by (simp add: calm_def same_frame_def open_remove_def)
qed

section \<open>External pointers\<close>

text \<open>R may change the class and the attributes of a pointer, and the code clears its address.\<close>

lemma inv_put_xptr:
  assumes I: "inv w" and x: "w_xps w x = Some p"
    and p': "xp_tag p' = xp_tag p" "xp_addr p' = xp_addr p \<or> xp_addr p' = ANull"
  shows "inv (put_xptr x p' w)"
proof (rule invI)
  note J = inv_D [OF I]
  let ?w = "put_xptr x p' w"
  show "heap_inv ?w" using J(1) x by (auto simp: heap_inv_def)
  have old: "\<exists>r. w_xps w y = Some r \<and> xp_tag q = xp_tag r \<and> (xp_addr q = xp_addr r \<or> xp_addr q = ANull)"
    if "w_xps ?w y = Some q" for y q
    using that x p' by (auto split: if_splits)
  show "ptr_inv ?w"
    apply (rule ptr_invI)
    subgoal for y q using ptr_invD(1) [OF J(2), of y] old [of y q] by (metis put_simps(7,8))
    subgoal for y q using ptr_invD(2) [OF J(2), of y] old [of y q] by (metis put_simps(7,8))
    subgoal for y q a using ptr_invD(3) [OF J(2), of y _ a] old [of y q] by (metis paddr.distinct(1))
    subgoal for y q a using ptr_invD(4) [OF J(2), of y _ a] old [of y q] by (metis paddr.distinct(3))
    subgoal for y z q r
      using ptr_invD(5) [OF J(2), of y _ z] old [of y q] old [of z r] by metis
    done
  show "own_inv ?w" using J(3) by (simp add: own_inv_def)
  show "open_inv ?w" by (rule open_inv_cong [OF J(4)]) simp_all
  show "use_inv ?w" by (rule use_inv_cong [OF J(5)]) simp_all
  show "calm ?w" using J(6) by (simp add: calm_def)
qed

text \<open>
  Pointers R makes by other means: another package's, or one of ours restored from a saved
  workspace, whose address is then null.
\<close>

lemma inv_new_xptr:
  assumes I: "inv w" and p: "xp_addr p = ANull \<or> xp_addr p = AForeign \<and> xp_tag p \<noteq> env_tag \<and> xp_tag p \<noteq> txn_tag"
  shows "inv (put_xptr (w_next w) p (w\<lparr>w_next := w_next w + 1\<rparr>))"
proof (rule invI)
  note J = inv_D [OF I]
  let ?w = "put_xptr (w_next w) p (w\<lparr>w_next := w_next w + 1\<rparr>)"
  have "\<forall>x q. w_xps ?w x = Some q \<longrightarrow> w_xps w x = Some q \<or> q = p" by auto
  show "heap_inv ?w" using J(1) unfolding heap_inv_def by (auto simp: less_SucI)
  show "ptr_inv ?w"
    apply (rule ptr_invI)
    subgoal for y q using ptr_invD(1) [OF J(2), of y q] p by (cases "y = w_next w") auto
    subgoal for y q using ptr_invD(2) [OF J(2), of y q] p by (cases "y = w_next w") auto
    subgoal for y q a using ptr_invD(3) [OF J(2), of y q a] p by (cases "y = w_next w") auto
    subgoal for y q a using ptr_invD(4) [OF J(2), of y q a] p by (cases "y = w_next w") auto
    subgoal for y z q r using ptr_invD(5) [OF J(2), of y q z r] p
      by (cases "y = w_next w"; cases "z = w_next w") auto
    done
  show "own_inv ?w" using J(3) by (simp add: own_inv_def)
  show "open_inv ?w" by (rule open_inv_cong [OF J(4)]) simp_all
  show "use_inv ?w" by (rule use_inv_cong [OF J(5)]) simp_all
  show "calm ?w" using J(6) by (simp add: calm_def)
qed

section \<open>fork\<close>

text \<open>
  The child has a process id no handle carries, and may use none of the native objects it
  inherited.
\<close>

definition forked :: "int \<Rightarrow> 'n world \<Rightarrow> 'n world" where
  "forked pid w = w\<lparr>w_pid := pid, w_usable_envs := [], w_usable_txns := []\<rparr>"

lemma inv_forked:
  assumes I: "inv w" and P: "\<And>a h. w_envs w a = Some h \<Longrightarrow> eh_pid h \<noteq> pid"
  shows "inv (forked pid w)"
proof (rule invI)
  note J = inv_D [OF I]
  show "heap_inv (forked pid w)" using J(1) by (simp add: heap_inv_def forked_def)
  show "ptr_inv (forked pid w)" using J(2) by (simp add: ptr_inv_def forked_def)
  show "own_inv (forked pid w)" using J(3) by (simp add: own_inv_def forked_def)
  show "open_inv (forked pid w)" by (rule open_inv_cong [OF J(4)]) (simp_all add: forked_def)
  have u: "\<not> healthy (forked pid w) h" if "w_envs w a = Some h" for a h
    using P [OF that] by (simp add: healthy_def forked_def)
  have f: "w_envs (forked pid w) = w_envs w" "w_txns (forked pid w) = w_txns w"
      "w_ids (forked pid w) = w_ids w" "w_usable_txns (forked pid w) = []"
    by (simp_all add: forked_def)
  show "use_inv (forked pid w)"
    apply (rule use_invI; (unfold f)?)
    subgoal by (rule use_invD(1) [OF J(5)])
    subgoal using u by blast
    subgoal by (rule use_invD(3) [OF J(5)])
    subgoal by (rule use_invD(4) [OF J(5)])
    subgoal by (rule use_invD(5) [OF J(5)])
    subgoal using u by blast
    subgoal by simp
    subgoal by simp
    subgoal by simp
    done
  show "calm (forked pid w)" using J(6) by (simp add: calm_def forked_def)
qed

section \<open>Birth\<close>

lemma card_insert_new:
  "finite (dom m) \<Longrightarrow> m a = None \<Longrightarrow> of_nat (card (dom (m(a \<mapsto> v)))) = (of_nat (card (dom m)) + 1 :: 32 word)"
  by (simp add: domIff add.commute)

text \<open>
  The birth of an environment, as a relation of the states before and after: handle \<open>a\<close> behind
  pointer \<open>x\<close>, for the native environment \<open>e\<close>, under a key that no open environment of the process has.
\<close>

definition env_born :: "'n world \<Rightarrow> 'm world \<Rightarrow> nat \<Rightarrow> nat \<Rightarrow> nat \<Rightarrow> env_handle \<Rightarrow> xptr \<Rightarrow> bool" where
  "env_born w w' a x e h p \<longleftrightarrow>
     (w_next w \<le> a \<and> a < w_next w' \<and> w_next w \<le> x \<and> x < w_next w' \<and> w_ids w \<le> e \<and> e < w_ids w' \<and> e \<in> set (w_usable_envs w'))
   \<and> (eh_env h = Some e \<and> eh_live h = [] \<and> eh_pid h = w_pid w)
   \<and> (\<forall>b k. w_envs w b = Some k \<and> eh_env k \<noteq> None \<and> eh_pid k = w_pid w \<longrightarrow> eh_key k \<noteq> eh_key h)
   \<and> (xp_addr p = AEnv a \<and> xp_tag p = env_tag)
   \<and> (w_envs w' = (w_envs w)(a \<mapsto> h) \<and> w_txns w' = w_txns w \<and> w_xps w' = (w_xps w)(x \<mapsto> p) \<and> w_open w' = w_open w @ [a])
   \<and> (w_live_env_handles w' = w_live_env_handles w + 1 \<and> w_live_txn_handles w' = w_live_txn_handles w)
   \<and> (w_pid w' = w_pid w \<and> w_guard w' = w_guard w \<and> panic_wf (w_last_panic w'))
   \<and> (set (w_usable_envs w) \<subseteq> set (w_usable_envs w') \<and> w_usable_txns w' = w_usable_txns w)"

lemma env_bornD:
  assumes "env_born w w' a x e h p"
  shows "w_next w \<le> a" "a < w_next w'" "w_next w \<le> x" "x < w_next w'" "w_ids w \<le> e" "e < w_ids w'" "e \<in> set (w_usable_envs w')"
    "eh_env h = Some e" "eh_live h = []" "eh_pid h = w_pid w"
    "\<And>b k. w_envs w b = Some k \<Longrightarrow> eh_env k \<noteq> None \<Longrightarrow> eh_pid k = w_pid w \<Longrightarrow> eh_key k \<noteq> eh_key h"
    "xp_addr p = AEnv a" "xp_tag p = env_tag"
    "w_envs w' = (w_envs w)(a \<mapsto> h)" "w_txns w' = w_txns w" "w_xps w' = (w_xps w)(x \<mapsto> p)" "w_open w' = w_open w @ [a]"
    "w_live_env_handles w' = w_live_env_handles w + 1" "w_live_txn_handles w' = w_live_txn_handles w"
    "w_pid w' = w_pid w" "w_guard w' = w_guard w" "panic_wf (w_last_panic w')"
    "set (w_usable_envs w) \<subseteq> set (w_usable_envs w')" "w_usable_txns w' = w_usable_txns w"
  using assms unfolding env_born_def by - (elim conjE, blast)+

lemma env_born_handles:
  assumes I: "inv w" and B: "env_born w w' a x e h p"
  shows "w_envs w a = None" "w_xps w x = None" and "healthy w' = healthy w"
    and "w_envs w' b = Some k \<Longrightarrow> w_envs w b = Some k \<and> b \<noteq> a \<or> b = a \<and> k = h"
    and "w_envs w b = Some k \<Longrightarrow> w_envs w' b = Some k" and "w_envs w b = Some k \<Longrightarrow> eh_env k \<noteq> Some e"
    and "w_xps w' y = Some q \<Longrightarrow> w_xps w y = Some q \<and> y \<noteq> x \<or> y = x \<and> q = p"
    and "w_xps w y = Some q \<Longrightarrow> xp_addr q \<noteq> AEnv a"
proof -
  note J = inv_D [OF I] and F = env_bornD [OF B]
  show new: "w_envs w a = None" "w_xps w x = None" using heap_invD(3-5) [OF J(1)] F(1,3) by (metis leD not_None_eq)+
  show "healthy w' = healthy w" by (simp add: healthy_def fun_eq_iff F(20))
  show "w_envs w' b = Some k \<Longrightarrow> w_envs w b = Some k \<and> b \<noteq> a \<or> b = a \<and> k = h" unfolding F(14) by (auto split: if_splits)
  show "w_envs w b = Some k \<Longrightarrow> w_envs w' b = Some k" using F(14) new by auto
  show "w_envs w b = Some k \<Longrightarrow> eh_env k \<noteq> Some e" using use_invD(1) [OF J(5), of b k e] F(5) by (metis leD)
  show "w_xps w' y = Some q \<Longrightarrow> w_xps w y = Some q \<and> y \<noteq> x \<or> y = x \<and> q = p" unfolding F(16) by (auto split: if_splits)
  show "w_xps w y = Some q \<Longrightarrow> xp_addr q \<noteq> AEnv a" using ptr_invD(1,3) [OF J(2), of y q] new(1) by auto
qed

lemma env_born_heap:
  assumes I: "inv w" and B: "env_born w w' a x e h p"
  shows "heap_inv w'"
proof -
  note J = inv_D [OF I] and F = env_bornD [OF B] and H = env_born_handles [OF I B]
  note less = heap_invD(3-5) [OF J(1)]
  show ?thesis
    unfolding heap_inv_def
  proof (intro conjI allI impI)
    show "finite (dom (w_envs w'))" "finite (dom (w_txns w'))"
      using heap_invD(1,2) [OF J(1)] F(14,15) by simp_all
    show "b < w_next w'" if "w_envs w' b = Some k" for b k
      using H(4) [OF that] F(1,2) less(1) [of b k] by auto
    show "b < w_next w'" if "w_txns w' b = Some k" for b k
      using that F(1,2,15) less(2) [of b k] by auto
    show "y < w_next w'" if "w_xps w' y = Some q" for y q
      using H(7) [OF that] F(3,4) less(3) [of y q] by auto
    show "w_live_env_handles w' = of_nat (card (dom (w_envs w')))"
      unfolding F(14,18) card_insert_new [OF heap_invD(1) [OF J(1)] H(1)] heap_invD(6) [OF J(1)] ..
    show "w_live_txn_handles w' = of_nat (card (dom (w_txns w')))"
      unfolding F(15,19) by (rule heap_invD(7) [OF J(1)])
  qed
qed

lemma env_born_ptr:
  assumes I: "inv w" and B: "env_born w w' a x e h p"
  shows "ptr_inv w'"
proof -
  note J = inv_D [OF I] and F = env_bornD [OF B]
  note keep = env_born_handles(5) [OF I B] and xold = env_born_handles(7) [OF I B] and fresh = env_born_handles(8) [OF I B]
  note p = F(12,13)
  show ?thesis
    apply (rule ptr_invI)
    subgoal for y q using ptr_invD(1) [OF J(2), of y q] xold [of y q] keep p F(14) by (metis fun_upd_same)
    subgoal for y q using ptr_invD(2) [OF J(2), of y q] xold [of y q] F(15) p by (metis tags_differ(1))
    subgoal for y q b using ptr_invD(3) [OF J(2), of y q b] xold [of y q] p by metis
    subgoal for y q b using ptr_invD(4) [OF J(2), of y q b] xold [of y q] p by (metis paddr.distinct(7))
    subgoal for y z q r
      using ptr_invD(5) [OF J(2), of y q z r] xold [of y q] xold [of z r] fresh [of y q] fresh [of z r] p by metis
    done
qed

lemma env_born_own:
  assumes I: "inv w" and B: "env_born w w' a x e h p"
  shows "own_inv w'" "open_inv w'"
proof -
  note J = inv_D [OF I] and F = env_bornD [OF B] and new = env_born_handles(1) [OF I B]
  note old = env_born_handles(4) [OF I B] and keep = env_born_handles(5) [OF I B]
  note h = F(8-10) and key = F(11)
  show "own_inv w'"
    apply (rule own_invI; (unfold F(15))?)
    subgoal for b k s using own_invD(1) [OF J(3), of b k s] old [of b k] h by auto
    subgoal for b k using own_invD(2) [OF J(3), of b k] old [of b k] h by auto
    subgoal for b k using own_invD(3) [OF J(3), of b k] old [of b k] h by auto
    subgoal by (rule own_invD(4) [OF J(3)])
    subgoal by (rule own_invD(5) [OF J(3)])
    subgoal for s sh b using own_invD(6) [OF J(3), of s sh b] keep by metis
    done
  show "open_inv w'"
    apply (rule open_invI)
    subgoal unfolding F(17) using open_invD(1) [OF J(4)] open_invD(2) [OF J(4), of a] new by simp
    subgoal for b using open_invD(2) [OF J(4), of b] F(14) new h unfolding F(17) by (cases "b = a") auto
    subgoal for b d k g
      using open_invD(3) [OF J(4), of b k d g] old [of b k] old [of d g] key [of b k] key [of d g] h by metis
    done
qed

lemma env_born_use:
  assumes I: "inv w" and B: "env_born w w' a x e h p"
  shows "use_inv w'"
proof -
  note J = inv_D [OF I] and F = env_bornD [OF B] and H = env_born_handles [OF I B]
  note old = H(4) and e = F(5-7) and h = F(8-10)
  show ?thesis
    apply (rule use_invI; (unfold H(3) F(15,24))?)
    subgoal for b k d using use_invD(1) [OF J(5), of b k d] old [of b k] h e by auto
    subgoal for b k d using use_invD(2) [OF J(5), of b k d] old [of b k] h e F(23) by auto
    subgoal for s sh q using use_invD(3) [OF J(5), of s sh q] e by auto
    subgoal for b d k g c
      using use_invD(4) [OF J(5), of b k d g c] old [of b k] old [of d g] h H(6) [of b k] H(6) [of d g] by metis
    subgoal by (rule use_invD(5) [OF J(5)])
    subgoal for s sh q b k d
      using use_invD(6) [OF J(5), of s sh q b k d] old [of b k] own_invD(6) [OF J(3), of s sh b] H(1) by auto
    subgoal by (rule use_invD(7) [OF J(5)])
    subgoal for q d using use_invD(8) [OF J(5), of q d] e by auto
    subgoal for q d b k
      using use_invD(9) [OF J(5), of q d b k] use_invD(8) [OF J(5), of q d] old [of b k] h e by auto
    done
qed

lemma inv_new_env:
  assumes I: "inv w" and "w_next w \<le> a" "a < w_next w'" and "w_next w \<le> x" "x < w_next w'"
    and "w_ids w \<le> e" "e < w_ids w'" "e \<in> set (w_usable_envs w')"
    and "eh_env h = Some e" "eh_live h = []" "eh_pid h = w_pid w"
    and "\<And>b k. w_envs w b = Some k \<Longrightarrow> eh_env k \<noteq> None \<Longrightarrow> eh_pid k = w_pid w \<Longrightarrow> eh_key k \<noteq> eh_key h"
    and "xp_addr p = AEnv a" "xp_tag p = env_tag"
    and "w_envs w' = (w_envs w)(a \<mapsto> h)" and "w_txns w' = w_txns w"
    and "w_xps w' = (w_xps w)(x \<mapsto> p)" and "w_open w' = w_open w @ [a]"
    and "w_live_env_handles w' = w_live_env_handles w + 1" "w_live_txn_handles w' = w_live_txn_handles w"
    and "w_pid w' = w_pid w" and "w_guard w' = w_guard w" "panic_wf (w_last_panic w')"
    and "set (w_usable_envs w) \<subseteq> set (w_usable_envs w')" and "w_usable_txns w' = w_usable_txns w"
  shows "inv w'"
proof -
  have B: "env_born w w' a x e h p" unfolding env_born_def using assms(2-) by blast
  have "calm w'" using inv_D(6) [OF I] env_bornD(21,22) [OF B] by (simp add: calm_def)
  then show ?thesis
    using env_born_heap [OF I B] env_born_ptr [OF I B] env_born_own [OF I B] env_born_use [OF I B] by (simp add: inv_def)
qed

text \<open>
  The birth of a transaction, as a relation of the states before and after: handle \<open>t\<close> behind
  pointer \<open>x\<close>, for the native transaction \<open>q\<close> of environment \<open>a\<close>, which had none.
\<close>

definition txn_born :: "'n world \<Rightarrow> 'm world \<Rightarrow> nat \<Rightarrow> nat \<Rightarrow> nat \<Rightarrow> nat \<Rightarrow> env_handle \<Rightarrow> nat \<Rightarrow> txn_handle \<Rightarrow> xptr \<Rightarrow> bool" where
  "txn_born w w' t x q a h e th p \<longleftrightarrow>
     (w_next w \<le> t \<and> t < w_next w' \<and> w_next w \<le> x \<and> x < w_next w' \<and> w_ids w \<le> q \<and> q < w_ids w')
   \<and> (w_envs w a = Some h \<and> eh_env h = Some e \<and> eh_live h = [])
   \<and> (th_txn th = Some q \<and> th_owner th = Some a \<and> th_state th = st_active \<and> th_pid th = eh_pid h \<and> \<not> th_poisoned th)
   \<and> (xp_addr p = ATxn t \<and> xp_tag p = txn_tag)
   \<and> (w_envs w' = (w_envs w)(a \<mapsto> live_add t h) \<and> w_txns w' = (w_txns w)(t \<mapsto> th)
      \<and> w_xps w' = (w_xps w)(x \<mapsto> p) \<and> w_open w' = w_open w)
   \<and> (w_live_env_handles w' = w_live_env_handles w \<and> w_live_txn_handles w' = w_live_txn_handles w + 1)
   \<and> (w_pid w' = w_pid w \<and> w_guard w' = w_guard w \<and> panic_wf (w_last_panic w'))
   \<and> (set (w_usable_envs w) \<subseteq> set (w_usable_envs w') \<and> w_usable_txns w' = (q, e) # w_usable_txns w)"

lemma txn_bornD:
  assumes "txn_born w w' t x q a h e th p"
  shows "w_next w \<le> t" "t < w_next w'" "w_next w \<le> x" "x < w_next w'" "w_ids w \<le> q" "q < w_ids w'"
    "w_envs w a = Some h" "eh_env h = Some e" "eh_live h = []"
    "th_txn th = Some q" "th_owner th = Some a" "th_state th = st_active" "th_pid th = eh_pid h" "\<not> th_poisoned th"
    "xp_addr p = ATxn t" "xp_tag p = txn_tag"
    "w_envs w' = (w_envs w)(a \<mapsto> live_add t h)" "w_txns w' = (w_txns w)(t \<mapsto> th)" "w_xps w' = (w_xps w)(x \<mapsto> p)"
    "w_open w' = w_open w" "w_live_env_handles w' = w_live_env_handles w" "w_live_txn_handles w' = w_live_txn_handles w + 1"
    "w_pid w' = w_pid w" "w_guard w' = w_guard w" "panic_wf (w_last_panic w')"
    "set (w_usable_envs w) \<subseteq> set (w_usable_envs w')" "w_usable_txns w' = (q, e) # w_usable_txns w"
  using assms unfolding txn_born_def by - (elim conjE, assumption)+

text \<open>What was there before, seen from after, and the other way round.\<close>

lemma txn_born_handles:
  assumes "inv w" and B: "txn_born w w' t x q a h e th p"
  shows "w_txns w t = None" "w_xps w x = None"
    and "eh_live (live_add t h) = [t]" "eh_env (live_add t h) = Some e" "eh_pid (live_add t h) = eh_pid h"
      "eh_key (live_add t h) = eh_key h" "eh_poisoned (live_add t h) = eh_poisoned h"
    and "healthy w' = healthy w"
    and "w_envs w' b = Some k \<Longrightarrow> w_envs w b = Some k \<and> b \<noteq> a \<or> b = a \<and> k = live_add t h"
    and "w_txns w' s = Some g \<Longrightarrow> w_txns w s = Some g \<and> s \<noteq> t \<or> s = t \<and> g = th"
    and "w_xps w' y = Some r \<Longrightarrow> w_xps w y = Some r \<and> y \<noteq> x \<or> y = x \<and> r = p"
    and "w_txns w s = Some g \<Longrightarrow> th_owner g \<noteq> Some a"
proof -
  note J = inv_D [OF assms(1)] and F = txn_bornD [OF B]
  note less = heap_invD(3-5) [OF J(1)]
  show "w_txns w t = None" "w_xps w x = None" using less F(1,3) by (metis leD not_None_eq)+
  show "eh_live (live_add t h) = [t]" "eh_env (live_add t h) = Some e" "eh_pid (live_add t h) = eh_pid h"
      "eh_key (live_add t h) = eh_key h" "eh_poisoned (live_add t h) = eh_poisoned h"
    by (simp_all add: live_add_def F(8,9))
  show "healthy w' = healthy w" by (simp add: healthy_def fun_eq_iff F(23))
  show "w_envs w' b = Some k \<Longrightarrow> w_envs w b = Some k \<and> b \<noteq> a \<or> b = a \<and> k = live_add t h"
    unfolding F(17) by (auto split: if_splits)
  show "w_txns w' s = Some g \<Longrightarrow> w_txns w s = Some g \<and> s \<noteq> t \<or> s = t \<and> g = th"
    unfolding F(18) by (auto split: if_splits)
  show "w_xps w' y = Some r \<Longrightarrow> w_xps w y = Some r \<and> y \<noteq> x \<or> y = x \<and> r = p"
    unfolding F(19) by (auto split: if_splits)
  show "w_txns w s = Some g \<Longrightarrow> th_owner g \<noteq> Some a" using own_invD(6) [OF J(3), of s g a] F(7,9) by auto
qed

lemma txn_born_back:
  assumes "inv w" and B: "txn_born w w' t x q a h e th p" and "w_envs w' b = Some k"
  shows "\<exists>g. w_envs w b = Some g \<and> eh_env g = eh_env k \<and> eh_pid g = eh_pid k \<and> eh_key g = eh_key k \<and> healthy w g = healthy w k"
proof -
  note H = txn_born_handles [OF assms(1) B] and F = txn_bornD [OF B]
  show ?thesis using H(9) [OF assms(3)] F(7,8) H(4-7) by (auto simp: healthy_def)
qed

lemma txn_born_heap:
  assumes I: "inv w" and B: "txn_born w w' t x q a h e th p"
  shows "heap_inv w'"
proof -
  note J = inv_D [OF I] and F = txn_bornD [OF B] and H = txn_born_handles [OF I B]
  note less = heap_invD(3-5) [OF J(1)]
  have de: "dom (w_envs w') = dom (w_envs w)" using F(7,17) by auto
  show ?thesis
    unfolding heap_inv_def
  proof (intro conjI allI impI)
    show "finite (dom (w_envs w'))" "finite (dom (w_txns w'))"
      using heap_invD(1,2) [OF J(1)] F(17,18) by simp_all
    show "b < w_next w'" if "w_envs w' b = Some k" for b k
    proof -
      have "b < w_next w" using txn_born_back [OF I B that] less(1) by blast
      then show ?thesis using F(1,2) by simp
    qed
    show "b < w_next w'" if "w_txns w' b = Some k" for b k
      using H(10) [OF that] F(1,2) less(2) [of b k] by auto
    show "y < w_next w'" if "w_xps w' y = Some r" for y r
      using H(11) [OF that] F(3,4) less(3) [of y r] by auto
    show "w_live_env_handles w' = of_nat (card (dom (w_envs w')))"
      unfolding de F(21) by (rule heap_invD(6) [OF J(1)])
    show "w_live_txn_handles w' = of_nat (card (dom (w_txns w')))"
      unfolding F(18,22) card_insert_new [OF heap_invD(2) [OF J(1)] H(1)] heap_invD(7) [OF J(1)] ..
  qed
qed

lemma txn_born_ptr:
  assumes I: "inv w" and B: "txn_born w w' t x q a h e th p"
  shows "ptr_inv w'"
proof -
  note J = inv_D [OF I] and F = txn_bornD [OF B] and H = txn_born_handles [OF I B]
  note p = F(15,16) and xold = H(11)
  have fresh_ptr: "xp_addr r \<noteq> ATxn t" if "w_xps w y = Some r" for y r
    using ptr_invD(2) [OF J(2) that] ptr_invD(4) [OF J(2) that, of t] H(1) by auto
  have ekeep: "\<exists>k. w_envs w' b = Some k" if "w_envs w b = Some g" for b g
    using that F(17) by auto
  have tkeep: "w_txns w' b = Some g" if "w_txns w b = Some g" for b g
    using that F(18) H(1) by auto
  show ?thesis
    apply (rule ptr_invI)
    subgoal for y r using ptr_invD(1) [OF J(2), of y r] xold [of y r] ekeep p by (metis tags_differ(1))
    subgoal for y r using ptr_invD(2) [OF J(2), of y r] xold [of y r] tkeep F(18) p by (metis fun_upd_same)
    subgoal for y r b using ptr_invD(3) [OF J(2), of y r b] xold [of y r] p by (metis paddr.distinct(7))
    subgoal for y r b using ptr_invD(4) [OF J(2), of y r b] xold [of y r] p by metis
    subgoal for y z r s
      using ptr_invD(5) [OF J(2), of y r z s] xold [of y r] xold [of z s] fresh_ptr [of y r] fresh_ptr [of z s] p
      by metis
    done
qed

lemma txn_born_own:
  assumes I: "inv w" and B: "txn_born w w' t x q a h e th p"
  shows "own_inv w'" and "open_inv w'"
proof -
  note J = inv_D [OF I] and F = txn_bornD [OF B] and H = txn_born_handles [OF I B]
  note a = F(7-9) and th = F(10-14) and ad = H(3-7) and eold = H(9) and told = H(10) and prev = txn_born_back [OF I B]
  have tkeep: "w_txns w' b = Some g" if "w_txns w b = Some g" for b g
    using that F(18) H(1) by auto
  show "own_inv w'"
    apply (rule own_invI)
    subgoal for b k s
      using own_invD(1) [OF J(3), of b k s] eold [of b k] ad th tkeep F(18) H(1) by (cases "b = a") auto
    subgoal for b k using own_invD(2) [OF J(3), of b k] eold [of b k] ad by auto
    subgoal for b k using own_invD(3) [OF J(3), of b k] eold [of b k] ad a by auto
    subgoal for s k using own_invD(4) [OF J(3), of s k] told [of s k] th by auto
    subgoal for s k b using own_invD(5) [OF J(3), of s k b] told [of s k] th by auto
    subgoal for s k b
      using own_invD(6) [OF J(3), of s k b] told [of s k] th ad H(12) [of s k] F(17) by auto
    done
  show "open_inv w'"
    apply (rule open_invI)
    subgoal unfolding F(20) by (rule open_invD(1) [OF J(4)])
    subgoal for b using open_invD(2) [OF J(4), of b] F(17) a ad unfolding F(20) by (cases "b = a") auto
    subgoal for b d k g
      using open_invD(3) [OF J(4), of b _ d] prev [of b k] prev [of d g] by metis
    done
qed

text \<open>The native transaction is new, and its environment had no usable one.\<close>

lemma txn_born_usable:
  assumes I: "inv w" and B: "txn_born w w' t x q a h e th p"
    and u: "(d, c) \<in> set (w_usable_txns w')" "w_envs w' b = Some k" "eh_env k = Some c" "healthy w k"
  shows "\<exists>s g. eh_live k = [s] \<and> w_txns w' s = Some g \<and> th_txn g = Some d"
proof -
  note J = inv_D [OF I] and F = txn_bornD [OF B] and H = txn_born_handles [OF I B]
  show ?thesis
  proof (cases "b = a")
    case True
    then have k: "k = live_add t h" "c = e" using H(4) H(9) [of b k] u(2,3) by auto
    then have "\<not> (d, c) \<in> set (w_usable_txns w)"
      using use_invD(9) [OF J(5) _ F(7,8), of d] u(4) F(9) H(3-7) by (auto simp: healthy_def)
    then show ?thesis using u(1) F(10,18,27) k H(3) by auto
  next
    case False
    have k: "w_envs w b = Some k" using H(9) [OF u(2)] False by simp
    moreover have "c \<noteq> e" using use_invD(4) [OF J(5) k F(7) u(3)] F(8) False by auto
    ultimately have "(d, c) \<in> set (w_usable_txns w)" using u(1) F(27) by auto
    then obtain s g where "eh_live k = [s]" "w_txns w s = Some g" "th_txn g = Some d"
      using use_invD(9) [OF J(5) _ k u(3,4)] by blast
    then show ?thesis using F(18) H(1) by auto
  qed
qed

lemma txn_born_use:
  assumes I: "inv w" and B: "txn_born w w' t x q a h e th p"
  shows "use_inv w'"
proof -
  note J = inv_D [OF I] and F = txn_bornD [OF B] and H = txn_born_handles [OF I B]
  note q = F(5,6) and th = F(10-14) and eold = H(9) and told = H(10) and prev = txn_born_back [OF I B] and UT = F(27)
  have q_new: "th_txn k \<noteq> Some q" if "w_txns w s = Some k" for s k
    using use_invD(3) [OF J(5) that] q(1) by (metis leD)
  have q_new': "(q, d) \<notin> set (w_usable_txns w)" for d
    using use_invD(8) [OF J(5)] q(1) by (metis leD)
  have own: "(d, c) \<in> set (w_usable_txns w')" if u: "w_txns w' s = Some k" "th_txn k = Some d" "th_owner k = Some b"
      "w_envs w' b = Some g" "eh_env g = Some c" "healthy w g" for s k d b g c
  proof (cases "s = t")
    case True
    then show ?thesis using u told [of s k] th eold [of b g] F(7) H(1,4) UT by auto
  next
    case False
    then have s: "w_txns w s = Some k" using told [OF u(1)] by simp
    then have "w_envs w b = Some g" using H(12) [OF s] u(3) eold [OF u(4)] by auto
    then show ?thesis using use_invD(6) [OF J(5) s u(2,3) _ u(5,6)] UT by simp
  qed
  show ?thesis
    apply (rule use_invI; (unfold H(8))?)
    subgoal for b k d
    proof -
      assume "w_envs w' b = Some k" "eh_env k = Some d"
      then have "d < w_ids w" using prev [of b k] use_invD(1) [OF J(5), of b _ d] by auto
      then show ?thesis using q by simp
    qed
    subgoal for b k d using use_invD(2) [OF J(5), of b _ d] prev [of b k] F(26) by (metis subsetD)
    subgoal for s k d using use_invD(3) [OF J(5), of s k d] told [of s k] th q by auto
    subgoal for b d k g c using use_invD(4) [OF J(5), of b _ d _ c] prev [of b k] prev [of d g] by metis
    subgoal for s r k g c
      using use_invD(5) [OF J(5), of s k r g c] told [of s k] told [of r g] th q_new [of s k] q_new [of r g] by metis
    subgoal by (rule own)
    subgoal unfolding UT using use_invD(7) [OF J(5)] q_new' by (auto simp: image_iff)
    subgoal for d c using use_invD(8) [OF J(5), of d c] use_invD(1) [OF J(5) F(7,8)] q unfolding UT by auto
    subgoal by (rule txn_born_usable [OF I B])
    done
qed

lemma inv_new_txn:
  fixes w :: "'n world" and w' :: "'m world"
  assumes "inv w" and "w_next w \<le> t" "t < w_next w'" and "w_next w \<le> x" "x < w_next w'"
    and "w_ids w \<le> q" "q < w_ids w'"
    and "w_envs w a = Some h" "eh_env h = Some e" "eh_live h = []"
    and "th_txn th = Some q" "th_owner th = Some a" "th_state th = st_active"
      "th_pid th = eh_pid h" "\<not> th_poisoned th"
    and "xp_addr p = ATxn t" "xp_tag p = txn_tag"
    and "w_envs w' = (w_envs w)(a \<mapsto> live_add t h)" and "w_txns w' = (w_txns w)(t \<mapsto> th)"
    and "w_xps w' = (w_xps w)(x \<mapsto> p)" and "w_open w' = w_open w"
    and "w_live_env_handles w' = w_live_env_handles w" "w_live_txn_handles w' = w_live_txn_handles w + 1"
    and "w_pid w' = w_pid w" and "w_guard w' = w_guard w" "panic_wf (w_last_panic w')"
    and "set (w_usable_envs w) \<subseteq> set (w_usable_envs w')"
    and "w_usable_txns w' = (q, e) # w_usable_txns w"
  shows "inv w'"
proof -
  have B: "txn_born w w' t x q a h e th p" unfolding txn_born_def by (intro conjI assms(2-))
  have "calm w'" using inv_D(6) [OF assms(1)] assms(25,26) by (simp add: calm_def)
  then show ?thesis
    using txn_born_heap [OF assms(1) B] txn_born_ptr [OF assms(1) B] txn_born_own [OF assms(1) B] txn_born_use [OF assms(1) B]
    by (simp add: inv_def)
qed

section \<open>Deletion\<close>

lemma card_remove:
  "finite (dom m) \<Longrightarrow> m a = Some v \<Longrightarrow> of_nat (card (dom (m(a := None)))) = (of_nat (card (dom m)) - 1 :: 32 word)"
  by (metis card_Suc_Diff1 domI dom_fun_upd of_nat_Suc add_diff_cancel_left')

text \<open>A handle is deleted when nothing addresses it: no pointer, and for a transaction no registry.\<close>

text \<open>
  Handles that are let go: none of them holds a native environment or belongs to one, and
  everything else is as it was. Such a step touches neither ownership nor the use of libmdbx.
\<close>

definition sheds :: "'n world \<Rightarrow> 'n world \<Rightarrow> bool" where
  "sheds w w' \<longleftrightarrow>
     (\<forall>a. w_envs w' a = w_envs w a \<or> w_envs w' a = None \<and> (\<forall>h. w_envs w a = Some h \<longrightarrow> eh_env h = None))
     \<and> (\<forall>t. w_txns w' t = w_txns w t \<or> w_txns w' t = None \<and> (\<forall>h. w_txns w t = Some h \<longrightarrow> th_owner h = None))
     \<and> w_pid w' = w_pid w \<and> w_open w' = w_open w \<and> w_ids w \<le> w_ids w'
     \<and> w_usable_envs w' = w_usable_envs w \<and> w_usable_txns w' = w_usable_txns w"

lemma shedsD:
  assumes "sheds w w'"
  shows "\<And>a h. w_envs w' a = Some h \<Longrightarrow> w_envs w a = Some h"
    and "\<And>t h. w_txns w' t = Some h \<Longrightarrow> w_txns w t = Some h"
    and "\<And>a h. w_envs w a = Some h \<Longrightarrow> eh_env h \<noteq> None \<Longrightarrow> w_envs w' a = Some h"
    and "\<And>t h. w_txns w t = Some h \<Longrightarrow> th_owner h \<noteq> None \<Longrightarrow> w_txns w' t = Some h"
    and "w_pid w' = w_pid w" "w_open w' = w_open w" "w_ids w \<le> w_ids w'"
    and "w_usable_envs w' = w_usable_envs w" "w_usable_txns w' = w_usable_txns w" "healthy w' = healthy w"
  using assms unfolding sheds_def healthy_def fun_eq_iff by (metis option.distinct(1))+

lemma own_inv_sheds:
  assumes J: "own_inv w" and S: "sheds w w'"
  shows "own_inv w'"
proof -
  note D = own_invD [OF J] and s = shedsD [OF S]
  have live: "w_envs w' a = Some h" if "w_envs w a = Some h" "eh_live h \<noteq> []" for a h
    using s(3) [OF that(1)] D(3) [OF that(1)] that(2) by blast
  show ?thesis
    apply (rule own_invI)
    subgoal for a h t using D(1) [OF s(1), of a h t] s(4) by blast
    subgoal for a h by (rule D(2) [OF s(1)])
    subgoal for a h by (rule D(3) [OF s(1)])
    subgoal for t h by (rule D(4) [OF s(2)])
    subgoal for t h a by (rule D(5) [OF s(2)])
    subgoal for t h a using D(6) [OF s(2), of t h a] live by fastforce
    done
qed

lemma open_inv_sheds:
  assumes "open_inv w" and S: "sheds w w'"
  shows "open_inv w'"
proof -
  note D = open_invD [OF assms(1)] and s = shedsD [OF S]
  show ?thesis
    apply (rule open_invI)
    subgoal unfolding s(6) by (rule D(1))
    subgoal for a unfolding s(6) D(2) using s(1,3) by blast
    subgoal for a b h k using D(3) [of a h b k] s(1) by blast
    done
qed

lemma use_inv_sheds:
  assumes J: "use_inv w" and O: "own_inv w" and S: "sheds w w'"
  shows "use_inv w'"
proof -
  note D = use_invD [OF J] and s = shedsD [OF S]
  have kept: "\<exists>t th. eh_live h = [t] \<and> w_txns w' t = Some th \<and> th_txn th = Some p"
    if "(p, e) \<in> set (w_usable_txns w)" "w_envs w a = Some h" "eh_env h = Some e" "healthy w h" for p e a h
    using D(9) [OF that] own_invD(1) [OF O that(2)] s(4) by fastforce
  show ?thesis
    apply (rule use_invI; (unfold s(8-10))?)
    subgoal for a h e using D(1) [OF s(1), of a h e] s(7) by simp
    subgoal for a h e by (rule D(2) [OF s(1)])
    subgoal for t h p using D(3) [OF s(2), of t h p] s(7) by simp
    subgoal for a b h k e by (rule D(4) [OF s(1) s(1)])
    subgoal for t u h k p by (rule D(5) [OF s(2) s(2)])
    subgoal for t th p a h e by (rule D(6) [OF s(2) _ _ s(1)])
    subgoal by (rule D(7))
    subgoal for p e using D(8) [of p e] s(7) by simp
    subgoal for p e a h by (rule kept [OF _ s(1)])
    done
qed

lemma ptr_inv_addressed:
  assumes "ptr_inv w" and x: "w_xps w' = w_xps w"
    and "\<And>x p a. w_xps w x = Some p \<Longrightarrow> xp_addr p = AEnv a \<Longrightarrow> w_envs w' a = w_envs w a"
    and "\<And>x p t. w_xps w x = Some p \<Longrightarrow> xp_addr p = ATxn t \<Longrightarrow> w_txns w' t = w_txns w t"
  shows "ptr_inv w'"
proof -
  note D = ptr_invD [OF assms(1)]
  show ?thesis
    apply (rule ptr_invI; unfold x)
    subgoal for x p using D(1) [of x p] assms(3) [of x p] by auto
    subgoal for x p using D(2) [of x p] assms(4) [of x p] by auto
    subgoal by (rule D(3))
    subgoal by (rule D(4))
    subgoal by (rule D(5))
    done
qed

lemma inv_delete_env:
  assumes I: "inv w" and a: "w_envs w a = Some h" "eh_env h = None"
    and X: "\<And>x p. w_xps w x = Some p \<Longrightarrow> xp_addr p \<noteq> AEnv a"
    and F: "same_frame (w\<lparr>w_live_env_handles := w_live_env_handles w - 1\<rparr>) w'"
    and E: "w_envs w' = (w_envs w)(a := None)" and T: "w_txns w' = w_txns w"
      "w_usable_envs w' = w_usable_envs w" "w_usable_txns w' = w_usable_txns w"
  shows "inv w'"
proof (rule invI)
  note J = inv_D [OF I] and f = F [unfolded same_frame_def, simplified]
  have S: "sheds w w'" using a E T f by (simp add: sheds_def)
  show "heap_inv w'" using J(1) card_remove [OF heap_invD(1) [OF J(1)] a(1)] f
    unfolding heap_inv_def E T by (auto intro: less_le_trans)
  show "ptr_inv w'"
    by (rule ptr_inv_addressed [OF J(2)]) (use X E T f in auto)
  show "own_inv w'" by (rule own_inv_sheds [OF J(3) S])
  show "open_inv w'" by (rule open_inv_sheds [OF J(4) S])
  show "use_inv w'" by (rule use_inv_sheds [OF J(5,3) S])
  show "calm w'" using J(6) f by (simp add: calm_def)
qed

lemma inv_delete_txn:
  assumes I: "inv w" and t: "w_txns w t = Some th" "th_owner th = None"
    and X: "\<And>x p. w_xps w x = Some p \<Longrightarrow> xp_addr p \<noteq> ATxn t"
    and F: "same_frame (w\<lparr>w_live_txn_handles := w_live_txn_handles w - 1\<rparr>) w'"
    and T: "w_txns w' = (w_txns w)(t := None)" and E: "w_envs w' = w_envs w"
      "w_usable_envs w' = w_usable_envs w" "w_usable_txns w' = w_usable_txns w"
  shows "inv w'"
proof (rule invI)
  note J = inv_D [OF I] and f = F [unfolded same_frame_def, simplified]
  have S: "sheds w w'" using t E T f by (simp add: sheds_def)
  show "heap_inv w'" using J(1) card_remove [OF heap_invD(2) [OF J(1)] t(1)] f
    unfolding heap_inv_def E T by (auto intro: less_le_trans)
  show "ptr_inv w'"
    by (rule ptr_inv_addressed [OF J(2)]) (use X E T f in auto)
  show "own_inv w'" by (rule own_inv_sheds [OF J(3) S])
  show "open_inv w'" by (rule open_inv_sheds [OF J(4) S])
  show "use_inv w'" by (rule use_inv_sheds [OF J(5,3) S])
  show "calm w'" using J(6) f by (simp add: calm_def)
qed

end
