(* ===== verification/Mdbx_Safety.thy ===== *)
theory Mdbx_Safety
  imports Mdbx_Moves
begin

text \<open>
  What it means for an operation to be safe: from a state that satisfies the invariant it ends in
  one, and its outcome is a result or an R condition, never undefined behaviour and never a jump
  to a frame that is gone. Rules for composing safe operations, and the contract of a guarded
  call: the function handed to \<open>mdbx_r_run_guarded\<close> touches nothing but libmdbx, through an
  object that is usable, so that a panic in it is contained.
\<close>

section \<open>Safe operations\<close>

definition harmless :: "err \<Rightarrow> bool" where
  "harmless e \<longleftrightarrow> (case e of Undefined \<Rightarrow> False | Longjmp k \<Rightarrow> False | _ \<Rightarrow> True)"

lemma harmless_simps [simp]:
  "\<not> harmless Undefined" "\<not> harmless (Longjmp k)" "harmless (RfError m f l)"
  "harmless (AssertFailed m f l)" "harmless (MdbxError c)" "harmless NotEnv" "harmless NotTxn"
  "harmless NotRaw" "harmless (EnvForeignUse p q)" "harmless (EnvForeignClose p q)"
  "harmless EnvClosed" "harmless EnvUnusable" "harmless (TxnForeign p q)" "harmless TxnInvalid"
  "harmless TxnUnusable" "harmless (TxnAlready s)" "harmless OwnerClosed" "harmless OwnerUnusable"
  "harmless ReadOnlyTxn" "harmless CreateNeedsWrite" "harmless MaxDbsTooLarge"
  "harmless MapSizeTooLarge" "harmless MaxReadersTooLarge" "harmless LimitTooLarge"
  "harmless PageSizeTooLarge" "harmless (AlreadyOpen a)" "harmless (AlreadyOpenAs a b)"
  "harmless (EnvHasTxns n)" "harmless TxnAlreadyOpen" "harmless FlagsDuringTxn" "harmless RolledBack"
  "harmless (MissingDbi a b)" "harmless EmptyMainWithNamed" "harmless DeleteMain"
  "harmless ScanOutOfMemory" "harmless ListOutOfMemory" "harmless (SequencePast d f')"
  "harmless (SequenceOverflow d)" "harmless (BadPageSize d)" "harmless (UnknownFlag a)"
  "harmless InitFailed" "harmless PanicNotSeen" "harmless PanicNotPoisoned"
  by (simp_all add: harmless_def)

definition safe :: "('n world \<Rightarrow> bool) \<Rightarrow> ('n, 'a) mem \<Rightarrow> ('a \<Rightarrow> 'n world \<Rightarrow> bool) \<Rightarrow> bool" where
  "safe P m Q \<longleftrightarrow>
     (\<forall>w. inv w \<longrightarrow> P w \<longrightarrow> wp m (\<lambda>x w'. inv w' \<and> Q x w') (\<lambda>e w'. inv w' \<and> harmless e) w)"

lemma safeI:
  "(\<And>w. inv w \<Longrightarrow> P w \<Longrightarrow> wp m (\<lambda>x w'. inv w' \<and> Q x w') (\<lambda>e w'. inv w' \<and> harmless e) w) \<Longrightarrow> safe P m Q"
  by (simp add: safe_def)

lemma safeD:
  "safe P m Q \<Longrightarrow> inv w \<Longrightarrow> P w \<Longrightarrow> wp m (\<lambda>x w'. inv w' \<and> Q x w') (\<lambda>e w'. inv w' \<and> harmless e) w"
  by (simp add: safe_def)

lemma safe_weaken:
  assumes "safe P m Q" and "\<And>w. P' w \<Longrightarrow> P w" and "\<And>x w. Q x w \<Longrightarrow> Q' x w"
  shows "safe P' m Q'"
  by (rule safeI, rule wp_mono [OF safeD [OF assms(1)]]) (auto intro: assms(2,3))

lemma wp_bindI: "wp m (\<lambda>x. wp (f x) Q E) E s \<Longrightarrow> wp (bindM m f) Q E s"
  by (simp add: wp_bind)

lemma safe_bind:
  assumes "safe P m Q" and "\<And>x. safe (Q x) (f x) R"
  shows "safe P (bindM m f) R"
  by (rule safeI, unfold wp_bind, rule wp_mono [OF safeD [OF assms(1)]]) (auto intro: safeD [OF assms(2)])

lemma safe_then: "safe P m Q \<Longrightarrow> (\<And>x. safe (Q x) k R) \<Longrightarrow> safe P (thenM m k) R"
  unfolding thenM_def by (rule safe_bind)

lemma safe_if: "(b \<Longrightarrow> safe P m Q) \<Longrightarrow> (\<not> b \<Longrightarrow> safe P k Q) \<Longrightarrow> safe P (if b then m else k) Q"
  by simp

lemma safe_return: "(\<And>w. P w \<Longrightarrow> Q x w) \<Longrightarrow> safe P (returnM x) Q"
  by (rule safeI) (simp add: wp_simps)

lemma safe_stop: "harmless e \<Longrightarrow> safe P (stopM e) Q"
  by (rule safeI) (simp add: wp_simps)

text \<open>A safe operation that keeps a property of the state.\<close>

definition keeps :: "('n world \<Rightarrow> bool) \<Rightarrow> ('n, 'a) mem \<Rightarrow> bool" where
  "keeps P m \<longleftrightarrow> safe P m (\<lambda>_. P)"

named_theorems keeps_rules "composition of operations that keep a property"

lemma keepsI: "safe P m (\<lambda>_. P) \<Longrightarrow> keeps P m"
  by (simp add: keeps_def)

lemma keeps_end: "keeps P m \<Longrightarrow> safe P m (\<lambda>_ _. True)"
  unfolding keeps_def by (erule safe_weaken) auto

lemma keeps_bind [keeps_rules]: "keeps P m \<Longrightarrow> (\<And>x. keeps P (f x)) \<Longrightarrow> keeps P (bindM m f)"
  unfolding keeps_def by (rule safe_bind)

lemma keeps_then [keeps_rules]: "keeps P m \<Longrightarrow> keeps P k \<Longrightarrow> keeps P (thenM m k)"
  unfolding thenM_def by (rule keeps_bind)

lemma keeps_return [keeps_rules]: "keeps P (returnM x)"
  by (simp add: keeps_def safe_return)

lemma keeps_stop [keeps_rules]: "harmless e \<Longrightarrow> keeps P (stopM e)"
  by (simp add: keeps_def safe_stop)

lemma keeps_if [keeps_rules]:
  "(b \<Longrightarrow> keeps P m) \<Longrightarrow> (\<not> b \<Longrightarrow> keeps P k) \<Longrightarrow> keeps P (if b then m else k)"
  by simp

lemma keeps_when [keeps_rules]: "(b \<Longrightarrow> keeps P m) \<Longrightarrow> keeps P (whenM b m)"
  by (auto simp: whenM_def intro: keeps_return)

lemma keeps_case_option [keeps_rules]:
  "(v = None \<Longrightarrow> keeps P m) \<Longrightarrow> (\<And>x. v = Some x \<Longrightarrow> keeps P (k x))
    \<Longrightarrow> keeps P (case v of None \<Rightarrow> m | Some x \<Rightarrow> k x)"
  by (cases v) simp_all

lemma keeps_let [keeps_rules]: "keeps P (f t) \<Longrightarrow> keeps P (let x = t in f x)"
  by simp

lemma keeps_lift [keeps_rules]: "(\<And>e. r = Inl e \<Longrightarrow> harmless e) \<Longrightarrow> keeps P (liftM r)"
  unfolding keeps_def by (rule safeI) (auto simp: wp_simps split: sum.splits)

lemma keeps_check [keeps_rules]: "keeps P (check L rc)"
  unfolding keeps_def by (rule safeI) (simp add: wp_simps)

lemma keeps_cast [keeps_rules]: "c \<noteq> None \<Longrightarrow> keeps P (castM c)"
  by (auto simp: castM_def intro: keeps_rules)

section \<open>The two kinds of handle an operation works on\<close>

definition open_env :: "nat \<Rightarrow> 'n world \<Rightarrow> bool" where
  "open_env a w \<longleftrightarrow> (\<exists>h e. w_envs w a = Some h \<and> eh_env h = Some e \<and> healthy w h)"

definition live_txn :: "nat \<Rightarrow> 'n world \<Rightarrow> bool" where
  "live_txn t w \<longleftrightarrow>
     (\<exists>th a h p e. w_txns w t = Some th \<and> th_txn th = Some p \<and> th_owner th = Some a
        \<and> w_envs w a = Some h \<and> eh_env h = Some e \<and> healthy w h)"

text \<open>An expression R can hold: a pointer in it exists.\<close>

definition sexp_ok :: "rsexp \<Rightarrow> 'n world \<Rightarrow> bool" where
  "sexp_ok s w \<longleftrightarrow> (case s of R_ExtPtr i \<Rightarrow> w_xps w i \<noteq> None | _ \<Rightarrow> True)"

lemma wp_is_env_sexp:
  assumes "sexp_ok s w"
    and "\<And>i p. s = R_ExtPtr i \<Longrightarrow> w_xps w i = Some p \<Longrightarrow> xp_tag p = env_tag \<Longrightarrow> Q True w"
    and "Q False w"
  shows "wp (is_env_sexp s) Q E w"
proof (cases s)
  case (R_ExtPtr i)
  then obtain p where p: "w_xps w i = Some p" using assms(1) by (auto simp: sexp_ok_def)
  have "Q b w" if "b \<longrightarrow> xp_tag p = env_tag" for b
    using that assms(2) [OF R_ExtPtr p] assms(3) by (cases b) auto
  then show ?thesis using R_ExtPtr p by (simp add: is_env_sexp_def has_tag_def wp_simps)
qed (use assms(3) in \<open>simp_all add: is_env_sexp_def has_tag_def wp_simps\<close>)

lemma wp_is_txn_sexp:
  assumes "sexp_ok s w"
    and "\<And>i p. s = R_ExtPtr i \<Longrightarrow> w_xps w i = Some p \<Longrightarrow> xp_tag p = txn_tag \<Longrightarrow> Q True w"
    and "Q False w"
  shows "wp (is_txn_sexp s) Q E w"
proof (cases s)
  case (R_ExtPtr i)
  then obtain p where p: "w_xps w i = Some p" using assms(1) by (auto simp: sexp_ok_def)
  have "Q b w" if "b \<longrightarrow> xp_tag p = txn_tag" for b
    using that assms(2) [OF R_ExtPtr p] assms(3) by (cases b) auto
  then show ?thesis using R_ExtPtr p by (simp add: is_txn_sexp_def has_tag_def wp_simps)
qed (use assms(3) in \<open>simp_all add: is_txn_sexp_def has_tag_def wp_simps\<close>)

lemma wp_env_addr:
  assumes "inv w" and "w_xps w i = Some p" and "xp_tag p = env_tag"
    and "xp_addr p = ANull \<Longrightarrow> Q None w"
    and "\<And>a h. xp_addr p = AEnv a \<Longrightarrow> w_envs w a = Some h \<Longrightarrow> Q (Some a) w"
  shows "wp (env_addr (R_ExtPtr i)) Q E w"
  using inv_env_ptr [OF assms(1-3)] assms(2,4,5) by (auto simp: env_addr_def wp_simps)

lemma wp_txn_addr:
  assumes "inv w" and "w_xps w i = Some p" and "xp_tag p = txn_tag"
    and "xp_addr p = ANull \<Longrightarrow> Q None w"
    and "\<And>t h. xp_addr p = ATxn t \<Longrightarrow> w_txns w t = Some h \<Longrightarrow> Q (Some t) w"
  shows "wp (txn_addr (R_ExtPtr i)) Q E w"
  using inv_txn_ptr [OF assms(1-3)] assms(2,4,5) by (auto simp: txn_addr_def wp_simps)

lemma env_from_sexp_wp:
  assumes "inv w" and "sexp_ok s w"
  shows "wp (env_from_sexp s) (\<lambda>a w'. w' = w \<and> open_env a w \<and> (\<exists>i. s = R_ExtPtr i)) (\<lambda>e w'. w' = w \<and> harmless e) w"
  unfolding env_from_sexp_def wp_bind
  apply (rule wp_is_env_sexp [OF assms(2)])
  subgoal
    by (simp only: simp_thms if_False wp_bind, rule wp_env_addr [OF assms(1)])
      (auto simp: wp_simps open_env_def healthy_def split: option.splits)
  subgoal by (simp add: wp_simps)
  done

lemma txn_from_sexp_wp:
  assumes "inv w" and "sexp_ok s w"
  shows "wp (txn_from_sexp s) (\<lambda>t w'. w' = w \<and> live_txn t w \<and> (\<exists>i. s = R_ExtPtr i)) (\<lambda>e w'. w' = w \<and> harmless e) w"
proof -
  have owner: "\<exists>h. w_envs w a = Some h \<and> eh_pid h = th_pid th" if "w_txns w t = Some th" "th_owner th = Some a"
    for t th a
    using inv_owner [OF assms(1) that] by metis
  show ?thesis
    unfolding txn_from_sexp_def wp_bind
    apply (rule wp_is_txn_sexp [OF assms(2)])
    subgoal
      by (simp only: simp_thms if_False wp_bind, rule wp_txn_addr [OF assms(1)])
        (auto simp: wp_simps live_txn_def healthy_def split: option.splits dest: owner)
    subgoal by (simp add: wp_simps)
    done
qed

lemma safe_env_from_sexp: "safe (sexp_ok s) (env_from_sexp s) open_env"
  by (rule safeI, rule wp_mono [OF env_from_sexp_wp]) auto

lemma safe_txn_from_sexp: "safe (sexp_ok s) (txn_from_sexp s) live_txn"
  by (rule safeI, rule wp_mono [OF txn_from_sexp_wp]) auto

section \<open>Bodies of guarded calls\<close>

text \<open>
  A quiet computation, under a condition \<open>C\<close> and for the native environment \<open>e\<close>: it changes
  libmdbx's state only, or it panics, after which \<open>e\<close> is dead and nothing else has changed.
\<close>

definition lib_only :: "'n world \<Rightarrow> 'n world \<Rightarrow> bool" where
  "lib_only w w' \<longleftrightarrow> (\<exists>n. w' = w\<lparr>w_lib := n\<rparr>)"

definition lib_crash :: "nat \<Rightarrow> 'n world \<Rightarrow> 'n world \<Rightarrow> bool" where
  "lib_crash e w w' \<longleftrightarrow> (\<exists>n q. panic_wf q \<and> w' = (kill_env e (w\<lparr>w_lib := n\<rparr>))\<lparr>w_last_panic := q\<rparr>)"

definition quiet :: "('n world \<Rightarrow> bool) \<Rightarrow> nat \<Rightarrow> ('n, 'a) mem \<Rightarrow> bool" where
  "quiet C e m \<longleftrightarrow>
     (\<forall>w k fs. C w \<longrightarrow> panic_wf (w_last_panic w) \<longrightarrow> w_guard w = k # fs \<longrightarrow>
        wp m (\<lambda>_. lib_only w) (\<lambda>x w'. x = Longjmp k \<and> lib_crash e w w') w)"

definition stable :: "('n world \<Rightarrow> bool) \<Rightarrow> bool" where
  "stable C \<longleftrightarrow> (\<forall>w n. C (w\<lparr>w_lib := n\<rparr>) = C w)"

lemma lib_only_refl [simp]: "lib_only w w"
  unfolding lib_only_def by (rule exI [of _ "w_lib w"]) simp

lemma lib_only_trans: "lib_only u v \<Longrightarrow> lib_only v w \<Longrightarrow> lib_only u w"
  by (auto simp: lib_only_def)

lemma lib_only_crash: "lib_only u v \<Longrightarrow> lib_crash e v w \<Longrightarrow> lib_crash e u w"
  unfolding lib_only_def lib_crash_def by (elim exE conjE) (simp, metis)

lemma lib_only_frame:
  assumes "lib_only w w'"
  shows "w_guard w' = w_guard w" "w_last_panic w' = w_last_panic w" "w_envs w' = w_envs w"
    "w_txns w' = w_txns w" "w_xps w' = w_xps w" "w_pid w' = w_pid w" "w_ids w' = w_ids w"
    "w_usable_envs w' = w_usable_envs w" "w_usable_txns w' = w_usable_txns w" "w_next w' = w_next w"
    "w_open w' = w_open w" "w_live_env_handles w' = w_live_env_handles w"
    "w_live_txn_handles w' = w_live_txn_handles w" "w_abandoned w' = w_abandoned w"
  using assms by (auto simp: lib_only_def)

named_theorems quiet_rules "what the bodies of guarded calls are made of"

lemma quiet_bind [quiet_rules]:
  assumes "stable C" and "quiet C e m" and "\<And>x. quiet C e (f x)"
  shows "quiet C e (bindM m f)"
  unfolding quiet_def
proof (intro allI impI)
  fix w k fs
  assume w: "C w" "panic_wf (w_last_panic w)" "w_guard w = k # fs"
  have "wp (f x) (\<lambda>_. lib_only w) (\<lambda>x w'. x = Longjmp k \<and> lib_crash e w w') v" if v: "lib_only w v" for x v
  proof (rule wp_mono)
    have "C v" using v w(1) assms(1) by (auto simp: lib_only_def stable_def)
    then show "wp (f x) (\<lambda>_. lib_only v) (\<lambda>x w'. x = Longjmp k \<and> lib_crash e v w') v"
      using assms(3) [of x] w(2,3) lib_only_frame(1,2) [OF v] by (simp add: quiet_def)
  qed (use v in \<open>auto intro: lib_only_trans lib_only_crash\<close>)
  moreover have "wp m (\<lambda>_. lib_only w) (\<lambda>x w'. x = Longjmp k \<and> lib_crash e w w') w"
    using assms(2) w by (simp add: quiet_def)
  ultimately show "wp (bindM m f) (\<lambda>_. lib_only w) (\<lambda>x w'. x = Longjmp k \<and> lib_crash e w w') w"
    unfolding wp_bind by (auto elim: wp_mono)
qed

lemma quiet_then [quiet_rules]: "stable C \<Longrightarrow> quiet C e m \<Longrightarrow> quiet C e k \<Longrightarrow> quiet C e (thenM m k)"
  unfolding thenM_def by (rule quiet_bind)

lemma quiet_return [quiet_rules]: "quiet C e (returnM x)"
  by (simp add: quiet_def wp_simps)

lemma quiet_if [quiet_rules]: "quiet C e m \<Longrightarrow> quiet C e k \<Longrightarrow> quiet C e (if b then m else k)"
  by simp

lemma quiet_case_option [quiet_rules]:
  "quiet C e m \<Longrightarrow> (\<And>x. quiet C e (k x)) \<Longrightarrow> quiet C e (case v of None \<Rightarrow> m | Some x \<Rightarrow> k x)"
  by (cases v) simp_all

text \<open>The conditions: a native transaction, or a native environment, is usable.\<close>

definition txn_usable :: "nat \<Rightarrow> nat \<Rightarrow> 'n world \<Rightarrow> bool" where
  "txn_usable p e w \<longleftrightarrow> map_of (w_usable_txns w) p = Some e"

definition env_usable :: "nat \<Rightarrow> 'n world \<Rightarrow> bool" where
  "env_usable e w \<longleftrightarrow> e \<in> set (w_usable_envs w)"

definition txn_ready :: "nat \<Rightarrow> nat \<Rightarrow> 'n world \<Rightarrow> bool" where
  "txn_ready t e w \<longleftrightarrow> (\<exists>th p. w_txns w t = Some th \<and> th_txn th = Some p \<and> txn_usable p e w)"

definition env_ready :: "nat \<Rightarrow> nat \<Rightarrow> 'n world \<Rightarrow> bool" where
  "env_ready a e w \<longleftrightarrow> (\<exists>h. w_envs w a = Some h \<and> eh_env h = Some e \<and> env_usable e w)"

lemma stable_ready [quiet_rules, simp]:
  "stable (txn_usable p e)" "stable (env_usable e)" "stable (txn_ready t e)" "stable (env_ready a e)"
  by (simp_all add: stable_def txn_usable_def env_usable_def txn_ready_def env_ready_def)

lemma quiet_txn_call [quiet_rules]: "quiet (txn_usable p e) e (txn_call (Some p) f)"
  unfolding quiet_def txn_usable_def
  by (intro allI impI, rule wp_txn_call) (auto simp: lib_only_def lib_crash_def panicked_def)

lemma quiet_env_call [quiet_rules]: "quiet (env_usable e) e (env_call (Some e) f)"
  unfolding quiet_def env_usable_def
  by (intro allI impI, rule wp_env_call) (auto simp: lib_only_def lib_crash_def panicked_def)

lemma quiet_at_txn [quiet_rules]:
  assumes "\<And>h p. th_txn h = Some p \<Longrightarrow> quiet (txn_usable p e) e (f h)"
  shows "quiet (txn_ready t e) e (bindM (txn_at t) f)"
  using assms by (auto simp: quiet_def txn_ready_def wp_simps)

lemma quiet_at_env [quiet_rules]:
  assumes "\<And>h. eh_env h = Some e \<Longrightarrow> quiet (env_usable e) e (f h)"
  shows "quiet (env_ready a e) e (bindM (env_at a) f)"
  using assms by (auto simp: quiet_def env_ready_def wp_simps)

section \<open>Guarded calls\<close>

lemma set_guard_frame [simp]:
  "w_pid (set_guard fs w) = w_pid w" "w_next (set_guard fs w) = w_next w"
  "w_envs (set_guard fs w) = w_envs w" "w_txns (set_guard fs w) = w_txns w"
  "w_xps (set_guard fs w) = w_xps w" "w_open (set_guard fs w) = w_open w"
  "w_abandoned (set_guard fs w) = w_abandoned w" "w_guard (set_guard fs w) = fs"
  "w_last_panic (set_guard fs w) = w_last_panic w" "w_lib (set_guard fs w) = w_lib w"
  "w_ids (set_guard fs w) = w_ids w" "w_live_env_handles (set_guard fs w) = w_live_env_handles w"
  "w_live_txn_handles (set_guard fs w) = w_live_txn_handles w"
  "w_usable_envs (set_guard fs w) = w_usable_envs w" "w_usable_txns (set_guard fs w) = w_usable_txns w"
  by (simp_all add: set_guard_def)

lemma push_frame_frame [simp]:
  "w_pid (push_frame w) = w_pid w" "w_next (push_frame w) = w_next w"
  "w_envs (push_frame w) = w_envs w" "w_txns (push_frame w) = w_txns w"
  "w_xps (push_frame w) = w_xps w" "w_open (push_frame w) = w_open w"
  "w_abandoned (push_frame w) = w_abandoned w" "w_guard (push_frame w) = length (w_guard w) # w_guard w"
  "w_last_panic (push_frame w) = w_last_panic w" "w_lib (push_frame w) = w_lib w"
  "w_ids (push_frame w) = w_ids w" "w_live_env_handles (push_frame w) = w_live_env_handles w"
  "w_live_txn_handles (push_frame w) = w_live_txn_handles w"
  "w_usable_envs (push_frame w) = w_usable_envs w" "w_usable_txns (push_frame w) = w_usable_txns w"
  by (simp_all add: push_frame_def)

lemma set_guard_push: "lib_only (push_frame w) v \<Longrightarrow> lib_only w (set_guard (w_guard w) v)"
  by (auto simp: lib_only_def push_frame_def set_guard_def)

lemma crash_crashed:
  assumes "inv w" and "lib_crash e (push_frame w) v"
  shows "crashed e w (set_guard (w_guard w) v)"
  using assms by (auto simp: lib_crash_def crashed_def same_frame_def intro!: dead_kill)

text \<open>What a guarded call does when its body is quiet, before the poison callback.\<close>

lemma wp_guard_quiet:
  assumes "inv w" and "quiet C e call" and "C (push_frame w)"
    and "\<And>x w'. lib_only w w' \<Longrightarrow> Q x w'"
    and "\<And>v. crashed e w v \<Longrightarrow> wp (run_poison poison) (\<lambda>_ w'. \<forall>m f l. E (AssertFailed m f l) w') E v"
  shows "wp (guard call poison) Q E w"
proof (rule wp_guard, rule wp_mono)
  show "wp call (\<lambda>_. lib_only (push_frame w))
      (\<lambda>x w'. x = Longjmp (length (w_guard w)) \<and> lib_crash e (push_frame w) w') (push_frame w)"
    using assms(1-3) inv_calm [OF assms(1)] by (simp add: quiet_def)
qed (use assms(4,5) in \<open>auto intro: set_guard_push crash_crashed [OF assms(1)]\<close>)

lemma inv_lib_only: "inv w \<Longrightarrow> lib_only w w' \<Longrightarrow> inv w'"
  by (auto simp: lib_only_def)

lemma open_env_lib_only: "lib_only w w' \<Longrightarrow> open_env a w' = open_env a w"
  by (auto simp: lib_only_def open_env_def healthy_def)

lemma live_txn_lib_only: "lib_only w w' \<Longrightarrow> live_txn t w' = live_txn t w"
  by (auto simp: lib_only_def live_txn_def healthy_def)

lemma live_txn_ready:
  assumes "inv w" and "live_txn t w"
  obtains th p a h e where "w_txns w t = Some th" "th_txn th = Some p" "th_owner th = Some a"
    "w_envs w a = Some h" "eh_env h = Some e" "healthy w h" "txn_usable p e w" "txn_ready t e w"
    "env_usable e w"
proof -
  obtain th a h p e where t: "w_txns w t = Some th" "th_txn th = Some p" "th_owner th = Some a"
      "w_envs w a = Some h" "eh_env h = Some e" "healthy w h"
    using assms(2) by (auto simp: live_txn_def)
  then have "txn_usable p e w"
    using inv_txn_usable [OF assms(1), of t th a h p e] by (simp add: txn_usable_def)
  moreover have "env_usable e w"
    using inv_env_usable [OF assms(1), of a h e] t by (simp add: env_usable_def)
  ultimately show thesis using that t by (auto simp: txn_ready_def)
qed

lemma open_env_ready:
  assumes "inv w" and "open_env a w"
  obtains h e where "w_envs w a = Some h" "eh_env h = Some e" "healthy w h" "env_ready a e w"
    "env_usable e w"
proof -
  obtain h e where a: "w_envs w a = Some h" "eh_env h = Some e" "healthy w h"
    using assms(2) by (auto simp: open_env_def)
  then have "env_usable e w" using inv_env_usable [OF assms(1)] by (simp add: env_usable_def)
  with a that show thesis by (auto simp: env_ready_def)
qed

lemma ready_push [simp]:
  "txn_ready t e (push_frame w) = txn_ready t e w" "env_ready a e (push_frame w) = env_ready a e w"
  by (simp_all add: txn_ready_def env_ready_def txn_usable_def env_usable_def)

text \<open>The poison callbacks, on the state a panic leaves.\<close>

lemma wp_poison_txn:
  assumes "inv w" and "crashed e w v" and "w_txns w t = Some th" "th_owner th = Some a"
    "w_envs w a = Some h" "eh_env h = Some e"
    and "\<And>w'. inv w' \<Longrightarrow> w' = put_env a (h\<lparr>eh_poisoned := True\<rparr>) (put_txn t (th\<lparr>th_poisoned := True\<rparr>) v)
        \<Longrightarrow> Q () w'"
  shows "wp (poison_txn t) Q E v"
  using assms(2-) inv_crash_txn [OF assms(1,2,5,6,3,4)] by (simp add: poison_txn_def wp_simps crashed_def)

lemma wp_poison_env:
  assumes "inv w" and "crashed e w v" and "w_envs w a = Some h" "eh_env h = Some e"
    and "\<And>w'. inv w' \<Longrightarrow> w' = put_env a (h\<lparr>eh_poisoned := True\<rparr>) v \<Longrightarrow> Q () w'"
  shows "wp (poison_env a) Q E v"
  using assms(2-) inv_crash_env [OF assms(1,2,3,4)] by (simp add: poison_env_def wp_simps crashed_def)

text \<open>
  The contract between the functions handed to the guard and the operations that hand them over:
  the body of a call on a transaction is quiet, and so is one on an environment.
\<close>

locale guarded_on_txn =
  fixes body :: "nat \<Rightarrow> ('n, 'a) mem"
  assumes body_quiet: "quiet (txn_ready t e) e (body t)"
begin

lemma outcome:
  assumes "inv w" and "live_txn t w"
  shows "wp (guard (body t) (Some (poison_txn t))) (\<lambda>_. lib_only w) (\<lambda>x w'. inv w' \<and> harmless x) w"
proof -
  obtain th p a h e where t: "w_txns w t = Some th" "th_owner th = Some a" "w_envs w a = Some h"
      "eh_env h = Some e" "txn_ready t e w"
    using live_txn_ready [OF assms] by metis
  show ?thesis
  proof (rule wp_guard_quiet [OF assms(1) body_quiet [of t e]])
    show "txn_ready t e (push_frame w)" using t(5) by simp
    show "wp (run_poison (Some (poison_txn t))) (\<lambda>_ w'. \<forall>m f l. inv w' \<and> harmless (AssertFailed m f l))
        (\<lambda>x w'. inv w' \<and> harmless x) v" if "crashed e w v" for v
      unfolding run_poison_simps by (rule wp_poison_txn [OF assms(1) that t(1-4)]) simp
  qed simp
qed

lemma keeps: "keeps (live_txn t) (guard (body t) (Some (poison_txn t)))"
  by (rule keepsI, rule safeI, rule wp_mono [OF outcome]) (auto simp: live_txn_lib_only intro: inv_lib_only)

end

locale guarded_on_env =
  fixes body :: "nat \<Rightarrow> ('n, 'a) mem"
  assumes body_quiet: "quiet (env_ready a e) e (body a)"
begin

lemma outcome:
  assumes "inv w" and "open_env a w"
  shows "wp (guard (body a) (Some (poison_env a))) (\<lambda>_. lib_only w) (\<lambda>x w'. inv w' \<and> harmless x) w"
proof -
  obtain h e where a: "w_envs w a = Some h" "eh_env h = Some e" "env_ready a e w"
    using open_env_ready [OF assms] by metis
  show ?thesis
  proof (rule wp_guard_quiet [OF assms(1) body_quiet [of a e]])
    show "env_ready a e (push_frame w)" using a(3) by simp
    show "wp (run_poison (Some (poison_env a))) (\<lambda>_ w'. \<forall>m f l. inv w' \<and> harmless (AssertFailed m f l))
        (\<lambda>x w'. inv w' \<and> harmless x) v" if "crashed e w v" for v
      unfolding run_poison_simps by (rule wp_poison_env [OF assms(1) that a(1,2)]) simp
  qed simp
qed

lemma keeps: "keeps (open_env a) (guard (body a) (Some (poison_env a)))"
  by (rule keepsI, rule safeI, rule wp_mono [OF outcome]) (auto simp: open_env_lib_only intro: inv_lib_only)

end

end
