(* ===== verification/Mdbx_Data.thy ===== *)
theory Mdbx_Data
  imports Mdbx_Lifecycle
begin

unbundle bit_operations_syntax

text \<open>
  Operations inside a transaction (\<open>r_mdbx.cpp\<close>): resolving the database an operation addresses
  (\<open>ensure_dbi\<close> and its per-transaction cache), \<open>mdbx_get_\<close>, \<open>mdbx_put_\<close>, \<open>mdbx_del_\<close>, and
  the named-database operations \<open>mdbx_dbi_open_\<close>, \<open>mdbx_dbi_sequence_\<close>, \<open>mdbx_dbi_drop_\<close> and
  \<open>mdbx_dbi_list_\<close>.
\<close>

section \<open>Guarded calls\<close>

definition dbi_call :: "'n libmdbx \<Rightarrow> nat \<Rightarrow> string option \<Rightarrow> u32 \<Rightarrow> ('n, int \<times> nat) mem" where
  "dbi_call L t name flags =
     bindM (txn_at t) (\<lambda>h. txn_call (th_txn h) (\<lambda>p. L_dbi_open L p name flags))"

definition get_call :: "'n libmdbx \<Rightarrow> nat \<Rightarrow> bytes \<Rightarrow> ('n, int \<times> bytes) mem" where
  "get_call L t key =
     bindM (txn_at t) (\<lambda>h. txn_call (th_txn h) (\<lambda>p. L_get L p (th_dbi h) key))"

definition put_call :: "'n libmdbx \<Rightarrow> nat \<Rightarrow> bytes \<Rightarrow> bytes \<Rightarrow> u32 \<Rightarrow> ('n, int) mem" where
  "put_call L t key data flags =
     bindM (txn_at t) (\<lambda>h. txn_call (th_txn h) (\<lambda>p. L_put L p (th_dbi h) key data flags))"

definition del_call :: "'n libmdbx \<Rightarrow> nat \<Rightarrow> bytes \<Rightarrow> ('n, int) mem" where
  "del_call L t key =
     bindM (txn_at t) (\<lambda>h. txn_call (th_txn h) (\<lambda>p. L_del L p (th_dbi h) key))"

definition drop_call :: "'n libmdbx \<Rightarrow> nat \<Rightarrow> bool \<Rightarrow> ('n, int) mem" where
  "drop_call L t del =
     bindM (txn_at t) (\<lambda>h. txn_call (th_txn h) (\<lambda>p. L_drop L p (th_dbi h) del))"

definition sequence_call :: "'n libmdbx \<Rightarrow> nat \<Rightarrow> nat \<Rightarrow> ('n, int \<times> nat) mem" where
  "sequence_call L t increment =
     bindM (txn_at t) (\<lambda>h. txn_call (th_txn h) (\<lambda>p. L_dbi_sequence L p (th_dbi h) increment))"

text \<open>
  \<open>mdbx_enumerate_tables\<close>: the visitor runs on each name until the names are exhausted or it
  returns something other than zero, which is then the result.
\<close>

primrec visit_tables ::
  "(bytes \<Rightarrow> 'c \<Rightarrow> ('n, int \<times> 'c) mem) \<Rightarrow> int \<Rightarrow> bytes list \<Rightarrow> 'c \<Rightarrow> ('n, int \<times> 'c) mem" where
  "visit_tables visitor final_rc [] ctx = returnM (final_rc, ctx)"
| "visit_tables visitor final_rc (name # names) ctx =
     bindM (visitor name ctx) (\<lambda>r.
       if fst r \<noteq> 0 then returnM r else visit_tables visitor final_rc names (snd r))"

definition enumerate_tables ::
  "'n libmdbx \<Rightarrow> nat \<Rightarrow> (bytes \<Rightarrow> 'c \<Rightarrow> ('n, int \<times> 'c) mem) \<Rightarrow> 'c \<Rightarrow> ('n, int \<times> 'c) mem" where
  "enumerate_tables L t visitor ctx =
     bindM (txn_at t) (\<lambda>h.
     bindM (txn_call (th_txn h) (L_tables L)) (\<lambda>r.
     visit_tables visitor (snd r) (fst r) ctx))"

definition allocM :: "'n libmdbx \<Rightarrow> nat \<Rightarrow> ('n, bool) mem" where
  "allocM L n w = (case L_alloc L n (w_lib w) of (ok, s) \<Rightarrow> (Inr ok, w\<lparr>w_lib := s\<rparr>))"

text \<open>\<open>count_visit\<close> records that there is one and stops.\<close>

definition count_visit :: "bytes \<Rightarrow> nat \<Rightarrow> ('n, int \<times> nat) mem" where
  "count_visit name count = returnM (MDBX_RESULT_TRUE, 1)"

definition count_call :: "'n libmdbx \<Rightarrow> nat \<Rightarrow> ('n, int \<times> nat) mem" where
  "count_call L t =
     bindM (enumerate_tables L t count_visit 0) (\<lambda>r.
       returnM (if fst r = MDBX_RESULT_TRUE then MDBX_SUCCESS else fst r, snd r))"

text \<open>\<open>list_visit\<close> appends the name; its context is the names and \<open>out_of_memory\<close>.\<close>

definition list_visit :: "'n libmdbx \<Rightarrow> bytes \<Rightarrow> bytes list \<times> bool \<Rightarrow> ('n, int \<times> bytes list \<times> bool) mem" where
  "list_visit L name ctx =
     bindM (allocM L (length name)) (\<lambda>ok.
       if ok then returnM (0, fst ctx @ [name], snd ctx)
       else returnM (L_ENOMEM L, fst ctx, True))"

definition list_call :: "'n libmdbx \<Rightarrow> nat \<Rightarrow> ('n, int \<times> bytes list \<times> bool) mem" where
  "list_call L t = enumerate_tables L t (list_visit L) ([], False)"

section \<open>Resolving a database\<close>

definition stop_missing_dbi :: "nat \<Rightarrow> string \<Rightarrow> ('n, 'a) mem" where
  "stop_missing_dbi t name =
     bindM (txn_at t) (\<lambda>h.
       case th_owner h of
         None \<Rightarrow> stopM Undefined
       | Some a \<Rightarrow> bindM (env_at a) (\<lambda>o_h. stopM (MissingDbi name (eh_path o_h))))"

text \<open>The cached handle for a name, if this transaction has resolved it.\<close>

definition cached_dbi :: "txn_handle \<Rightarrow> string option \<Rightarrow> nat option" where
  "cached_dbi h name =
     (case name of
        None \<Rightarrow> if th_main_ready h then Some (th_main_dbi h) else None
      | Some n \<Rightarrow> map_option snd (find (\<lambda>entry. fst entry = n) (th_named h)))"

definition cache_dbi :: "string option \<Rightarrow> nat \<Rightarrow> txn_handle \<Rightarrow> txn_handle" where
  "cache_dbi name dbi h =
     (case name of
        None \<Rightarrow> h\<lparr>th_main_dbi := dbi, th_main_ready := True\<rparr>
      | Some n \<Rightarrow> h\<lparr>th_named := th_named h @ [(n, dbi)]\<rparr>)"

definition ensure_dbi :: "'n libmdbx \<Rightarrow> nat \<Rightarrow> string option \<Rightarrow> ('n, nat) mem" where
  "ensure_dbi L t name =
     bindM (txn_at t) (\<lambda>h.
     case cached_dbi h name of
       Some dbi \<Rightarrow> thenM (set_txn t (\<lambda>h. h\<lparr>th_dbi := dbi\<rparr>)) (returnM dbi)
     | None \<Rightarrow>
         bindM (guard (dbi_call L t name MDBX_DB_DEFAULTS) (Some (poison_dbi t))) (\<lambda>r.
         thenM (case name of
                  Some n \<Rightarrow> whenM (fst r = MDBX_NOTFOUND) (stop_missing_dbi t n)
                | None \<Rightarrow> returnM ())
        (thenM (check L (fst r))
        (thenM (set_txn t (cache_dbi name (snd r)))
        (thenM (set_txn t (\<lambda>h. h\<lparr>th_dbi := snd r\<rparr>))
               (returnM (snd r)))))))"

text \<open>The database named by an R argument: \<open>character(0)\<close> is the main one.\<close>

definition db_arg :: "string list \<Rightarrow> string option" where
  "db_arg db = (case db of [] \<Rightarrow> None | n # _ \<Rightarrow> Some n)"

definition writable_txn :: "rsexp \<Rightarrow> ('n, nat) mem" where
  "writable_txn txn =
     bindM (txn_from_sexp txn) (\<lambda>t. bindM (txn_at t) (\<lambda>h.
       if \<not> th_write h then stopM ReadOnlyTxn else returnM t))"

text \<open>
  \<open>RAW(x)\<close> refuses anything but a raw vector, with R's own error: a \<open>longjmp\<close> out of the C++ frames above it,
  whose arguments are then not destroyed. Here it is a condition like the others; what the skipped destructors
  leave behind is not modelled. The R functions of the package pass raw vectors only.
\<close>

definition val_from_raw :: "rsexp \<Rightarrow> ('n, bytes) mem" where
  "val_from_raw x = (case x of R_Raw b \<Rightarrow> returnM b | _ \<Rightarrow> stopM NotRaw)"

section \<open>Keys and values\<close>

definition mdbx_get :: "'n libmdbx \<Rightarrow> rsexp \<Rightarrow> rsexp \<Rightarrow> string list \<Rightarrow> ('n, rsexp) mem" where
  "mdbx_get L txn key db =
     bindM (txn_from_sexp txn) (\<lambda>t.
     bindM (val_from_raw key) (\<lambda>k.
     thenM (ensure_dbi L t (db_arg db))
    (bindM (guard (get_call L t k) (Some (poison_get t))) (\<lambda>r.
     if fst r = MDBX_NOTFOUND then returnM R_NilValue
     else thenM (check L (fst r)) (returnM (R_Raw (snd r)))))))"

definition mdbx_put ::
  "'n libmdbx \<Rightarrow> rsexp \<Rightarrow> rsexp \<Rightarrow> rsexp \<Rightarrow> bool \<Rightarrow> string list \<Rightarrow> ('n, bool) mem" where
  "mdbx_put L txn key val overwrite db =
     bindM (writable_txn txn) (\<lambda>t.
     bindM (val_from_raw key) (\<lambda>k.
     bindM (val_from_raw val) (\<lambda>v.
     thenM (ensure_dbi L t (db_arg db))
    (bindM (guard (put_call L t k v (if overwrite then MDBX_UPSERT else MDBX_NOOVERWRITE))
              (Some (poison_put t))) (\<lambda>rc.
     if rc = MDBX_KEYEXIST then returnM False
     else thenM (check L rc) (returnM True))))))"

definition mdbx_del :: "'n libmdbx \<Rightarrow> rsexp \<Rightarrow> rsexp \<Rightarrow> string list \<Rightarrow> ('n, bool) mem" where
  "mdbx_del L txn key db =
     bindM (writable_txn txn) (\<lambda>t.
     bindM (val_from_raw key) (\<lambda>k.
     thenM (ensure_dbi L t (db_arg db))
    (bindM (guard (del_call L t k) (Some (poison_del t))) (\<lambda>rc.
     if rc = MDBX_NOTFOUND then returnM False
     else thenM (check L rc) (returnM True)))))"

section \<open>Named databases\<close>

text \<open>Replace the handle cached for a name, or append one.\<close>

fun recache :: "string \<Rightarrow> nat \<Rightarrow> (string \<times> nat) list \<Rightarrow> (string \<times> nat) list" where
  "recache name dbi [] = [(name, dbi)]"
| "recache name dbi (entry # rest) =
     (if fst entry = name then (name, dbi) # rest else entry # recache name dbi rest)"

definition mdbx_dbi_open :: "'n libmdbx \<Rightarrow> rsexp \<Rightarrow> string \<Rightarrow> bool \<Rightarrow> ('n, unit) mem" where
  "mdbx_dbi_open L txn name create =
     bindM (txn_from_sexp txn) (\<lambda>t.
     bindM (txn_at t) (\<lambda>h.
     if create \<and> \<not> th_write h then stopM CreateNeedsWrite else
     bindM (guard (dbi_call L t (Some name) (if create then MDBX_CREATE else MDBX_DB_DEFAULTS))
              (Some (poison_dbi t))) (\<lambda>r.
     thenM (whenM (fst r = MDBX_NOTFOUND) (stop_missing_dbi t name))
    (thenM (check L (fst r))
           (set_txn t (\<lambda>h. h\<lparr>th_named := recache name (snd r) (th_named h)\<rparr>))))))"

definition mdbx_dbi_sequence :: "'n libmdbx \<Rightarrow> rsexp \<Rightarrow> string list \<Rightarrow> dbl \<Rightarrow> ('n, dbl) mem" where
  "mdbx_dbi_sequence L txn db increment =
     bindM (if dlt (Fin 0) increment then writable_txn txn else txn_from_sexp txn) (\<lambda>t.
     thenM (ensure_dbi L t (db_arg db))
    (bindM (guard (sequence_call L t 0) (Some (poison_sequence t))) (\<lambda>r.
     thenM (check L (fst r))
    (let current = as_num (snd r) in
     if dle increment (Fin 0) then returnM current
     else if \<not> dle increment max_exact_integer \<or> dlt (dsub max_exact_integer increment) current
     then stopM (SequencePast current increment)
     else
       bindM (castM (cast_unsigned 64 increment)) (\<lambda>inc.
       bindM (guard (sequence_call L t inc) (Some (poison_sequence t))) (\<lambda>r.
       thenM (whenM (fst r = MDBX_RESULT_TRUE) (stopM (SequenceOverflow increment)))
      (thenM (check L (fst r)) (returnM (as_num (snd r))))))))))"

definition count_named_tables :: "'n libmdbx \<Rightarrow> nat \<Rightarrow> ('n, nat) mem" where
  "count_named_tables L t =
     bindM (guard (count_call L t) (Some (poison_count t))) (\<lambda>r.
     thenM (check L (fst r)) (returnM (snd r)))"

fun erase_name :: "string \<Rightarrow> (string \<times> nat) list \<Rightarrow> (string \<times> nat) list" where
  "erase_name name [] = []"
| "erase_name name (entry # rest) =
     (if fst entry = name then rest else entry # erase_name name rest)"

definition mdbx_dbi_drop :: "'n libmdbx \<Rightarrow> rsexp \<Rightarrow> string list \<Rightarrow> bool \<Rightarrow> ('n, unit) mem" where
  "mdbx_dbi_drop L txn db del =
     bindM (writable_txn txn) (\<lambda>t.
     thenM (whenM (\<not> del \<and> db = [])
              (bindM (count_named_tables L t) (\<lambda>n. whenM (n > 0) (stopM EmptyMainWithNamed))))
    (thenM (whenM (del \<and> db = []) (stopM DeleteMain))
    (thenM (ensure_dbi L t (db_arg db))
    (bindM (guard (drop_call L t del) (Some (poison_drop t))) (\<lambda>rc.
     thenM (check L rc)
           (case db_arg db of
              Some name \<Rightarrow> whenM del (set_txn t (\<lambda>h. h\<lparr>th_named := erase_name name (th_named h)\<rparr>))
            | None \<Rightarrow> returnM ()))))))"

definition mdbx_dbi_list :: "'n libmdbx \<Rightarrow> rsexp \<Rightarrow> ('n, bytes list) mem" where
  "mdbx_dbi_list L txn =
     bindM (txn_from_sexp txn) (\<lambda>t.
     bindM (guard (list_call L t) (Some (poison_list t))) (\<lambda>r.
     if snd (snd r) then stopM ListOutOfMemory
     else thenM (check L (fst r)) (returnM (fst (snd r)))))"

end
