(* ===== verification/Mdbx_Scan.thy ===== *)
theory Mdbx_Scan
  imports Mdbx_Data
begin

text \<open>
  Scans (\<open>scan_call\<close> and \<open>mdbx_scan_\<close> of \<open>r_mdbx.cpp\<close>): one guarded walk of a database in key
  order, forwards or backwards, from an optional start key, up to a limit. The cursor is opened,
  walked and closed inside the guarded call. The loop is bounded by the limit, which is a
  \<open>size_t\<close>, so it terminates whatever the cursor answers.
\<close>

definition cursor_get ::
  "'n libmdbx \<Rightarrow> nat option \<Rightarrow> nat \<Rightarrow> bytes \<Rightarrow> MDBX_cursor_op \<Rightarrow> ('n, int \<times> bytes \<times> bytes) mem" where
  "cursor_get L p c key opr = txn_call p (\<lambda>_. L_cursor_get L c key opr)"

text \<open>The first positioning of a backward scan with a start key.\<close>

definition reposition ::
  "'n libmdbx \<Rightarrow> nat option \<Rightarrow> nat \<Rightarrow> nat \<Rightarrow> bytes \<Rightarrow> int \<times> bytes \<times> bytes
     \<Rightarrow> ('n, int \<times> bytes \<times> bytes) mem" where
  "reposition L p dbi c from_key r =
     (if fst r = MDBX_NOTFOUND then cursor_get L p c (fst (snd r)) MDBX_LAST
      else if fst r = MDBX_SUCCESS then
        bindM (txn_call p (\<lambda>t. L_cmp L t dbi (fst (snd r)) from_key)) (\<lambda>o_cmp.
          if o_cmp > 0 then cursor_get L p c (fst (snd r)) MDBX_PREV else returnM r)
      else returnM r)"

text \<open>
  The \<open>while\<close> loop. The result is the status, \<open>out_of_memory\<close>, the keys and the values. Each
  \<open>emplace_back\<close> allocates and may throw, which ends the loop with the flag set.
\<close>

function scan_loop ::
  "'n libmdbx \<Rightarrow> nat option \<Rightarrow> nat \<Rightarrow> nat \<Rightarrow> nat \<Rightarrow> bool \<Rightarrow> bool \<Rightarrow> bytes option
     \<Rightarrow> MDBX_cursor_op \<Rightarrow> bytes \<Rightarrow> bool \<Rightarrow> bytes list \<Rightarrow> bytes list
     \<Rightarrow> ('n, int \<times> bool \<times> bytes list \<times> bytes list) mem" where
  "scan_loop L p dbi c limit want_values reverse start opr key positioning ks vs =
     (if length ks < limit then
        bindM (cursor_get L p c key opr) (\<lambda>r.
        bindM (case start of
                 Some from_key \<Rightarrow> if positioning \<and> reverse then reposition L p dbi c from_key r else returnM r
               | None \<Rightarrow> returnM r) (\<lambda>r.
        if fst r = MDBX_NOTFOUND then returnM (MDBX_SUCCESS, False, ks, vs)
        else if fst r \<noteq> MDBX_SUCCESS then returnM (fst r, False, ks, vs)
        else
          bindM (allocM L (length (fst (snd r)))) (\<lambda>ok.
          if \<not> ok then returnM (MDBX_SUCCESS, True, ks, vs) else
          bindM (if want_values then allocM L (length (snd (snd r))) else returnM True) (\<lambda>ok.
          if \<not> ok then returnM (MDBX_SUCCESS, True, ks @ [fst (snd r)], vs) else
          scan_loop L p dbi c limit want_values reverse start
            (if reverse then MDBX_PREV else MDBX_NEXT) (fst (snd r)) False
            (ks @ [fst (snd r)]) (if want_values then vs @ [snd (snd r)] else vs)))))
      else returnM (MDBX_SUCCESS, False, ks, vs))"
  by pat_completeness auto
termination
  by (relation "measure (\<lambda>(L, p, dbi, c, limit, want_values, reverse, start, opr, key, positioning, ks, vs).
        limit - length ks)") auto

declare scan_loop.simps [simp del]

text \<open>Where a scan begins: \<open>MDBX_SET_RANGE\<close> at the start key, or an end of the database.\<close>

definition first_op :: "bool \<Rightarrow> bytes option \<Rightarrow> MDBX_cursor_op" where
  "first_op reverse start =
     (case start of Some _ \<Rightarrow> MDBX_SET_RANGE | None \<Rightarrow> if reverse then MDBX_LAST else MDBX_FIRST)"

definition first_key :: "bytes option \<Rightarrow> bytes" where
  "first_key start = (case start of Some s \<Rightarrow> s | None \<Rightarrow> [])"

definition scan_call ::
  "'n libmdbx \<Rightarrow> nat \<Rightarrow> nat \<Rightarrow> bool \<Rightarrow> bool \<Rightarrow> bytes option
     \<Rightarrow> ('n, int \<times> bool \<times> bytes list \<times> bytes list) mem" where
  "scan_call L t limit want_values reverse start =
     bindM (txn_at t) (\<lambda>h.
     bindM (txn_call (th_txn h) (\<lambda>p. L_cursor_open L p (th_dbi h))) (\<lambda>r.
     if fst r \<noteq> MDBX_SUCCESS then returnM (fst r, False, [], [])
     else
       bindM (scan_loop L (th_txn h) (th_dbi h) (snd r) limit want_values reverse start
                (first_op reverse start) (first_key start) True [] []) (\<lambda>out.
       thenM (txn_call (th_txn h) (\<lambda>_. L_cursor_close L (snd r)))
             (returnM out))))"

text \<open>\<open>limit\<close>: negative means every record, and the cast is to \<open>size_t\<close>.\<close>

definition scan_limit :: "'n libmdbx \<Rightarrow> dbl \<Rightarrow> nat option" where
  "scan_limit L limit =
     (if dlt limit (Fin 0) then Some (2 ^ (8 * L_sizeof_voidp L) - 1)
      else cast_unsigned (8 * L_sizeof_voidp L) limit)"

definition raw_or_null :: "rsexp \<Rightarrow> bytes option" where
  "raw_or_null x = (case x of R_Raw b \<Rightarrow> Some b | _ \<Rightarrow> None)"

definition mdbx_scan ::
  "'n libmdbx \<Rightarrow> rsexp \<Rightarrow> dbl \<Rightarrow> bool \<Rightarrow> string list \<Rightarrow> rsexp \<Rightarrow> bool
     \<Rightarrow> ('n, bytes list \<times> bytes list) mem" where
  "mdbx_scan L txn limit values db start reverse =
     (if \<not> dle limit (max_native_integer (L_sizeof_voidp L)) then stopM LimitTooLarge else
      bindM (txn_from_sexp txn) (\<lambda>t.
      thenM (ensure_dbi L t (db_arg db))
     (bindM (castM (scan_limit L limit)) (\<lambda>n.
      bindM (guard (scan_call L t n values reverse (raw_or_null start)) (Some (poison_scan t))) (\<lambda>out.
      if fst (snd out) then stopM ScanOutOfMemory
      else thenM (check L (fst out))
             (returnM (fst (snd (snd out)), if values then snd (snd (snd out)) else [])))))))"

end
