(* ===== verification/Mdbx_EnvOps.thy ===== *)
theory Mdbx_EnvOps
  imports Mdbx_Data
begin

unbundle bit_operations_syntax

text \<open>
  Operations on an open environment that neither open nor close it: reader check, path, statistics
  and info (\<open>r_mdbx.cpp\<close>), flags and sync (\<open>r_flags.cpp\<close>), the size limits, initialization and
  the panic test hooks.
\<close>

section \<open>Reader check and path\<close>

definition reader_check_call :: "'n libmdbx \<Rightarrow> nat \<Rightarrow> ('n, int \<times> int) mem" where
  "reader_check_call L a = bindM (env_at a) (\<lambda>h. env_call (eh_env h) (L_reader_check L))"

definition mdbx_env_reader_check :: "'n libmdbx \<Rightarrow> rsexp \<Rightarrow> ('n, int) mem" where
  "mdbx_env_reader_check L env =
     bindM (env_from_sexp env) (\<lambda>a.
     bindM (guard (reader_check_call L a) (Some (poison_reader_check a))) (\<lambda>r.
     thenM (whenM (fst r \<noteq> MDBX_RESULT_TRUE) (check L (fst r)))
           (returnM (snd r))))"

definition path_call :: "'n libmdbx \<Rightarrow> nat \<Rightarrow> ('n, int \<times> string option) mem" where
  "path_call L a = bindM (env_at a) (\<lambda>h. env_call (eh_env h) (L_env_get_path L))"

definition mdbx_env_path :: "'n libmdbx \<Rightarrow> rsexp \<Rightarrow> ('n, string) mem" where
  "mdbx_env_path L env =
     bindM (env_from_sexp env) (\<lambda>a.
     bindM (guard (path_call L a) (Some (poison_path a))) (\<lambda>r.
     thenM (check L (fst r))
           (returnM (case snd r of Some s \<Rightarrow> s | None \<Rightarrow> ''''))))"

section \<open>Flags and sync\<close>

definition get_flags_call :: "'n libmdbx \<Rightarrow> nat \<Rightarrow> ('n, int \<times> u32) mem" where
  "get_flags_call L a = bindM (env_at a) (\<lambda>h. env_call (eh_env h) (L_env_get_flags L))"

definition set_flags_call :: "'n libmdbx \<Rightarrow> nat \<Rightarrow> u32 \<Rightarrow> bool \<Rightarrow> ('n, int) mem" where
  "set_flags_call L a bits on =
     bindM (env_at a) (\<lambda>h. env_call (eh_env h) (\<lambda>e. L_env_set_flags L e bits on))"

definition sync_call :: "'n libmdbx \<Rightarrow> nat \<Rightarrow> bool \<Rightarrow> bool \<Rightarrow> ('n, int) mem" where
  "sync_call L a force nonblock =
     bindM (env_at a) (\<lambda>h. env_call (eh_env h) (\<lambda>e. L_env_sync_ex L e force nonblock))"

definition mdbx_env_get_flags :: "'n libmdbx \<Rightarrow> rsexp \<Rightarrow> ('n, string list) mem" where
  "mdbx_env_get_flags L env =
     bindM (env_from_sexp env) (\<lambda>a.
     bindM (guard (get_flags_call L a) (Some (poison_flags a))) (\<lambda>r.
     thenM (check L (fst r)) (returnM (names_from (snd r)))))"

definition mdbx_env_set_flags :: "'n libmdbx \<Rightarrow> rsexp \<Rightarrow> string list \<Rightarrow> bool \<Rightarrow> ('n, unit) mem" where
  "mdbx_env_set_flags L env flags on =
     bindM (env_from_sexp env) (\<lambda>a.
     bindM (env_at a) (\<lambda>h.
     if eh_live h \<noteq> [] then stopM FlagsDuringTxn else
     bindM (liftM (env_flags_from_names flags)) (\<lambda>bits.
     bindM (guard (set_flags_call L a bits on) (Some (poison_flags a))) (\<lambda>rc.
     check L rc))))"

definition mdbx_env_sync :: "'n libmdbx \<Rightarrow> rsexp \<Rightarrow> bool \<Rightarrow> bool \<Rightarrow> ('n, bool) mem" where
  "mdbx_env_sync L env force nonblock =
     bindM (env_from_sexp env) (\<lambda>a.
     bindM (guard (sync_call L a force nonblock) (Some (poison_sync a))) (\<lambda>rc.
     if rc = MDBX_RESULT_TRUE then returnM False
     else thenM (check L rc) (returnM True)))"

section \<open>Statistics and info\<close>

text \<open>A call on an environment with an optional transaction of it.\<close>

definition env_txn_call ::
  "nat option \<Rightarrow> nat option \<Rightarrow> (nat \<Rightarrow> nat option \<Rightarrow> 'n \<Rightarrow> 'a nres \<times> 'n) \<Rightarrow> ('n, 'a) mem" where
  "env_txn_call p txn f =
     bindM (getsM w_usable_txns) (\<lambda>us.
       if (case txn of None \<Rightarrow> True | Some t \<Rightarrow> map_of us t \<noteq> None)
       then env_call p (\<lambda>e. f e txn) else stopM Undefined)"

definition stat_call :: "'n libmdbx \<Rightarrow> nat option \<Rightarrow> nat option \<Rightarrow> ('n, int \<times> mdbx_stat) mem" where
  "stat_call L p txn = env_txn_call p txn (L_env_stat_ex L)"

definition info_call :: "'n libmdbx \<Rightarrow> nat option \<Rightarrow> nat option \<Rightarrow> ('n, int \<times> mdbx_envinfo) mem" where
  "info_call L p txn = env_txn_call p txn (L_env_info_ex L)"

definition dbi_stat_call :: "'n libmdbx \<Rightarrow> nat \<Rightarrow> ('n, int \<times> mdbx_stat) mem" where
  "dbi_stat_call L t =
     bindM (txn_at t) (\<lambda>h. txn_call (th_txn h) (\<lambda>p. L_dbi_stat L p (th_dbi h)))"

definition stat_list :: "mdbx_stat \<Rightarrow> (string \<times> dbl) list" where
  "stat_list s =
     [(''pagesize'', as_num (ms_psize s)),
      (''depth'', as_num (ms_depth s)),
      (''branch_pages'', as_num (ms_branch_pages s)),
      (''leaf_pages'', as_num (ms_leaf_pages s)),
      (''overflow_pages'', as_num (ms_overflow_pages s)),
      (''entries'', as_num (ms_entries s)),
      (''mod_txnid'', as_num (ms_mod_txnid s))]"

definition info_list :: "mdbx_envinfo \<Rightarrow> (string \<times> dbl) list" where
  "info_list i =
     [(''geo_lower'', as_num (mi_geo_lower i)),
      (''geo_upper'', as_num (mi_geo_upper i)),
      (''geo_current'', as_num (mi_geo_current i)),
      (''geo_shrink'', as_num (mi_geo_shrink i)),
      (''geo_grow'', as_num (mi_geo_grow i)),
      (''mapsize'', as_num (mi_mapsize i)),
      (''file_size'', as_num (mi_dxb_fsize i)),
      (''last_pgno'', as_num (mi_last_pgno i)),
      (''recent_txnid'', as_num (mi_recent_txnid i)),
      (''latter_reader_txnid'', as_num (mi_latter_reader_txnid i)),
      (''maxreaders'', as_num (mi_maxreaders i)),
      (''numreaders'', as_num (mi_numreaders i)),
      (''pagesize'', as_num (mi_dxb_pagesize i)),
      (''sys_pagesize'', as_num (mi_sys_pagesize i))]"

definition run_stat :: "'n libmdbx \<Rightarrow> nat \<Rightarrow> nat option \<Rightarrow> ('n, (string \<times> dbl) list) mem" where
  "run_stat L owner txn =
     bindM (env_at owner) (\<lambda>h.
     bindM (guard (stat_call L (eh_env h) txn) (Some (poison_stat owner))) (\<lambda>r.
     thenM (check L (fst r)) (returnM (stat_list (snd r)))))"

definition run_info :: "'n libmdbx \<Rightarrow> nat \<Rightarrow> nat option \<Rightarrow> ('n, (string \<times> dbl) list) mem" where
  "run_info L owner txn =
     bindM (env_at owner) (\<lambda>h.
     bindM (guard (info_call L (eh_env h) txn) (Some (poison_info owner))) (\<lambda>r.
     thenM (check L (fst r)) (returnM (info_list (snd r)))))"

primrec current_txn_loop :: "nat list \<Rightarrow> ('n, nat option) mem" where
  "current_txn_loop [] = returnM None"
| "current_txn_loop (t # rest) =
     bindM (txn_at t) (\<lambda>h. if th_txn h \<noteq> None then returnM (th_txn h) else current_txn_loop rest)"

definition current_txn :: "nat \<Rightarrow> ('n, nat option) mem" where
  "current_txn a = bindM (env_at a) (\<lambda>h. current_txn_loop (eh_live h))"

definition mdbx_env_stat :: "'n libmdbx \<Rightarrow> rsexp \<Rightarrow> ('n, (string \<times> dbl) list) mem" where
  "mdbx_env_stat L env =
     bindM (env_from_sexp env) (\<lambda>a. bindM (current_txn a) (\<lambda>txn. run_stat L a txn))"

definition mdbx_env_info :: "'n libmdbx \<Rightarrow> rsexp \<Rightarrow> ('n, (string \<times> dbl) list) mem" where
  "mdbx_env_info L env =
     bindM (env_from_sexp env) (\<lambda>a. bindM (current_txn a) (\<lambda>txn. run_info L a txn))"

text \<open>\<open>handle->owner\<close> passed on, a null one being dereferenced by the callee.\<close>

definition owner_of :: "nat \<Rightarrow> ('n, nat \<times> nat option) mem" where
  "owner_of t =
     bindM (txn_at t) (\<lambda>h.
       case th_owner h of None \<Rightarrow> stopM Undefined | Some a \<Rightarrow> returnM (a, th_txn h))"

definition mdbx_txn_stat :: "'n libmdbx \<Rightarrow> rsexp \<Rightarrow> string list \<Rightarrow> ('n, (string \<times> dbl) list) mem" where
  "mdbx_txn_stat L txn db =
     bindM (txn_from_sexp txn) (\<lambda>t.
     if db = [] then bindM (owner_of t) (\<lambda>o_t. run_stat L (fst o_t) (snd o_t))
     else
       thenM (ensure_dbi L t (db_arg db))
      (bindM (guard (dbi_stat_call L t) (Some (poison_dbi_stat t))) (\<lambda>r.
       thenM (check L (fst r)) (returnM (stat_list (snd r))))))"

definition mdbx_txn_info :: "'n libmdbx \<Rightarrow> rsexp \<Rightarrow> ('n, (string \<times> dbl) list) mem" where
  "mdbx_txn_info L txn =
     bindM (txn_from_sexp txn) (\<lambda>t. bindM (owner_of t) (\<lambda>o_t. run_info L (fst o_t) (snd o_t)))"

section \<open>Limits\<close>

text \<open>\<open>as_num(static_cast<uint64_t>(x))\<close> of an \<open>intptr_t\<close>.\<close>

definition num_of_int :: "int \<Rightarrow> dbl" where
  "num_of_int i = as_num (nat (i mod 2 ^ 64))"

definition mdbx_limits :: "'n libmdbx \<Rightarrow> dbl \<Rightarrow> ('n, (string \<times> dbl) list) mem" where
  "mdbx_limits L pagesize =
     (if \<not> dle pagesize (max_native_integer (L_sizeof_voidp L)) then stopM PageSizeTooLarge else
      bindM (castM (cast_signed (8 * L_sizeof_voidp L) (positive_or_zero pagesize))) (\<lambda>ps.
      case L_limits L ps of (key_max, val_max, db_min, db_max, txn_max) \<Rightarrow>
        if key_max < 0 \<or> val_max < 0 \<or> db_min < 0 \<or> db_max < 0 \<or> txn_max < 0
        then stopM (BadPageSize pagesize)
        else returnM
          [(''pagesize'', if ps > 0 then num_of_int ps else as_num (L_default_pagesize L)),
           (''keysize_min'', num_of_int (L_keysize_min L)),
           (''keysize_max'', num_of_int key_max),
           (''valsize_min'', num_of_int (L_valsize_min L)),
           (''valsize_max'', num_of_int val_max),
           (''dbsize_min'', num_of_int db_min),
           (''dbsize_max'', num_of_int db_max),
           (''txnsize_max'', num_of_int txn_max)]))"

section \<open>Initialization and panic test hooks\<close>

definition setup_call :: "'n libmdbx \<Rightarrow> ('n, int) mem" where
  "setup_call L = native (\<lambda>w. w) (L_setup_debug L)"

definition mdbx_initialize :: "'n libmdbx \<Rightarrow> ('n, unit) mem" where
  "mdbx_initialize L =
     bindM (guard (setup_call L) None) (\<lambda>native_result.
       if native_result < 0 then stopM InitFailed else returnM ())"

text \<open>\<open>mdbx_r_initialize\<close>: the C entry to the same call; \<open>-1\<close> when it panics.\<close>

definition mdbx_r_initialize :: "'n libmdbx \<Rightarrow> ('n, int guard_result \<times> int) mem" where
  "mdbx_r_initialize L =
     bindM (mdbx_r_run_guarded (setup_call L) None) (\<lambda>result.
       returnM (result, case result of GuardOk r \<Rightarrow> r | GuardPanic _ \<Rightarrow> -1))"

definition panic_immediately :: "('n, unit) mem" where
  "panic_immediately = mdbx_r_panic (Some ''stat-guard test'') (Some ''panic_immediately'') 1"

text \<open>\<open>poison_info\<close> and \<open>poison_stat\<close> both mark the environment of their context.\<close>

definition mdbx_test_panic_stat :: "rsexp \<Rightarrow> bool \<Rightarrow> ('n, unit) mem" where
  "mdbx_test_panic_stat env info =
     bindM (env_from_sexp env) (\<lambda>a.
       if info then guard panic_immediately (Some (poison_info a))
       else guard panic_immediately (Some (poison_stat a)))"

definition mdbx_test_panic_get :: "rsexp \<Rightarrow> ('n, unit) mem" where
  "mdbx_test_panic_get txn =
     bindM (txn_from_sexp txn) (\<lambda>t. guard panic_immediately (Some (poison_get t)))"

end
