(* ===== verification/Mdbx_Guarded.thy ===== *)
theory Mdbx_Guarded
  imports Mdbx_Safety Mdbx_Scan Mdbx_EnvOps
begin

text \<open>
  Safety of every operation that neither creates nor ends a native object: the bodies of their
  guarded calls meet the contracts \<open>guarded_on_txn\<close> and \<open>guarded_on_env\<close>, and each operation is
  a composition of safe steps.
\<close>

section \<open>The bodies are quiet\<close>

lemma stable_conj [quiet_rules]: "stable C \<Longrightarrow> stable D \<Longrightarrow> stable (\<lambda>w. C w \<and> D w)"
  by (simp add: stable_def)

lemma quiet_alloc [quiet_rules]: "quiet C e (allocM L n)"
  by (auto simp: quiet_def wp_def allocM_def lib_only_def split: prod.splits)

lemma quiet_case_prod [quiet_rules]:
  "(\<And>x y. quiet C e (k x y)) \<Longrightarrow> quiet C e (case v of (x, y) \<Rightarrow> k x y)"
  by (cases v) simp

interpretation dbi_c: guarded_on_txn "\<lambda>t. dbi_call L t name flags" for L name flags
  by unfold_locales (auto simp: dbi_call_def intro!: quiet_rules)

interpretation get_c: guarded_on_txn "\<lambda>t. get_call L t key" for L key
  by unfold_locales (auto simp: get_call_def intro!: quiet_rules)

interpretation put_c: guarded_on_txn "\<lambda>t. put_call L t key data flags" for L key data flags
  by unfold_locales (auto simp: put_call_def intro!: quiet_rules)

interpretation del_c: guarded_on_txn "\<lambda>t. del_call L t key" for L key
  by unfold_locales (auto simp: del_call_def intro!: quiet_rules)

interpretation drop_c: guarded_on_txn "\<lambda>t. drop_call L t del" for L del
  by unfold_locales (auto simp: drop_call_def intro!: quiet_rules)

interpretation sequence_c: guarded_on_txn "\<lambda>t. sequence_call L t inc" for L inc
  by unfold_locales (auto simp: sequence_call_def intro!: quiet_rules)

interpretation dbi_stat_c: guarded_on_txn "\<lambda>t. dbi_stat_call L t" for L
  by unfold_locales (auto simp: dbi_stat_call_def intro!: quiet_rules)

lemma quiet_visit:
  assumes "stable C" and "\<And>name ctx. quiet C e (visitor name ctx)"
  shows "quiet C e (visit_tables visitor rc names ctx)"
  using assms by (induction names arbitrary: ctx) (auto intro!: quiet_rules)

lemma quiet_enumerate:
  assumes "\<And>p name ctx. quiet (txn_usable p e) e (visitor name ctx)"
  shows "quiet (txn_ready t e) e (enumerate_tables L t visitor ctx)"
  using assms by (auto simp: enumerate_tables_def intro!: quiet_rules quiet_visit)

lemma quiet_count: "quiet (txn_ready t e) e (count_call L t)"
  unfolding count_call_def
  by (intro quiet_bind stable_ready quiet_enumerate quiet_return) (simp add: count_visit_def quiet_return)

lemma quiet_list: "quiet (txn_ready t e) e (list_call L t)"
  unfolding list_call_def
  by (rule quiet_enumerate) (auto simp: list_visit_def intro!: quiet_rules)

interpretation count_c: guarded_on_txn "\<lambda>t. count_call L t" for L
  by unfold_locales (rule quiet_count)

interpretation list_c: guarded_on_txn "\<lambda>t. list_call L t" for L
  by unfold_locales (rule quiet_list)

lemma quiet_cursor_get [quiet_rules]: "quiet (txn_usable p e) e (cursor_get L (Some p) c key opr)"
  unfolding cursor_get_def by (rule quiet_txn_call)

lemma quiet_reposition [quiet_rules]:
  "quiet (txn_usable p e) e (reposition L (Some p) dbi c from_key r)"
  unfolding reposition_def by (auto intro!: quiet_rules)

lemma quiet_scan_loop [quiet_rules]:
  "quiet (txn_usable p e) e
     (scan_loop L (Some p) dbi c limit want_values reverse start opr key positioning ks vs)"
proof (induction "limit - length ks" arbitrary: opr key positioning ks vs rule: less_induct)
  case less
  show ?case
    by (subst scan_loop.simps) (auto intro!: quiet_rules less)
qed

lemma quiet_scan: "quiet (txn_ready t e) e (scan_call L t limit want_values reverse start)"
  unfolding scan_call_def by (auto intro!: quiet_rules)

interpretation scan_c: guarded_on_txn "\<lambda>t. scan_call L t limit want_values reverse start"
  for L limit want_values reverse start
  by unfold_locales (rule quiet_scan)

interpretation reader_c: guarded_on_env "\<lambda>a. reader_check_call L a" for L
  by unfold_locales (auto simp: reader_check_call_def intro!: quiet_rules)

interpretation path_c: guarded_on_env "\<lambda>a. path_call L a" for L
  by unfold_locales (auto simp: path_call_def intro!: quiet_rules)

interpretation get_flags_c: guarded_on_env "\<lambda>a. get_flags_call L a" for L
  by unfold_locales (auto simp: get_flags_call_def intro!: quiet_rules)

interpretation set_flags_c: guarded_on_env "\<lambda>a. set_flags_call L a bits on" for L bits on
  by unfold_locales (auto simp: set_flags_call_def intro!: quiet_rules)

interpretation sync_c: guarded_on_env "\<lambda>a. sync_call L a force nonblock" for L force nonblock
  by unfold_locales (auto simp: sync_call_def intro!: quiet_rules)

section \<open>Steps on a live transaction\<close>

lemma keeps_txn_at [keeps_rules]: "keeps (live_txn t) (txn_at t)"
  by (rule keepsI, rule safeI) (auto simp: wp_simps live_txn_def)

lemma keeps_env_at [keeps_rules]: "keeps (open_env a) (env_at a)"
  by (rule keepsI, rule safeI) (auto simp: wp_simps open_env_def)

lemma keeps_set_txn:
  assumes "\<And>h. txn_le h (f h)" and "\<And>h. th_poisoned (f h) = th_poisoned h"
  shows "keeps (live_txn t) (set_txn t f)"
proof (rule keepsI, rule safeI)
  fix w :: "'n world"
  assume I: "inv w" "live_txn t w"
  obtain th where th: "w_txns w t = Some th" using I(2) by (auto simp: live_txn_def)
  have "inv (put_txn t (f th) w)"
    by (rule inv_put_txn [OF I(1) th assms(1)]) (simp add: assms(2))
  moreover have "live_txn t (put_txn t (f th) w)"
    using I(2) th assms(1) [of th] by (auto simp: live_txn_def txn_le_def healthy_def)
  ultimately show "wp (set_txn t f) (\<lambda>x w'. inv w' \<and> live_txn t w') (\<lambda>e w'. inv w' \<and> harmless e) w"
    using th by (simp add: wp_simps)
qed

lemma keeps_set_dbi [keeps_rules]:
  "keeps (live_txn t) (set_txn t (\<lambda>h. h\<lparr>th_dbi := d\<rparr>))"
  "keeps (live_txn t) (set_txn t (cache_dbi name d))"
  "keeps (live_txn t) (set_txn t (\<lambda>h. h\<lparr>th_named := g h\<rparr>))"
  by (rule keeps_set_txn; simp add: txn_le_def cache_dbi_def split: option.splits)+

lemma keeps_stop_missing [keeps_rules]: "keeps (live_txn t) (stop_missing_dbi t name)"
  by (rule keepsI, rule safeI) (auto simp: stop_missing_dbi_def wp_simps live_txn_def)

lemma keeps_raw [keeps_rules]: "keeps P (val_from_raw x)"
  by (cases x) (auto simp: val_from_raw_def intro!: keeps_rules)

lemmas keeps_guards [keeps_rules] =
  dbi_c.keeps get_c.keeps put_c.keeps del_c.keeps drop_c.keeps sequence_c.keeps dbi_stat_c.keeps
  count_c.keeps list_c.keeps scan_c.keeps reader_c.keeps path_c.keeps get_flags_c.keeps
  set_flags_c.keeps sync_c.keeps

lemma safe_writable: "safe (sexp_ok s) (writable_txn s) live_txn"
  unfolding writable_txn_def
proof (rule safe_bind [OF safe_txn_from_sexp])
  fix t
  have "keeps (live_txn t) (txn_at t)" by (rule keeps_txn_at)
  then show "safe (live_txn t) (bindM (txn_at t) (\<lambda>h. if \<not> th_write h then stopM ReadOnlyTxn else returnM t)) live_txn"
    unfolding keeps_def by (rule safe_bind) (simp add: safe_stop safe_return)
qed

lemma keeps_ensure_dbi [keeps_rules]: "keeps (live_txn t) (ensure_dbi L t name)"
  unfolding ensure_dbi_def by (intro keeps_rules)

section \<open>Keys, values and named databases\<close>

lemmas on_txn = safe_bind [OF safe_txn_from_sexp keeps_end]
lemmas on_writable = safe_bind [OF safe_writable keeps_end]
lemmas on_env = safe_bind [OF safe_env_from_sexp keeps_end]

lemma safe_get: "safe (sexp_ok txn) (mdbx_get L txn key db) (\<lambda>_ _. True)"
  unfolding mdbx_get_def by (rule on_txn) (intro keeps_rules)

lemma safe_put: "safe (sexp_ok txn) (mdbx_put L txn key val overwrite db) (\<lambda>_ _. True)"
  unfolding mdbx_put_def by (rule on_writable) (intro keeps_rules)

lemma safe_del: "safe (sexp_ok txn) (mdbx_del L txn key db) (\<lambda>_ _. True)"
  unfolding mdbx_del_def by (rule on_writable) (intro keeps_rules)

lemma safe_dbi_open: "safe (sexp_ok txn) (mdbx_dbi_open L txn name create) (\<lambda>_ _. True)"
  unfolding mdbx_dbi_open_def by (rule on_txn) (intro keeps_rules harmless_simps)

lemma safe_dbi_drop: "safe (sexp_ok txn) (mdbx_dbi_drop L txn db del) (\<lambda>_ _. True)"
  unfolding mdbx_dbi_drop_def count_named_tables_def
  by (rule on_writable) (intro keeps_rules harmless_simps)

lemma safe_dbi_list: "safe (sexp_ok txn) (mdbx_dbi_list L txn) (\<lambda>_ _. True)"
  unfolding mdbx_dbi_list_def by (rule on_txn) (intro keeps_rules harmless_simps)

section \<open>Environments\<close>

lemma safe_reader_check: "safe (sexp_ok env) (mdbx_env_reader_check L env) (\<lambda>_ _. True)"
  unfolding mdbx_env_reader_check_def by (rule on_env) (intro keeps_rules)

lemma safe_path: "safe (sexp_ok env) (mdbx_env_path L env) (\<lambda>_ _. True)"
  unfolding mdbx_env_path_def by (rule on_env) (intro keeps_rules)

lemma safe_env_get_flags: "safe (sexp_ok env) (mdbx_env_get_flags L env) (\<lambda>_ _. True)"
  unfolding mdbx_env_get_flags_def by (rule on_env) (intro keeps_rules)

lemma env_flags_error: "env_flags_from_names names = Inl e \<Longrightarrow> harmless e"
  using bits_loop_known [of names env_flags 0] bits_loop_unknown [of names env_flags 0]
  by (cases "set names \<subseteq> fe_name ` set env_flags") (auto simp: env_flags_from_names_def bits_from_def)

lemma txn_flags_error: "txn_flags_from_names names = Inl e \<Longrightarrow> harmless e"
  using bits_loop_known [of names txn_flags 0] bits_loop_unknown [of names txn_flags 0]
  by (cases "set names \<subseteq> fe_name ` set txn_flags") (auto simp: txn_flags_from_names_def bits_from_def)

lemma safe_env_set_flags: "safe (sexp_ok env) (mdbx_env_set_flags L env flags on) (\<lambda>_ _. True)"
  unfolding mdbx_env_set_flags_def
  by (rule on_env) (intro keeps_rules harmless_simps, rule env_flags_error)

lemma safe_env_sync: "safe (sexp_ok env) (mdbx_env_sync L env force nonblock) (\<lambda>_ _. True)"
  unfolding mdbx_env_sync_def by (rule on_env) (intro keeps_rules)

end
