(* ===== verification/Mdbx_OpsSafe.thy ===== *)
theory Mdbx_OpsSafe
  imports Mdbx_Guarded
begin

text \<open>
  Safety of the operations whose arguments are narrowed, of statistics and info, which use an
  environment and possibly its transaction, of initialization and of the panic hooks.
\<close>

section \<open>Arguments that are narrowed\<close>

lemma sequence_cast:
  assumes "\<not> dle d (Fin 0)" and "dle d max_exact_integer"
  shows "cast_unsigned 64 d \<noteq> None"
proof -
  have "dle (Fin 0) d" using assms by (cases d) (auto simp: max_exact_integer_def)
  then show ?thesis
    using cast_unsigned_defined [of d "9007199254740992" 64] assms(2) unfolding max_exact_of_int by auto
qed

lemma safe_if_from:
  "safe P m Q \<Longrightarrow> safe P k Q \<Longrightarrow> safe P (if b then m else k) Q"
  by simp

lemma safe_dbi_sequence: "safe (sexp_ok txn) (mdbx_dbi_sequence L txn db increment) (\<lambda>_ _. True)"
  unfolding mdbx_dbi_sequence_def
  by (rule safe_bind [OF safe_if_from [OF safe_writable safe_txn_from_sexp] keeps_end])
    (intro keeps_rules harmless_simps; (rule sequence_cast)?; blast)

lemma scan_limit_defined:
  assumes "dle limit (max_native_integer (L_sizeof_voidp L))" and "4 \<le> L_sizeof_voidp L"
  shows "scan_limit L limit \<noteq> None"
proof (cases "dlt limit (Fin 0)")
  case True
  then show ?thesis by (simp add: scan_limit_def)
next
  case False
  then have "dle (Fin 0) limit" using assms(1) by (cases limit) (auto simp: max_native_of_int)
  then show ?thesis
    using cast_unsigned_defined [OF _ _ native_bound_fits(2) [OF assms(2)], of limit] assms(1) False
    unfolding max_native_of_int scan_limit_def by auto
qed

lemma safe_scan:
  assumes "4 \<le> L_sizeof_voidp L"
  shows "safe (sexp_ok txn) (mdbx_scan L txn limit values db start reverse) (\<lambda>_ _. True)"
proof (cases "dle limit (max_native_integer (L_sizeof_voidp L))")
  case True
  then show ?thesis
    unfolding mdbx_scan_def
    by simp (rule on_txn, intro keeps_rules harmless_simps scan_limit_defined [OF True assms])
qed (simp add: mdbx_scan_def safe_stop)

lemma positive_or_zero_range:
  "dle d (Fin (of_int b)) \<Longrightarrow> 0 \<le> b \<Longrightarrow> dle (Fin 0) (positive_or_zero d) \<and> dle (positive_or_zero d) (Fin (of_int b))"
  by (cases d) (auto simp: positive_or_zero_def)

lemma native_bound_nonneg: "0 \<le> native_bound sz"
  by (simp add: native_bound_def)

lemma native_cast_defined:
  assumes "dle d (max_native_integer sz)" and "4 \<le> sz"
  shows "cast_signed (8 * sz) (positive_or_zero d) \<noteq> None"
proof -
  have "dle (Fin 0) (positive_or_zero d)" "dle (positive_or_zero d) (Fin (of_int (native_bound sz)))"
    using positive_or_zero_range [OF assms(1) [unfolded max_native_of_int] native_bound_nonneg] by simp_all
  from cast_signed_defined [OF this native_bound_fits(1) [OF assms(2)]] show ?thesis by blast
qed

lemma exact_cast_defined:
  assumes "dle d max_exact_integer"
  shows "cast_unsigned 64 (positive_or_zero d) \<noteq> None"
proof -
  have "dle (Fin 0) (positive_or_zero d)" "dle (positive_or_zero d) (Fin (of_int 9007199254740992))"
    using positive_or_zero_range [OF assms [unfolded max_exact_of_int]] by simp_all
  moreover have "(9007199254740992::int) < 2 ^ 64" by simp
  ultimately show ?thesis using cast_unsigned_defined by blast
qed

lemma keeps_case_prod [keeps_rules]:
  "(\<And>x y. keeps P (f x y)) \<Longrightarrow> keeps P (case v of (x, y) \<Rightarrow> f x y)"
  by (cases v) simp

lemma safe_limits:
  assumes "4 \<le> L_sizeof_voidp L"
  shows "safe P (mdbx_limits L pagesize) (\<lambda>_. P)"
  unfolding keeps_def [symmetric] mdbx_limits_def
  by (intro keeps_rules harmless_simps native_cast_defined assms) simp

section \<open>Statistics and info\<close>

text \<open>The environment, and a transaction of it if there is one.\<close>

definition stat_target :: "nat \<Rightarrow> nat option \<Rightarrow> 'n world \<Rightarrow> bool" where
  "stat_target a txn w \<longleftrightarrow> open_env a w \<and> (\<forall>p. txn = Some p \<longrightarrow> (\<exists>e. txn_usable p e w))"

lemma quiet_env_txn:
  "quiet (\<lambda>w. env_usable e w \<and> (\<forall>p. txn = Some p \<longrightarrow> (\<exists>d. txn_usable p d w))) e (env_txn_call (Some e) txn f)"
  unfolding quiet_def
proof (intro allI impI)
  fix w :: "'a world" and k fs
  assume w: "env_usable e w \<and> (\<forall>p. txn = Some p \<longrightarrow> (\<exists>d. txn_usable p d w))"
    "panic_wf (w_last_panic w)" "w_guard w = k # fs"
  have "case txn of None \<Rightarrow> True | Some t \<Rightarrow> map_of (w_usable_txns w) t \<noteq> None"
    using w(1) by (auto simp: txn_usable_def split: option.splits)
  moreover have "wp (env_call (Some e) (\<lambda>e. f e txn)) (\<lambda>_. lib_only w)
      (\<lambda>x w'. x = Longjmp k \<and> lib_crash e w w') w"
    using quiet_env_call [of e "\<lambda>e. f e txn"] w by (simp add: quiet_def)
  ultimately show "wp (env_txn_call (Some e) txn f) (\<lambda>_. lib_only w) (\<lambda>x w'. x = Longjmp k \<and> lib_crash e w w') w"
    by (simp add: env_txn_call_def wp_simps)
qed

lemma guard_env_txn:
  assumes "inv w" and "stat_target a txn w" and "w_envs w a = Some h"
  shows "wp (guard (env_txn_call (eh_env h) txn f) (Some (poison_env a))) (\<lambda>_. lib_only w)
    (\<lambda>x w'. inv w' \<and> harmless x) w"
proof -
  have o: "open_env a w" using assms(2) by (simp add: stat_target_def)
  obtain e where e: "eh_env h = Some e" "env_usable e w"
    using open_env_ready [OF assms(1) o] assms(3) by (metis option.inject)
  show ?thesis
    unfolding e(1)
  proof (rule wp_guard_quiet [OF assms(1) quiet_env_txn])
    show "env_usable e (push_frame w) \<and> (\<forall>p. txn = Some p \<longrightarrow> (\<exists>d. txn_usable p d (push_frame w)))"
      using e(2) assms(2) by (simp add: env_usable_def txn_usable_def stat_target_def)
    show "wp (run_poison (Some (poison_env a))) (\<lambda>_ w'. \<forall>m f l. inv w' \<and> harmless (AssertFailed m f l))
        (\<lambda>x w'. inv w' \<and> harmless x) v" if "crashed e w v" for v
      unfolding run_poison_simps by (rule wp_poison_env [OF assms(1) that assms(3) e(1)]) simp
  qed simp
qed

lemma safe_run_stat: "safe (stat_target a txn) (run_stat L a txn) (\<lambda>_ _. True)"
proof (rule safeI)
  fix w :: "'a world"
  assume I: "inv w" "stat_target a txn w"
  obtain h where h: "w_envs w a = Some h" using I(2) by (auto simp: stat_target_def open_env_def)
  show "wp (run_stat L a txn) (\<lambda>x w'. inv w' \<and> True) (\<lambda>e w'. inv w' \<and> harmless e) w"
    unfolding run_stat_def stat_call_def wp_bind wp_env_at h option.case
    by (rule wp_mono [OF guard_env_txn [OF I h]]) (auto simp: wp_simps intro: inv_lib_only [OF I(1)])
qed

lemma safe_run_info: "safe (stat_target a txn) (run_info L a txn) (\<lambda>_ _. True)"
proof (rule safeI)
  fix w :: "'a world"
  assume I: "inv w" "stat_target a txn w"
  obtain h where h: "w_envs w a = Some h" using I(2) by (auto simp: stat_target_def open_env_def)
  show "wp (run_info L a txn) (\<lambda>x w'. inv w' \<and> True) (\<lambda>e w'. inv w' \<and> harmless e) w"
    unfolding run_info_def info_call_def wp_bind wp_env_at h option.case
    by (rule wp_mono [OF guard_env_txn [OF I h]]) (auto simp: wp_simps intro: inv_lib_only [OF I(1)])
qed

text \<open>\<open>current_txn\<close> finds the one transaction of the environment, which is usable.\<close>

lemma safe_current_txn: "safe (open_env a) (current_txn a) (stat_target a)"
proof (rule safeI)
  fix w :: "'n world"
  assume I: "inv w" "open_env a w"
  obtain h e where h: "w_envs w a = Some h" "eh_env h = Some e" "healthy w h"
    using I(2) by (auto simp: open_env_def)
  show "wp (current_txn a) (\<lambda>x w'. inv w' \<and> stat_target a x w') (\<lambda>e w'. inv w' \<and> harmless e) w"
  proof (cases "eh_live h")
    case Nil
    then show ?thesis using I h by (simp add: current_txn_def wp_simps stat_target_def)
  next
    case (Cons t ts)
    then have "t \<in> set (eh_live h)" by simp
    then obtain th p where t: "w_txns w t = Some th" "th_owner th = Some a" "th_txn th = Some p" "eh_live h = [t]"
      by (rule inv_live [OF I(1) h(1)])
    moreover have "txn_usable p e w"
      using inv_txn_usable [OF I(1) t(1,2) h(1,3) t(3) h(2)] by (simp add: txn_usable_def)
    ultimately show ?thesis using I h by (auto simp: current_txn_def wp_simps stat_target_def)
  qed
qed

lemma safe_env_stat: "safe (sexp_ok env) (mdbx_env_stat L env) (\<lambda>_ _. True)"
  unfolding mdbx_env_stat_def
  by (rule safe_bind [OF safe_env_from_sexp safe_bind [OF safe_current_txn safe_run_stat]])

lemma safe_env_info: "safe (sexp_ok env) (mdbx_env_info L env) (\<lambda>_ _. True)"
  unfolding mdbx_env_info_def
  by (rule safe_bind [OF safe_env_from_sexp safe_bind [OF safe_current_txn safe_run_info]])

lemma safe_owner_of: "safe (live_txn t) (owner_of t) (\<lambda>o_t. stat_target (fst o_t) (snd o_t))"
proof (rule safeI)
  fix w :: "'n world"
  assume I: "inv w" "live_txn t w"
  obtain th p a h e where "w_txns w t = Some th" "th_txn th = Some p" "th_owner th = Some a"
      "w_envs w a = Some h" "eh_env h = Some e" "healthy w h" "txn_usable p e w"
    using live_txn_ready [OF I] by metis
  then show "wp (owner_of t) (\<lambda>x w'. inv w' \<and> stat_target (fst x) (snd x) w') (\<lambda>e w'. inv w' \<and> harmless e) w"
    using I by (auto simp: owner_of_def wp_simps stat_target_def open_env_def)
qed

lemma safe_txn_stat: "safe (sexp_ok txn) (mdbx_txn_stat L txn db) (\<lambda>_ _. True)"
  unfolding mdbx_txn_stat_def
proof (rule safe_bind [OF safe_txn_from_sexp], rule safe_if)
  show "safe (live_txn t) (bindM (owner_of t) (\<lambda>o_t. run_stat L (fst o_t) (snd o_t))) (\<lambda>_ _. True)" for t
    by (rule safe_bind [OF safe_owner_of safe_run_stat])
  show "safe (live_txn t) (thenM (ensure_dbi L t (db_arg db))
      (bindM (guard (dbi_stat_call L t) (Some (poison_txn t)))
        (\<lambda>r. thenM (check L (fst r)) (returnM (stat_list (snd r)))))) (\<lambda>_ _. True)" for t
    by (rule keeps_end) (intro keeps_rules)
qed

lemma safe_txn_info: "safe (sexp_ok txn) (mdbx_txn_info L txn) (\<lambda>_ _. True)"
  unfolding mdbx_txn_info_def
  by (rule safe_bind [OF safe_txn_from_sexp safe_bind [OF safe_owner_of safe_run_info]])

end
