(* ===== verification/Mdbx_LifeSafe.thy ===== *)
theory Mdbx_LifeSafe
  imports Mdbx_OpsSafe
begin

text \<open>
  Safety of the operations that create and end native objects, and of the two finalizers. The
  outcome of each guarded call and of the bookkeeping after it is computed first; the moves of
  theory \<open>Mdbx_Moves\<close> then give the invariant.
\<close>

section \<open>Initialization and the panic hooks\<close>

lemma panicked_crashed:
  assumes "inv w" and "panicked (push_frame w) v"
  shows "crashed e w (set_guard (w_guard w) v)"
  using assms by (auto simp: panicked_def crashed_def same_frame_def intro!: dead_same)

lemma wp_panic_now:
  assumes "inv w" and "\<And>v. panicked (push_frame w) v \<Longrightarrow> E (Longjmp (length (w_guard w))) v"
  shows "wp panic_immediately Q E (push_frame w)"
  unfolding panic_immediately_def
  by (rule wp_panic) (use assms inv_calm [OF assms(1)] in auto)

lemma safe_panic_stat: "safe (sexp_ok env) (mdbx_test_panic_stat env info) (\<lambda>_ _. True)"
  unfolding mdbx_test_panic_stat_def if_cancel
proof (rule safe_bind [OF safe_env_from_sexp], rule safeI)
  fix a and w :: "'a world"
  assume I: "inv w" "open_env a w"
  obtain h e where h: "w_envs w a = Some h" "eh_env h = Some e"
    using open_env_ready [OF I] by metis
  show "wp (guard panic_immediately (Some (poison_env a))) (\<lambda>x w'. inv w' \<and> True) (\<lambda>e w'. inv w' \<and> harmless e) w"
    by (rule wp_guard, rule wp_panic_now [OF I(1)])
      (auto intro!: wp_poison_env [OF I(1) panicked_crashed [OF I(1)] h])
qed

lemma safe_panic_get: "safe (sexp_ok txn) (mdbx_test_panic_get txn) (\<lambda>_ _. True)"
  unfolding mdbx_test_panic_get_def
proof (rule safe_bind [OF safe_txn_from_sexp], rule safeI)
  fix t and w :: "'a world"
  assume I: "inv w" "live_txn t w"
  obtain th a h e where h: "w_txns w t = Some th" "th_owner th = Some a" "w_envs w a = Some h" "eh_env h = Some e"
    using live_txn_ready [OF I] by metis
  show "wp (guard panic_immediately (Some (poison_txn t))) (\<lambda>x w'. inv w' \<and> True) (\<lambda>e w'. inv w' \<and> harmless e) w"
    by (rule wp_guard, rule wp_panic_now [OF I(1)])
      (auto intro!: wp_poison_txn [OF I(1) panicked_crashed [OF I(1)] h])
qed

lemma wp_setup:
  assumes "inv w" and "\<And>rc w'. inv w' \<Longrightarrow> Q (GuardOk rc) w'" and "\<And>p w'. inv w' \<Longrightarrow> Q (GuardPanic p) w'"
  shows "wp (mdbx_r_run_guarded (setup_call L) None) Q E w"
proof -
  let ?R = "\<lambda>v. \<exists>n. panicked ((push_frame w)\<lparr>w_lib := n\<rparr>) v"
  note g = inv_calm [OF assms(1)]
  have ret: "set_guard [] ((push_frame w)\<lparr>w_lib := n\<rparr>) = w\<lparr>w_lib := n\<rparr>"
    "set_guard [] ((push_frame w)\<lparr>w_lib := n, w_last_panic := q\<rparr>) = w\<lparr>w_lib := n, w_last_panic := q\<rparr>" for n q
    using g by (simp_all add: set_guard_def push_frame_def)
  have l: "inv (set_guard [] ((push_frame w)\<lparr>w_lib := n\<rparr>))" for n
    unfolding ret by (rule inv_lib [OF assms(1)])
  have p: "inv (set_guard [] v)" if v: "?R v" for v
  proof -
    obtain n q where q: "panic_wf q" "v = (push_frame w)\<lparr>w_lib := n, w_last_panic := q\<rparr>"
      using v by (auto simp: panicked_def)
    show ?thesis unfolding q(2) ret by (rule inv_panic_record [OF inv_lib [OF assms(1)] q(1)])
  qed
  show ?thesis
  proof (rule wp_run_guarded_calm [where R = ?R])
    show "wp (setup_call L) (\<lambda>x v. Q (GuardOk x) (set_guard [] v)) (\<lambda>e v. e = Longjmp 0 \<and> ?R v) (push_frame w)"
      unfolding setup_call_def
      by (rule wp_native [where k = 0 and fs = "[]"]) (use g in \<open>auto intro!: assms(2) l\<close>)
    show "wp (run_poison None) (\<lambda>_ u. Q (GuardPanic (w_last_panic u)) u) E (set_guard [] v)" if "?R v" for v
      using assms(3) [OF p [OF that]] by (simp add: wp_simps)
  qed (rule g)
qed

lemma safe_initialize: "safe P (mdbx_initialize L) (\<lambda>_ _. True)"
  unfolding mdbx_initialize_def guard_def
  by (rule safeI, unfold wp_bind, rule wp_setup) (auto simp: wp_simps stop_after_panic_def)

lemma safe_r_initialize: "safe P (mdbx_r_initialize L) (\<lambda>_ _. True)"
  unfolding mdbx_r_initialize_def
  by (rule safeI, unfold wp_bind, rule wp_setup) (auto simp: wp_simps)

section \<open>Reading a pointer of either kind\<close>

lemma wp_env_handle:
  assumes "inv w" and "sexp_ok s w"
    and "E NotEnv w"
    and "\<And>i p. s = R_ExtPtr i \<Longrightarrow> w_xps w i = Some p \<Longrightarrow> wp (k None) Q E w"
    and "\<And>i p a h. s = R_ExtPtr i \<Longrightarrow> w_xps w i = Some p \<Longrightarrow> xp_addr p = AEnv a \<Longrightarrow> w_envs w a = Some h
        \<Longrightarrow> wp (k (Some a)) Q E w"
  shows "wp (bindM (is_env_sexp s) (\<lambda>ok. if \<not> ok then stopM NotEnv else bindM (env_addr s) k)) Q E w"
  unfolding wp_bind
  by (rule wp_is_env_sexp [OF assms(2)])
    (auto simp: wp_simps intro!: wp_env_addr [OF assms(1)] intro: assms(3-5))

lemma wp_txn_handle:
  assumes "inv w" and "sexp_ok s w"
    and "E NotTxn w"
    and "\<And>i p. s = R_ExtPtr i \<Longrightarrow> w_xps w i = Some p \<Longrightarrow> wp (k None) Q E w"
    and "\<And>i p t h. s = R_ExtPtr i \<Longrightarrow> w_xps w i = Some p \<Longrightarrow> xp_addr p = ATxn t \<Longrightarrow> w_txns w t = Some h
        \<Longrightarrow> wp (k (Some t)) Q E w"
  shows "wp (bindM (is_txn_sexp s) (\<lambda>ok. if \<not> ok then stopM NotTxn else bindM (txn_addr s) k)) Q E w"
  unfolding wp_bind
  by (rule wp_is_txn_sexp [OF assms(2)])
    (auto simp: wp_simps intro!: wp_txn_addr [OF assms(1)] intro: assms(3-5))

section \<open>Reports that change nothing\<close>

text \<open>
  \<open>mdbx_txn_flags\<close> and \<open>mdbx_txn_id\<close> are called without a guard: they only read a field of the
  transaction and are documented not to fail.
\<close>

definition readers_return :: "'n libmdbx \<Rightarrow> bool" where
  "readers_return L \<longleftrightarrow>
     (\<forall>p n. (\<exists>x n'. L_txn_flags L p n = (NRet x, n')) \<and> (\<exists>x n'. L_txn_id L p n = (NRet x, n')))"

lemma wp_txn_call_ret:
  assumes "txn_usable p e w" and "f p (w_lib w) = (NRet x, n)" and "Q x (w\<lparr>w_lib := n\<rparr>)"
  shows "wp (txn_call (Some p) f) Q E w"
  using assms by (simp add: txn_call_def txn_usable_def wp_simps native_def wp_def [of "native _ _"])

lemma safe_txn_id:
  assumes "readers_return L"
  shows "safe (sexp_ok txn) (mdbx_txn_id L txn) (\<lambda>_ _. True)"
  unfolding mdbx_txn_id_def
proof (rule safe_bind [OF safe_txn_from_sexp], rule safeI)
  fix t and w :: "'a world"
  assume I: "inv w" "live_txn t w"
  obtain th p e where t: "w_txns w t = Some th" "th_txn th = Some p" "txn_usable p e w"
    using live_txn_ready [OF I] by metis
  obtain x n where "L_txn_id L p (w_lib w) = (NRet x, n)"
    using assms unfolding readers_return_def by blast
  then show "wp (bindM (txn_at t) (\<lambda>h. bindM (txn_call (th_txn h) (L_txn_id L)) (\<lambda>txnid. returnM (as_num txnid))))
     (\<lambda>x w'. inv w' \<and> True) (\<lambda>e w'. inv w' \<and> harmless e) w"
    using t I by (auto simp: wp_simps intro!: wp_txn_call_ret [OF t(3)])
qed

text \<open>A commit on another thread is refused: all it may change is libmdbx's own state.\<close>

definition checks_owner :: "'n libmdbx \<Rightarrow> bool" where
  "checks_owner L \<longleftrightarrow> (\<forall>t n. \<exists>n'. L_commit_off_thread L t n = (NRet MDBX_THREAD_MISMATCH, n'))"

lemma thread_mismatch_run:
  assumes "w_txns w t = Some th" and "th_txn th = Some p" and "txn_usable p e w"
    and "L_commit_off_thread L p (w_lib w) = (NRet MDBX_THREAD_MISMATCH, n)"
  shows "bindM (txn_at t) (\<lambda>h. bindM (commit_off_thread L (th_txn h)) (\<lambda>rc.
      thenM (whenM (rc \<noteq> MDBX_THREAD_MISMATCH) (mark_finished L t st_aborted)) (returnM rc))) w
    = (Inr MDBX_THREAD_MISMATCH, w\<lparr>w_lib := n\<rparr>)"
  using assms by (simp add: commit_off_thread_def off_thread_def txn_usable_def txn_at_def run_simps)

lemma safe_thread_mismatch:
  assumes "checks_owner L"
  shows "safe (sexp_ok txn) (mdbx_test_thread_mismatch L txn) (\<lambda>_ _. True)"
  unfolding mdbx_test_thread_mismatch_def
proof (rule safe_bind [OF safe_txn_from_sexp], rule safeI)
  fix t and w :: "'a world"
  assume I: "inv w" "live_txn t w"
  obtain th p e where t: "w_txns w t = Some th" "th_txn th = Some p" "txn_usable p e w"
    using live_txn_ready [OF I] by metis
  obtain n where "L_commit_off_thread L p (w_lib w) = (NRet MDBX_THREAD_MISMATCH, n)"
    using assms unfolding checks_owner_def by blast
  from thread_mismatch_run [OF t this] I(1)
  show "wp (bindM (txn_at t) (\<lambda>h. bindM (commit_off_thread L (th_txn h)) (\<lambda>rc.
      thenM (whenM (rc \<noteq> MDBX_THREAD_MISMATCH) (mark_finished L t st_aborted)) (returnM rc))))
     (\<lambda>x w'. inv w' \<and> True) (\<lambda>e w'. inv w' \<and> harmless e) w"
    by (simp add: wp_def)
qed

lemma safe_txn_state:
  assumes "readers_return L"
  shows "safe (sexp_ok txn) (mdbx_txn_state L txn) (\<lambda>_ _. True)"
  unfolding mdbx_txn_state_def
proof (rule safeI, rule wp_txn_handle)
  fix w :: "'a world" and i p t h
  assume I: "inv w" and h: "w_txns w t = Some h"
  have owner: "\<exists>k e. w_envs w a = Some k \<and> eh_pid k = th_pid h \<and> eh_env k = Some e" if "th_owner h = Some a" for a
    using inv_owner [OF I h that] by (metis option.exhaust)
  have call: "wp (txn_call (th_txn h) (L_txn_flags L)) Q E w"
    if t: "th_owner h = Some a" "w_envs w a = Some k" "\<not> eh_poisoned k" "eh_pid k = w_pid w" "th_txn h = Some p"
      "\<And>x w'. inv w' \<Longrightarrow> Q x w'" for a k p Q E
  proof -
    obtain e where e: "eh_env k = Some e" using owner [OF t(1)] t(2) by auto
    have u: "txn_usable p e w"
      using inv_txn_usable [OF I h t(1,2) _ t(5) e] t(3,4) by (simp add: healthy_def txn_usable_def)
    obtain x n where "L_txn_flags L p (w_lib w) = (NRet x, n)"
      using assms unfolding readers_return_def by blast
    then show ?thesis unfolding t(5) by (rule wp_txn_call_ret [OF u]) (simp add: I t(6))
  qed
  show "wp (case Some t of None \<Rightarrow> returnM Rep_invalid
     | Some t \<Rightarrow> bindM (txn_at t) (\<lambda>h. bindM current_pid (\<lambda>pid.
         if th_pid h \<noteq> pid then returnM Rep_invalid else
         bindM (case th_owner h of None \<Rightarrow> returnM False
                | Some a \<Rightarrow> bindM (env_at a) (\<lambda>o_h. returnM (eh_poisoned o_h))) (\<lambda>owner_poisoned.
         if th_state h = st_active \<and> (th_poisoned h \<or> owner_poisoned) then returnM Rep_poisoned
         else case th_state h of
           st_active \<Rightarrow>
             if th_txn h \<noteq> None then
               bindM (txn_call (th_txn h) (L_txn_flags L)) (\<lambda>flags.
               returnM (if flags AND MDBX_TXN_ERROR \<noteq> 0 then Rep_failed else Rep_active))
             else returnM Rep_active
         | st_committed \<Rightarrow> returnM Rep_committed
         | st_aborted \<Rightarrow> returnM Rep_aborted))))
     (\<lambda>x w'. inv w' \<and> True) (\<lambda>e w'. inv w' \<and> harmless e) w"
  proof (cases "th_owner h")
    case None
    then have "th_txn h = None" "th_state h \<noteq> st_active" using inv_no_owner [OF I h] by simp_all
    then show ?thesis using None h I by (auto simp: wp_simps split: txn_state.splits)
  next
    case (Some a)
    then obtain k where k: "w_envs w a = Some k" "eh_pid k = th_pid h" using owner by blast
    show ?thesis
      using Some h I k by (auto simp: wp_simps split: txn_state.splits intro!: call [OF Some k(1), simplified])
  qed
qed (auto simp: wp_simps)

lemma safe_is_open: "safe (sexp_ok env) (mdbx_env_is_open env) (\<lambda>_ _. True)"
  unfolding mdbx_env_is_open_def
  by (rule safeI, rule wp_env_handle) (auto simp: wp_simps)

lemma safe_env_txn_count: "safe (sexp_ok env) (mdbx_env_txn_count env) (\<lambda>_ _. True)"
  unfolding mdbx_env_txn_count_def by (rule on_env) (intro keeps_rules)

end
