(* ===== verification/Mdbx_EndSafe.thy ===== *)
theory Mdbx_EndSafe
  imports Mdbx_LifeSafe
begin

text \<open>
  Safety of commit, abort and of the paths that end a transaction without asking libmdbx; of
  closing an environment; and of the two finalizers, in whichever order R runs them.
\<close>

section \<open>The native end of a transaction\<close>

text \<open>
  An abort ends the transaction: \<open>MDBX_THREAD_MISMATCH\<close> is documented as the status of a
  transaction owned by another thread, and R runs finalizers on its own.
\<close>

definition abort_ends :: "'n libmdbx \<Rightarrow> bool" where
  "abort_ends L \<longleftrightarrow> (\<forall>p n rc n'. L_txn_abort L p n = (NRet rc, n') \<longrightarrow> rc \<noteq> MDBX_THREAD_MISMATCH)"

text \<open>What is left after the native call: the transaction is gone, or refused, or it panicked.\<close>

lemma wp_end_native:
  assumes I: "inv w"
    and t: "w_txns w t = Some th" "th_txn th = Some p" "th_owner th = Some a"
      "w_envs w a = Some h" "eh_env h = Some e" "healthy w h"
    and refused: "\<And>n. \<not> (\<not> commit \<and> abort_ends L) \<Longrightarrow> Q (GuardOk MDBX_THREAD_MISMATCH) (w\<lparr>w_lib := n\<rparr>)"
    and ended: "\<And>rc n. rc \<noteq> MDBX_THREAD_MISMATCH \<Longrightarrow> Q (GuardOk rc) (txn_ended p (w\<lparr>w_lib := n\<rparr>))"
    and panic: "\<And>v q. crashed e w v
        \<Longrightarrow> Q (GuardPanic q) (put_env a (h\<lparr>eh_poisoned := True\<rparr>) (put_txn t (th\<lparr>th_poisoned := True\<rparr>) v))"
  shows "wp (mdbx_r_run_guarded (finish_call L t commit) (Some (poison_txn t))) Q E w"
proof -
  let ?R = "\<lambda>v. \<exists>n. panicked (kill_env e ((push_frame w)\<lparr>w_lib := n\<rparr>)) v"
  have u: "map_of (w_usable_txns (push_frame w)) p = Some e"
    using inv_txn_usable [OF I t(1,3,4,6,2,5)] by simp
  note g = inv_calm [OF I]
  have ret: "set_guard [] ((push_frame w)\<lparr>w_lib := n\<rparr>) = w\<lparr>w_lib := n\<rparr>"
    "set_guard [] (txn_ended p ((push_frame w)\<lparr>w_lib := n\<rparr>)) = txn_ended p (w\<lparr>w_lib := n\<rparr>)" for n
    using g by (simp_all add: set_guard_def push_frame_def txn_ended_def)
  show ?thesis
  proof (rule wp_run_guarded_calm [where R = ?R])
    show "wp (finish_call L t commit) (\<lambda>x v. Q (GuardOk x) (set_guard [] v)) (\<lambda>x v. x = Longjmp 0 \<and> ?R v) (push_frame w)"
      unfolding finish_call_def txn_end_call_def wp_bind wp_txn_at push_frame_frame t option.case
      by (rule wp_txn_call [OF u, where k = 0 and fs = "[]"])
        (use g refused ended in \<open>auto simp: wp_simps ret abort_ends_def split: if_splits\<close>)
    show "wp (run_poison (Some (poison_txn t))) (\<lambda>_ u. Q (GuardPanic (w_last_panic u)) u) E (set_guard [] v)"
      if "?R v" for v
    proof -
      have c: "crashed e w (set_guard [] v)"
        using crash_crashed [OF I, of e v] that g by (auto simp: panicked_def lib_crash_def)
      show ?thesis
        unfolding run_poison_simps
        by (rule wp_poison_txn [OF I c t(1,3,4,5)]) (simp add: panic [OF c])
    qed
  qed (rule g)
qed

lemma txn_ended_frame [simp]:
  "w_pid (txn_ended p w) = w_pid w" "w_envs (txn_ended p w) = w_envs w"
  "w_txns (txn_ended p w) = w_txns w" "w_xps (txn_ended p w) = w_xps w"
  "w_usable_envs (txn_ended p w) = w_usable_envs w" "w_guard (txn_ended p w) = w_guard w"
  "w_open (txn_ended p w) = w_open w" "w_lib (txn_ended p w) = w_lib w"
  by (simp_all add: txn_ended_def)

section \<open>The bookkeeping of the end\<close>

lemma put_txn_twice [simp]: "put_txn t x (put_txn t y w) = put_txn t x w"
  by (simp add: put_txn_def)

lemma put_env_twice [simp]: "put_env a x (put_env a y w) = put_env a x w"
  by (simp add: put_env_def)

lemma put_swap: "put_env a x (put_txn t y w) = put_txn t y (put_env a x w)"
  by (simp add: put_env_def put_txn_def)

text \<open>The handles as \<open>mark_finished\<close> leaves them.\<close>

definition finished_txn :: "txn_state \<Rightarrow> txn_handle \<Rightarrow> txn_handle" where
  "finished_txn s th = th\<lparr>th_txn := None, th_state := s, th_owner := None\<rparr>"

lemma wp_mark_finished:
  assumes t: "w_txns w t = Some th" "th_owner th = Some a" "w_envs w a = Some h" "eh_live h = [t]"
    and u: "\<And>e. eh_env h = Some e \<Longrightarrow> healthy w h \<Longrightarrow> env_usable e w"
    and Q: "\<And>roots. Q () (put_txn t (finished_txn s th) (put_env a (h\<lparr>eh_live := [], eh_roots := roots\<rparr>) w))"
  shows "wp (mark_finished L t s) Q E w"
proof -
  have recd: "wp (record_heap_roots L a) R E w"
    if "R () w" and R: "\<And>r. R () (put_env a (h\<lparr>eh_roots := r\<rparr>) w)" for R
    using t u that by (cases "eh_env h")
      (auto simp: record_heap_roots_def heap_roots_call_def wp_simps healthy_def env_usable_def simp del: split_paired_all)
  have rest: "wp (thenM (set_txn t (\<lambda>h. h\<lparr>th_txn := None, th_state := s\<rparr>))
       (thenM (unregister_txn t) (set_txn t (\<lambda>h. h\<lparr>th_owner := None\<rparr>)))) Q E (put_env a k w)"
    if k: "k = h \<or> (\<exists>r. k = h\<lparr>eh_roots := r\<rparr>)" for k
  proof -
    obtain r where "k = h\<lparr>eh_roots := r\<rparr>"
      using k by (metis env_handle.surjective env_handle.update_convs(7))
    then have "live_remove t k = h\<lparr>eh_live := [], eh_roots := r\<rparr>" using t(4) by (simp add: live_remove_def)
    then show ?thesis
      using t Q [of r] by (simp add: unregister_txn_def wp_simps put_swap finished_txn_def)
  qed
  have "put_env a h w = w" using t(3) by (simp add: put_env_def fun_upd_idem)
  then have "wp (thenM (set_txn t (\<lambda>h. h\<lparr>th_txn := None, th_state := s\<rparr>))
       (thenM (unregister_txn t) (set_txn t (\<lambda>h. h\<lparr>th_owner := None\<rparr>)))) Q E w"
    using rest [of h] by simp
  then show ?thesis
    unfolding mark_finished_def wp_bind wp_txn_at t option.case wp_then [of "whenM _ _"] wp_when
    by (auto intro!: recd rest)
qed

lemma finished_fields [simp]:
  "th_txn (finished_txn s th) = None" "th_owner (finished_txn s th) = None"
  "th_state (finished_txn s th) = s"
  by (simp_all add: finished_txn_def)

text \<open>The invariant holds again after libmdbx ended the transaction.\<close>

lemma inv_finished_native:
  assumes I: "inv w" and t: "w_txns w t = Some th" "th_txn th = Some p" "th_owner th = Some a"
      "w_envs w a = Some h" and s: "s \<noteq> st_active"
  shows "inv (put_txn t (finished_txn s th) (put_env a (h\<lparr>eh_live := [], eh_roots := r\<rparr>)
    (txn_ended p (w\<lparr>w_lib := n\<rparr>))))"
proof (rule inv_end_txn [OF I _ t(1,3,4), where K = "\<lambda>q. fst q \<noteq> p" and th' = "finished_txn s th" and h' = "h\<lparr>eh_live := [], eh_roots := r\<rparr>"])
  let ?w = "put_txn t (finished_txn s th) (put_env a (h\<lparr>eh_live := [], eh_roots := r\<rparr>)
    (txn_ended p (w\<lparr>w_lib := n\<rparr>)))"
  show "same_frame w ?w" using inv_calm [OF I] by (simp add: same_frame_def txn_ended_def)
  show "fst (q, e) \<noteq> p" if "b \<noteq> a" "w_envs w b = Some k" "eh_env k = Some e" "healthy w k"
      "(q, e) \<in> set (w_usable_txns w)" for b k e q
    using inv_other_txn [OF I t(1-3) that(2-4,1,5)] by simp
qed (use t s in \<open>simp_all add: txn_ended_def\<close>)

text \<open>And after a transaction of an environment that may no longer be used was only dropped.\<close>

lemma inv_finished_broken:
  assumes I: "inv w" and t: "w_txns w t = Some th" "th_owner th = Some a" "w_envs w a = Some h"
    and u: "\<not> healthy w h" and s: "s \<noteq> st_active"
  shows "inv (put_txn t (finished_txn s th) (put_env a (h\<lparr>eh_live := [], eh_roots := r\<rparr>) w))"
proof (rule inv_end_txn [OF I _ t, where K = "\<lambda>_. True" and th' = "finished_txn s th" and h' = "h\<lparr>eh_live := [], eh_roots := r\<rparr>"])
  let ?w = "put_txn t (finished_txn s th) (put_env a (h\<lparr>eh_live := [], eh_roots := r\<rparr>) w)"
  show "same_frame w ?w" using inv_calm [OF I] by (simp add: same_frame_def)
  show "\<not> True" if "healthy w (h\<lparr>eh_live := [], eh_roots := r\<rparr>)" using that u by (simp add: healthy_def)
qed (use t s in simp_all)

text \<open>\<open>mark_finished\<close> in the two situations.\<close>

lemma wp_mark_native:
  assumes I: "inv w" and t: "w_txns w t = Some th" "th_txn th = Some p" "th_owner th = Some a"
      "w_envs w a = Some h" "eh_live h = [t]" and s: "s \<noteq> st_active"
    and Q: "\<And>w' r. inv w' \<Longrightarrow> w' = put_txn t (finished_txn s th) (put_env a (h\<lparr>eh_live := [], eh_roots := r\<rparr>)
      (txn_ended p (w\<lparr>w_lib := n\<rparr>))) \<Longrightarrow> Q () w'"
  shows "wp (mark_finished L t s) Q E (txn_ended p (w\<lparr>w_lib := n\<rparr>))"
proof (rule wp_mark_finished)
  show "env_usable e (txn_ended p (w\<lparr>w_lib := n\<rparr>))"
    if "eh_env h = Some e" "healthy (txn_ended p (w\<lparr>w_lib := n\<rparr>)) h" for e
    using inv_env_usable [OF I t(4) that(1)] that(2) by (simp add: env_usable_def txn_ended_def healthy_def)
  show "Q () (put_txn t (finished_txn s th) (put_env a (h\<lparr>eh_live := [], eh_roots := r\<rparr>)
      (txn_ended p (w\<lparr>w_lib := n\<rparr>))))" for r
    by (rule Q [OF inv_finished_native [OF I t(1-4) s] refl])
qed (use t in \<open>simp_all add: txn_ended_def\<close>)

lemma wp_mark_broken:
  assumes I: "inv w" and t: "w_txns w t = Some th" "th_owner th = Some a" "w_envs w a = Some h"
    and u: "\<not> healthy w h" and s: "s \<noteq> st_active"
    and Q: "\<And>w' r. inv w' \<Longrightarrow> w' = put_txn t (finished_txn s th) (put_env a (h\<lparr>eh_live := [], eh_roots := r\<rparr>) w)
      \<Longrightarrow> Q () w'"
  shows "wp (mark_finished L t s) Q E w"
proof (rule wp_mark_finished [OF t])
  show "eh_live h = [t]" using inv_owner [OF I t(1,2)] t(3) by (metis option.inject)
  show "Q () (put_txn t (finished_txn s th) (put_env a (h\<lparr>eh_live := [], eh_roots := r\<rparr>) w))" for r
    by (rule Q [OF inv_finished_broken [OF I t u s] refl])
qed (use u in simp_all)

section \<open>Commit and abort\<close>

lemma wp_set_prot:
  assumes "inv w" and "w_xps w i = Some p" and "\<And>w'. inv w' \<Longrightarrow> Q () w'"
  shows "wp (set_prot (R_ExtPtr i) v) Q E w"
  using assms(2) by (auto simp: set_prot_def wp_simps intro!: assms(3) inv_put_xptr [OF assms(1,2)])

text \<open>The tail of \<open>finish_txn\<close>, from a transaction that may be used.\<close>

lemma live_txn_cases:
  assumes "inv w" and "live_txn t w"
  obtains th p a h e where "w_txns w t = Some th" "th_txn th = Some p" "th_owner th = Some a"
    "w_envs w a = Some h" "eh_env h = Some e" "healthy w h" "eh_live h = [t]"
proof -
  obtain th a h p e where t: "w_txns w t = Some th" "th_txn th = Some p" "th_owner th = Some a"
      "w_envs w a = Some h" "eh_env h = Some e" "healthy w h"
    using assms(2) by (auto simp: live_txn_def)
  moreover have "eh_live h = [t]" using inv_owner [OF assms(1) t(1,3)] t(4) by (metis option.inject)
  ultimately show thesis using that by blast
qed

lemma safe_finish:
  "safe (sexp_ok txn) (finish_txn L txn commit) (\<lambda>_ _. True)"
  unfolding finish_txn_def
proof (rule safeI, unfold wp_bind, rule wp_mono [OF txn_from_sexp_wp], assumption, assumption)
  fix w w' :: "'a world" and t
  assume I: "inv w" and s: "sexp_ok txn w" and l: "w' = w \<and> live_txn t w \<and> (\<exists>i. txn = R_ExtPtr i)"
  obtain i x where i: "txn = R_ExtPtr i" "w_xps w i = Some x"
    using s l by (auto simp: sexp_ok_def)
  obtain th p a h e where t: "w_txns w t = Some th" "th_txn th = Some p" "th_owner th = Some a"
      "w_envs w a = Some h" "eh_env h = Some e" "healthy w h" "eh_live h = [t]"
    using live_txn_cases [OF I l [THEN conjunct2, THEN conjunct1]] by metis
  have crash: "inv (put_env a (h\<lparr>eh_poisoned := True\<rparr>) (put_txn t (th\<lparr>th_poisoned := True\<rparr>) v))"
    if "crashed e w v" for v
    by (rule inv_crash_txn [OF I that t(4,5,1,3)])
  have ended: "wp (thenM (whenM (rc = MDBX_THREAD_MISMATCH) (check L rc))
          (thenM (mark_finished L t (if commit \<and> rc = MDBX_SUCCESS then st_committed else st_aborted))
            (thenM (set_prot txn R_NilValue) (if rc = MDBX_RESULT_TRUE then stopM RolledBack else check L rc))))
         (\<lambda>x w'. inv w' \<and> True) (\<lambda>e w'. inv w' \<and> harmless e) (txn_ended p (w\<lparr>w_lib := n\<rparr>))"
    if "rc \<noteq> MDBX_THREAD_MISMATCH" for rc n
    unfolding wp_then wp_when if_not_P [OF that] i(1)
    by (rule wp_mark_native [OF I t(1-4,7)]) (auto simp: wp_simps i(2) intro!: wp_set_prot)
  show "wp (guard (finish_call L t commit) (Some (poison_txn t)))
     (\<lambda>rc. wp (thenM (whenM (rc = MDBX_THREAD_MISMATCH) (check L rc))
          (thenM (mark_finished L t (if commit \<and> rc = MDBX_SUCCESS then st_committed else st_aborted))
            (thenM (set_prot txn R_NilValue) (if rc = MDBX_RESULT_TRUE then stopM RolledBack else check L rc))))
         (\<lambda>x w'. inv w' \<and> True) (\<lambda>e w'. inv w' \<and> harmless e))
     (\<lambda>e w'. inv w' \<and> harmless e) w'"
    unfolding guard_def wp_bind l [THEN conjunct1] wp_guard_result
  proof (rule wp_end_native [OF I t(1-6)]; unfold guard_result.case wp_return)
    show "wp (thenM (whenM (MDBX_THREAD_MISMATCH = MDBX_THREAD_MISMATCH) (check L MDBX_THREAD_MISMATCH))
          (thenM (mark_finished L t (if commit \<and> MDBX_THREAD_MISMATCH = MDBX_SUCCESS then st_committed else st_aborted))
            (thenM (set_prot txn R_NilValue)
              (if MDBX_THREAD_MISMATCH = MDBX_RESULT_TRUE then stopM RolledBack else check L MDBX_THREAD_MISMATCH))))
         (\<lambda>x w'. inv w' \<and> True) (\<lambda>e w'. inv w' \<and> harmless e) (w\<lparr>w_lib := n\<rparr>)" for n
      using I by (simp add: wp_simps branch_codes_distinct)
  qed (use ended crash in \<open>simp_all add: wp_simps stop_after_panic_def\<close>)
qed auto

lemma wp_abandon_any:
  assumes "inv w" and "\<And>w'. inv w' \<Longrightarrow> abandoned_more w w' \<Longrightarrow> Q () w'"
  shows "wp (abandon p) Q E w"
  by (rule wp_abandon) (auto intro: assms inv_abandoned [OF assms(1)])

lemma abandoned_more_frame:
  assumes "abandoned_more w w'"
  shows "w_pid w' = w_pid w" "w_envs w' = w_envs w" "w_txns w' = w_txns w" "w_xps w' = w_xps w"
    "w_usable_envs w' = w_usable_envs w" "w_usable_txns w' = w_usable_txns w" "w_open w' = w_open w"
    "healthy w' h = healthy w h" "w_next w' = w_next w" "w_ids w' = w_ids w" "w_guard w' = w_guard w"
    "w_last_panic w' = w_last_panic w" "w_live_env_handles w' = w_live_env_handles w"
    "w_live_txn_handles w' = w_live_txn_handles w" "w_lib w' = w_lib w"
  using assms by (auto simp: abandoned_more_def healthy_def)

lemma safe_abort: "safe (sexp_ok txn) (mdbx_txn_abort L txn) (\<lambda>_ _. True)"
  unfolding mdbx_txn_abort_def
proof (rule safeI, rule wp_txn_handle)
  fix w :: "'a world" and i x t h
  assume I: "inv w" and s: "sexp_ok txn w" and i: "txn = R_ExtPtr i" "w_xps w i = Some x" and h: "w_txns w t = Some h"
  let ?P = "\<lambda>m. wp m (\<lambda>x w'. inv w' \<and> True) (\<lambda>e w'. inv w' \<and> harmless e) w"
  have finish: "?P (finish_txn L txn False)" using safeD [OF safe_finish I s] .
  have broken: "?P (thenM (abandon (map_option PTxn (th_txn h)))
      (thenM (mark_finished L t st_aborted) (set_prot txn R_NilValue)))"
    if a: "th_owner h = Some a" "w_envs w a = Some k" "\<not> healthy w k" for a k
    unfolding wp_then i(1)
  proof (rule wp_abandon_any [OF I])
    fix v
    assume v: "inv v" "abandoned_more w v"
    note f = abandoned_more_frame [OF v(2)]
    show "wp (mark_finished L t st_aborted)
         (\<lambda>_. wp (set_prot (R_ExtPtr i) R_NilValue) (\<lambda>x w'. inv w' \<and> True) (\<lambda>e w'. inv w' \<and> harmless e))
         (\<lambda>e w'. inv w' \<and> harmless e) v"
      by (rule wp_mark_broken [OF v(1)]) (use h a i(2) in \<open>auto simp: f intro!: wp_set_prot\<close>)
  qed
  show "?P (case Some t of None \<Rightarrow> returnM ()
     | Some t \<Rightarrow> bindM (txn_at t) (\<lambda>h.
         if th_txn h = None then returnM () else
         bindM (broken_graph h) (\<lambda>broken.
         if broken then
           thenM (abandon (map_option PTxn (th_txn h)))
          (thenM (mark_finished L t st_aborted)
                 (set_prot txn R_NilValue))
         else finish_txn L txn False)))"
  proof (cases "th_owner h")
    case None
    then show ?thesis using inv_no_owner [OF I h] h I by (simp add: wp_simps)
  next
    case (Some a)
    obtain k where k: "w_envs w a = Some k" "eh_env k \<noteq> None" "th_pid h = eh_pid k" "th_poisoned h \<longrightarrow> eh_poisoned k"
      using inv_owner [OF I h Some] by metis
    show ?thesis
      using h Some k finish broken [OF Some k(1)] I
      by (auto simp: wp_bind wp_txn_at broken_graph_def wp_if wp_return wp_current_pid wp_env_at healthy_def)
  qed
qed (auto simp: wp_simps)

lemma safe_commit: "safe (sexp_ok txn) (mdbx_txn_commit L txn) (\<lambda>_ _. True)"
  unfolding mdbx_txn_commit_def by (rule safe_finish)

end
