(* ===== verification/Mdbx_CloseSafe.thy ===== *)
theory Mdbx_CloseSafe
  imports Mdbx_EndSafe
begin

text \<open>
  Safety of closing an environment, with the transactions it still has, and of the two finalizers
  in whichever order R runs them.
\<close>

section \<open>close_handle\<close>

text \<open>
  What \<open>close_handle\<close> leaves on every path: the handle holds no environment and is out of the
  registry, and at most its own native environment is dead.
\<close>

definition env_closed :: "nat \<Rightarrow> 'n world \<Rightarrow> 'n world \<Rightarrow> bool" where
  "env_closed a w w' \<longleftrightarrow>
     same_frame (open_remove a w) w' \<and> w_txns w' = w_txns w
     \<and> (\<exists>h h' e. w_envs w a = Some h \<and> w_envs w' = (w_envs w)(a \<mapsto> h') \<and> eh_env h = Some e
          \<and> eh_env h' = None \<and> eh_live h' = eh_live h \<and> dead e w w')"

lemma env_closedI:
  "same_frame (open_remove a w) w' \<Longrightarrow> w_txns w' = w_txns w \<Longrightarrow> w_envs w a = Some h
    \<Longrightarrow> w_envs w' = (w_envs w)(a \<mapsto> h') \<Longrightarrow> eh_env h = Some e \<Longrightarrow> eh_env h' = None
    \<Longrightarrow> eh_live h' = eh_live h \<Longrightarrow> dead e w w' \<Longrightarrow> env_closed a w w'"
  unfolding env_closed_def by blast

lemma open_remove_frame [simp]:
  "w_pid (open_remove a w) = w_pid w" "w_next (open_remove a w) = w_next w"
  "w_envs (open_remove a w) = w_envs w" "w_txns (open_remove a w) = w_txns w"
  "w_xps (open_remove a w) = w_xps w" "w_guard (open_remove a w) = w_guard w"
  "w_last_panic (open_remove a w) = w_last_panic w" "w_lib (open_remove a w) = w_lib w"
  "w_ids (open_remove a w) = w_ids w" "w_live_env_handles (open_remove a w) = w_live_env_handles w"
  "w_live_txn_handles (open_remove a w) = w_live_txn_handles w"
  "w_usable_envs (open_remove a w) = w_usable_envs w" "w_usable_txns (open_remove a w) = w_usable_txns w"
  "w_abandoned (open_remove a w) = w_abandoned w"
  by (simp_all add: open_remove_def)

lemma closed_abandoned:
  assumes "panic_wf (w_last_panic w)" and "w_envs w a = Some h" "eh_env h = Some e"
    and "abandoned_more (open_remove a w) v"
  shows "env_closed a w (put_env a (h\<lparr>eh_env := None\<rparr>) v)"
proof (rule env_closedI [where h = h and h' = "h\<lparr>eh_env := None\<rparr>" and e = e])
  note f = abandoned_more_frame [OF assms(4)]
  show "same_frame (open_remove a w) (put_env a (h\<lparr>eh_env := None\<rparr>) v)"
    using assms(1) by (simp add: same_frame_def f)
  show "dead e w (put_env a (h\<lparr>eh_env := None\<rparr>) v)" by (rule dead_same) (simp_all add: f)
qed (use assms abandoned_more_frame [OF assms(4)] in simp_all)

lemma close_panicked:
  assumes "w_guard w = []" "panic_wf (w_last_panic w)" and h: "w_envs w a = Some h" "eh_env h = Some e"
    and "\<exists>n. panicked (kill_env e ((push_frame (open_remove a w))\<lparr>w_lib := n\<rparr>)) v"
  shows "env_closed a w (put_env a (h\<lparr>eh_poisoned := True, eh_env := None\<rparr>) (set_guard [] v))"
proof -
  obtain n q where q: "panic_wf q" "v = (kill_env e ((push_frame (open_remove a w))\<lparr>w_lib := n\<rparr>))\<lparr>w_last_panic := q\<rparr>"
    using assms(5) by (auto simp: panicked_def)
  show ?thesis
  proof (rule env_closedI [where h = h and h' = "h\<lparr>eh_poisoned := True, eh_env := None\<rparr>" and e = e])
    show "same_frame (open_remove a w) (put_env a (h\<lparr>eh_poisoned := True, eh_env := None\<rparr>) (set_guard [] v))"
      using q assms(1) by (simp add: same_frame_def)
    show "dead e w (put_env a (h\<lparr>eh_poisoned := True, eh_env := None\<rparr>) (set_guard [] v))"
      by (rule dead_kill) (simp_all add: q(2))
  qed (use q h in simp_all)
qed

text \<open>The native close, from a state in which libmdbx's contract for it holds.\<close>

lemma wp_close_native:
  assumes g: "w_guard w = []" "panic_wf (w_last_panic w)" and h: "w_envs w a = Some h" "eh_env h = Some e"
    and u: "e \<in> set (w_usable_envs w)" "e \<notin> snd ` set (w_usable_txns w)"
    and Q: "\<And>r w'. env_closed a w w' \<Longrightarrow> Q r w'"
  shows "wp (mdbx_r_run_guarded (close_call L a) (Some (poison_env a)))
    (\<lambda>r. wp (set_env a (\<lambda>h. h\<lparr>eh_env := None\<rparr>)) (\<lambda>_. Q r) E) E (open_remove a w)"
proof -
  let ?w = "push_frame (open_remove a w)"
  let ?R = "\<lambda>v. \<exists>n. panicked (kill_env e (?w\<lparr>w_lib := n\<rparr>)) v"
  have ret: "env_closed a w (put_env a (h\<lparr>eh_env := None\<rparr>) (set_guard [] v))"
    if "v = ?w\<lparr>w_lib := n\<rparr> \<or> v = kill_env e (?w\<lparr>w_lib := n\<rparr>)" for v n
  proof (rule env_closedI [where h = h and h' = "h\<lparr>eh_env := None\<rparr>" and e = e])
    show "same_frame (open_remove a w) (put_env a (h\<lparr>eh_env := None\<rparr>) (set_guard [] v))"
      using that g by (auto simp: same_frame_def)
    show "dead e w (put_env a (h\<lparr>eh_env := None\<rparr>) (set_guard [] v))"
      using that by (elim disjE) (rule dead_same dead_kill, simp, simp)+
  qed (use that h in auto)
  show ?thesis
  proof (rule wp_run_guarded_calm [where R = ?R])
    show "w_guard (open_remove a w) = []" using g by simp
    show "wp (close_call L a) (\<lambda>x v. wp (set_env a (\<lambda>h. h\<lparr>eh_env := None\<rparr>)) (\<lambda>_. Q (GuardOk x)) E (set_guard [] v))
        (\<lambda>x v. x = Longjmp 0 \<and> ?R v) ?w"
      unfolding close_call_def wp_bind wp_env_at push_frame_frame open_remove_frame h option.case
        env_close_call_def wp_gets wp_if if_not_P [OF u(2) [unfolded set_map [symmetric]]]
      by (rule wp_env_call [where k = 0 and fs = "[]"]) (use u g h in \<open>auto simp: wp_simps intro!: Q ret\<close>)
    show "wp (run_poison (Some (poison_env a)))
        (\<lambda>_ u. wp (set_env a (\<lambda>h. h\<lparr>eh_env := None\<rparr>)) (\<lambda>_. Q (GuardPanic (w_last_panic u))) E u) E (set_guard [] v)"
      if "?R v" for v
      using close_panicked [OF g h that] that h
      by (auto simp: poison_env_def wp_simps panicked_def intro!: Q)
  qed
qed

lemma wp_close_handle:
  assumes g: "w_guard w = []" "panic_wf (w_last_panic w)" and h: "w_envs w a = Some h" "eh_env h = Some e"
    and u: "healthy w h \<Longrightarrow> e \<in> set (w_usable_envs w) \<and> e \<notin> snd ` set (w_usable_txns w)"
    and Q: "\<And>w'. env_closed a w w' \<Longrightarrow> Q () w'"
    and E: "\<And>x w'. propagate \<Longrightarrow> harmless x \<Longrightarrow> env_closed a w w' \<Longrightarrow> E x w'"
  shows "wp (close_handle L a propagate) Q E w"
proof -
  have drop: "wp (abandon_env a) (\<lambda>_. wp (set_env a (\<lambda>h. h\<lparr>eh_env := None\<rparr>)) R E) E (open_remove a w)"
    if "\<And>w'. env_closed a w w' \<Longrightarrow> R () w'" for R
  proof (rule wp_abandon_env)
    show "w_envs (open_remove a w) a = Some h" using h by simp
    show "wp (set_env a (\<lambda>h. h\<lparr>eh_env := None\<rparr>)) R E v" if "abandoned_more (open_remove a w) v" for v
      using closed_abandoned [OF g(2) h that] abandoned_more_frame [OF that] h \<open>\<And>w'. env_closed a w w' \<Longrightarrow> R () w'\<close>
      by (simp add: wp_simps)
  qed
  show ?thesis
  proof (cases "healthy w h")
    case True
    then have t: "\<not> eh_poisoned h" "eh_pid h = w_pid w" by (simp_all add: healthy_def)
    have "wp (mdbx_r_run_guarded (close_call L a) (Some (poison_env a)))
      (\<lambda>r. wp (set_env a (\<lambda>h. h\<lparr>eh_env := None\<rparr>))
         (\<lambda>_. wp (if \<not> propagate then returnM () else case r of GuardPanic panic \<Rightarrow> stop_after_panic panic
            | GuardOk rc \<Rightarrow> check L rc) Q E) E) E (open_remove a w)"
    proof (rule wp_close_native [OF g h])
      show "wp (if \<not> propagate then returnM () else case r of GuardPanic panic \<Rightarrow> stop_after_panic panic
            | GuardOk rc \<Rightarrow> check L rc) Q E w'" if "env_closed a w w'" for r w'
        using Q [OF that] E that by (cases r) (simp_all add: wp_simps stop_after_panic_def)
    qed (use u True in auto)
    then show ?thesis
      unfolding close_handle_def wp_bind wp_env_at h option.case wp_if wp_then wp_unregister_env
        wp_current_pid open_remove_frame
      using t h by simp
  next
    case False
    then have "eh_pid h \<noteq> w_pid w \<or> eh_pid h = w_pid w \<and> eh_poisoned h" by (auto simp: healthy_def)
    then show ?thesis
      unfolding close_handle_def wp_bind wp_env_at h option.case wp_if wp_then wp_unregister_env
        wp_current_pid open_remove_frame
      using Q E by (auto intro!: drop simp: wp_simps)
  qed
qed

lemma inv_closed:
  assumes I: "inv w" and c: "env_closed a w w'" and l: "w_envs w a = Some h" "eh_live h = []"
  shows "inv w'"
proof -
  obtain h' e K where h: "w_envs w' = (w_envs w)(a \<mapsto> h')" "eh_env h = Some e" "eh_env h' = None"
      "eh_live h' = []" "set (w_usable_envs w) - {e} \<subseteq> set (w_usable_envs w')"
      "w_usable_txns w' = filter K (w_usable_txns w)" "\<And>q. snd q \<noteq> e \<Longrightarrow> K q"
      "same_frame (open_remove a w) w'" "w_txns w' = w_txns w"
    using c l unfolding env_closed_def dead_def by auto
  have other: "d \<noteq> e" if "b \<noteq> a" "w_envs w b = Some k" "eh_env k = Some d" for b k d
    using use_invD(4) [OF inv_D(5) [OF I] that(2) l(1) that(3)] h(2) that(1) by auto
  show ?thesis
  proof (rule inv_close [OF I h(8) l h(1,3,4,9) _ h(6)])
    show "d \<in> set (w_usable_envs w')" if "b \<noteq> a" "w_envs w b = Some k" "eh_env k = Some d"
        "d \<in> set (w_usable_envs w)" for b k d
      using other [OF that(1-3)] that(4) h(5) by blast
    show "K (q, d)" if "b \<noteq> a" "w_envs w b = Some k" "eh_env k = Some d" for b k d q
      using other [OF that] h(7) by simp
  qed
qed

text \<open>With no transaction left the contract of the native close holds.\<close>

lemma inv_closable:
  assumes "inv w" and "w_envs w a = Some h" "eh_env h = Some e" "eh_live h = []" "healthy w h"
  shows "e \<in> set (w_usable_envs w) \<and> e \<notin> snd ` set (w_usable_txns w)"
  using inv_env_usable [OF assms(1,2,3,5)] use_invD(9) [OF inv_D(5) [OF assms(1)] _ assms(2,3,5)] assms(4)
  by fastforce

lemma wp_close_idle:
  assumes I: "inv w" and h: "w_envs w a = Some h" "eh_live h = []"
    and Q: "\<And>w'. inv w' \<Longrightarrow> w_xps w' = w_xps w \<Longrightarrow> (\<exists>h'. w_envs w' a = Some h' \<and> eh_env h' = None) \<Longrightarrow> Q () w'"
    and E: "\<And>x w'. propagate \<Longrightarrow> harmless x \<Longrightarrow> inv w' \<Longrightarrow> E x w'"
  shows "wp (close_handle L a propagate) Q E w"
proof (cases "eh_env h")
  case None
  then show ?thesis using h Q [OF I] by (simp add: close_handle_def wp_simps)
next
  case (Some e)
  show ?thesis
  proof (rule wp_close_handle [OF inv_calm [OF I] h(1) Some inv_closable [OF I h(1) Some h(2)]])
    show "Q () w'" if "env_closed a w w'" for w'
      by (rule Q [OF inv_closed [OF I that h]]) (use that in \<open>auto simp: env_closed_def same_frame_def\<close>)
  qed (auto intro: E inv_closed [OF I _ h])
qed

section \<open>Detaching transactions\<close>

text \<open>The transformer as a function of the state, for rewriting under a binder.\<close>

lemma wp_fun:
  "wp (returnM x) Q E = Q x" "wp (thenM m k) Q E = wp m (\<lambda>_. wp k Q E) E"
  "wp (bindM m f) Q E = wp m (\<lambda>x. wp (f x) Q E) E"
  by (simp_all add: fun_eq_iff wp_simps)

text \<open>
  The native abort a finalizer makes: it ends the transaction, or panics and leaves it to the
  abandoned registry. Either way the handle may be finished.
\<close>

lemma is_ok_simps [simp]: "is_ok (GuardOk x)" "\<not> is_ok (GuardPanic p)"
  by (simp_all add: is_ok_def)

text \<open>The pure part: dropping the transaction of an environment from any state it can be in.\<close>

definition dropped :: "nat \<Rightarrow> nat \<Rightarrow> txn_handle \<Rightarrow> env_handle \<Rightarrow> 'n world \<Rightarrow> 'n world" where
  "dropped t a th h w =
     put_txn t (finished_txn st_aborted th) (put_env a (h\<lparr>eh_live := []\<rparr>) w)"

lemma inv_dropped_native:
  assumes "inv w" and "w_txns w t = Some th" "th_txn th = Some p" "th_owner th = Some a" "w_envs w a = Some h"
  shows "inv (dropped t a th h (txn_ended p (w\<lparr>w_lib := n\<rparr>)))"
  using inv_finished_native [OF assms, of st_aborted "eh_roots h"] by (simp add: dropped_def)

lemma inv_dropped_broken:
  assumes "inv w" and "w_txns w t = Some th" "th_owner th = Some a" "w_envs w a = Some h" "\<not> healthy w h"
  shows "inv (dropped t a th h w)"
  using inv_finished_broken [OF assms, of st_aborted "eh_roots h"] by (simp add: dropped_def)

lemma wp_detach_one:
  assumes I: "inv w" and A: "abort_ends L"
    and t: "w_txns w t = Some th" "th_owner th = Some a" "w_envs w a = Some h" "eh_live h = [t]"
    and u: "usable \<longleftrightarrow> healthy w h"
    and Q: "\<And>w' th' k. inv (dropped t a th' k w') \<Longrightarrow> w_xps w' = w_xps w \<Longrightarrow> w_envs w' a = Some k
        \<Longrightarrow> Q () (put_txn t (finished_txn st_aborted th') w')"
  shows "wp (detach_one L usable t) Q E w"
proof -
  obtain p e where p: "th_txn th = Some p" "eh_env h = Some e" "th_poisoned th \<longrightarrow> eh_poisoned h"
    using inv_owner [OF I t(1,2)] t(3) by (metis not_Some_eq option.inject)
  have last: "wp (set_txn t (\<lambda>h. h\<lparr>th_txn := None, th_state := st_aborted, th_owner := None\<rparr>)) Q E v"
    if "w_txns v t = Some th'" "inv (dropped t a th' k v)" "w_xps v = w_xps w" "w_envs v a = Some k" for v th' k
    using Q [OF that(2-4)] that(1) by (simp add: wp_simps finished_txn_def)
  have lost: "wp (abandon x) (\<lambda>_. wp (set_txn t (\<lambda>h. h\<lparr>th_txn := None, th_state := st_aborted, th_owner := None\<rparr>)) Q E) E v"
    if v: "inv v" "w_txns v t = Some th'" "th_owner th' = Some a" "w_envs v a = Some k" "\<not> healthy v k"
      "w_xps v = w_xps w" for v th' k x
  proof (rule wp_abandon_any [OF v(1)])
    fix u
    assume u: "inv u" "abandoned_more v u"
    note f = abandoned_more_frame [OF u(2)]
    show "wp (set_txn t (\<lambda>h. h\<lparr>th_txn := None, th_state := st_aborted, th_owner := None\<rparr>)) Q E u"
      by (rule last [where th' = th' and k = k], simp_all add: f v inv_dropped_broken [OF u(1)])
  qed
  show ?thesis
  proof (cases "healthy w h")
    case True
    then have np: "\<not> th_poisoned th" using p(3) by (auto simp: healthy_def)
    have "wp (mdbx_r_run_guarded (finish_call L t False) (Some (poison_txn t)))
      (\<lambda>r. wp (if \<not> is_ok r then bindM (txn_at t) (\<lambda>h. abandon (map_option PTxn (th_txn h))) else returnM ())
         (\<lambda>_. wp (set_txn t (\<lambda>h. h\<lparr>th_txn := None, th_state := st_aborted, th_owner := None\<rparr>)) Q E) E) E w"
    proof (rule wp_end_native [OF I t(1) p(1) t(2,3) p(2) True])
      fix v q
      assume c: "crashed e w v"
      let ?v = "put_env a (h\<lparr>eh_poisoned := True\<rparr>) (put_txn t (th\<lparr>th_poisoned := True\<rparr>) v)"
      have "inv ?v" by (rule inv_crash_txn [OF I c t(3) p(2) t(1,2)])
      then show "wp (if \<not> is_ok (GuardPanic q) then bindM (txn_at t) (\<lambda>h. abandon (map_option PTxn (th_txn h))) else returnM ())
         (\<lambda>_. wp (set_txn t (\<lambda>h. h\<lparr>th_txn := None, th_state := st_aborted, th_owner := None\<rparr>)) Q E) E ?v"
        using c t(2) by (simp add: wp_bind wp_txn_at crashed_def same_frame_def lost)
    qed (use A t p inv_dropped_native [OF I t(1) p(1) t(2,3)] in
        \<open>auto simp: wp_return intro!: last [where k = h and th' = th]\<close>)
    then show ?thesis
      using t p np True u
      by (simp add: detach_one_def wp_fun wp_txn_at whenM_def)
  next
    case False
    then show ?thesis
      using t u lost [OF I t(1-3) False]
      by (simp add: detach_one_def wp_bind wp_txn_at wp_if wp_then wp_when wp_return)
  qed
qed

lemma put_env_id [simp]: "w_envs w a = Some h \<Longrightarrow> put_env a h w = w"
  by (simp add: put_env_def fun_upd_idem)

lemma wp_detach_txns:
  assumes I: "inv w" and A: "abort_ends L" and h: "w_envs w a = Some h"
    and Q: "\<And>w' k. inv w' \<Longrightarrow> w_xps w' = w_xps w \<Longrightarrow> w_envs w' a = Some k \<Longrightarrow> eh_live k = [] \<Longrightarrow> Q () w'"
  shows "wp (detach_txns L a) Q E w"
proof (cases "eh_live h")
  case Nil
  then have "h\<lparr>eh_live := []\<rparr> = h" by simp
  then show ?thesis using h Nil Q [OF I _ h Nil] by (simp add: detach_txns_def wp_simps)
next
  case (Cons t ts)
  then have "t \<in> set (eh_live h)" by simp
  then obtain th where t: "w_txns w t = Some th" "th_owner th = Some a" "eh_live h = [t]" "eh_env h \<noteq> None"
    by (rule inv_live [OF I h])
  have "wp (detach_one L (eh_env h \<noteq> None \<and> \<not> eh_poisoned h \<and> eh_pid h = w_pid w) t)
      (\<lambda>_. wp (set_env a (\<lambda>h. h\<lparr>eh_live := []\<rparr>)) Q E) E w"
  proof (rule wp_detach_one [OF I A t(1,2) h t(3)])
    show "wp (set_env a (\<lambda>h. h\<lparr>eh_live := []\<rparr>)) Q E (put_txn t (finished_txn st_aborted th') w')"
      if d: "inv (dropped t a th' k w')" "w_xps w' = w_xps w" "w_envs w' a = Some k" for w' th' k
      using Q [OF d(1), of "k\<lparr>eh_live := []\<rparr>"] d(2,3) by (simp add: wp_simps dropped_def put_swap)
  qed (use t(4) in \<open>simp add: healthy_def\<close>)
  then show ?thesis
    using h t(3) by (simp add: detach_txns_def wp_bind wp_env_at wp_current_pid wp_fun)
qed

end
