(* ===== verification/Mdbx_FinalSafe.thy ===== *)
theory Mdbx_FinalSafe
  imports Mdbx_CloseSafe
begin

text \<open>
  Safety of \<open>mdbx_env_close_\<close> and of the two finalizers, which R may run in any order and at any
  time between two calls.
\<close>

section \<open>mdbx_env_close_\<close>

lemma safe_env_close:
  assumes "abort_ends L"
  shows "safe (sexp_ok env) (mdbx_env_close L env) (\<lambda>_ _. True)"
  unfolding mdbx_env_close_def
proof (rule safeI, rule wp_env_handle)
  fix w :: "'a world" and i x a h
  assume I: "inv w" and h: "w_envs w a = Some h"
  let ?rest = "bindM (env_at a) (\<lambda>h. if eh_live h \<noteq> [] then stopM (EnvHasTxns (length (eh_live h)))
      else close_handle L a True)"
  have rest: "wp ?rest (\<lambda>x w'. inv w' \<and> True) (\<lambda>e w'. inv w' \<and> harmless e) v"
    if "inv v" "w_envs v a = Some k" for v k
    using that by (simp add: wp_fun wp_env_at wp_if wp_stop) (auto intro!: wp_close_idle [OF that])
  show "wp (case Some a of None \<Rightarrow> returnM ()
     | Some a \<Rightarrow> bindM (env_at a) (\<lambda>h.
         thenM (whenM (eh_poisoned h) (detach_txns L a))
        (bindM (env_at a) (\<lambda>h.
         if eh_live h \<noteq> [] then stopM (EnvHasTxns (length (eh_live h)))
         else close_handle L a True))))
     (\<lambda>x w'. inv w' \<and> True) (\<lambda>e w'. inv w' \<and> harmless e) w"
    unfolding option.case wp_bind [of "env_at a"] wp_env_at h wp_then wp_when
    using rest [OF I h] by (auto simp: wp_fun wp_env_at h intro!: wp_detach_txns [OF I assms h] rest wp_close_idle)
qed (auto simp: wp_simps)

section \<open>The environment finalizer\<close>

text \<open>
  A finalizer is called by R's collector, below no C++ frame that could catch an exception: the
  failure postcondition is arbitrary here, so that a finalizer is shown to end normally.
\<close>

lemma wp_finalize_env:
  assumes I: "inv w" and A: "abort_ends L" and x: "w_xps w x = Some p" "xp_tag p = env_tag"
  shows "wp (finalize_env L x) (\<lambda>_. inv) E w"
  unfolding finalize_env_def wp_bind
proof (rule wp_env_addr [OF I x])
  show "wp (case None of None \<Rightarrow> returnM () | Some a \<Rightarrow> k a) (\<lambda>_. inv) E w" for k
    using I by (simp add: wp_return)
  fix a h
  assume a: "xp_addr p = AEnv a" "w_envs w a = Some h"
  let ?v = "put_xptr x (p\<lparr>xp_addr := ANull\<rparr>) w"
  have V: "inv ?v" by (rule inv_put_xptr [OF I x(1)]) simp_all
  have free: "xp_addr q \<noteq> AEnv a" if "w_xps ?v y = Some q" for y q
    using that ptr_invD(5) [OF inv_D(2) [OF I], of y q x p] x(1) a(1) by (auto split: if_splits)
  have delete: "wp (delete_env a) (\<lambda>_. wp (modifyM (\<lambda>w. w\<lparr>w_live_env_handles := w_live_env_handles w - 1\<rparr>))
       (\<lambda>_. inv) E) E u"
    if u: "inv u" "w_xps u = w_xps ?v" "w_envs u a = Some k" "eh_env k = None" for u :: "'a world" and k
  proof -
    have "inv (u\<lparr>w_envs := (w_envs u)(a := None), w_live_env_handles := w_live_env_handles u - 1\<rparr>)"
      by (rule inv_delete_env [OF u(1,3,4)])
        (use u(2) free inv_calm [OF u(1)] in \<open>auto simp: same_frame_def\<close>)
    then show ?thesis using u by (simp add: wp_simps)
  qed
  show "wp (case Some a of None \<Rightarrow> returnM ()
     | Some a \<Rightarrow>
         thenM (set_xptr x (\<lambda>p. p\<lparr>xp_addr := ANull\<rparr>))
        (thenM (detach_txns L a)
        (thenM (close_handle L a False)
        (thenM (delete_env a)
               (modifyM (\<lambda>w. w\<lparr>w_live_env_handles := w_live_env_handles w - 1\<rparr>))))))
     (\<lambda>_. inv) E w"
    unfolding option.case wp_fun wp_set_xptr x
    by (rule wp_detach_txns [OF V A])
      (use a in \<open>auto intro!: wp_close_idle delete [unfolded wp_fun]\<close>)
qed

section \<open>The transaction finalizer\<close>

text \<open>No pointer addresses the handle.\<close>

definition unaddressed :: "nat \<Rightarrow> 'n world \<Rightarrow> bool" where
  "unaddressed t w \<longleftrightarrow> (\<forall>x p. w_xps w x = Some p \<longrightarrow> xp_addr p \<noteq> ATxn t)"

lemma unaddressed_same: "w_xps v = w_xps w \<Longrightarrow> unaddressed t v = unaddressed t w"
  by (simp add: unaddressed_def)

lemma unaddressed_frame [simp]: "unaddressed t (w\<lparr>w_lib := n\<rparr>) = unaddressed t w" "unaddressed t (txn_ended q w) = unaddressed t w"
  "unaddressed t (put_env a k w) = unaddressed t w" "unaddressed t (put_txn s th w) = unaddressed t w"
  by (rule unaddressed_same, simp)+

text \<open>The handle is freed.\<close>

definition delete_handle :: "nat \<Rightarrow> ('n, unit) mem" where
  "delete_handle t = thenM (delete_txn t) (modifyM (\<lambda>w. w\<lparr>w_live_txn_handles := w_live_txn_handles w - 1\<rparr>))"

lemma wp_delete_handle:
  assumes I: "inv w" and t: "w_txns w t = Some th" "th_owner th = None" and X: "unaddressed t w"
  shows "wp (delete_handle t) (\<lambda>_. inv) E w"
proof -
  have "inv (w\<lparr>w_txns := (w_txns w)(t := None), w_live_txn_handles := w_live_txn_handles w - 1\<rparr>)"
    by (rule inv_delete_txn [OF I t]) (use inv_calm [OF I] X in \<open>auto simp: same_frame_def unaddressed_def\<close>)
  then show ?thesis using t by (simp add: delete_handle_def wp_simps)
qed

text \<open>What the finalizer does once the native transaction has been aborted, or not.\<close>

definition finalizer_rest :: "'n libmdbx \<Rightarrow> nat \<Rightarrow> bool \<Rightarrow> ('n, unit) mem" where
  "finalizer_rest L t ended =
     bindM (txn_at t) (\<lambda>h.
     thenM (if th_txn h \<noteq> None
            then thenM (whenM (\<not> ended) (abandon (map_option PTxn (th_txn h))))
                       (mark_finished L t st_aborted)
            else unregister_txn t)
           (delete_handle t))"

text \<open>Not aborted: the environment is not usable, or the transaction is over.\<close>

lemma wp_rest_broken:
  assumes u: "inv u" "w_txns u t = Some k" "th_owner k = Some a" "w_envs u a = Some l" "\<not> healthy u l" "th_txn k \<noteq> None"
    and X: "unaddressed t u"
  shows "wp (finalizer_rest L t False) (\<lambda>_. inv) E u"
proof -
  have "wp (abandon (map_option PTxn (th_txn k)))
      (\<lambda>_. wp (mark_finished L t st_aborted) (\<lambda>_. wp (delete_handle t) (\<lambda>_. inv) E) E) E u"
  proof (rule wp_abandon_any [OF u(1)])
    fix z
    assume z: "inv z" "abandoned_more u z"
    note f = abandoned_more_frame [OF z(2)]
    show "wp (mark_finished L t st_aborted) (\<lambda>_. wp (delete_handle t) (\<lambda>_. inv) E) E z"
      by (rule wp_mark_broken [OF z(1)])
        (use u X in \<open>auto simp: f unaddressed_def intro!: wp_delete_handle\<close>)
  qed
  then show ?thesis using u by (simp add: finalizer_rest_def wp_bind wp_txn_at wp_fun whenM_def)
qed

lemma wp_rest_over:
  assumes "inv u" and "w_txns u t = Some k" "th_owner k = None" and "unaddressed t u"
  shows "wp (finalizer_rest L t False) (\<lambda>_. inv) E u"
  using assms inv_no_owner [OF assms(1-3)] wp_delete_handle [OF assms]
  by (simp add: finalizer_rest_def wp_fun wp_txn_at unregister_txn_def)

text \<open>Aborted.\<close>

lemma wp_rest_ended:
  assumes "inv v" and "w_txns v t = Some h" and "th_txn h = Some q" and "th_owner h = Some a"
    and "w_envs v a = Some k" "eh_live k = [t]" and X: "unaddressed t v"
  shows "wp (finalizer_rest L t True) (\<lambda>_. inv) E (txn_ended q (v\<lparr>w_lib := n\<rparr>))"
proof -
  have "wp (mark_finished L t st_aborted) (\<lambda>_. wp (delete_handle t) (\<lambda>_. inv) E) E (txn_ended q (v\<lparr>w_lib := n\<rparr>))"
    by (rule wp_mark_native [OF assms(1-6)]) (use X in \<open>auto simp: unaddressed_def intro!: wp_delete_handle\<close>)
  then show ?thesis using assms(2,3) by (simp add: finalizer_rest_def wp_bind wp_txn_at wp_fun whenM_def)
qed

text \<open>The first half, for any continuation.\<close>

lemma wp_finalizer_head:
  assumes "w_txns w t = Some h" and "th_txn h \<noteq> None" "th_owner h = Some a" and "w_envs w a = Some k"
    "eh_env k \<noteq> None" and "th_pid h = eh_pid k" "th_poisoned h \<longrightarrow> eh_poisoned k"
  shows "wp (bindM (txn_at t) (\<lambda>h. bindM (finalizer_may_abort h) (\<lambda>may.
         bindM (if may then bindM m (\<lambda>r. returnM (is_ok r)) else returnM False) f))) Q E w
    = (if healthy w k then wp m (\<lambda>r. wp (f (is_ok r)) Q E) E w else wp (f False) Q E w)"
  using assms by (auto simp: wp_fun wp_txn_at wp_env_at wp_current_pid finalizer_may_abort_def healthy_def)

lemma wp_finalizer_native:
  assumes V: "inv v" and A: "abort_ends L" and h: "w_txns v t = Some h" "th_txn h = Some q" "th_owner h = Some a"
    and k: "w_envs v a = Some k" "eh_live k = [t]" "eh_env k = Some e" "healthy v k" and X: "unaddressed t v"
  shows "wp (mdbx_r_run_guarded (finish_call L t False) (Some (poison_txn t)))
    (\<lambda>r. wp (finalizer_rest L t (is_ok r)) (\<lambda>_. inv) E) E v"
proof (rule wp_end_native [OF V h k(1,3,4)])
  fix z c
  assume z: "crashed e v z"
  let ?z = "put_env a (k\<lparr>eh_poisoned := True\<rparr>) (put_txn t (h\<lparr>th_poisoned := True\<rparr>) z)"
  have "inv ?z" by (rule inv_crash_txn [OF V z k(1,3) h(1,3)])
  then have "wp (finalizer_rest L t False) (\<lambda>_. inv) E ?z"
    by (rule wp_rest_broken [of _ _ "h\<lparr>th_poisoned := True\<rparr>" a "k\<lparr>eh_poisoned := True\<rparr>"])
      (use z h X in \<open>simp_all add: crashed_def same_frame_def unaddressed_def\<close>)
  then show "wp (finalizer_rest L t (is_ok (GuardPanic c))) (\<lambda>_. inv) E ?z" by (simp add: is_ok_def)
next
  fix rc n
  show "wp (finalizer_rest L t (is_ok (GuardOk rc))) (\<lambda>_. inv) E (txn_ended q (v\<lparr>w_lib := n\<rparr>))"
    using wp_rest_ended [OF V h k(1,2) X] by (simp add: is_ok_def)
qed (use A in simp)

lemma wp_finalizer_body:
  assumes V: "inv v" and A: "abort_ends L" and h: "w_txns v t = Some h" and X: "unaddressed t v"
  shows "wp (bindM (txn_at t) (\<lambda>h. bindM (finalizer_may_abort h) (\<lambda>may.
         bindM (if may
                then bindM (mdbx_r_run_guarded (finish_call L t False) (Some (poison_txn t)))
                           (\<lambda>r. returnM (is_ok r))
                else returnM False) (finalizer_rest L t)))) (\<lambda>_. inv) E v"
proof (cases "th_owner h")
  case None
  then show ?thesis
    using inv_no_owner [OF V h] h wp_rest_over [OF V h None X] by (simp add: wp_fun wp_txn_at finalizer_may_abort_def)
next
  case (Some a)
  obtain k q e where k: "w_envs v a = Some k" "eh_live k = [t]" "th_txn h = Some q" "th_pid h = eh_pid k"
      "th_poisoned h \<longrightarrow> eh_poisoned k" "eh_env k = Some e"
    using inv_owner [OF V h Some] by (metis option.exhaust)
  have nn: "th_txn h \<noteq> None" "eh_env k \<noteq> None" using k(3,6) by simp_all
  show ?thesis
    unfolding wp_finalizer_head [OF h nn(1) Some k(1) nn(2) k(4,5)]
    using wp_finalizer_native [OF V A h k(3) Some k(1,2,6) _ X] wp_rest_broken [OF V h Some k(1) _ nn(1) X] by simp
qed

lemma wp_finalize_txn:
  assumes I: "inv w" and A: "abort_ends L" and x: "w_xps w x = Some p" "xp_tag p = txn_tag"
  shows "wp (finalize_txn L x) (\<lambda>_. inv) E w"
  unfolding finalize_txn_def delete_handle_def [symmetric] finalizer_rest_def [symmetric] wp_bind
proof (rule wp_txn_addr [OF I x])
  show "wp (case None of None \<Rightarrow> returnM () | Some a \<Rightarrow> k a) (\<lambda>_. inv) E w" for k
    using I by (simp add: wp_return)
  fix t h
  assume t: "xp_addr p = ATxn t" "w_txns w t = Some h"
  let ?v = "put_xptr x (p\<lparr>xp_addr := ANull\<rparr>) w"
  have V: "inv ?v" by (rule inv_put_xptr [OF I x(1)]) simp_all
  have "xp_addr q \<noteq> ATxn t" if "w_xps ?v y = Some q" for y q
    using that ptr_invD(5) [OF inv_D(2) [OF I], of y q x p] x(1) t(1) by (auto split: if_splits)
  then have "unaddressed t ?v" unfolding unaddressed_def by blast
  from wp_finalizer_body [OF V A _ this]
  show "wp (case Some t of None \<Rightarrow> returnM ()
     | Some t \<Rightarrow>
         thenM (set_xptr x (\<lambda>p. p\<lparr>xp_addr := ANull\<rparr>))
        (bindM (txn_at t) (\<lambda>h.
         bindM (finalizer_may_abort h) (\<lambda>may.
         bindM (if may
                then bindM (mdbx_r_run_guarded (finish_call L t False) (Some (poison_txn t)))
                           (\<lambda>r. returnM (is_ok r))
                else returnM False) (finalizer_rest L t))))) (\<lambda>_. inv) E w"
    unfolding option.case wp_then [of "set_xptr x f" for f] wp_set_xptr x(1) using t(2) by simp
qed

end
