(* ===== verification/Mdbx_BirthSafe.thy ===== *)
theory Mdbx_BirthSafe
  imports Mdbx_FinalSafe
begin

text \<open>
  Safety of \<open>mdbx_txn_begin_\<close> and \<open>mdbx_env_open_\<close>, with the half-built handles of their failure
  paths.
\<close>

section \<open>Beginning a transaction\<close>

lemma created_frame [simp]:
  "w_pid (txn_created e w) = w_pid w" "w_next (txn_created e w) = w_next w"
  "w_envs (txn_created e w) = w_envs w" "w_txns (txn_created e w) = w_txns w"
  "w_xps (txn_created e w) = w_xps w" "w_open (txn_created e w) = w_open w"
  "w_guard (txn_created e w) = w_guard w" "w_last_panic (txn_created e w) = w_last_panic w"
  "w_lib (txn_created e w) = w_lib w" "w_ids (txn_created e w) = w_ids w + 1"
  "w_usable_envs (txn_created e w) = w_usable_envs w"
  "w_usable_txns (txn_created e w) = (w_ids w, e) # w_usable_txns w"
  "w_live_env_handles (txn_created e w) = w_live_env_handles w"
  "w_live_txn_handles (txn_created e w) = w_live_txn_handles w"
  by (simp_all add: txn_created_def)

lemma env_created_frame [simp]:
  "w_pid (env_created w) = w_pid w" "w_next (env_created w) = w_next w"
  "w_envs (env_created w) = w_envs w" "w_txns (env_created w) = w_txns w"
  "w_xps (env_created w) = w_xps w" "w_open (env_created w) = w_open w"
  "w_guard (env_created w) = w_guard w" "w_last_panic (env_created w) = w_last_panic w"
  "w_lib (env_created w) = w_lib w" "w_ids (env_created w) = w_ids w + 1"
  "w_usable_envs (env_created w) = w_ids w # w_usable_envs w"
  "w_usable_txns (env_created w) = w_usable_txns w"
  "w_live_env_handles (env_created w) = w_live_env_handles w"
  "w_live_txn_handles (env_created w) = w_live_txn_handles w"
  by (simp_all add: env_created_def)

text \<open>The state in which \<open>mdbx_txn_begin\<close> is called: the new handle exists, nothing knows it.\<close>

definition with_txn :: "txn_handle \<Rightarrow> 'n world \<Rightarrow> 'n world" where
  "with_txn th w = put_txn (w_next w) th (w\<lparr>w_next := w_next w + 1\<rparr>)"

lemma begin_panicked:
  assumes I: "inv w" and "\<exists>n. panicked (kill_env e ((push_frame (with_txn th w))\<lparr>w_lib := n\<rparr>)) v"
  defines "u \<equiv> set_guard [] v"
  shows "crashed e w (u\<lparr>w_txns := (w_txns u)(w_next w := None)\<rparr>)" and "w_txns u (w_next w) \<noteq> None"
proof -
  obtain n q where q: "panic_wf q" "v = (kill_env e ((push_frame (with_txn th w))\<lparr>w_lib := n\<rparr>))\<lparr>w_last_panic := q\<rparr>"
    using assms(2) by (auto simp: panicked_def)
  show "crashed e w (u\<lparr>w_txns := (w_txns u)(w_next w := None)\<rparr>)"
    unfolding crashed_def u_def
  proof (intro conjI)
    show "dead e w ((set_guard [] v)\<lparr>w_txns := (w_txns (set_guard [] v))(w_next w := None)\<rparr>)"
      by (rule dead_kill) (simp_all add: q with_txn_def)
  qed (use q inv_calm [OF I] inv_fresh [OF I] in
        \<open>auto simp: same_frame_def with_txn_def fun_upd_idem_iff\<close>)
  show "w_txns u (w_next w) \<noteq> None" using q by (simp add: u_def with_txn_def)
qed

lemma wp_begin_guard:
  assumes I: "inv w" and h: "w_envs w a = Some h" "eh_env h = Some e" "healthy w h"
    and failed: "\<And>rc n. rc \<noteq> MDBX_SUCCESS \<Longrightarrow> Q (rc, None) ((with_txn th w)\<lparr>w_lib := n\<rparr>)"
    and began: "\<And>n. Q (MDBX_SUCCESS, Some (w_ids w)) (txn_created e ((with_txn th w)\<lparr>w_lib := n\<rparr>))"
    and panic: "\<And>m f l v. crashed e w (v\<lparr>w_txns := (w_txns v)(w_next w := None)\<rparr>)
        \<Longrightarrow> w_txns v (w_next w) \<noteq> None
        \<Longrightarrow> E (AssertFailed m f l) (put_env a (h\<lparr>eh_poisoned := True\<rparr>) v)"
  shows "wp (guard (begin_call L a flags) (Some (poison_env a))) Q E (with_txn th w)"
proof -
  let ?w = "with_txn th w"
  let ?R = "\<lambda>v. \<exists>n. panicked (kill_env e ((push_frame ?w)\<lparr>w_lib := n\<rparr>)) v"
  note g = inv_calm [OF I]
  have fr: "w_envs (push_frame ?w) a = Some h" "w_ids (push_frame ?w) = w_ids w"
      "e \<in> set (w_usable_envs (push_frame ?w))" "w_guard ?w = []" "panic_wf (w_last_panic (push_frame ?w))"
    using g h inv_env_usable [OF I h] by (simp_all add: with_txn_def)
  have ret: "set_guard [] ((push_frame ?w)\<lparr>w_lib := n\<rparr>) = ?w\<lparr>w_lib := n\<rparr>"
    "set_guard [] (txn_created e ((push_frame ?w)\<lparr>w_lib := n\<rparr>)) = txn_created e (?w\<lparr>w_lib := n\<rparr>)" for n
    using g by (simp_all add: set_guard_def push_frame_def txn_created_def with_txn_def put_txn_def)
  show ?thesis
  proof (rule wp_guard_calm [where R = ?R])
    show "w_guard ?w = []" by (rule fr(4))
    show "wp (begin_call L a flags) (\<lambda>x v. Q x (set_guard [] v)) (\<lambda>x v. x = Longjmp 0 \<and> ?R v) (push_frame ?w)"
      unfolding begin_call_def txn_begin_call_def wp_bind wp_env_at wp_gets fr(1,2) option.case h(2)
      by (rule wp_env_call [where k = 0 and fs = "[]"])
        (use fr in \<open>auto simp: wp_simps ret intro: failed began\<close>)
    show "wp (run_poison (Some (poison_env a))) (\<lambda>_ u. \<forall>m f l. E (AssertFailed m f l) u) E (set_guard [] v)"
      if p: "?R v" for v
      using panic [OF begin_panicked [OF I p]] p h by (auto simp: poison_env_def wp_simps panicked_def with_txn_def)
  qed
qed

text \<open>
  The two ways a begin can end: the transaction was refused and nothing is left of it, or there is
  one more handle and one pointer to it.
\<close>

definition unborn :: "'n world \<Rightarrow> 'n world \<Rightarrow> bool" where
  "unborn w v \<longleftrightarrow> dom (w_envs v) = dom (w_envs w) \<and> w_txns v = w_txns w \<and> w_xps v = w_xps w"

definition txn_made :: "'n world \<Rightarrow> 'n world \<Rightarrow> bool" where
  "txn_made w v \<longleftrightarrow> dom (w_envs v) = dom (w_envs w) \<and> (\<exists>th. w_txns v = (w_txns w)(w_next w \<mapsto> th))
     \<and> (\<exists>p. w_xps v = (w_xps w)(w_next w + 1 \<mapsto> p) \<and> xp_addr p = ATxn (w_next w))"

lemma txn_madeI:
  "w_envs v = (w_envs w)(a \<mapsto> k) \<Longrightarrow> w_envs w a = Some h \<Longrightarrow> w_txns v = (w_txns w)(w_next w \<mapsto> th)
    \<Longrightarrow> w_xps v = (w_xps w)(Suc (w_next w) \<mapsto> p) \<Longrightarrow> xp_addr p = ATxn (w_next w) \<Longrightarrow> txn_made w v"
  unfolding txn_made_def Suc_eq_plus1 by auto

text \<open>The part of \<open>mdbx_txn_begin_\<close> that runs while the handle is owned by the C++ frame.\<close>

abbreviation begin_body :: "'n libmdbx \<Rightarrow> nat \<Rightarrow> bool \<Rightarrow> string list \<Rightarrow> ('n, nat option) mem" where
  "begin_body L a is_write extra \<equiv>
     bindM (liftM (txn_flags_from_names extra)) (\<lambda>extra.
     let flags = (if is_write then MDBX_TXN_READWRITE else MDBX_TXN_RDONLY) OR extra in
     bindM (guard (begin_call L a flags) (Some (poison_env a))) (\<lambda>outcome.
     thenM (check L (fst outcome)) (returnM (snd outcome))))"

text \<open>On the failure paths the handle is deleted: nothing is left of it.\<close>

lemma begin_undone:
  assumes I: "inv w" and v: "v = (with_txn th w)\<lparr>w_lib := n\<rparr>"
  shows "inv (v\<lparr>w_txns := (w_txns v)(w_next w := None)\<rparr>) \<and> unborn w (v\<lparr>w_txns := (w_txns v)(w_next w := None)\<rparr>)"
proof -
  have "v\<lparr>w_txns := (w_txns v)(w_next w := None)\<rparr> = w\<lparr>w_next := w_next w + 1, w_lib := n\<rparr>"
    using v inv_fresh [OF I] by (simp add: with_txn_def put_txn_def fun_upd_idem)
  moreover have "inv (w\<lparr>w_next := w_next w + 1, w_lib := n\<rparr>)" using inv_next [OF I, of "w_next w + 1"] by simp
  moreover have "unborn w (w\<lparr>w_next := w_next w + 1, w_lib := n\<rparr>)" by (simp add: unborn_def)
  ultimately show ?thesis by simp
qed

lemma begin_crashed:
  assumes I: "inv w" and h: "w_envs w a = Some h" "eh_env h = Some e"
    and c: "crashed e w (v\<lparr>w_txns := (w_txns v)(w_next w := None)\<rparr>)"
  shows "inv ((put_env a (h\<lparr>eh_poisoned := True\<rparr>) v)\<lparr>w_txns := (w_txns v)(w_next w := None)\<rparr>)
      \<and> unborn w ((put_env a (h\<lparr>eh_poisoned := True\<rparr>) v)\<lparr>w_txns := (w_txns v)(w_next w := None)\<rparr>)"
proof -
  have "(put_env a (h\<lparr>eh_poisoned := True\<rparr>) v)\<lparr>w_txns := (w_txns v)(w_next w := None)\<rparr>
      = put_env a (h\<lparr>eh_poisoned := True\<rparr>) (v\<lparr>w_txns := (w_txns v)(w_next w := None)\<rparr>)"
    by (simp add: put_env_def)
  moreover have "unborn w (put_env a (h\<lparr>eh_poisoned := True\<rparr>) (v\<lparr>w_txns := (w_txns v)(w_next w := None)\<rparr>))"
    using c h(1) by (auto simp: unborn_def crashed_def same_frame_def)
  ultimately show ?thesis using inv_crash_env [OF I c h] by (simp only: simp_thms)
qed

lemma wp_begin_body:
  assumes I: "inv w" and h: "w_envs w a = Some h" "eh_env h = Some e" "healthy w h"
    and failed: "\<And>x v. harmless x \<Longrightarrow> inv v \<Longrightarrow> unborn w v \<Longrightarrow> E x v"
    and R: "\<And>n. R (Some (w_ids w)) (txn_created e ((with_txn th w)\<lparr>w_lib := n\<rparr>))"
  shows "wp (begin_body L a is_write extra) R (\<lambda>x. wp (delete_txn (w_next w)) (\<lambda>_. E x) E) (with_txn th w)"
proof (cases "txn_flags_from_names extra")
  case (Inl x)
  then show ?thesis
    using failed [OF txn_flags_error [OF Inl]] begin_undone [OF I, where v = "with_txn th w" and th = th and n = "w_lib w"]
    by (simp add: wp_simps with_txn_def)
next
  case (Inr x)
  show ?thesis
    unfolding wp_fun wp_lift Inr sum.case Let_def
    by (rule wp_begin_guard [OF I h])
      (use begin_undone [OF I, where th = th] R begin_crashed [OF I h(1,2)] in \<open>auto simp: wp_simps with_txn_def intro!: failed\<close>)
qed

text \<open>On the way that succeeds the handle gets its native transaction, its pointer and its place in the registry.\<close>

lemma wp_begin_end:
  assumes I: "inv w" and h: "w_envs w a = Some h" "eh_env h = Some e" "healthy w h" "eh_live h = []"
    and i: "w_xps w i = Some px" and begun: "\<And>y v. inv v \<Longrightarrow> txn_made w v \<Longrightarrow> Q y v"
  shows "wp (thenM (set_txn (w_next w) (\<lambda>h. h\<lparr>th_txn := Some (w_ids w)\<rparr>)) (new_txn_sexp (w_next w) (R_ExtPtr i) is_write))
      Q E (txn_created e ((with_txn (fresh_txn_handle a is_write (w_pid w)) w)\<lparr>w_lib := n\<rparr>))"
proof -
  let ?t = "w_next w" and ?th = "fresh_txn_handle a is_write (w_pid w)"
  let ?p = "\<lambda>ats. \<lparr>xp_addr = ATxn ?t, xp_tag = txn_tag, xp_prot = R_ExtPtr i, xp_class = [''mdbx_txn''], xp_attrs = ats\<rparr>"
  have ni: "i \<noteq> w_next w + 1" using heap_invD(5) [OF inv_D(1) [OF I] i] by simp
  have fin: "inv v" if v: "w_envs v = (w_envs w)(a \<mapsto> live_add ?t h)"
      "w_txns v = (w_txns w)(?t \<mapsto> ?th\<lparr>th_txn := Some (w_ids w)\<rparr>)"
      "w_xps v = (w_xps w)(w_next w + 1 \<mapsto> ?p ats)" "w_open v = w_open w"
      "w_live_env_handles v = w_live_env_handles w" "w_live_txn_handles v = w_live_txn_handles w + 1"
      "w_pid v = w_pid w" "w_guard v = w_guard w" "w_last_panic v = w_last_panic w"
      "w_usable_envs v = w_usable_envs w" "w_usable_txns v = (w_ids w, e) # w_usable_txns w"
      "w_next v = w_next w + 2" "w_ids v = w_ids w + 1" for v ats
    by (rule inv_new_txn [OF I, where t = ?t and x = "w_next w + 1" and q = "w_ids w" and a = a and h = h
          and e = e and th = "?th\<lparr>th_txn := Some (w_ids w)\<rparr>" and p = "?p ats"])
      (use v h inv_calm [OF I] in \<open>simp_all add: fresh_txn_handle_def healthy_def\<close>)
  show ?thesis
    using h i ni
    by (auto intro!: begun txn_madeI fin simp: new_txn_sexp_def get_attrib_def wp_simps with_txn_def fresh_txn_handle_def
        split: option.splits)
qed

lemma wp_txn_begin:
  assumes I: "inv w" and s: "sexp_ok env w"
    and failed: "\<And>x v. harmless x \<Longrightarrow> inv v \<Longrightarrow> unborn w v \<Longrightarrow> E x v"
    and begun: "\<And>y v. inv v \<Longrightarrow> txn_made w v \<Longrightarrow> Q y v"
  shows "wp (mdbx_txn_begin L env is_write extra) Q E w"
  unfolding mdbx_txn_begin_def
proof (rule wp_bindI, rule wp_mono [OF env_from_sexp_wp [OF I s]])
  fix a w'
  assume o: "w' = w \<and> open_env a w \<and> (\<exists>i. env = R_ExtPtr i)"
  obtain h e where h: "w_envs w a = Some h" "eh_env h = Some e" "healthy w h"
    using o by (auto simp: open_env_def)
  obtain i px where i: "env = R_ExtPtr i" "w_xps w i = Some px"
    using o s by (auto simp: sexp_ok_def)
  show "wp (bindM (env_at a) (\<lambda>owner.
     if eh_live owner \<noteq> [] then stopM TxnAlreadyOpen else
     bindM current_pid (\<lambda>pid.
     bindM (new_txn (fresh_txn_handle a is_write pid)) (\<lambda>t.
     bindM (unwindM (begin_body L a is_write extra) (delete_txn t)) (\<lambda>native_txn.
     thenM (set_txn t (\<lambda>h. h\<lparr>th_txn := native_txn\<rparr>))
           (new_txn_sexp t env is_write))))))
     Q E w'"
  proof (cases "eh_live h = []")
    case True
    show ?thesis
      unfolding o [THEN conjunct1] wp_bind wp_env_at h option.case wp_if True simp_thms if_False
        wp_current_pid wp_new_txn wp_unwind with_txn_def [symmetric]
      by (rule wp_begin_body [OF I h failed, unfolded wp_bind], assumption+)
        (rule wp_begin_end [OF I h True i(2) begun, folded i(1)], assumption+)
  next
    case False
    then show ?thesis using failed [OF _ I] o h by (simp add: wp_simps unborn_def)
  qed
qed (auto intro!: failed I simp: unborn_def)

lemma safe_txn_begin: "safe (sexp_ok env) (mdbx_txn_begin L env is_write extra) (\<lambda>_ _. True)"
  by (rule safeI, rule wp_txn_begin) simp_all

end
