(* ===== verification/Mdbx_OpenSafe.thy ===== *)
theory Mdbx_OpenSafe
  imports Mdbx_BirthSafe
begin

text \<open>
  Safety of \<open>mdbx_env_open_\<close>: the registry is searched first, the half-built environment is
  discarded on every failure path, and a new handle never shares a key with an open one.
\<close>

section \<open>The registry search\<close>

text \<open>What a search for a key finds: the first open handle of this process with that key.\<close>

definition matches :: "string \<Rightarrow> 'n world \<Rightarrow> nat \<Rightarrow> bool" where
  "matches key w a \<longleftrightarrow> (\<exists>h. w_envs w a = Some h \<and> eh_key h = key \<and> eh_pid h = w_pid w)"

lemma find_open_loop_run:
  assumes "\<forall>a \<in> set as. w_envs w a \<noteq> None"
  shows "find_open_loop key as w = (Inr (find (matches key w) as), w)"
  using assms
proof (induction as)
  case Nil
  then show ?case by (simp add: returnM_def)
next
  case (Cons a as)
  then obtain h where h: "w_envs w a = Some h" by auto
  then show ?case
    using Cons by (auto simp: env_at_def current_pid_def run_simps matches_def)
qed

lemma find_open_run:
  assumes "inv w"
  shows "find_open_env key w = (Inr (find (matches key w) (w_open w)), w)"
proof -
  have "\<forall>a \<in> set (w_open w). w_envs w a \<noteq> None"
    using open_invD(2) [OF inv_D(4) [OF assms]] by auto
  from find_open_loop_run [OF this] show ?thesis
    by (simp add: find_open_env_def bindM_def getsM_def)
qed

lemma wp_find_open:
  assumes I: "inv w"
    and found: "\<And>a h. w_envs w a = Some h \<Longrightarrow> Q (Some a) w"
    and free: "(\<And>a h. w_envs w a = Some h \<Longrightarrow> eh_env h \<noteq> None \<Longrightarrow> eh_pid h = w_pid w \<Longrightarrow> eh_key h \<noteq> key)
        \<Longrightarrow> Q None w"
  shows "wp (find_open_env key) Q E w"
proof (cases "find (matches key w) (w_open w)")
  case None
  have "eh_key h \<noteq> key" if "w_envs w a = Some h" "eh_env h \<noteq> None" "eh_pid h = w_pid w" for a h
    using find_NoneD [OF None, of a] open_invD(2) [OF inv_D(4) [OF I], of a] that by (auto simp: matches_def)
  then show ?thesis using free find_open_run [OF I, of key] None by (simp add: wp_def)
next
  case (Some a)
  then obtain h where "w_envs w a = Some h" using find_SomeD [OF Some] by (auto simp: matches_def)
  then show ?thesis using found find_open_run [OF I, of key] Some by (simp add: wp_def)
qed

section \<open>The half-built environment\<close>

text \<open>Everything the open did is undone but for numbers, and at most a new native object is dead.\<close>

lemma inv_discard:
  assumes I: "inv w" and F: "same_frame w w'" and E: "w_envs w' = w_envs w" and T: "w_txns w' = w_txns w"
    and D: "dead e w w'" and e: "w_ids w \<le> e"
  shows "inv w'"
proof -
  obtain K where K: "w_usable_txns w' = filter K (w_usable_txns w)" "\<And>q. snd q \<noteq> e \<Longrightarrow> K q"
      "set (w_usable_envs w) - {e} \<subseteq> set (w_usable_envs w')"
    using D by (auto simp: dead_def)
  have old: "d \<noteq> e" if "w_envs w a = Some h" "eh_env h = Some d" for a h d
    using use_invD(1) [OF inv_D(5) [OF I] that] e by auto
  show ?thesis
  proof (rule inv_relabel [OF I F, where K = K])
    show "rel_option env_le (w_envs w a) (w_envs w' a)" for a unfolding E by (cases "w_envs w a") auto
    show "rel_option txn_le (w_txns w a) (w_txns w' a)" for a unfolding T by (cases "w_txns w a") auto
    show "eh_poisoned h" if "w_txns w' t = Some th" "th_owner th = Some a" "w_envs w' a = Some h" "th_poisoned th"
      for t th a h
      using own_invD(6) [OF inv_D(3) [OF I], of t th a] that unfolding E T by auto
    show "d \<in> set (w_usable_envs w')" if "w_envs w' a = Some h" "eh_env h = Some d" "d \<in> set (w_usable_envs w)"
      for a h d using old [of a h d] that K(3) unfolding E by blast
    show "K (p, d)" if "w_envs w' a = Some h" "eh_env h = Some d" for a h d p
      using old [of a h d] that K(2) unfolding E by simp
  qed (rule K(1))
qed

text \<open>The state with the new handle, and the states the guarded open may leave.\<close>

definition with_env :: "env_handle \<Rightarrow> 'n world \<Rightarrow> 'n world" where
  "with_env h w = put_env (w_next w) h (w\<lparr>w_next := w_next w + 1\<rparr>)"

definition half_built :: "'n world \<Rightarrow> 'n world \<Rightarrow> bool" where
  "half_built w v \<longleftrightarrow>
     same_frame w v \<and> w_txns v = w_txns w \<and> dead (w_ids w) w v
     \<and> (\<exists>h. w_envs v = (w_envs w)(w_next w \<mapsto> h))"

lemma inv_half_built:
  assumes "inv w" and "half_built w v"
  shows "inv (v\<lparr>w_envs := (w_envs v)(w_next w := None)\<rparr>)"
proof (rule inv_discard [OF assms(1)])
  obtain h where h: "w_envs v = (w_envs w)(w_next w \<mapsto> h)" using assms(2) by (auto simp: half_built_def)
  show "w_envs (v\<lparr>w_envs := (w_envs v)(w_next w := None)\<rparr>) = w_envs w"
    using inv_fresh [OF assms(1)] by (simp add: h fun_upd_idem)
qed (use assms(2) in \<open>auto simp: half_built_def same_frame_def dead_def\<close>)

lemma wp_delete_half:
  assumes "inv w" and "half_built w v" and "\<And>w'. inv w' \<Longrightarrow> Q () w'"
  shows "wp (delete_env (w_next w)) Q E v"
  using assms(2) inv_half_built [OF assms(1,2)] assms(3) by (auto simp: wp_simps half_built_def)

text \<open>The body of the guarded open: nothing was created, or everything happened on the new environment.\<close>

abbreviation open_steps :: "'n libmdbx \<Rightarrow> string \<Rightarrow> u32 \<Rightarrow> nat \<Rightarrow> nat \<Rightarrow> int \<Rightarrow> int \<Rightarrow> env_handle \<Rightarrow> ('n, int \<times> u32) mem" where
  "open_steps L path flags max_dbs max_readers map_size mode h \<equiv>
     bindM (if max_dbs > 0
            then env_call (eh_env h) (\<lambda>e. L_env_set_option L e MDBX_opt_max_db max_dbs)
            else returnM MDBX_SUCCESS) (\<lambda>rc.
     if rc \<noteq> MDBX_SUCCESS then returnM (rc, 0) else
     bindM (if max_readers > 0
            then env_call (eh_env h) (\<lambda>e. L_env_set_option L e MDBX_opt_max_readers max_readers)
            else returnM MDBX_SUCCESS) (\<lambda>rc.
     if rc \<noteq> MDBX_SUCCESS then returnM (rc, 0) else
     bindM (if map_size > 0
            then env_call (eh_env h) (\<lambda>e. L_env_set_geometry L e map_size)
            else returnM MDBX_SUCCESS) (\<lambda>rc.
     if rc \<noteq> MDBX_SUCCESS then returnM (rc, 0) else
     bindM (env_call (eh_env h) (\<lambda>e. L_env_open L e path flags (mode_cast L mode))) (\<lambda>rc.
     if rc \<noteq> MDBX_SUCCESS then returnM (rc, 0) else
     env_call (eh_env h) (L_env_get_flags L)))))"

lemma wp_open_steps:
  fixes w :: "'n world" and a h
  defines "z \<equiv> \<lambda>n. put_env a (h\<lparr>eh_env := Some (w_ids w)\<rparr>) (env_created (w\<lparr>w_lib := n\<rparr>))"
  assumes g: "w_guard w = k # fs" "panic_wf (w_last_panic w)"
    and made: "\<And>r n. Q r (z n)" and panic: "\<And>n v. lib_crash (w_ids w) (z n) v \<Longrightarrow> E (Longjmp k) v"
  shows "wp (bindM (env_at a) (open_steps L path flags max_dbs max_readers map_size mode)) Q E (z n)"
proof -
  let ?e = "w_ids w" and ?rest = "open_steps L path flags max_dbs max_readers map_size mode"
  have "quiet (env_ready a ?e) ?e (bindM (env_at a) ?rest)"
    apply (rule quiet_at_env)
    subgoal premises p for h unfolding p by (intro quiet_rules)
    done
  then show ?thesis
    unfolding quiet_def
  proof (elim allE impE)
    show "env_ready a ?e (z n)" by (simp add: z_def env_ready_def env_usable_def)
    show "panic_wf (w_last_panic (z n))" "w_guard (z n) = k # fs" using g by (simp_all add: z_def)
    assume "wp (bindM (env_at a) ?rest) (\<lambda>_. lib_only (z n)) (\<lambda>x w'. x = Longjmp k \<and> lib_crash ?e (z n) w') (z n)"
    then show ?thesis
    proof (rule wp_mono)
      fix r v assume "lib_only (z n) v"
      then obtain m where "v = (z n)\<lparr>w_lib := m\<rparr>" by (auto simp: lib_only_def)
      moreover have "(z n)\<lparr>w_lib := m\<rparr> = z m" by (simp add: z_def put_env_def env_created_def)
      ultimately show "Q r v" using made by simp
    qed (auto intro: panic)
  qed
qed

lemma wp_open_call:
  assumes g: "w_guard w = k # fs" "panic_wf (w_last_panic w)" and h: "w_envs w a = Some h" "eh_env h = None"
    and failed: "\<And>rc n. rc \<noteq> MDBX_SUCCESS \<Longrightarrow> Q (rc, 0) (w\<lparr>w_lib := n\<rparr>)"
    and made: "\<And>r n. Q r (put_env a (h\<lparr>eh_env := Some (w_ids w)\<rparr>) (env_created (w\<lparr>w_lib := n\<rparr>)))"
    and panic0: "\<And>n v. panicked (w\<lparr>w_lib := n\<rparr>) v \<Longrightarrow> E (Longjmp k) v"
    and panic1: "\<And>n v. lib_crash (w_ids w) (put_env a (h\<lparr>eh_env := Some (w_ids w)\<rparr>) (env_created (w\<lparr>w_lib := n\<rparr>))) v
        \<Longrightarrow> E (Longjmp k) v"
  shows "wp (open_call L a path flags max_dbs max_readers map_size mode) Q E w"
proof -
  let ?e = "w_ids w" and ?rest = "open_steps L path flags max_dbs max_readers map_size mode"
  let ?z = "\<lambda>n. put_env a (h\<lparr>eh_env := Some ?e\<rparr>) (env_created (w\<lparr>w_lib := n\<rparr>))"
  have same: "put_env a (h\<lparr>eh_env := None\<rparr>) w = w" using h by simp
  have rest: "wp (bindM (env_at a) ?rest) Q E (?z n)" for n
    by (rule wp_open_steps [OF g]) (fact made panic1)+
  show ?thesis
    unfolding open_call_def
  proof (rule wp_bindI)
    let ?Q = "\<lambda>rc. wp (if rc \<noteq> MDBX_SUCCESS then returnM (rc, 0) else bindM (env_at a) ?rest) Q E"
    have "wp (native (\<lambda>w. w) (L_env_create L ?e))
        (\<lambda>rc. wp (thenM (whenM (rc = MDBX_SUCCESS)
              (thenM (modifyM env_created) (set_env a (\<lambda>h. h\<lparr>eh_env := Some ?e\<rparr>)))) (returnM rc)) ?Q E) E w"
    proof (rule wp_native [OF g(2,1)])
      show "wp (thenM (whenM (rc = MDBX_SUCCESS)
              (thenM (modifyM env_created) (set_env a (\<lambda>h. h\<lparr>eh_env := Some ?e\<rparr>)))) (returnM rc)) ?Q E (w\<lparr>w_lib := n\<rparr>)"
        for rc n
        using h rest [of n] failed [of rc n] by (cases "rc = MDBX_SUCCESS") (simp_all add: wp_then wp_when wp_modify wp_set_env wp_return)
    qed (auto intro: panic0)
    then show "wp (env_create_call L a) ?Q E w"
      using h same by (simp add: env_create_call_def wp_then wp_set_env wp_bind wp_gets)
  qed
qed

section \<open>open_guarded\<close>

lemma with_env_frame [simp]:
  "w_pid (with_env h w) = w_pid w" "w_next (with_env h w) = w_next w + 1"
  "w_envs (with_env h w) = (w_envs w)(w_next w \<mapsto> h)" "w_txns (with_env h w) = w_txns w"
  "w_xps (with_env h w) = w_xps w" "w_open (with_env h w) = w_open w"
  "w_guard (with_env h w) = w_guard w" "w_last_panic (with_env h w) = w_last_panic w"
  "w_ids (with_env h w) = w_ids w" "w_live_env_handles (with_env h w) = w_live_env_handles w"
  "w_live_txn_handles (with_env h w) = w_live_txn_handles w"
  "w_usable_envs (with_env h w) = w_usable_envs w" "w_usable_txns (with_env h w) = w_usable_txns w"
  by (simp_all add: with_env_def)

text \<open>The state once the native environment exists.\<close>

definition env_made :: "'n world \<Rightarrow> 'n \<Rightarrow> 'n world" where
  "env_made w n =
     put_env (w_next w) ((fresh_env_handle (w_pid w))\<lparr>eh_env := Some (w_ids w)\<rparr>)
       (env_created ((with_env (fresh_env_handle (w_pid w)) w)\<lparr>w_lib := n\<rparr>))"

lemma env_made_frame [simp]:
  "w_pid (env_made w n) = w_pid w" "w_next (env_made w n) = w_next w + 1"
  "w_envs (env_made w n) = (w_envs w)(w_next w \<mapsto> (fresh_env_handle (w_pid w))\<lparr>eh_env := Some (w_ids w)\<rparr>)"
  "w_txns (env_made w n) = w_txns w" "w_xps (env_made w n) = w_xps w" "w_open (env_made w n) = w_open w"
  "w_guard (env_made w n) = w_guard w" "w_last_panic (env_made w n) = w_last_panic w"
  "w_ids (env_made w n) = w_ids w + 1" "w_live_env_handles (env_made w n) = w_live_env_handles w"
  "w_live_txn_handles (env_made w n) = w_live_txn_handles w"
  "w_usable_envs (env_made w n) = w_ids w # w_usable_envs w" "w_usable_txns (env_made w n) = w_usable_txns w"
  by (simp_all add: env_made_def)

text \<open>\<open>half_built\<close> is closed under everything a failure path does to the new handle.\<close>

lemma half_builtI:
  "same_frame w v \<Longrightarrow> w_txns v = w_txns w \<Longrightarrow> w_envs v = (w_envs w)(w_next w \<mapsto> h) \<Longrightarrow> dead (w_ids w) w v
    \<Longrightarrow> half_built w v"
  unfolding half_built_def by blast

lemma half_built_poison:
  assumes I: "inv w" and v: "w_envs v = (w_envs w)(w_next w \<mapsto> h)" "w_txns v = w_txns w" "w_xps v = w_xps w"
    "w_pid v = w_pid w" "w_next w \<le> w_next v" "w_open v = w_open w" "w_guard v = []" "panic_wf (w_last_panic v)"
    "w_ids w \<le> w_ids v" "w_live_env_handles v = w_live_env_handles w"
    "w_live_txn_handles v = w_live_txn_handles w" "dead (w_ids w) w v"
  shows "half_built w (put_env (w_next w) k v)"
  by (rule half_builtI [where h = k]) (use v inv_calm [OF I] in \<open>simp_all add: same_frame_def dead_def\<close>)

lemma half_built_abandoned:
  assumes "half_built w v" and "abandoned_more v v'"
  shows "half_built w v'"
  using assms(1) abandoned_more_frame [OF assms(2)]
  by (auto simp: half_built_def same_frame_def dead_def)

lemma half_built_closed:
  assumes I: "inv w" and c: "env_closed (w_next w) (env_made w n) v"
  shows "half_built w v"
proof -
  have "w_next w \<notin> set (w_open w)"
    using open_invD(2) [OF inv_D(4) [OF I], of "w_next w"] inv_fresh [OF I] by simp
  then have o: "removeAll (w_next w) (w_open w) = w_open w" by simp
  obtain h' e where h: "w_envs v = (w_envs (env_made w n))(w_next w \<mapsto> h')" "dead e (env_made w n) v"
      "e = w_ids w"
    using c by (auto simp: env_closed_def)
  show ?thesis
  proof (rule half_builtI [where h = h'])
    show "same_frame w v" using c o by (simp add: env_closed_def same_frame_def open_remove_def)
    show "dead (w_ids w) w v" using h(2,3) unfolding dead_def by auto
  qed (use c h in \<open>simp_all add: env_closed_def\<close>)
qed

text \<open>What the open does with the outcome of the guarded call.\<close>

abbreviation open_outcome :: "'n libmdbx \<Rightarrow> nat \<Rightarrow> (int \<times> u32) guard_result \<Rightarrow> ('n, u32) mem" where
  "open_outcome L a result \<equiv>
     (case result of
       GuardPanic panic \<Rightarrow> thenM (abandon_env a) (stop_after_panic panic)
     | GuardOk outcome \<Rightarrow>
         if fst outcome \<noteq> MDBX_SUCCESS then
           bindM (env_at a) (\<lambda>h.
           thenM (whenM (eh_env h \<noteq> None) (close_handle L a False))
          (thenM (check L (fst outcome)) (returnM (snd outcome))))
         else returnM (snd outcome))"

lemma wp_outcome_panic:
  assumes failed: "\<And>x v. harmless x \<Longrightarrow> half_built w v \<Longrightarrow> E x v" and v: "half_built w v"
  shows "wp (open_outcome L (w_next w) (GuardPanic p)) Q E v"
proof -
  obtain h where h: "w_envs v (w_next w) = Some h" using v by (auto simp: half_built_def)
  show ?thesis
    unfolding guard_result.case wp_then
    by (rule wp_abandon_env [OF h])
      (auto simp: stop_after_panic_def wp_simps intro!: failed half_built_abandoned [OF v])
qed

lemma wp_outcome_made:
  assumes I: "inv w" and opened: "\<And>fl. Q fl (env_made w n)" and failed: "\<And>x v. harmless x \<Longrightarrow> half_built w v \<Longrightarrow> E x v"
  shows "wp (open_outcome L (w_next w) (GuardOk r)) Q E (env_made w n)"
proof (cases "fst r = MDBX_SUCCESS")
  case True
  then show ?thesis using opened by (simp add: wp_simps)
next
  case False
  have "w_ids w \<notin> snd ` set (w_usable_txns w)"
    using use_invD(8) [OF inv_D(5) [OF I]] by fastforce
  then have "wp (close_handle L (w_next w) False)
      (\<lambda>_. wp (thenM (check L (fst r)) (returnM (snd r))) Q E) E (env_made w n)"
    by (intro wp_close_handle)
      (use inv_calm [OF I] False in \<open>auto simp: wp_simps intro!: failed half_built_closed [OF I, of n]\<close>)
  then show ?thesis using False by (simp add: wp_bind wp_env_at wp_then whenM_def)
qed

lemma opened_panicked:
  fixes w
  defines "u n \<equiv> (push_frame (with_env (fresh_env_handle (w_pid w)) w))\<lparr>w_lib := n\<rparr>"
  assumes I: "inv w"
    and v: "panicked (u n) v \<or> lib_crash (w_ids w) (put_env (w_next w) h (env_created (u n))) v"
  shows "w_envs v (w_next w) \<noteq> None" and "half_built w (put_env (w_next w) k (set_guard [] v))"
proof -
  show "w_envs v (w_next w) \<noteq> None"
    using v by (auto simp: u_def panicked_def lib_crash_def)
  obtain g where "w_envs v = (w_envs w)(w_next w \<mapsto> g)"
    using v by (auto simp: u_def panicked_def lib_crash_def)
  moreover have "dead (w_ids w) w (set_guard [] v)"
    using v
  proof
    assume "panicked (u n) v"
    then show ?thesis by (intro dead_same) (auto simp: u_def panicked_def)
  qed (auto simp: u_def lib_crash_def dead_def)
  ultimately show "half_built w (put_env (w_next w) k (set_guard [] v))"
    by (intro half_built_poison [OF I, where h = g])
      (use v in \<open>auto simp: u_def panicked_def lib_crash_def\<close>)
qed

lemma wp_open_guarded:
  assumes I: "inv w"
    and opened: "\<And>fl n. Q fl (env_made w n)"
    and failed: "\<And>x v. harmless x \<Longrightarrow> half_built w v \<Longrightarrow> E x v"
  shows "wp (open_guarded L (w_next w) path flags max_dbs max_readers map_size mode) Q E
    (with_env (fresh_env_handle (w_pid w)) w)"
proof -
  let ?a = "w_next w" and ?h = "fresh_env_handle (w_pid w)"
  let ?w = "with_env ?h w"
  let ?R = "\<lambda>v. w_envs v ?a \<noteq> None \<and> (\<forall>k. half_built w (put_env ?a k (set_guard [] v)))"
  note g = inv_calm [OF I]
  have half0: "half_built w (?w\<lparr>w_lib := n\<rparr>)" for n
    by (rule half_builtI [where h = ?h]) (use g in \<open>auto simp: same_frame_def intro!: dead_same\<close>)
  have ret: "set_guard [] ((push_frame ?w)\<lparr>w_lib := n\<rparr>) = ?w\<lparr>w_lib := n\<rparr>"
    "set_guard [] (put_env ?a (?h\<lparr>eh_env := Some (w_ids w)\<rparr>) (env_created ((push_frame ?w)\<lparr>w_lib := n\<rparr>)))
      = env_made w n" for n
    using g by (simp_all add: set_guard_def push_frame_def with_env_def put_env_def env_created_def env_made_def)
  have made: "wp (open_outcome L ?a (GuardOk r)) Q E (env_made w n)" for r n
    by (rule wp_outcome_made [OF I]) (fact opened failed)+
  have "wp (mdbx_r_run_guarded (open_call L ?a path flags max_dbs max_readers map_size mode) (Some (poison_env ?a)))
      (\<lambda>r. wp (open_outcome L ?a r) Q E) E ?w"
  proof (rule wp_run_guarded_calm [where R = ?R], goal_cases)
    case 1
    show ?case using g by simp
  next
    case 2
    show ?case
    proof (rule wp_open_call [where k = 0 and fs = "[]" and h = ?h])
      show "wp (open_outcome L ?a (GuardOk (rc, 0))) Q E (set_guard [] ((push_frame ?w)\<lparr>w_lib := n\<rparr>))"
        if "rc \<noteq> MDBX_SUCCESS" for rc n
        using that failed [OF _ half0 [of n]] unfolding ret(1) by (simp add: wp_simps fresh_env_handle_def)
      show "wp (open_outcome L ?a (GuardOk r)) Q E (set_guard []
          (put_env ?a (?h\<lparr>eh_env := Some (w_ids (push_frame ?w))\<rparr>) (env_created ((push_frame ?w)\<lparr>w_lib := n\<rparr>))))" for r n
        unfolding with_env_frame push_frame_frame ret(2) by (rule made)
      show "Longjmp 0 = Longjmp 0 \<and> ?R v" if "panicked ((push_frame ?w)\<lparr>w_lib := n\<rparr>) v" for n v
        using opened_panicked [OF I disjI1, OF that] by simp
      show "Longjmp 0 = Longjmp 0 \<and> ?R v" if "lib_crash (w_ids (push_frame ?w))
          (put_env ?a (?h\<lparr>eh_env := Some (w_ids (push_frame ?w))\<rparr>) (env_created ((push_frame ?w)\<lparr>w_lib := n\<rparr>))) v" for n v
        using opened_panicked [OF I disjI2, OF that [unfolded with_env_frame push_frame_frame]] by simp
    qed (use g in \<open>simp_all add: fresh_env_handle_def\<close>)
  next
    case (3 v)
    then obtain h where h: "w_envs v ?a = Some h" "half_built w (put_env ?a (h\<lparr>eh_poisoned := True\<rparr>) (set_guard [] v))"
      by auto
    have "wp (open_outcome L ?a (GuardPanic p)) Q E (put_env ?a (h\<lparr>eh_poisoned := True\<rparr>) (set_guard [] v))" for p
      by (rule wp_outcome_panic) (fact failed h(2))+
    then show ?case using h(1) by (simp add: poison_env_def wp_simps)
  qed
  then show ?thesis by (simp add: open_guarded_def wp_bind)
qed

section \<open>mdbx_env_open_\<close>

text \<open>
  The two ways an open can end: everything it made is gone again, or there is one more open
  handle, registered under its key, and one pointer to it.
\<close>

definition undone :: "'n world \<Rightarrow> 'n world \<Rightarrow> bool" where
  "undone w v \<longleftrightarrow> w_envs v = w_envs w \<and> w_txns v = w_txns w \<and> w_xps v = w_xps w \<and> w_open v = w_open w
     \<and> w_live_env_handles v = w_live_env_handles w \<and> w_live_txn_handles v = w_live_txn_handles w"

definition env_opened :: "string \<Rightarrow> string \<Rightarrow> bool \<Rightarrow> 'n world \<Rightarrow> 'n world \<Rightarrow> bool" where
  "env_opened path key readonly w v \<longleftrightarrow>
     (\<exists>r subdir. w_envs v = (w_envs w)(w_next w \<mapsto>
          (fresh_env_handle (w_pid w))\<lparr>eh_env := Some (w_ids w), eh_key := key, eh_path := path, eh_roots := r\<rparr>)
      \<and> w_xps v = (w_xps w)(w_next w + 1 \<mapsto>
          \<lparr>xp_addr = AEnv (w_next w), xp_tag = env_tag, xp_prot = R_NilValue, xp_class = [''mdbx_env''],
           xp_attrs = [(''path'', AString path), (''readonly'', ALogical readonly), (''subdir'', ALogical subdir)]\<rparr>)
      \<and> w_txns v = w_txns w \<and> w_open v = w_open w @ [w_next w] \<and> w_pid v = w_pid w
      \<and> w_live_env_handles v = w_live_env_handles w + 1 \<and> w_live_txn_handles v = w_live_txn_handles w)"

lemma env_openedI:
  "w_envs v = (w_envs w)(w_next w \<mapsto>
      (fresh_env_handle (w_pid w))\<lparr>eh_env := Some (w_ids w), eh_key := key, eh_path := path, eh_roots := r\<rparr>)
    \<Longrightarrow> w_xps v = (w_xps w)(Suc (w_next w) \<mapsto>
      \<lparr>xp_addr = AEnv (w_next w), xp_tag = env_tag, xp_prot = R_NilValue, xp_class = [''mdbx_env''],
       xp_attrs = [(''path'', AString path), (''readonly'', ALogical readonly), (''subdir'', ALogical subdir)]\<rparr>)
    \<Longrightarrow> w_txns v = w_txns w \<Longrightarrow> w_open v = w_open w @ [w_next w] \<Longrightarrow> w_pid v = w_pid w
    \<Longrightarrow> w_live_env_handles v = w_live_env_handles w + 1 \<Longrightarrow> w_live_txn_handles v = w_live_txn_handles w
    \<Longrightarrow> env_opened path key readonly w v"
  unfolding env_opened_def Suc_eq_plus1 by blast

lemma undone_refl [simp]: "undone w w"
  by (simp add: undone_def)

lemma undone_half_built:
  assumes "inv w" and "half_built w v"
  shows "undone w (v\<lparr>w_envs := (w_envs v)(w_next w := None)\<rparr>)"
  using assms(2) inv_fresh [OF assms(1)] by (auto simp: half_built_def same_frame_def undone_def fun_upd_idem)

text \<open>What follows the guarded open: the handle gets its names, its pointer and its place in the registry.\<close>

abbreviation open_end :: "'n libmdbx \<Rightarrow> nat \<Rightarrow> string \<Rightarrow> string \<Rightarrow> bool \<Rightarrow> u32 \<Rightarrow> ('n, rsexp) mem" where
  "open_end L a path key readonly actual_flags \<equiv>
     let actual_subdir = (actual_flags AND MDBX_NOSUBDIR = 0) in
     thenM (set_env a (\<lambda>h. h\<lparr>eh_key := key, eh_path := path\<rparr>))
    (thenM (record_heap_roots L a)
    (bindM (new_env_sexp a path readonly actual_subdir) (\<lambda>env.
     thenM (register_env a) (returnM env))))"

lemma wp_open_end:
  assumes I: "inv w" and opened: "\<And>v. inv v \<Longrightarrow> env_opened path key readonly w v \<Longrightarrow> Q (R_ExtPtr (w_next w + 1)) v"
    and key: "\<And>b k. w_envs w b = Some k \<Longrightarrow> eh_env k \<noteq> None \<Longrightarrow> eh_pid k = w_pid w \<Longrightarrow> eh_key k \<noteq> key"
  shows "wp (open_end L (w_next w) path key readonly fl) Q E (env_made w n)"
proof -
  let ?a = "w_next w"
  let ?h = "\<lambda>r. (fresh_env_handle (w_pid w))\<lparr>eh_env := Some (w_ids w), eh_key := key, eh_path := path, eh_roots := r\<rparr>"
  let ?p = "\<lambda>ats. \<lparr>xp_addr = AEnv ?a, xp_tag = env_tag, xp_prot = R_NilValue, xp_class = [''mdbx_env''], xp_attrs = ats\<rparr>"
  have fin: "inv v" if v: "w_envs v = (w_envs w)(?a \<mapsto> ?h r)" "w_txns v = w_txns w"
      "w_xps v = (w_xps w)(?a + 1 \<mapsto> ?p ats)" "w_open v = w_open w @ [?a]"
      "w_live_env_handles v = w_live_env_handles w + 1" "w_live_txn_handles v = w_live_txn_handles w"
      "w_pid v = w_pid w" "w_guard v = w_guard w" "w_last_panic v = w_last_panic w"
      "w_usable_envs v = w_ids w # w_usable_envs w" "w_usable_txns v = w_usable_txns w"
      "w_next v = ?a + 2" "w_ids v = w_ids w + 1" for v ats r
    by (rule inv_new_env [OF I, where a = ?a and x = "?a + 1" and e = "w_ids w" and h = "?h r" and p = "?p ats"])
      (use v key inv_calm [OF I] in \<open>auto simp: fresh_env_handle_def\<close>)
  show ?thesis
    by (auto intro!: opened [unfolded Suc_eq_plus1 [symmetric]] env_openedI fin
        simp: Let_def record_heap_roots_def heap_roots_call_def new_env_sexp_def wp_simps fresh_env_handle_def open_add_def)
qed

text \<open>The guarded open and what follows, on the new handle.\<close>

lemma wp_open_built:
  assumes I: "inv w" and failed: "\<And>x v. harmless x \<Longrightarrow> inv v \<Longrightarrow> undone w v \<Longrightarrow> E x v"
    and opened: "\<And>v. inv v \<Longrightarrow> env_opened path key readonly w v \<Longrightarrow> Q (R_ExtPtr (w_next w + 1)) v"
    and key: "\<And>b k. w_envs w b = Some k \<Longrightarrow> eh_env k \<noteq> None \<Longrightarrow> eh_pid k = w_pid w \<Longrightarrow> eh_key k \<noteq> key"
  shows "wp (bindM (unwindM (open_guarded L (w_next w) path flags dbs readers sz mode) (delete_env (w_next w)))
      (open_end L (w_next w) path key readonly)) Q E (with_env (fresh_env_handle (w_pid w)) w)"
proof (rule wp_bindI, unfold wp_unwind, rule wp_open_guarded [OF I])
  fix x and v :: "'a world" assume "harmless x" "half_built w v"
  then show "wp (delete_env (w_next w)) (\<lambda>_. E x) E v"
    using failed [OF _ inv_half_built [OF I] undone_half_built [OF I], of x v] by (auto simp: wp_simps half_built_def)
next
  show "wp (open_end L (w_next w) path key readonly fl) Q E (env_made w n)" for fl n
    by (rule wp_open_end [OF I]) (fact opened key)+
qed

text \<open>The numbers are in range, so no conversion is undefined.\<close>

lemma wp_open_new:
  assumes sz: "4 \<le> L_sizeof_voidp L" and I: "inv w" and failed: "\<And>x v. harmless x \<Longrightarrow> inv v \<Longrightarrow> undone w v \<Longrightarrow> E x v"
    and opened: "\<And>v. inv v \<Longrightarrow> env_opened path key readonly w v \<Longrightarrow> Q (R_ExtPtr (w_next w + 1)) v"
    and key: "\<And>b k. w_envs w b = Some k \<Longrightarrow> eh_env k \<noteq> None \<Longrightarrow> eh_pid k = w_pid w \<Longrightarrow> eh_key k \<noteq> key"
    and r: "dle max_dbs max_exact_integer" "dle map_size (max_native_integer (L_sizeof_voidp L))"
      "dle max_readers max_exact_integer"
  shows "wp (bindM current_pid (\<lambda>pid.
         bindM (castM (cast_unsigned 64 (positive_or_zero max_dbs))) (\<lambda>dbs.
         bindM (castM (cast_unsigned 64 (positive_or_zero max_readers))) (\<lambda>readers.
         bindM (castM (cast_signed (8 * L_sizeof_voidp L) (positive_or_zero map_size))) (\<lambda>map_sz.
         bindM (new_env (fresh_env_handle pid)) (\<lambda>a.
         bindM (unwindM (open_guarded L a path flags dbs readers map_sz mode) (delete_env a)) (open_end L a path key readonly)))))))
      Q E w"
proof -
  obtain dbs rds msz where c: "cast_unsigned 64 (positive_or_zero max_dbs) = Some dbs"
      "cast_unsigned 64 (positive_or_zero max_readers) = Some rds"
      "cast_signed (8 * L_sizeof_voidp L) (positive_or_zero map_size) = Some msz"
    using exact_cast_defined [OF r(1)] exact_cast_defined [OF r(3)] native_cast_defined [OF r(2) sz] by auto
  show ?thesis
    unfolding c castM_def option.case
    apply (rule wp_bindI, unfold wp_current_pid)
    apply (rule wp_bindI, unfold wp_return)
    apply (rule wp_bindI, unfold wp_return)
    apply (rule wp_bindI, unfold wp_return)
    apply (rule wp_bindI, unfold wp_new_env with_env_def [symmetric])
    apply (rule wp_open_built [OF I])
    apply (fact failed opened key)+
    done
qed

lemma wp_env_open:
  assumes sz: "4 \<le> L_sizeof_voidp L" and I: "inv w"
    and failed: "\<And>x v. harmless x \<Longrightarrow> inv v \<Longrightarrow> undone w v \<Longrightarrow> E x v"
    and opened: "\<And>v. inv v \<Longrightarrow> env_opened path key readonly w v \<Longrightarrow> Q (R_ExtPtr (w_next w + 1)) v"
  shows "wp (mdbx_env_open L path key readonly subdir max_dbs map_size max_readers mode extra) Q E w"
proof (cases "env_flags_from_names extra")
  case (Inl e)
  then show ?thesis using failed [OF env_flags_error [OF Inl] I] by (simp add: mdbx_env_open_def wp_simps)
next
  case (Inr bits)
  show ?thesis
  proof (cases "dle max_dbs max_exact_integer \<and> dle map_size (max_native_integer (L_sizeof_voidp L))
      \<and> dle max_readers max_exact_integer")
    case True
    then have r: "dle max_dbs max_exact_integer" "dle map_size (max_native_integer (L_sizeof_voidp L))"
      "dle max_readers max_exact_integer" by simp_all
    show ?thesis
      unfolding mdbx_env_open_def
      apply (rule wp_bindI)
      apply (unfold Inr wp_lift sum.case Let_def [of "open_flags _ _ _"])
      apply (simp only: r simp_thms if_False)
      apply (rule wp_bindI)
      apply (rule wp_find_open [OF I])
      subgoal using failed [OF _ I] by (simp add: wp_simps)
      subgoal premises k unfolding option.case by (rule wp_open_new [OF sz I _ _ k r, unfolded simp_thms]) (fact failed opened)+
      done
  next
    case False
    then show ?thesis using Inr failed [OF _ I] by (auto simp: mdbx_env_open_def wp_simps Let_def)
  qed
qed

lemma safe_env_open:
  assumes "4 \<le> L_sizeof_voidp L"
  shows "safe P (mdbx_env_open L path key readonly subdir max_dbs map_size max_readers mode extra) (\<lambda>_ _. True)"
  by (rule safeI, rule wp_env_open [OF assms]) simp_all

end
