(* ===== verification/Mdbx_System.thy ===== *)
theory Mdbx_System
  imports Mdbx_OpenSafe
begin

text \<open>
  The whole package as one transition system: R calls an entry point with any arguments, runs a
  finalizer whenever and in whatever order it likes, rewrites classes and attributes, makes other
  external pointers; another process changes the database; the process forks. \<open>reachable\<close> is
  what can happen from package load on, and the invariant of \<open>Mdbx_Inv\<close> holds throughout.
\<close>

section \<open>Entry points\<close>

datatype call =
    Do_initialize
  | Do_env_open string string bool bool dbl dbl dbl int "string list"
  | Do_env_close rsexp
  | Do_env_is_open rsexp
  | Do_env_reader_check rsexp
  | Do_env_path rsexp
  | Do_env_get_flags rsexp
  | Do_env_set_flags rsexp "string list" bool
  | Do_env_sync rsexp bool bool
  | Do_env_stat rsexp
  | Do_env_info rsexp
  | Do_env_txn_count rsexp
  | Do_txn_begin rsexp bool "string list"
  | Do_txn_commit rsexp
  | Do_txn_abort rsexp
  | Do_txn_state rsexp
  | Do_txn_id rsexp
  | Do_txn_stat rsexp "string list"
  | Do_txn_info rsexp
  | Do_get rsexp rsexp "string list"
  | Do_put rsexp rsexp rsexp bool "string list"
  | Do_del rsexp rsexp "string list"
  | Do_scan rsexp dbl bool "string list" rsexp bool
  | Do_dbi_open rsexp string bool
  | Do_dbi_sequence rsexp "string list" dbl
  | Do_dbi_drop rsexp "string list" bool
  | Do_dbi_list rsexp
  | Do_limits dbl
  | Do_test_check int
  | Do_test_panic_stat rsexp bool
  | Do_test_panic_get rsexp
  | Do_test_thread_mismatch rsexp

text \<open>The value an entry point returns is dropped here; only what it does matters.\<close>

definition ignoreM :: "('n, 'a) mem \<Rightarrow> ('n, unit) mem" where
  "ignoreM m = bindM m (\<lambda>_. returnM ())"

fun perform :: "'n libmdbx \<Rightarrow> call \<Rightarrow> ('n, unit) mem" where
  "perform L Do_initialize = mdbx_initialize L"
| "perform L (Do_env_open path key readonly subdir max_dbs map_size max_readers mode extra) =
     ignoreM (mdbx_env_open L path key readonly subdir max_dbs map_size max_readers mode extra)"
| "perform L (Do_env_close env) = mdbx_env_close L env"
| "perform L (Do_env_is_open env) = ignoreM (mdbx_env_is_open env)"
| "perform L (Do_env_reader_check env) = ignoreM (mdbx_env_reader_check L env)"
| "perform L (Do_env_path env) = ignoreM (mdbx_env_path L env)"
| "perform L (Do_env_get_flags env) = ignoreM (mdbx_env_get_flags L env)"
| "perform L (Do_env_set_flags env flags on) = mdbx_env_set_flags L env flags on"
| "perform L (Do_env_sync env force nonblock) = ignoreM (mdbx_env_sync L env force nonblock)"
| "perform L (Do_env_stat env) = ignoreM (mdbx_env_stat L env)"
| "perform L (Do_env_info env) = ignoreM (mdbx_env_info L env)"
| "perform L (Do_env_txn_count env) = ignoreM (mdbx_env_txn_count env)"
| "perform L (Do_txn_begin env is_write extra) = ignoreM (mdbx_txn_begin L env is_write extra)"
| "perform L (Do_txn_commit txn) = mdbx_txn_commit L txn"
| "perform L (Do_txn_abort txn) = mdbx_txn_abort L txn"
| "perform L (Do_txn_state txn) = ignoreM (mdbx_txn_state L txn)"
| "perform L (Do_txn_id txn) = ignoreM (mdbx_txn_id L txn)"
| "perform L (Do_txn_stat txn db) = ignoreM (mdbx_txn_stat L txn db)"
| "perform L (Do_txn_info txn) = ignoreM (mdbx_txn_info L txn)"
| "perform L (Do_get txn key db) = ignoreM (mdbx_get L txn key db)"
| "perform L (Do_put txn key val overwrite db) = ignoreM (mdbx_put L txn key val overwrite db)"
| "perform L (Do_del txn key db) = ignoreM (mdbx_del L txn key db)"
| "perform L (Do_scan txn limit vals db start reverse) = ignoreM (mdbx_scan L txn limit vals db start reverse)"
| "perform L (Do_dbi_open txn name create) = mdbx_dbi_open L txn name create"
| "perform L (Do_dbi_sequence txn db increment) = ignoreM (mdbx_dbi_sequence L txn db increment)"
| "perform L (Do_dbi_drop txn db del) = mdbx_dbi_drop L txn db del"
| "perform L (Do_dbi_list txn) = ignoreM (mdbx_dbi_list L txn)"
| "perform L (Do_limits pagesize) = ignoreM (mdbx_limits L pagesize)"
| "perform L (Do_test_check rc) = mdbx_test_check L rc"
| "perform L (Do_test_panic_stat env info) = mdbx_test_panic_stat env info"
| "perform L (Do_test_panic_get txn) = mdbx_test_panic_get txn"
| "perform L (Do_test_thread_mismatch txn) = ignoreM (mdbx_test_thread_mismatch L txn)"

text \<open>The handle argument of a call.\<close>

fun handle_arg :: "call \<Rightarrow> rsexp" where
  "handle_arg (Do_env_close s) = s"
| "handle_arg (Do_env_is_open s) = s"
| "handle_arg (Do_env_reader_check s) = s"
| "handle_arg (Do_env_path s) = s"
| "handle_arg (Do_env_get_flags s) = s"
| "handle_arg (Do_env_set_flags s f b) = s"
| "handle_arg (Do_env_sync s f n) = s"
| "handle_arg (Do_env_stat s) = s"
| "handle_arg (Do_env_info s) = s"
| "handle_arg (Do_env_txn_count s) = s"
| "handle_arg (Do_txn_begin s b x) = s"
| "handle_arg (Do_txn_commit s) = s"
| "handle_arg (Do_txn_abort s) = s"
| "handle_arg (Do_txn_state s) = s"
| "handle_arg (Do_txn_id s) = s"
| "handle_arg (Do_txn_stat s d) = s"
| "handle_arg (Do_txn_info s) = s"
| "handle_arg (Do_get s k d) = s"
| "handle_arg (Do_put s k v b d) = s"
| "handle_arg (Do_del s k d) = s"
| "handle_arg (Do_scan s l v d f r) = s"
| "handle_arg (Do_dbi_open s n c) = s"
| "handle_arg (Do_dbi_sequence s d i) = s"
| "handle_arg (Do_dbi_drop s d b) = s"
| "handle_arg (Do_dbi_list s) = s"
| "handle_arg (Do_test_panic_stat s b) = s"
| "handle_arg (Do_test_panic_get s) = s"
| "handle_arg (Do_test_thread_mismatch s) = s"
| "handle_arg _ = R_NilValue"

section \<open>What libmdbx promises\<close>

text \<open>
  The hypotheses on the vendored library: pointers are at least four bytes, the two calls made
  outside the guard (\<open>mdbx_txn_flags\<close>, \<open>mdbx_txn_id\<close>) do not panic on a live transaction, an
  abort on the owning thread never answers \<open>MDBX_THREAD_MISMATCH\<close>, and a commit on another thread
  always does (\<open>MDBX_TXN_CHECKOWNER\<close>, with which the package builds libmdbx).
\<close>

definition library_ok :: "'n libmdbx \<Rightarrow> bool" where
  "library_ok L \<longleftrightarrow> 4 \<le> L_sizeof_voidp L \<and> readers_return L \<and> abort_ends L \<and> checks_owner L"

lemma safe_ignore: "safe P m (\<lambda>_ _. True) \<Longrightarrow> safe P (ignoreM m) (\<lambda>_ _. True)"
  unfolding ignoreM_def by (rule safe_bind, assumption, rule safe_return) simp

lemma safe_test_check: "safe P (mdbx_test_check L rc) (\<lambda>_ _. True)"
  unfolding mdbx_test_check_def by (rule keeps_end) (rule keeps_check)

lemma safe_limits_call: "4 \<le> L_sizeof_voidp L \<Longrightarrow> safe P (mdbx_limits L pagesize) (\<lambda>_ _. True)"
  by (rule safe_weaken [OF safe_limits]) simp_all

lemmas safe_entry_points =
  safe_initialize safe_env_open safe_env_close safe_is_open safe_reader_check safe_path
  safe_env_get_flags safe_env_set_flags safe_env_sync safe_env_stat safe_env_info
  safe_env_txn_count safe_txn_begin safe_commit safe_abort safe_txn_state safe_txn_id
  safe_txn_stat safe_txn_info safe_get safe_put safe_del safe_scan safe_dbi_open
  safe_dbi_sequence safe_dbi_drop safe_dbi_list safe_limits_call safe_test_check
  safe_panic_stat safe_panic_get safe_thread_mismatch

lemma safe_perform:
  assumes "library_ok L"
  shows "safe (sexp_ok (handle_arg c)) (perform L c) (\<lambda>_ _. True)"
proof -
  note h = assms [unfolded library_ok_def]
  show ?thesis
    by (cases c; simp only: perform.simps handle_arg.simps;
        (rule safe_ignore)?; rule safe_entry_points; use h in simp)
qed

section \<open>Steps\<close>

text \<open>
  \<open>call\<close>: any entry point, on any argument R can hold. \<open>collect_env\<close>, \<open>collect_txn\<close>: a
  finalizer, on any pointer it may have been registered for. \<open>restyle\<close>: R code assigns a class
  and attributes. \<open>other_pointer\<close>: another package's pointer, or one of ours restored from a
  file, which R restores with a null address. \<open>outside\<close>: another process uses the database.
  \<open>forking\<close>: this process is now the child, under a process id no handle carries.
\<close>

inductive step :: "'n libmdbx \<Rightarrow> 'n world \<Rightarrow> 'n world \<Rightarrow> bool" for L :: "'n libmdbx" where
  call: "sexp_ok (handle_arg c) w \<Longrightarrow> perform L c w = (r, w') \<Longrightarrow> step L w w'"
| collect_env: "w_xps w x = Some p \<Longrightarrow> xp_tag p = env_tag \<Longrightarrow> finalize_env L x w = (r, w') \<Longrightarrow> step L w w'"
| collect_txn: "w_xps w x = Some p \<Longrightarrow> xp_tag p = txn_tag \<Longrightarrow> finalize_txn L x w = (r, w') \<Longrightarrow> step L w w'"
| restyle: "w_xps w x = Some p \<Longrightarrow> step L w (put_xptr x (p\<lparr>xp_class := cs, xp_attrs := ats\<rparr>) w)"
| other_pointer: "xp_addr p = ANull \<or> xp_addr p = AForeign \<and> xp_tag p \<noteq> env_tag \<and> xp_tag p \<noteq> txn_tag
    \<Longrightarrow> step L w (put_xptr (w_next w) p (w\<lparr>w_next := w_next w + 1\<rparr>))"
| outside: "step L w (w\<lparr>w_lib := n\<rparr>)"
| forking: "(\<forall>a h. w_envs w a = Some h \<longrightarrow> eh_pid h \<noteq> pid) \<Longrightarrow> step L w (forked pid w)"

inductive reachable :: "'n libmdbx \<Rightarrow> 'n world \<Rightarrow> bool" for L :: "'n libmdbx" where
  loaded: "reachable L (initial_world pid n)"
| later: "reachable L w \<Longrightarrow> step L w w' \<Longrightarrow> reachable L w'"

inductive_simps reachable_later: "reachable L w"

lemma finalize_env_ends:
  assumes "inv w" and "abort_ends L" and "w_xps w x = Some p" "xp_tag p = env_tag"
  shows "\<exists>w'. finalize_env L x w = (Inr (), w') \<and> inv w'"
  using wp_finalize_env [OF assms, of "\<lambda>_ _. False"]
  by (auto simp: wp_def split: prod.splits sum.splits)

lemma finalize_txn_ends:
  assumes "inv w" and "abort_ends L" and "w_xps w x = Some p" "xp_tag p = txn_tag"
  shows "\<exists>w'. finalize_txn L x w = (Inr (), w') \<and> inv w'"
  using wp_finalize_txn [OF assms, of "\<lambda>_ _. False"]
  by (auto simp: wp_def split: prod.splits sum.splits)

lemma perform_outcome:
  assumes "library_ok L" and "inv w" and "sexp_ok (handle_arg c) w" and "perform L c w = (r, w')"
  shows "inv w' \<and> (\<forall>e. r = Inl e \<longrightarrow> harmless e)"
  using safeD [OF safe_perform [OF assms(1)] assms(2,3)] assms(4)
  by (auto simp: wp_def split: sum.splits)

lemma inv_step:
  assumes "library_ok L" and "inv w" and "step L w w'"
  shows "inv w'"
  using assms(3,2)
proof cases
  case (call c r)
  then show ?thesis using perform_outcome [OF assms(1,2)] by blast
next
  case (collect_env x p r)
  then show ?thesis using finalize_env_ends [OF assms(2)] assms(1) by (fastforce simp: library_ok_def)
next
  case (collect_txn x p r)
  then show ?thesis using finalize_txn_ends [OF assms(2)] assms(1) by (fastforce simp: library_ok_def)
next
  case (restyle x p cs ats)
  then show ?thesis using inv_put_xptr [OF assms(2)] by simp
next
  case (other_pointer p)
  then show ?thesis using inv_new_xptr [OF assms(2)] by simp
next
  case (outside n)
  then show ?thesis using inv_lib [OF assms(2)] by simp
next
  case (forking pid)
  then show ?thesis using inv_forked [OF assms(2)] by blast
qed

lemma inv_reachable: "reachable L w \<Longrightarrow> library_ok L \<Longrightarrow> inv w"
  by (induction rule: reachable.induct) (auto intro: inv_initial inv_step)

end
