(* ===== verification/Mdbx_Demo.thy ===== *)
theory Mdbx_Demo
  imports Mdbx_System "HOL-Library.AList" "HOL-Library.Char_ord" "HOL-Library.List_Lexorder"
begin

text \<open>
  A small in-memory library, for the witnesses: every theorem that takes libmdbx as a parameter is
  applied to it in at least one concrete state. It keeps one table of records, sorted in the
  runs below, a cursor position once there is one, a sequence, the names of its tables, and a switch that makes
  every call panic.
\<close>

record demo =
  d_kv :: "(bytes \<times> bytes) list"
  d_pos :: "nat option"
  d_seq :: nat
  d_tables :: "bytes list"
  d_panics :: bool

definition demo_call :: "'a \<Rightarrow> demo \<Rightarrow> 'a nres \<times> demo" where
  "demo_call x d = ((if d_panics d then NPanic (Some ''assert'') (Some ''f'') 7 else NRet x), d)"

definition demo_do :: "'a \<Rightarrow> (demo \<Rightarrow> demo) \<Rightarrow> demo \<Rightarrow> 'a nres \<times> demo" where
  "demo_do x f d = (if d_panics d then demo_call x d else (NRet x, f d))"

definition demo_at :: "nat \<Rightarrow> demo \<Rightarrow> int \<times> bytes \<times> bytes" where
  "demo_at i d = (if i < length (d_kv d) then (MDBX_SUCCESS, d_kv d ! i) else (MDBX_NOTFOUND, [], []))"

definition demo_cursor_get :: "nat \<Rightarrow> bytes \<Rightarrow> MDBX_cursor_op \<Rightarrow> demo \<Rightarrow> (int \<times> bytes \<times> bytes) nres \<times> demo" where
  "demo_cursor_get c key opr d =
     (let i = (case opr of MDBX_FIRST \<Rightarrow> 0 | MDBX_LAST \<Rightarrow> length (d_kv d) - 1
               | MDBX_NEXT \<Rightarrow> (case d_pos d of None \<Rightarrow> 0 | Some p \<Rightarrow> p + 1)
               | MDBX_PREV \<Rightarrow> (case d_pos d of None \<Rightarrow> length (d_kv d) - 1
                   | Some p \<Rightarrow> if p = 0 then length (d_kv d) else p - 1)
               | MDBX_SET_RANGE \<Rightarrow> length (takeWhile (\<lambda>r. fst r < key) (d_kv d)))
      in demo_do (demo_at i d) (\<lambda>d. if i < length (d_kv d) then d\<lparr>d_pos := Some i\<rparr> else d) d)"

definition demo_zero_stat :: mdbx_stat where
  "demo_zero_stat = \<lparr>ms_psize = 4096, ms_depth = 0, ms_branch_pages = 0, ms_leaf_pages = 0,
     ms_overflow_pages = 0, ms_entries = 0, ms_mod_txnid = 0\<rparr>"

definition demo_zero_info :: mdbx_envinfo where
  "demo_zero_info = \<lparr>mi_geo_lower = 0, mi_geo_upper = 0, mi_geo_current = 0, mi_geo_shrink = 0,
     mi_geo_grow = 0, mi_mapsize = 0, mi_dxb_fsize = 0, mi_last_pgno = 0, mi_recent_txnid = 0,
     mi_latter_reader_txnid = 0, mi_maxreaders = 0, mi_numreaders = 0, mi_dxb_pagesize = 4096,
     mi_sys_pagesize = 4096\<rparr>"

definition demo_lib :: "demo libmdbx" where
  "demo_lib = \<lparr>
     L_sizeof_voidp = 8,
     L_sizeof_mode = 4,
     L_ENOMEM = 12,
     L_alloc = (\<lambda>n d. (True, d)),
     L_strerror = (\<lambda>rc. ''failed''),
     L_setup_debug = demo_call 0,
     L_env_create = (\<lambda>e. demo_call MDBX_SUCCESS),
     L_env_set_option = (\<lambda>e opt v. demo_call MDBX_SUCCESS),
     L_env_set_geometry = (\<lambda>e v. demo_call MDBX_SUCCESS),
     L_env_open = (\<lambda>e path flags mode. demo_call MDBX_SUCCESS),
     L_env_get_flags = (\<lambda>e. demo_call (MDBX_SUCCESS, 0)),
     L_env_set_flags = (\<lambda>e bits on. demo_call MDBX_SUCCESS),
     L_env_sync_ex = (\<lambda>e force nonblock. demo_call MDBX_SUCCESS),
     L_env_close = (\<lambda>e. demo_call MDBX_SUCCESS),
     L_reader_check = (\<lambda>e. demo_call (MDBX_SUCCESS, 0)),
     L_env_get_path = (\<lambda>e. demo_call (MDBX_SUCCESS, Some ''/db'')),
     L_heap_roots = (\<lambda>e d. (None, None)),
     L_env_stat_ex = (\<lambda>e t. demo_call (MDBX_SUCCESS, demo_zero_stat)),
     L_env_info_ex = (\<lambda>e t. demo_call (MDBX_SUCCESS, demo_zero_info)),
     L_txn_begin = (\<lambda>e flags t. demo_call MDBX_SUCCESS),
     L_txn_commit = (\<lambda>t. demo_call MDBX_SUCCESS),
     L_commit_off_thread = (\<lambda>t n. (NRet MDBX_THREAD_MISMATCH, n)),
     L_txn_abort = (\<lambda>t. demo_call MDBX_SUCCESS),
     L_txn_flags = (\<lambda>t d. (NRet 0, d)),
     L_txn_id = (\<lambda>t d. (NRet 1, d)),
     L_dbi_open = (\<lambda>t name flags. demo_call (MDBX_SUCCESS, 1)),
     L_dbi_stat = (\<lambda>t dbi. demo_call (MDBX_SUCCESS, demo_zero_stat)),
     L_dbi_sequence = (\<lambda>t dbi inc d. demo_do (MDBX_SUCCESS, d_seq d) (\<lambda>d. d\<lparr>d_seq := d_seq d + inc\<rparr>) d),
     L_drop = (\<lambda>t dbi del. demo_do MDBX_SUCCESS (\<lambda>d. d\<lparr>d_kv := []\<rparr>)),
     L_tables = (\<lambda>t d. demo_call (d_tables d, MDBX_SUCCESS) d),
     L_get = (\<lambda>t dbi k d. demo_call (case map_of (d_kv d) k of Some v \<Rightarrow> (MDBX_SUCCESS, v) | None \<Rightarrow> (MDBX_NOTFOUND, [])) d),
     L_put = (\<lambda>t dbi k v flags. demo_do MDBX_SUCCESS (\<lambda>d. d\<lparr>d_kv := AList.update k v (d_kv d)\<rparr>)),
     L_del = (\<lambda>t dbi k. demo_do MDBX_SUCCESS (\<lambda>d. d\<lparr>d_kv := filter (\<lambda>r. fst r \<noteq> k) (d_kv d)\<rparr>)),
     L_cursor_open = (\<lambda>t dbi. demo_do (MDBX_SUCCESS, 0) (\<lambda>d. d\<lparr>d_pos := None\<rparr>)),
     L_cursor_get = demo_cursor_get,
     L_cursor_close = (\<lambda>c. demo_call ()),
     L_cmp = (\<lambda>t dbi a b. demo_call (if b < a then 1 else if a = b then 0 else - 1)),
     L_limits = (\<lambda>ps. (10, 20, 30, 40, 50)),
     L_keysize_min = 0,
     L_valsize_min = 0,
     L_default_pagesize = 4096\<rparr>"

lemma demo_ok: "library_ok demo_lib"
  by (simp add: library_ok_def readers_return_def abort_ends_def checks_owner_def demo_lib_def demo_call_def code_defs)

section \<open>Concrete runs\<close>

definition demo_store :: demo where
  "demo_store = \<lparr>d_kv = [(''a'', ''1''), (''b'', ''2''), (''c'', ''3'')], d_pos = None, d_seq = 5,
     d_tables = [''t''], d_panics = False\<rparr>"

definition demo_start :: "demo world" where
  "demo_start = initial_world 7 demo_store"

text \<open>After opening: the environment is handle 0 behind pointer 1.\<close>

definition demo_env :: env_handle where
  "demo_env = \<lparr>eh_env = Some 0, eh_poisoned = False, eh_pid = 7, eh_key = ''/db'',
     eh_path = ''/db'', eh_live = [], eh_roots = (None, None)\<rparr>"

definition demo_env_ptr :: xptr where
  "demo_env_ptr = \<lparr>xp_addr = AEnv 0, xp_tag = env_tag, xp_prot = R_NilValue,
     xp_class = [''mdbx_env''], xp_attrs = [(''path'', AString ''/db''), (''readonly'', ALogical False),
       (''subdir'', ALogical True)]\<rparr>"

definition demo_opened :: "demo world" where
  "demo_opened =
     \<lparr>w_pid = 7, w_next = 2, w_envs = [0 \<mapsto> demo_env], w_txns = Map.empty, w_xps = [1 \<mapsto> demo_env_ptr],
      w_live_env_handles = 1, w_live_txn_handles = 0, w_open = [0], w_abandoned = None,
      w_guard = [], w_last_panic = zero_panic, w_lib = demo_store, w_ids = 1,
      w_usable_envs = [0], w_usable_txns = []\<rparr>"

text \<open>After a write transaction began: it is handle 2 behind pointer 3.\<close>

definition demo_txn :: txn_handle where
  "demo_txn = \<lparr>th_txn = Some 1, th_owner = Some 0, th_state = st_active, th_write = True,
     th_poisoned = False, th_pid = 7, th_dbi = 0, th_main_dbi = 0, th_main_ready = False, th_named = []\<rparr>"

definition demo_txn_ptr :: xptr where
  "demo_txn_ptr = \<lparr>xp_addr = ATxn 2, xp_tag = txn_tag, xp_prot = R_ExtPtr 1,
     xp_class = [''mdbx_txn''], xp_attrs = [(''write'', ALogical True), (''path'', AString ''/db'')]\<rparr>"

definition demo_begun :: "demo world" where
  "demo_begun =
     \<lparr>w_pid = 7, w_next = 4, w_envs = [0 \<mapsto> demo_env\<lparr>eh_live := [2]\<rparr>], w_txns = [2 \<mapsto> demo_txn],
      w_xps = [1 \<mapsto> demo_env_ptr, 3 \<mapsto> demo_txn_ptr],
      w_live_env_handles = 1, w_live_txn_handles = 1, w_open = [0], w_abandoned = None,
      w_guard = [], w_last_panic = zero_panic, w_lib = demo_store, w_ids = 2,
      w_usable_envs = [0], w_usable_txns = [(1, 0)]\<rparr>"

lemmas demo_worlds = demo_begun_def demo_opened_def demo_env_def demo_env_ptr_def demo_txn_def demo_txn_ptr_def

lemmas demo_run =
  run_simps ignoreM_def unwindM_def env_at_def txn_at_def xptr_at_def set_env_def set_txn_def set_xptr_def
  put_env_def put_txn_def put_xptr_def new_env_def new_txn_def new_xptr_def current_pid_def
  has_tag_def is_env_sexp_def is_txn_sexp_def env_addr_def txn_addr_def env_from_sexp_def txn_from_sexp_def
  guard_def mdbx_r_run_guarded_def push_frame_def set_guard_def env_call_def txn_call_def native_def
  check_def demo_lib_def demo_call_def demo_do_def Let_def

lemma demo_open_runs:
  "perform demo_lib (Do_env_open ''/db'' ''/db'' False True (Fin 0) (Fin 0) (Fin 0) 420 []) demo_start
     = (Inr (), demo_opened)"
  by (simp add: demo_run demo_start_def demo_opened_def demo_env_def demo_env_ptr_def demo_store_def initial_world_def
      mdbx_env_open_def env_flags_from_names_def bits_from_def open_flags_def max_exact_integer_def
      max_native_integer_def find_open_env_def castM_def positive_or_zero_def cast_unsigned_def cast_signed_def
      trunc_rat_def open_guarded_def open_call_def env_create_call_def env_created_def fresh_env_handle_def
      record_heap_roots_def heap_roots_call_def new_env_sexp_def register_env_def open_add_def)

lemma demo_begin_runs:
  "perform demo_lib (Do_txn_begin (R_ExtPtr 1) True []) demo_opened = (Inr (), demo_begun)"
  by (simp add: demo_run demo_worlds demo_store_def mdbx_txn_begin_def txn_flags_from_names_def bits_from_def
      begin_call_def txn_begin_call_def txn_created_def fresh_txn_handle_def new_txn_sexp_def get_attrib_def
      live_add_def)

section \<open>The two worlds are reachable\<close>

lemma demo_opened_reachable: "reachable demo_lib demo_opened"
proof (rule reachable.later)
  show "reachable demo_lib demo_start" unfolding demo_start_def by (rule reachable.loaded)
  show "step demo_lib demo_start demo_opened"
    by (rule step.call [OF _ demo_open_runs]) (simp add: sexp_ok_def)
qed

lemma demo_begun_reachable: "reachable demo_lib demo_begun"
  by (rule reachable.later [OF demo_opened_reachable], rule step.call [OF _ demo_begin_runs])
    (simp add: sexp_ok_def demo_opened_def)

lemma demo_begun_inv: "inv demo_begun"
  by (rule inv_reachable [OF demo_begun_reachable demo_ok])

lemma demo_opened_inv: "inv demo_opened"
  by (rule inv_reachable [OF demo_opened_reachable demo_ok])

section \<open>After a panic\<close>

text \<open>The test hook drove a panic through the guard of \<open>mdbx_get_\<close>; both handles are poisoned.\<close>

definition demo_panic :: panic_info where
  "demo_panic = the (record_panic (Some ''stat-guard test'') (Some ''panic_immediately'') 1 zero_panic)"

definition demo_panicked :: "demo world" where
  "demo_panicked =
     (put_env 0 (demo_env\<lparr>eh_live := [2], eh_poisoned := True\<rparr>)
       (put_txn 2 (demo_txn\<lparr>th_poisoned := True\<rparr>) demo_begun))\<lparr>w_last_panic := demo_panic\<rparr>"

lemma demo_panic_runs:
  "\<exists>e. perform demo_lib (Do_test_panic_get (R_ExtPtr 3)) demo_begun = (Inl e, demo_panicked)"
proof -
  have "panic_wf zero_panic" using inv_calm(2) [OF demo_begun_inv] by (simp add: demo_begun_def)
  then have "record_panic (Some ''stat-guard test'') (Some ''panic_immediately'') 1 zero_panic = Some demo_panic"
    using record_panic_spec [of zero_panic "Some ''stat-guard test''" "Some ''panic_immediately''" 1]
    by (auto simp: demo_panic_def)
  then show ?thesis
    by (simp add: demo_run demo_worlds demo_panicked_def mdbx_test_panic_get_def panic_immediately_def mdbx_r_panic_def
        stop_after_panic_def poison_txn_def)
qed

lemma demo_panicked_reachable: "reachable demo_lib demo_panicked"
proof -
  obtain e where e: "perform demo_lib (Do_test_panic_get (R_ExtPtr 3)) demo_begun = (Inl e, demo_panicked)"
    using demo_panic_runs by blast
  show ?thesis
    by (rule reachable.later [OF demo_begun_reachable], rule step.call [OF _ e])
      (simp add: sexp_ok_def demo_begun_def)
qed

end
