(* ===== verification/Mdbx_Refusals.thy ===== *)
theory Mdbx_Refusals
  imports Mdbx_Demo
begin

text \<open>
  Handles that must not be used: closed, finished, poisoned by a panic, or inherited across a
  fork. Every entry point that needs a usable handle refuses such a one first, with the message
  that says why, and changes nothing; the entry points that accept one (close, abort, the two
  predicates) and the finalizers never enter libmdbx with it.
\<close>

section \<open>What is wrong with a handle\<close>

definition env_refusal :: "'n world \<Rightarrow> xptr \<Rightarrow> err option" where
  "env_refusal w p =
     (if \<not> (''mdbx_env'' \<in> set (xp_class p) \<and> xp_tag p = env_tag) then Some NotEnv
      else case xp_addr p of
        AEnv a \<Rightarrow>
          (case w_envs w a of
             None \<Rightarrow> None
           | Some h \<Rightarrow>
               if eh_pid h \<noteq> w_pid w then Some (EnvForeignUse (eh_pid h) (w_pid w))
               else if eh_env h = None then Some EnvClosed
               else if eh_poisoned h then Some EnvUnusable else None)
      | ANull \<Rightarrow> Some EnvClosed
      | _ \<Rightarrow> None)"

definition owner_refusal :: "'n world \<Rightarrow> txn_handle \<Rightarrow> err option" where
  "owner_refusal w h =
     (case th_owner h of
        None \<Rightarrow> Some OwnerClosed
      | Some a \<Rightarrow>
          (case w_envs w a of
             None \<Rightarrow> None
           | Some k \<Rightarrow> if eh_env k = None then Some OwnerClosed
                       else if eh_poisoned k then Some OwnerUnusable else None))"

definition txn_refusal :: "'n world \<Rightarrow> xptr \<Rightarrow> err option" where
  "txn_refusal w p =
     (if \<not> (''mdbx_txn'' \<in> set (xp_class p) \<and> xp_tag p = txn_tag) then Some NotTxn
      else case xp_addr p of
        ATxn t \<Rightarrow>
          (case w_txns w t of
             None \<Rightarrow> None
           | Some h \<Rightarrow>
               if th_pid h \<noteq> w_pid w then Some (TxnForeign (th_pid h) (w_pid w))
               else if th_poisoned h then Some TxnUnusable
               else if th_txn h = None
                 then Some (TxnAlready (if th_state h = st_committed then st_committed else st_aborted))
               else owner_refusal w h)
      | ANull \<Rightarrow> Some TxnInvalid
      | _ \<Rightarrow> None)"

lemmas refusal_run =
  run_simps is_env_sexp_def is_txn_sexp_def has_tag_def xptr_at_def env_addr_def txn_addr_def
  current_pid_def env_at_def txn_at_def

lemma env_from_sexp_refuses:
  assumes "w_xps w i = Some p" and "env_refusal w p = Some e"
  shows "env_from_sexp (R_ExtPtr i) w = (Inl e, w)"
proof (cases "''mdbx_env'' \<in> set (xp_class p) \<and> xp_tag p = env_tag")
  case True
  then show ?thesis using assms
    by (cases "xp_addr p")
      (auto simp: env_refusal_def env_from_sexp_def refusal_run split: option.splits if_splits)
next
  case False
  then show ?thesis using assms by (auto simp: env_refusal_def env_from_sexp_def refusal_run)
qed

lemma txn_from_sexp_refuses:
  assumes "w_xps w i = Some p" and "txn_refusal w p = Some e"
  shows "txn_from_sexp (R_ExtPtr i) w = (Inl e, w)"
proof (cases "''mdbx_txn'' \<in> set (xp_class p) \<and> xp_tag p = txn_tag")
  case True
  then show ?thesis using assms
    by (cases "xp_addr p")
      (auto simp: txn_refusal_def owner_refusal_def txn_from_sexp_def refusal_run split: option.splits if_splits)
next
  case False
  then show ?thesis using assms by (auto simp: txn_refusal_def txn_from_sexp_def refusal_run)
qed

lemma bind_refused: "m w = (Inl e, w) \<Longrightarrow> bindM m f w = (Inl e, w)"
  by (simp add: bindM_def)

section \<open>The entry points that need a usable handle\<close>

fun needs_env :: "call \<Rightarrow> bool" where
  "needs_env (Do_env_reader_check s) = True"
| "needs_env (Do_env_path s) = True"
| "needs_env (Do_env_get_flags s) = True"
| "needs_env (Do_env_set_flags s f b) = True"
| "needs_env (Do_env_sync s f n) = True"
| "needs_env (Do_env_stat s) = True"
| "needs_env (Do_env_info s) = True"
| "needs_env (Do_env_txn_count s) = True"
| "needs_env (Do_txn_begin s b x) = True"
| "needs_env (Do_test_panic_stat s b) = True"
| "needs_env _ = False"

fun needs_txn :: "call \<Rightarrow> bool" where
  "needs_txn (Do_txn_commit s) = True"
| "needs_txn (Do_txn_id s) = True"
| "needs_txn (Do_txn_stat s d) = True"
| "needs_txn (Do_txn_info s) = True"
| "needs_txn (Do_get s k d) = True"
| "needs_txn (Do_put s k v b d) = True"
| "needs_txn (Do_del s k d) = True"
| "needs_txn (Do_scan s l v d f r) = True"
| "needs_txn (Do_dbi_open s n c) = True"
| "needs_txn (Do_dbi_sequence s d i) = True"
| "needs_txn (Do_dbi_drop s d b) = True"
| "needs_txn (Do_dbi_list s) = True"
| "needs_txn (Do_test_panic_get s) = True"
| "needs_txn (Do_test_thread_mismatch s) = True"
| "needs_txn _ = False"

text \<open>\<open>mdbx_scan_\<close> checks its limit before it looks at the transaction.\<close>

definition limit_ok :: "'n libmdbx \<Rightarrow> call \<Rightarrow> bool" where
  "limit_ok L c =
     (case c of Do_scan s l v d f r \<Rightarrow> dle l (max_native_integer (L_sizeof_voidp L)) | _ \<Rightarrow> True)"

lemmas env_entry_defs =
  ignoreM_def mdbx_env_reader_check_def mdbx_env_path_def mdbx_env_get_flags_def
  mdbx_env_set_flags_def mdbx_env_sync_def mdbx_env_stat_def mdbx_env_info_def
  mdbx_env_txn_count_def mdbx_txn_begin_def mdbx_test_panic_stat_def

lemmas txn_entry_defs =
  ignoreM_def mdbx_txn_commit_def finish_txn_def mdbx_txn_id_def mdbx_txn_stat_def mdbx_txn_info_def
  mdbx_get_def mdbx_put_def mdbx_del_def writable_txn_def mdbx_scan_def mdbx_dbi_open_def
  mdbx_dbi_sequence_def mdbx_dbi_drop_def mdbx_dbi_list_def mdbx_test_panic_get_def
  mdbx_test_thread_mismatch_def

text \<open>C12: every entry point that needs a usable environment refuses one that is not, whatever its
  other arguments: an object that is not an environment, a closed one, one poisoned by a panic, one
  inherited across a fork, each with its own error; nothing is read or written, in the package or
  in libmdbx.\<close>

theorem unusable_env_refused:
  assumes "needs_env c" and "handle_arg c = R_ExtPtr i" and "w_xps w i = Some p"
    and "env_refusal w p = Some e"
  shows "perform L c w = (Inl e, w)"
proof -
  have "env_from_sexp (handle_arg c) w = (Inl e, w)"
    using env_from_sexp_refuses [OF assms(3,4)] assms(2) by simp
  then show ?thesis
    using assms(1) by (cases c) (simp_all add: env_entry_defs bind_refused)
qed

theorem unusable_env_refused_witness:
  "perform demo_lib (Do_txn_begin (R_ExtPtr 1) True []) (forked 8 demo_begun)
     = (Inl (EnvForeignUse 7 8), forked 8 demo_begun)"
  by (rule unusable_env_refused [where i = 1 and p = demo_env_ptr])
    (simp_all add: demo_worlds forked_def env_refusal_def)

text \<open>C13: the same for the fourteen entry points that need a usable transaction: one that is
  committed or aborted, poisoned, inherited, or whose environment is closed or poisoned is refused
  with its own error, and nothing changes.\<close>

theorem unusable_txn_refused:
  assumes "needs_txn c" and "limit_ok L c" and "handle_arg c = R_ExtPtr i" and "w_xps w i = Some p"
    and "txn_refusal w p = Some e"
  shows "perform L c w = (Inl e, w)"
proof -
  have "txn_from_sexp (handle_arg c) w = (Inl e, w)"
    using txn_from_sexp_refuses [OF assms(4,5)] assms(3) by simp
  then show ?thesis
    using assms(1,2) by (cases c) (simp_all add: txn_entry_defs bind_refused limit_ok_def)
qed

theorem unusable_txn_refused_witness:
  "perform demo_lib (Do_get (R_ExtPtr 3) (R_Raw ''a'') []) (put_env 0 (demo_env\<lparr>eh_live := [2], eh_poisoned := True\<rparr>) demo_begun)
     = (Inl OwnerUnusable, put_env 0 (demo_env\<lparr>eh_live := [2], eh_poisoned := True\<rparr>) demo_begun)"
  by (rule unusable_txn_refused [where i = 3 and p = demo_txn_ptr])
    (simp_all add: demo_worlds limit_ok_def txn_refusal_def owner_refusal_def)

end
