(* ===== verification/Mdbx_Silent.thy ===== *)
theory Mdbx_Silent
  imports Mdbx_Refusals
begin

text \<open>
  What close, abort and the finalizers do with a handle that must not be used: they release the
  package's own resources and never enter libmdbx. A computation is \<open>silent\<close> when, whatever its
  outcome, libmdbx's state is untouched and no environment handle became usable.
\<close>

section \<open>Silent computations\<close>

definition worse :: "'n world \<Rightarrow> 'n world \<Rightarrow> bool" where
  "worse w w' \<longleftrightarrow>
     w_lib w' = w_lib w \<and> w_pid w' = w_pid w
     \<and> (\<forall>a h'. w_envs w' a = Some h' \<longrightarrow>
          (\<exists>h. w_envs w a = Some h \<and> (eh_poisoned h \<longrightarrow> eh_poisoned h') \<and> eh_pid h' = eh_pid h
             \<and> (eh_env h = None \<longrightarrow> eh_env h' = None)))"

definition silent :: "('n, 'a) mem \<Rightarrow> bool" where
  "silent m \<longleftrightarrow> (\<forall>w. wp m (\<lambda>_. worse w) (\<lambda>_. worse w) w)"

lemma worse_refl [simp]: "worse w w"
  by (simp add: worse_def)

lemma worse_trans: "worse u v \<Longrightarrow> worse v w \<Longrightarrow> worse u w"
  unfolding worse_def by metis

lemma worse_same: "w_lib v = w_lib w \<Longrightarrow> w_pid v = w_pid w \<Longrightarrow> w_envs v = w_envs w \<Longrightarrow> worse w v"
  by (simp add: worse_def)

named_theorems silent_rules "what silent computations are made of"

lemma silent_bind [silent_rules]: "silent m \<Longrightarrow> (\<And>x. silent (f x)) \<Longrightarrow> silent (bindM m f)"
  unfolding silent_def wp_bind by (blast intro: wp_mono worse_trans)

lemma silent_then [silent_rules]: "silent m \<Longrightarrow> silent k \<Longrightarrow> silent (thenM m k)"
  unfolding thenM_def by (rule silent_bind)

lemma silent_basic [silent_rules]: "silent (returnM x)" "silent (stopM e)" "silent (getsM g)" "silent current_pid"
  by (simp_all add: silent_def wp_simps)

lemma silent_at [silent_rules]: "silent (env_at a)" "silent (txn_at t)" "silent (xptr_at x)"
  by (simp_all add: silent_def wp_simps split: option.splits)

lemma silent_if [silent_rules]: "(b \<Longrightarrow> silent m) \<Longrightarrow> (\<not> b \<Longrightarrow> silent k) \<Longrightarrow> silent (if b then m else k)"
  by simp

lemma silent_when [silent_rules]: "silent m \<Longrightarrow> silent (whenM b m)"
  by (simp add: whenM_def silent_basic)

lemma silent_option [silent_rules]:
  "silent m \<Longrightarrow> (\<And>x. silent (k x)) \<Longrightarrow> silent (case v of None \<Rightarrow> m | Some x \<Rightarrow> k x)"
  by (cases v) simp_all

lemma silent_for [silent_rules]: "(\<And>x. silent (f x)) \<Longrightarrow> silent (forM xs f)"
  by (induction xs) (simp_all add: silent_basic silent_then)

lemma silent_set [silent_rules]:
  "silent (set_txn t g)" "silent (set_xptr x k)" "silent (delete_txn t)" "silent (delete_env a)"
  "silent (register_env a)" "silent (unregister_env a)"
  by (auto simp: silent_def wp_simps worse_def open_add_def open_remove_def split: option.splits)

lemma silent_set_env [silent_rules]:
  "(\<And>h. eh_poisoned h \<Longrightarrow> eh_poisoned (f h)) \<Longrightarrow> (\<And>h. eh_pid (f h) = eh_pid h)
    \<Longrightarrow> (\<And>h. eh_env h = None \<Longrightarrow> eh_env (f h) = None) \<Longrightarrow> silent (set_env a f)"
  by (auto simp: silent_def wp_simps worse_def split: option.splits)

lemma silent_count [silent_rules]:
  "silent (modifyM (\<lambda>w. w\<lparr>w_live_env_handles := w_live_env_handles w - 1\<rparr>))"
  "silent (modifyM (\<lambda>w. w\<lparr>w_live_txn_handles := w_live_txn_handles w - 1\<rparr>))"
  by (simp_all add: silent_def wp_simps worse_same)

lemma silent_abandon [silent_rules]: "silent (abandon p)"
  unfolding silent_def by (intro allI wp_abandon) (auto simp: abandoned_more_def intro: worse_same)

lemma silent_abandon_env [silent_rules]: "silent (abandon_env a)"
  unfolding abandon_env_def by (intro silent_rules)

lemma silent_roots [silent_rules]: "silent (record_heap_roots L a)"
  unfolding record_heap_roots_def heap_roots_call_def by (intro silent_rules) auto

lemma silent_mark [silent_rules]: "silent (unregister_txn t)" "silent (mark_finished L t s)"
  unfolding mark_finished_def unregister_txn_def by (intro silent_rules; simp add: live_remove_def)+

lemma silent_prot [silent_rules]: "silent (set_prot x v)"
  by (cases x) (simp_all add: set_prot_def silent_rules)

lemma silent_pointers [silent_rules]: "silent (is_env_sexp x)" "silent (is_txn_sexp x)" "silent (env_addr x)" "silent (txn_addr x)"
  unfolding is_env_sexp_def is_txn_sexp_def has_tag_def env_addr_def txn_addr_def
  by (cases x; simp add: silent_rules; intro silent_rules; auto simp: silent_rules split: paddr.splits)+

section \<open>Closing\<close>

text \<open>The environment of a handle that this process may no longer hand to libmdbx.\<close>

definition dead_env :: "'n world \<Rightarrow> nat \<Rightarrow> bool" where
  "dead_env w a \<longleftrightarrow> (\<forall>h. w_envs w a = Some h \<longrightarrow> eh_env h = None \<or> \<not> healthy w h)"

lemma dead_env_worse: "dead_env w a \<Longrightarrow> worse w w' \<Longrightarrow> dead_env w' a"
  unfolding dead_env_def worse_def healthy_def by metis

lemma silent_detach_one: "silent (detach_one L False t)"
  unfolding detach_one_def by (simp, intro silent_rules)

lemma detach_silent:
  assumes "dead_env w a"
  shows "wp (detach_txns L a) (\<lambda>_. worse w) (\<lambda>_. worse w) w"
proof (cases "w_envs w a")
  case (Some h)
  then have f: "(eh_env h \<noteq> None \<and> \<not> eh_poisoned h \<and> eh_pid h = w_pid w) = False"
    using assms by (auto simp: dead_env_def healthy_def)
  have "silent (thenM (forM (eh_live h) (detach_one L False)) (set_env a (\<lambda>h. h\<lparr>eh_live := []\<rparr>)))"
    by (intro silent_rules silent_detach_one) auto
  then show ?thesis
    unfolding detach_txns_def wp_bind wp_env_at wp_current_pid silent_def Some option.case f by blast
qed (simp add: detach_txns_def wp_simps)

lemma close_silent:
  assumes "dead_env w a"
  shows "wp (close_handle L a propagate) (\<lambda>_. worse w) (\<lambda>_. worse w) w"
proof (cases "w_envs w a")
  case (Some h)
  show ?thesis
  proof (cases "eh_env h = None")
    case False
    then have f: "eh_pid h \<noteq> w_pid w \<or> eh_poisoned h" using Some assms by (auto simp: dead_env_def healthy_def)
    let ?drop = "\<lambda>k. thenM (unregister_env a) (thenM (abandon_env a) (thenM (set_env a (\<lambda>h. h\<lparr>eh_env := None\<rparr>)) k))"
    have drop: "wp (abandon_env a) (\<lambda>_. wp (set_env a (\<lambda>h. h\<lparr>eh_env := None\<rparr>)) (\<lambda>_. wp k (\<lambda>_. worse w) (\<lambda>_. worse w))
        (\<lambda>_. worse w)) (\<lambda>_. worse w) (open_remove a w)" if "silent k" for k :: "('a, unit) mem"
    proof -
      have "silent (?drop k)" by (intro silent_rules that) simp_all
      then show ?thesis unfolding silent_def wp_fun wp_unregister_env by blast
    qed
    have "silent (if propagate then stopM (EnvForeignClose (eh_pid h) (w_pid w)) else returnM ())"
      by (intro silent_rules)
    from drop [OF this] drop [OF silent_basic(1)] show ?thesis
      using Some False f unfolding close_handle_def wp_bind wp_env_at wp_fun
      by (auto simp: wp_env_at wp_unregister_env wp_current_pid wp_fun)
  qed (use Some in \<open>simp add: close_handle_def wp_simps\<close>)
qed (simp add: close_handle_def wp_simps)

text \<open>Chaining, all relative to the state \<open>w\<close> the operation started in.\<close>

lemma worse_bind:
  "wp m (\<lambda>_. worse w) (\<lambda>_. worse w) v \<Longrightarrow> (\<And>x u. worse w u \<Longrightarrow> wp (f x) (\<lambda>_. worse w) (\<lambda>_. worse w) u)
    \<Longrightarrow> wp (bindM m f) (\<lambda>_. worse w) (\<lambda>_. worse w) v"
  unfolding wp_bind by (erule wp_mono) auto

lemma worse_then:
  "wp m (\<lambda>_. worse w) (\<lambda>_. worse w) v \<Longrightarrow> (\<And>u. worse w u \<Longrightarrow> wp k (\<lambda>_. worse w) (\<lambda>_. worse w) u)
    \<Longrightarrow> wp (thenM m k) (\<lambda>_. worse w) (\<lambda>_. worse w) v"
  unfolding thenM_def by (rule worse_bind)

lemma worse_from:
  assumes "worse w v" and "wp m (\<lambda>_. worse v) (\<lambda>_. worse v) v"
  shows "wp m (\<lambda>_. worse w) (\<lambda>_. worse w) v"
  by (rule wp_mono [OF assms(2)]) (auto intro: worse_trans [OF assms(1)])

lemma worse_silent: "silent m \<Longrightarrow> worse w v \<Longrightarrow> wp m (\<lambda>_. worse w) (\<lambda>_. worse w) v"
  by (rule worse_from) (auto simp: silent_def)

lemma worse_close: "dead_env w a \<Longrightarrow> worse w v \<Longrightarrow> wp (close_handle L a b) (\<lambda>_. worse w) (\<lambda>_. worse w) v"
  by (rule worse_from, assumption, rule close_silent, rule dead_env_worse)

lemma worse_detach: "dead_env w a \<Longrightarrow> worse w v \<Longrightarrow> wp (detach_txns L a) (\<lambda>_. worse w) (\<lambda>_. worse w) v"
  by (rule worse_from, assumption, rule detach_silent, rule dead_env_worse)

lemma worse_stop: "worse w v \<Longrightarrow> wp (stopM e) (\<lambda>_. worse w) (\<lambda>_. worse w) v"
  by (simp add: wp_stop)

lemma env_close_silent:
  assumes "w_xps w i = Some p" and "\<And>a. xp_addr p = AEnv a \<Longrightarrow> dead_env w a"
  shows "wp (mdbx_env_close L (R_ExtPtr i)) (\<lambda>_. worse w) (\<lambda>_. worse w) w"
proof -
  have main: "wp (bindM (env_at a) (\<lambda>h.
         thenM (whenM (eh_poisoned h) (detach_txns L a))
        (bindM (env_at a) (\<lambda>h.
         if eh_live h \<noteq> [] then stopM (EnvHasTxns (length (eh_live h)))
         else close_handle L a True)))) (\<lambda>_. worse w) (\<lambda>_. worse w) w" if a: "dead_env w a" for a
    by (rule worse_bind [OF worse_silent [OF silent_at(1) worse_refl]], rule worse_then,
        simp add: wp_when worse_detach [OF a], rule worse_bind [OF worse_silent [OF silent_at(1)]], assumption)
      (auto simp: wp_if wp_stop intro: worse_close [OF a])
  show ?thesis
    unfolding mdbx_env_close_def wp_bind
    using assms main by (auto simp: is_env_sexp_def has_tag_def env_addr_def wp_simps split: paddr.splits)
qed

lemma finalize_env_silent:
  assumes "w_xps w i = Some p" and "\<And>a. xp_addr p = AEnv a \<Longrightarrow> dead_env w a"
  shows "wp (finalize_env L i) (\<lambda>_. worse w) (\<lambda>_. worse w) w"
proof -
  have main: "wp (thenM (set_xptr i f) (thenM (detach_txns L a) (thenM (close_handle L a False) (thenM (delete_env a)
       (modifyM (\<lambda>w. w\<lparr>w_live_env_handles := w_live_env_handles w - 1\<rparr>)))))) (\<lambda>_. worse w) (\<lambda>_. worse w) w"
    if a: "dead_env w a" for a f
    by (rule worse_then [OF worse_silent [OF silent_set(2) worse_refl]],
        rule worse_then [OF worse_detach [OF a]], assumption,
        rule worse_then [OF worse_close [OF a]], assumption,
        rule worse_silent, intro silent_rules)
  show ?thesis
    unfolding finalize_env_def wp_bind
    using assms main by (auto simp: env_addr_def wp_bind wp_return wp_stop wp_xptr_at split: paddr.splits)
qed

text \<open>Transactions: one that must not be ended natively.\<close>

definition dead_txn :: "'n world \<Rightarrow> nat \<Rightarrow> bool" where
  "dead_txn w t \<longleftrightarrow>
     (\<forall>h. w_txns w t = Some h \<longrightarrow>
        th_txn h = None \<or> th_poisoned h \<or> th_owner h = None \<or> th_pid h \<noteq> w_pid w
        \<or> (\<exists>a k. th_owner h = Some a \<and> w_envs w a = Some k \<and> (eh_env k = None \<or> eh_poisoned k)))"

lemma finalize_txn_silent:
  assumes "w_xps w i = Some p" and "\<And>t. xp_addr p = ATxn t \<Longrightarrow> dead_txn w t"
  shows "wp (finalize_txn L i) (\<lambda>_. worse w) (\<lambda>_. worse w) w"
proof -
  let ?tail = "\<lambda>t ended. bindM (txn_at t) (\<lambda>h.
         thenM (if th_txn h \<noteq> None
                then thenM (whenM (\<not> ended) (abandon (map_option PTxn (th_txn h))))
                           (mark_finished L t st_aborted)
                else unregister_txn t)
        (thenM (delete_txn t)
               (modifyM (\<lambda>w. w\<lparr>w_live_txn_handles := w_live_txn_handles w - 1\<rparr>))))"
  have tail: "silent (?tail t ended)" for t ended by (intro silent_rules)
  have main: "wp (bindM (txn_at t) (\<lambda>h. bindM (finalizer_may_abort h) (\<lambda>may.
         bindM (if may then m else returnM False) (?tail t)))) (\<lambda>_. worse v) (\<lambda>_. worse v) v"
    if t: "dead_txn v t" for t m v
  proof (cases "w_txns v t")
    case (Some h)
    have "wp (finalizer_may_abort h) (\<lambda>may u. \<not> may \<and> u = v) (\<lambda>_. worse v) v"
      using t Some by (auto simp: finalizer_may_abort_def dead_txn_def dead_env_def healthy_def wp_simps split: option.splits)
    then have "wp (bindM (finalizer_may_abort h) (\<lambda>may. bindM (if may then m else returnM False) (?tail t)))
        (\<lambda>_. worse v) (\<lambda>_. worse v) v"
      unfolding wp_bind [of "finalizer_may_abort h"]
      by (rule wp_mono) (use tail [of t False] in \<open>simp_all add: wp_bind [of "returnM False"] wp_return silent_def\<close>)
    then show ?thesis using Some by (simp add: wp_bind [of "txn_at t"] wp_txn_at)
  qed (simp add: wp_bind [of "txn_at t"] wp_txn_at)
  have start: "wp (thenM (set_xptr i f) (bindM (txn_at t) (\<lambda>h. bindM (finalizer_may_abort h) (\<lambda>may.
         bindM (if may then m else returnM False) (?tail t))))) (\<lambda>_. worse w) (\<lambda>_. worse w) w"
    if t: "dead_txn w t" for t f m
  proof -
    have v: "worse w (put_xptr i q w)" "dead_txn (put_xptr i q w) t" for q
      using t by (simp_all add: worse_same dead_txn_def dead_env_def healthy_def)
    show ?thesis
      unfolding wp_then [of "set_xptr i f"] wp_set_xptr assms(1) option.case
      by (rule worse_from [OF v(1) main [OF v(2)]])
  qed
  show ?thesis
    unfolding finalize_txn_def wp_bind [of "txn_addr x" for x]
    using assms start by (auto simp: txn_addr_def wp_bind [of "xptr_at i"] wp_return wp_stop wp_xptr_at split: paddr.splits)
qed

end
