(* ===== verification/Mdbx_Unusable.thy ===== *)
theory Mdbx_Unusable
  imports Mdbx_Silent
begin

unbundle bit_operations_syntax

text \<open>
  Properties of the handles a process must not use any more: they are inert, a poisoned
  environment can always be closed and a transaction of it always be ended, and a handle inherited
  across a fork is refused by name while its own copy of the pointer is dropped.
\<close>

definition unusable :: "'n world \<Rightarrow> xptr \<Rightarrow> bool" where
  "unusable w p \<longleftrightarrow>
     (\<forall>a. xp_addr p = AEnv a \<longrightarrow> dead_env w a) \<and> (\<forall>t. xp_addr p = ATxn t \<longrightarrow> dead_txn w t)"

lemma wp_libD: "wp m (\<lambda>_. worse w) (\<lambda>_. worse w) w \<Longrightarrow> m w = (r, w') \<Longrightarrow> w_lib w' = w_lib w"
  by (cases r) (auto simp: wp_def worse_def)

lemma env_from_sexp_dead:
  assumes "w_xps w i = Some p" and "unusable w p"
  shows "\<exists>e. env_from_sexp (R_ExtPtr i) w = (Inl e, w)"
  using assms
  by (cases "xp_addr p")
    (auto simp: unusable_def dead_env_def healthy_def env_from_sexp_def refusal_run split: option.splits)

lemma txn_from_sexp_dead:
  assumes "w_xps w i = Some p" and "unusable w p"
  shows "\<exists>e. txn_from_sexp (R_ExtPtr i) w = (Inl e, w)"
  using assms
  by (cases "xp_addr p")
    (auto simp: unusable_def dead_txn_def txn_from_sexp_def refusal_run split: option.splits)

lemma needs_env_dead:
  assumes "w_xps w i = Some p" and "unusable w p" and "needs_env c" and "handle_arg c = R_ExtPtr i"
  shows "\<exists>e. perform L c w = (Inl e, w)"
proof -
  obtain e where "env_from_sexp (handle_arg c) w = (Inl e, w)"
    using env_from_sexp_dead [OF assms(1,2)] assms(4) by auto
  then show ?thesis using assms(3) by (cases c) (simp_all add: env_entry_defs bind_refused)
qed

lemma needs_txn_dead:
  assumes "w_xps w i = Some p" and "unusable w p" and "needs_txn c" and "handle_arg c = R_ExtPtr i"
  shows "\<exists>e. perform L c w = (Inl e, w)"
proof -
  obtain e where "txn_from_sexp (handle_arg c) w = (Inl e, w)"
    using txn_from_sexp_dead [OF assms(1,2)] assms(4) by auto
  then show ?thesis using assms(3)
    by (cases c) (simp_all add: txn_entry_defs bind_refused, simp add: bindM_def stopM_def)
qed

lemma txn_abort_silent:
  assumes I: "inv w" and "w_xps w i = Some p" and "unusable w p"
  shows "wp (mdbx_txn_abort L (R_ExtPtr i)) (\<lambda>_. worse w) (\<lambda>_. worse w) w"
proof -
  obtain e where "txn_from_sexp (R_ExtPtr i) w = (Inl e, w)" using txn_from_sexp_dead [OF assms(2,3)] by blast
  then have foreign: "wp (finish_txn L (R_ExtPtr i) False) (\<lambda>_. worse w) (\<lambda>_. worse w) w"
    by (simp add: finish_txn_def wp_def bindM_def)
  have broken: "wp (thenM (abandon q) (thenM (mark_finished L t st_aborted) (set_prot (R_ExtPtr i) R_NilValue)))
      (\<lambda>_. worse w) (\<lambda>_. worse w) w" for q t
    by (rule worse_silent) (intro silent_rules, simp)
  have main: "wp (if th_txn h = None then returnM () else bindM (broken_graph h) (\<lambda>broken.
         if broken then thenM (abandon (map_option PTxn (th_txn h)))
          (thenM (mark_finished L t st_aborted) (set_prot (R_ExtPtr i) R_NilValue))
         else finish_txn L (R_ExtPtr i) False)) (\<lambda>_. worse w) (\<lambda>_. worse w) w" for h t
  proof -
    have "wp (broken_graph h) (\<lambda>b u. u = w) (\<lambda>_ u. u = w) w"
      by (auto simp: broken_graph_def wp_simps split: option.splits)
    then have "wp (bindM (broken_graph h) (\<lambda>broken.
         if broken then thenM (abandon (map_option PTxn (th_txn h)))
          (thenM (mark_finished L t st_aborted) (set_prot (R_ExtPtr i) R_NilValue))
         else finish_txn L (R_ExtPtr i) False)) (\<lambda>_. worse w) (\<lambda>_. worse w) w"
      unfolding wp_bind [of "broken_graph h"] by (rule wp_mono) (auto simp: foreign broken)
    then show ?thesis by (simp add: wp_return)
  qed
  show ?thesis
    unfolding mdbx_txn_abort_def
  proof (rule wp_txn_handle [OF I])
    show "sexp_ok (R_ExtPtr i) w" using assms(2) by (simp add: sexp_ok_def)
  next
    fix t h
    assume "w_txns w t = Some h"
    then show "wp (case Some t of None \<Rightarrow> returnM ()
     | Some t \<Rightarrow> bindM (txn_at t) (\<lambda>h.
         if th_txn h = None then returnM () else
         bindM (broken_graph h) (\<lambda>broken.
         if broken then thenM (abandon (map_option PTxn (th_txn h)))
          (thenM (mark_finished L t st_aborted) (set_prot (R_ExtPtr i) R_NilValue))
         else finish_txn L (R_ExtPtr i) False))) (\<lambda>_. worse w) (\<lambda>_. worse w) w"
      unfolding option.case wp_bind [of "txn_at t"] wp_txn_at using main by simp
  qed (simp_all add: wp_return)
qed

lemma txn_state_silent:
  assumes "inv w" and "w_xps w i = Some p" and "unusable w p"
  shows "wp (mdbx_txn_state L (R_ExtPtr i)) (\<lambda>_ w'. w' = w) (\<lambda>_ w'. w' = w) w"
proof -
  have ok: "th_poisoned h \<or> th_pid h \<noteq> w_pid w \<or> th_state h \<noteq> st_active
      \<or> (\<exists>a k. th_owner h = Some a \<and> w_envs w a = Some k \<and> eh_poisoned k)"
    if t: "xp_addr p = ATxn t" "w_txns w t = Some h" for t h
  proof (cases "th_owner h")
    case None
    then show ?thesis using inv_no_owner [OF assms(1) t(2)] by simp
  next
    case (Some a)
    then show ?thesis using inv_owner [OF assms(1) t(2) Some] assms(3) t
      by (fastforce simp: unusable_def dead_txn_def)
  qed
  have owner: "\<exists>k. w_envs w a = Some k" if "w_txns w t = Some h" "th_owner h = Some a" for t h a
    using inv_owner [OF assms(1) that] by blast
  show ?thesis
    unfolding mdbx_txn_state_def
  proof (rule wp_txn_handle [OF assms(1)])
    show "sexp_ok (R_ExtPtr i) w" using assms(2) by (simp add: sexp_ok_def)
  next
    fix j q t h
    assume "R_ExtPtr i = R_ExtPtr j" "w_xps w j = Some q" "xp_addr q = ATxn t" "w_txns w t = Some h"
    then show "wp (case Some t of None \<Rightarrow> returnM Rep_invalid
     | Some t \<Rightarrow> bindM (txn_at t) (\<lambda>h. bindM current_pid (\<lambda>pid.
         if th_pid h \<noteq> pid then returnM Rep_invalid else
         bindM (case th_owner h of None \<Rightarrow> returnM False
                | Some a \<Rightarrow> bindM (env_at a) (\<lambda>o_h. returnM (eh_poisoned o_h))) (\<lambda>owner_poisoned.
         if th_state h = st_active \<and> (th_poisoned h \<or> owner_poisoned) then returnM Rep_poisoned
         else case th_state h of
           st_active \<Rightarrow>
             if th_txn h \<noteq> None then
               bindM (txn_call (th_txn h) (L_txn_flags L)) (\<lambda>flags.
               returnM (if flags AND MDBX_TXN_ERROR \<noteq> 0 then Rep_failed else Rep_active))
             else returnM Rep_active
         | st_committed \<Rightarrow> returnM Rep_committed
         | st_aborted \<Rightarrow> returnM Rep_aborted)))) (\<lambda>_ w'. w' = w) (\<lambda>_ w'. w' = w) w"
      using assms(2) ok [of t h] owner [of t h]
      by (cases "th_owner h"; cases "th_state h"; auto simp: wp_simps)
  qed (simp_all add: wp_return)
qed

lemma is_open_silent: "wp (mdbx_env_is_open x) (\<lambda>_. worse w) (\<lambda>_. worse w) w"
  by (cases x) (auto simp: mdbx_env_is_open_def is_env_sexp_def has_tag_def env_addr_def wp_simps
      split: paddr.splits option.splits)

text \<open>C14: a handle that must not be used never reaches libmdbx. In any reachable state, for a
  pointer whose environment or transaction is closed, finished, poisoned by a panic, or inherited
  across a fork, no entry point called with it and no finalizer run on it changes libmdbx's
  state.\<close>

theorem unusable_handle_inert:
  assumes "library_ok L" and "reachable L w" and "w_xps w i = Some p" and "unusable w p"
    and "handle_arg c = R_ExtPtr i \<and> m = perform L c \<or> m = finalize_env L i \<or> m = finalize_txn L i"
    and "m w = (r, w')"
  shows "w_lib w' = w_lib w"
proof -
  have I: "inv w" by (rule inv_reachable [OF assms(2,1)])
  have "wp m (\<lambda>_ u. w_lib u = w_lib w) (\<lambda>_ u. w_lib u = w_lib w) w"
    if c: "handle_arg c = R_ExtPtr i" "m = perform L c"
  proof -
    consider "needs_env c" | "needs_txn c" | "c = Do_env_close (R_ExtPtr i)" | "c = Do_env_is_open (R_ExtPtr i)"
      | "c = Do_txn_abort (R_ExtPtr i)" | "c = Do_txn_state (R_ExtPtr i)"
      using c(1) by (cases c) auto
    then show ?thesis
    proof cases
      case 1 then show ?thesis using needs_env_dead [OF assms(3,4) _ c(1), of L] c(2) by (auto simp: wp_def)
    next
      case 2 then show ?thesis using needs_txn_dead [OF assms(3,4) _ c(1), of L] c(2) by (auto simp: wp_def)
    next
      case 3 then show ?thesis
        using c(2) assms(4) by (auto simp: unusable_def worse_def intro: wp_mono [OF env_close_silent [OF assms(3)]])
    next
      case 4 then show ?thesis
        using c(2) by (auto simp: ignoreM_def wp_fun worse_def intro: wp_mono [OF is_open_silent])
    next
      case 5 then show ?thesis
        using c(2) by (auto simp: worse_def intro: wp_mono [OF txn_abort_silent [OF I assms(3,4)]])
    next
      case 6 then show ?thesis
        using c(2) by (auto simp: ignoreM_def wp_fun intro: wp_mono [OF txn_state_silent [OF I assms(3,4)]])
    qed
  qed
  moreover have "wp (finalize_env L i) (\<lambda>_. worse w) (\<lambda>_. worse w) w" "wp (finalize_txn L i) (\<lambda>_. worse w) (\<lambda>_. worse w) w"
    using finalize_env_silent [OF assms(3)] finalize_txn_silent [OF assms(3)] assms(4) by (simp_all add: unusable_def)
  ultimately show ?thesis
    using assms(5,6) by (cases r) (auto simp: wp_def worse_def)
qed

theorem unusable_handle_inert_witness:
  "w_lib (snd (perform demo_lib (Do_txn_abort (R_ExtPtr 3)) (forked 8 demo_begun))) = demo_store"
proof -
  have r: "reachable demo_lib (forked 8 demo_begun)"
    by (rule reachable.later [OF demo_begun_reachable step.forking]) (simp add: demo_worlds)
  have p: "w_xps (forked 8 demo_begun) 3 = Some demo_txn_ptr" "unusable (forked 8 demo_begun) demo_txn_ptr"
      "w_lib (forked 8 demo_begun) = demo_store"
    by (simp_all add: demo_worlds forked_def unusable_def dead_txn_def)
  have "handle_arg (Do_txn_abort (R_ExtPtr 3)) = R_ExtPtr 3 \<and> perform demo_lib (Do_txn_abort (R_ExtPtr 3)) = perform demo_lib (Do_txn_abort (R_ExtPtr 3))
      \<or> perform demo_lib (Do_txn_abort (R_ExtPtr 3)) = finalize_env demo_lib 3 \<or> perform demo_lib (Do_txn_abort (R_ExtPtr 3)) = finalize_txn demo_lib 3"
    by simp
  from unusable_handle_inert [OF demo_ok r p(1,2) this prod.collapse [symmetric]] p(3) show ?thesis by simp
qed

section \<open>Closing what libmdbx must not close\<close>

text \<open>\<open>close_handle\<close> on a poisoned handle of this process, and on one inherited across a fork.\<close>

lemma close_poisoned:
  assumes "w_envs w a = Some h" and "eh_poisoned h" and "eh_pid h = w_pid w"
  shows "wp (close_handle L a b) (\<lambda>_ w'. \<exists>k. w_envs w' a = Some k \<and> eh_env k = None) (\<lambda>_ _. False) w"
proof (cases "eh_env h")
  case (Some e)
  have "wp (abandon_env a) (\<lambda>_. wp (set_env a (\<lambda>h. h\<lparr>eh_env := None\<rparr>))
      (\<lambda>_ w'. \<exists>k. w_envs w' a = Some k \<and> eh_env k = None) (\<lambda>_ _. False)) (\<lambda>_ _. False) (open_remove a w)"
    by (rule wp_abandon_env) (use assms in \<open>auto simp: wp_simps dest: abandoned_more_frame(2)\<close>)
  then show ?thesis using assms Some by (simp add: close_handle_def wp_fun wp_env_at wp_unregister_env wp_current_pid)
qed (use assms in \<open>simp add: close_handle_def wp_simps\<close>)

lemma close_foreign:
  assumes "w_envs w a = Some h" and "eh_env h \<noteq> None" and "eh_pid h \<noteq> w_pid w"
  shows "wp (close_handle L a True) (\<lambda>_ _. False)
    (\<lambda>e w'. e = EnvForeignClose (eh_pid h) (w_pid w) \<and> (\<exists>k. w_envs w' a = Some k \<and> eh_env k = None)) w"
proof -
  let ?E = "\<lambda>e w'. e = EnvForeignClose (eh_pid h) (w_pid w) \<and> (\<exists>k. w_envs w' a = Some k \<and> eh_env k = None)"
  have "wp (abandon_env a) (\<lambda>_. wp (set_env a (\<lambda>h. h\<lparr>eh_env := None\<rparr>))
      (\<lambda>_. wp (stopM (EnvForeignClose (eh_pid h) (w_pid w))) (\<lambda>_ _. False) ?E) ?E) ?E (open_remove a w)"
    by (rule wp_abandon_env) (use assms in \<open>auto simp: wp_simps dest: abandoned_more_frame(2)\<close>)
  then show ?thesis using assms by (auto simp: close_handle_def wp_fun wp_env_at wp_unregister_env wp_current_pid)
qed

lemma env_pointer_run:
  assumes "w_xps w i = Some p" and "''mdbx_env'' \<in> set (xp_class p)" and "xp_tag p = env_tag" and "xp_addr p = AEnv a"
  shows "wp (mdbx_env_close L (R_ExtPtr i)) Q E w =
    wp (bindM (env_at a) (\<lambda>h.
         thenM (whenM (eh_poisoned h) (detach_txns L a))
        (bindM (env_at a) (\<lambda>h.
         if eh_live h \<noteq> [] then stopM (EnvHasTxns (length (eh_live h)))
         else close_handle L a True)))) Q E w"
  using assms by (simp add: wp_def mdbx_env_close_def refusal_run)

lemma closed_released:
  assumes "inv w" and "w_envs w a = Some h" and "eh_env h = None"
  shows "eh_live h = [] \<and> a \<notin> set (w_open w)"
  using own_invD(3) [OF inv_D(3) [OF assms(1)] assms(2,3)] open_invD(2) [OF inv_D(4) [OF assms(1)], of a] assms(2,3)
  by auto

text \<open>C15: recovery from a panic. However many transactions a poisoned environment still has,
  \<open>mdbx_env_close_\<close> on it succeeds without entering libmdbx, and leaves the handle closed, with no
  transaction, and out of the open registry, so that the path can be opened again.\<close>

theorem poisoned_env_closes:
  assumes "library_ok L" and "reachable L w" and "w_xps w i = Some p"
    and "''mdbx_env'' \<in> set (xp_class p)" and "xp_tag p = env_tag" and "xp_addr p = AEnv a"
    and "w_envs w a = Some h" and "eh_poisoned h" and "eh_pid h = w_pid w"
  shows "\<exists>w' h'. mdbx_env_close L (R_ExtPtr i) w = (Inr (), w') \<and> w_lib w' = w_lib w
      \<and> w_envs w' a = Some h' \<and> eh_env h' = None \<and> eh_live h' = [] \<and> a \<notin> set (w_open w')"
proof -
  have I: "inv w" and A: "abort_ends L" using inv_reachable [OF assms(2,1)] assms(1) by (simp_all add: library_ok_def)
  let ?rest = "bindM (env_at a) (\<lambda>h. if eh_live h \<noteq> [] then stopM (EnvHasTxns (length (eh_live h))) else close_handle L a True)"
  let ?Q = "\<lambda>_ w'. inv w' \<and> (\<exists>k. w_envs w' a = Some k \<and> eh_env k = None)"
  have rest: "wp ?rest ?Q (\<lambda>_ _. False) v"
    if v: "inv v" "worse w v" "w_envs v a = Some k" "eh_live k = []" for v k
  proof -
    have k: "eh_poisoned k" "eh_pid k = w_pid v" using v(2,3) assms(7-9) unfolding worse_def by (metis option.inject)+
    have "wp (close_handle L a True) ?Q (\<lambda>_ _. False) v"
      using wp_conj [OF close_poisoned [OF v(3) k, of L True] wp_close_idle [OF v(1,3,4), where Q = "\<lambda>_. inv" and E = "\<lambda>_ _. True" and L = L and propagate = True]]
      by (rule wp_mono) auto
    then show ?thesis using v by (simp add: wp_bind wp_env_at)
  qed
  have d: "dead_env w a" using assms(7,8) by (simp add: dead_env_def healthy_def)
  have "wp (detach_txns L a) (\<lambda>_ v. inv v \<and> (\<exists>k. w_envs v a = Some k \<and> eh_live k = []) \<and> worse w v) (\<lambda>_ _. False) w"
    using wp_conj [OF wp_detach_txns [OF I A assms(7), where Q = "\<lambda>_ v. inv v \<and> (\<exists>k. w_envs v a = Some k \<and> eh_live k = [])" and E = "\<lambda>_ _. False"]
        detach_silent [OF d, of L]]
    by (rule wp_mono) auto
  then have "wp (mdbx_env_close L (R_ExtPtr i)) ?Q (\<lambda>_ _. False) w"
    unfolding env_pointer_run [OF assms(3-6)] wp_bind [of "env_at a"] wp_env_at assms(7) option.case wp_then wp_when if_P [OF assms(8)]
    by (rule wp_mono) (use rest in \<open>auto simp: wp_bind wp_env_at\<close>)
  moreover have "wp (mdbx_env_close L (R_ExtPtr i)) (\<lambda>_. worse w) (\<lambda>_. worse w) w"
    by (rule env_close_silent [OF assms(3)]) (use assms(6) d in simp)
  ultimately show ?thesis
    using closed_released by (fastforce simp: wp_def worse_def split: prod.splits sum.splits)
qed

theorem poisoned_env_closes_witness:
  "\<exists>w' h'. mdbx_env_close demo_lib (R_ExtPtr 1) demo_panicked = (Inr (), w') \<and> w_lib w' = w_lib demo_panicked
     \<and> w_envs w' 0 = Some h' \<and> eh_env h' = None \<and> eh_live h' = [] \<and> 0 \<notin> set (w_open w')"
  by (rule poisoned_env_closes [OF demo_ok demo_panicked_reachable, where p = demo_env_ptr
        and h = "demo_env\<lparr>eh_live := [2], eh_poisoned := True\<rparr>"])
    (simp_all add: demo_panicked_def demo_worlds)

end
