(* ===== verification/Mdbx_Runs.thy ===== *)
theory Mdbx_Runs
  imports Mdbx_Unusable
begin

text \<open>
  What an operation on a usable handle does, computed: the handle is accepted, the guarded call
  runs, and its result is the library's. These are the equations the properties of the data
  operations, of commit and abort, and of the guard are read off.
\<close>

section \<open>Accepting a usable handle\<close>

definition txn_ptr :: "'n world \<Rightarrow> nat \<Rightarrow> nat \<Rightarrow> bool" where
  "txn_ptr w i t \<longleftrightarrow>
     (\<exists>p. w_xps w i = Some p \<and> ''mdbx_txn'' \<in> set (xp_class p) \<and> xp_tag p = txn_tag \<and> xp_addr p = ATxn t)"

definition env_ptr :: "'n world \<Rightarrow> nat \<Rightarrow> nat \<Rightarrow> bool" where
  "env_ptr w i a \<longleftrightarrow>
     (\<exists>p. w_xps w i = Some p \<and> ''mdbx_env'' \<in> set (xp_class p) \<and> xp_tag p = env_tag \<and> xp_addr p = AEnv a)"

lemma txn_from_sexp_live:
  assumes "inv w" and "txn_ptr w i t" and "live_txn t w"
  shows "txn_from_sexp (R_ExtPtr i) w = (Inr t, w)"
proof -
  obtain th a h p e where t: "w_txns w t = Some th" "th_txn th = Some p" "th_owner th = Some a"
      "w_envs w a = Some h" "eh_env h = Some e" "healthy w h"
    using assms(3) by (auto simp: live_txn_def)
  obtain k where "w_envs w a = Some k" "th_pid th = eh_pid k" "th_poisoned th \<Longrightarrow> eh_poisoned k"
    using inv_owner [OF assms(1) t(1,3)] by metis
  then have "th_pid th = w_pid w" "\<not> th_poisoned th" using t(4,6) by (auto simp: healthy_def)
  then show ?thesis using assms(2) t
    by (auto simp: txn_ptr_def txn_from_sexp_def refusal_run healthy_def)
qed

lemma env_from_sexp_open:
  assumes "env_ptr w i a" and "open_env a w"
  shows "env_from_sexp (R_ExtPtr i) w = (Inr a, w)"
  using assms by (auto simp: env_ptr_def open_env_def healthy_def env_from_sexp_def refusal_run)

section \<open>Guarded calls that return\<close>

lemma restore_guard [simp]:
  "set_guard (w_guard w) ((push_frame w)\<lparr>w_lib := n\<rparr>) = w\<lparr>w_lib := n\<rparr>"
  by (simp add: set_guard_def push_frame_def)

lemma guard_return:
  assumes "call (push_frame w) = (Inr x, (push_frame w)\<lparr>w_lib := n\<rparr>)"
  shows "guard call poison w = (Inr x, w\<lparr>w_lib := n\<rparr>)"
  using assms by (simp add: guard_def mdbx_r_run_guarded_def bindM_def returnM_def Let_def)

lemma txn_call_run:
  assumes "txn_usable q e w" and "f q (w_lib w) = (NRet x, n)"
  shows "txn_call (Some q) f w = (Inr x, w\<lparr>w_lib := n\<rparr>)"
  using assms by (simp add: txn_call_def txn_usable_def run_simps native_def)

lemma env_call_run:
  assumes "env_usable e w" and "f e (w_lib w) = (NRet x, n)"
  shows "env_call (Some e) f w = (Inr x, w\<lparr>w_lib := n\<rparr>)"
  using assms by (simp add: env_call_def env_usable_def run_simps native_def)

lemma usable_push [simp]: "txn_usable q e (push_frame w) = txn_usable q e w" "env_usable e (push_frame w) = env_usable e w"
  by (simp_all add: txn_usable_def env_usable_def)

lemma guard_on_txn:
  assumes "w_txns w t = Some th" and "th_txn th = Some q" and "txn_usable q e w"
    and "f th q (w_lib w) = (NRet x, n)"
  shows "guard (bindM (txn_at t) (\<lambda>h. txn_call (th_txn h) (f h))) poison w = (Inr x, w\<lparr>w_lib := n\<rparr>)"
proof (rule guard_return)
  have "txn_call (Some q) (f th) (push_frame w) = (Inr x, (push_frame w)\<lparr>w_lib := n\<rparr>)"
    by (rule txn_call_run) (use assms in simp_all)
  then show "bindM (txn_at t) (\<lambda>h. txn_call (th_txn h) (f h)) (push_frame w) = (Inr x, (push_frame w)\<lparr>w_lib := n\<rparr>)"
    using assms(1,2) by (simp add: bindM_def txn_at_def fetchM_def)
qed

lemma guard_on_env:
  assumes "w_envs w a = Some h" and "eh_env h = Some e" and "env_usable e w"
    and "f h e (w_lib w) = (NRet x, n)"
  shows "guard (bindM (env_at a) (\<lambda>h. env_call (eh_env h) (f h))) poison w = (Inr x, w\<lparr>w_lib := n\<rparr>)"
proof (rule guard_return)
  have "env_call (Some e) (f h) (push_frame w) = (Inr x, (push_frame w)\<lparr>w_lib := n\<rparr>)"
    by (rule env_call_run) (use assms in simp_all)
  then show "bindM (env_at a) (\<lambda>h. env_call (eh_env h) (f h)) (push_frame w) = (Inr x, (push_frame w)\<lparr>w_lib := n\<rparr>)"
    using assms(1,2) by (simp add: bindM_def env_at_def fetchM_def)
qed

section \<open>Guarded calls that panic\<close>

lemma panic_run:
  assumes "panic_wf (w_last_panic w)" and "w_guard w = k # fs"
  shows "\<exists>q. record_panic m f l (w_last_panic w) = Some q \<and> panic_wf q
     \<and> mdbx_r_panic m f l w = (Inl (Longjmp k), w\<lparr>w_last_panic := q\<rparr>)"
  using record_panic_spec [OF assms(1), of m f l] assms(2)
  by (auto simp: mdbx_r_panic_def run_simps)

text \<open>The condition a contained panic becomes: the two texts as the static record holds them.\<close>

definition panic_error :: "string option \<Rightarrow> string option \<Rightarrow> nat \<Rightarrow> err" where
  "panic_error m f l =
     AssertFailed (take 255 (c_string (case m of Some s \<Rightarrow> s | None \<Rightarrow> ''(unknown assertion)'')))
       (take 127 (c_string (case f of Some s \<Rightarrow> s | None \<Rightarrow> ''(unknown function)''))) l"

lemma guard_panic:
  assumes "panic_wf (w_last_panic v)" and "w_guard v = length (w_guard w) # w_guard w"
    and "call (push_frame w) = mdbx_r_panic m f l v"
    and "\<And>q. poison (set_guard (w_guard w) (v\<lparr>w_last_panic := q\<rparr>)) = (Inr (), u q)"
    and "\<And>q. w_last_panic (u q) = q"
  shows "\<exists>q. panic_wf q \<and> guard call (Some poison) w = (Inl (panic_error m f l), u q)"
proof -
  obtain q where q: "panic_wf q" "record_panic m f l (w_last_panic v) = Some q" "pi_line q = l"
      "c_string (pi_message q) = take 255 (c_string (case m of Some s \<Rightarrow> s | None \<Rightarrow> ''(unknown assertion)''))"
      "c_string (pi_function q) = take 127 (c_string (case f of Some s \<Rightarrow> s | None \<Rightarrow> ''(unknown function)''))"
    using record_panic_spec [OF assms(1), of m f l] by blast
  have "call (push_frame w) = (Inl (Longjmp (length (w_guard w))), v\<lparr>w_last_panic := q\<rparr>)"
    using assms(2,3) q(2) by (simp add: mdbx_r_panic_def run_simps)
  then have "guard call (Some poison) w = (Inl (panic_error m f l), u q)"
    using assms(4,5) q by (simp add: guard_def mdbx_r_run_guarded_def run_simps stop_after_panic_def panic_error_def)
  then show ?thesis using q(1) by blast
qed

lemma txn_call_panics:
  assumes "txn_usable q e w" and "f q (w_lib w) = (NPanic m g l, n)"
  shows "txn_call (Some q) f w = mdbx_r_panic m g l (kill_env e (w\<lparr>w_lib := n\<rparr>))"
  using assms by (simp add: txn_call_def txn_usable_def run_simps native_def)

lemma env_call_panics:
  assumes "env_usable e w" and "f e (w_lib w) = (NPanic m g l, n)"
  shows "env_call (Some e) f w = mdbx_r_panic m g l (kill_env e (w\<lparr>w_lib := n\<rparr>))"
  using assms by (simp add: env_call_def env_usable_def run_simps native_def)

section \<open>The guarded call of a transaction, both ways\<close>

definition panicked_txn :: "nat \<Rightarrow> nat \<Rightarrow> txn_handle \<Rightarrow> nat \<Rightarrow> env_handle \<Rightarrow> 'n \<Rightarrow> panic_info \<Rightarrow> 'n world \<Rightarrow> 'n world" where
  "panicked_txn e t th a h n q w =
     put_env a (h\<lparr>eh_poisoned := True\<rparr>) (put_txn t (th\<lparr>th_poisoned := True\<rparr>)
       ((kill_env e (w\<lparr>w_lib := n\<rparr>))\<lparr>w_last_panic := q\<rparr>))"

lemma restore_after_panic [simp]:
  "set_guard (w_guard w) ((kill_env e ((push_frame w)\<lparr>w_lib := n\<rparr>))\<lparr>w_last_panic := q\<rparr>)
     = (kill_env e (w\<lparr>w_lib := n\<rparr>))\<lparr>w_last_panic := q\<rparr>"
  by (simp add: set_guard_def push_frame_def kill_env_def)

text \<open>Whatever a guarded function was doing with a transaction when libmdbx panicked.\<close>

lemma txn_guard_panics:
  assumes "panic_wf (w_last_panic w)" and "w_txns w t = Some th" and "th_owner th = Some a" and "w_envs w a = Some h"
    and "call (push_frame w) = mdbx_r_panic m g l (kill_env e ((push_frame w)\<lparr>w_lib := n\<rparr>))"
  shows "\<exists>r. panic_wf r \<and> guard call (Some (poison_txn t)) w = (Inl (panic_error m g l), panicked_txn e t th a h n r w)"
proof (rule guard_panic [where v = "kill_env e ((push_frame w)\<lparr>w_lib := n\<rparr>)"])
  let ?v = "kill_env e ((push_frame w)\<lparr>w_lib := n\<rparr>)"
  show "panic_wf (w_last_panic ?v)" "w_guard ?v = length (w_guard w) # w_guard w"
    using assms(1) by simp_all
  show "call (push_frame w) = mdbx_r_panic m g l ?v" by (rule assms(5))
  show "poison_txn t (set_guard (w_guard w) (?v\<lparr>w_last_panic := r\<rparr>)) = (Inr (), panicked_txn e t th a h n r w)" for r
    using assms(2-4)
    by (simp add: poison_txn_def set_txn_def set_env_def txn_at_def env_at_def run_simps panicked_txn_def)
  show "w_last_panic (panicked_txn e t th a h n r w) = r" for r by (simp add: panicked_txn_def)
qed

text \<open>A panic ends the statements after it too.\<close>

lemma panic_bind:
  assumes "panic_wf (w_last_panic w)" and "w_guard w = k # fs"
  shows "bindM (mdbx_r_panic m f l) g w = mdbx_r_panic m f l w"
proof -
  obtain q where "record_panic m f l (w_last_panic w) = Some q"
    using record_panic_spec [OF assms(1), of m f l] by blast
  then show ?thesis using assms(2) by (simp add: mdbx_r_panic_def run_simps)
qed

lemma guard_on_txn_panics:
  assumes "panic_wf (w_last_panic w)" and "w_txns w t = Some th" and "th_txn th = Some q"
    and "txn_usable q e w" and "th_owner th = Some a" and "w_envs w a = Some h"
    and "f th q (w_lib w) = (NPanic m g l, n)"
  shows "\<exists>r. panic_wf r \<and> guard (bindM (txn_at t) (\<lambda>h. txn_call (th_txn h) (f h))) (Some (poison_txn t)) w
     = (Inl (panic_error m g l), panicked_txn e t th a h n r w)"
proof (rule txn_guard_panics [OF assms(1,2,5,6)])
  have "txn_call (Some q) (f th) (push_frame w) = mdbx_r_panic m g l (kill_env e ((push_frame w)\<lparr>w_lib := n\<rparr>))"
    by (rule txn_call_panics) (use assms in simp_all)
  then show "bindM (txn_at t) (\<lambda>h. txn_call (th_txn h) (f h)) (push_frame w)
      = mdbx_r_panic m g l (kill_env e ((push_frame w)\<lparr>w_lib := n\<rparr>))"
    using assms(2,3) by (simp add: bindM_def txn_at_def fetchM_def)
qed

lemma guard_on_txn_returned:
  assumes "inv w" and "live_txn t w" and "w_txns w t = Some th"
    and "guard (bindM (txn_at t) (\<lambda>h. txn_call (th_txn h) (f h))) (Some (poison_txn t)) w = (Inr x, w')"
  shows "\<exists>q n. th_txn th = Some q \<and> f th q (w_lib w) = (NRet x, n) \<and> w' = w\<lparr>w_lib := n\<rparr>"
proof -
  obtain q a h e where t: "th_txn th = Some q" "th_owner th = Some a" "w_envs w a = Some h" "txn_usable q e w"
    using live_txn_ready [OF assms(1,2)] assms(3) by (metis option.inject)
  obtain r n where f: "f th q (w_lib w) = (r, n)" by (cases "f th q (w_lib w)")
  show ?thesis
  proof (cases r)
    case (NRet y)
    then show ?thesis using guard_on_txn [where f = f, OF assms(3) t(1,4)] f assms(4) t(1) by auto
  next
    case (NPanic m g l)
    then show ?thesis
      using guard_on_txn_panics [where f = f, OF inv_calm(2) [OF assms(1)] assms(3) t(1,4,2,3)] f assms(4) by auto
  qed
qed

section \<open>Resolving a database\<close>

lemma cached_after_cache: "cached_dbi h name = None \<Longrightarrow> cached_dbi (cache_dbi name d h) name = Some d"
  by (cases name) (auto simp: cached_dbi_def cache_dbi_def find_snoc)

lemma cached_dbi_dbi [simp]: "cached_dbi (h\<lparr>th_dbi := d\<rparr>) name = cached_dbi h name"
  by (cases name) (simp_all add: cached_dbi_def)

lemma cache_frame [simp]:
  "th_txn (cache_dbi name d h) = th_txn h" "th_owner (cache_dbi name d h) = th_owner h"
  "th_state (cache_dbi name d h) = th_state h" "th_write (cache_dbi name d h) = th_write h"
  "th_poisoned (cache_dbi name d h) = th_poisoned h" "th_pid (cache_dbi name d h) = th_pid h"
  by (simp_all add: cache_dbi_def split: option.splits)

text \<open>After a successful resolution the transaction handle addresses the database and remembers it.\<close>

lemma ensure_dbi_after:
  assumes "inv w" and "live_txn t w" and "w_txns w t = Some th" and "ensure_dbi L t name w = (Inr d, w')"
  shows "\<exists>th' n. w' = put_txn t th' (w\<lparr>w_lib := n\<rparr>) \<and> th_dbi th' = d \<and> cached_dbi th' name = Some d
     \<and> th_txn th' = th_txn th \<and> th_owner th' = th_owner th \<and> th_write th' = th_write th
     \<and> (cached_dbi th name = Some d \<and> n = w_lib w
        \<or> cached_dbi th name = None \<and> (\<forall>q. th_txn th = Some q \<longrightarrow>
             L_dbi_open L q name MDBX_DB_DEFAULTS (w_lib w) = (NRet (MDBX_SUCCESS, d), n)))"
proof (cases "cached_dbi th name")
  case (Some c)
  then have "d = c" "w' = put_txn t (th\<lparr>th_dbi := c\<rparr>) w"
    using assms(3,4) by (auto simp: ensure_dbi_def bindM_def txn_at_def fetchM_def set_txn_def run_simps)
  then show ?thesis using Some by (intro exI [of _ "th\<lparr>th_dbi := c\<rparr>"] exI [of _ "w_lib w"]) simp
next
  case None
  obtain r u where g: "guard (dbi_call L t name MDBX_DB_DEFAULTS) (Some (poison_txn t)) w = (Inr r, u)"
    using assms(3,4) None by (cases "guard (dbi_call L t name MDBX_DB_DEFAULTS) (Some (poison_txn t)) w")
      (auto simp: ensure_dbi_def bindM_def txn_at_def fetchM_def split: sum.splits prod.splits)
  obtain q n where q: "th_txn th = Some q" "L_dbi_open L q name MDBX_DB_DEFAULTS (w_lib w) = (NRet r, n)" "u = w\<lparr>w_lib := n\<rparr>"
    using guard_on_txn_returned [where f = "\<lambda>_ p. L_dbi_open L p name MDBX_DB_DEFAULTS", OF assms(1-3)] g
    by (auto simp: dbi_call_def)
  have "fst r = MDBX_SUCCESS \<and> d = snd r \<and> w' = put_txn t ((cache_dbi name d th)\<lparr>th_dbi := d\<rparr>) u"
    using assms(3,4) None g q(3)
    by (auto simp: ensure_dbi_def check_def bindM_def txn_at_def fetchM_def set_txn_def run_simps stop_missing_dbi_def
        put_txn_def env_at_def split: option.splits if_splits)
  then show ?thesis using None q
    by (intro exI [of _ "(cache_dbi name d th)\<lparr>th_dbi := d\<rparr>"] exI [of _ n]) (auto simp: cached_after_cache prod_eq_iff)
qed

end
