(* ===== verification/Mdbx_Outcomes.thy ===== *)
theory Mdbx_Outcomes
  imports Mdbx_Runs
begin

text \<open>
  How a transaction ends: what commit and abort leave for every status libmdbx can answer, that a
  second abort always settles what the first one did not, and what a panic inside any guarded
  call on a transaction leaves behind.
\<close>

section \<open>A panic is contained\<close>

text \<open>C16: a panic inside a guarded call on a live transaction becomes one R error that carries the
  message, the function and the line, cut to the two buffers; the chain of frames is as it was,
  the transaction and its environment are both marked, so that neither is usable again, and
  nothing else of the package's memory changed.\<close>

theorem panic_contained:
  assumes "library_ok L" and "reachable L w" and "live_txn t w" and "w_txns w t = Some th"
    and "th_txn th = Some q" and "f th q (w_lib w) = (NPanic m g l, n)"
  shows "\<exists>a h w'. guard (bindM (txn_at t) (\<lambda>h. txn_call (th_txn h) (f h))) (Some (poison_txn t)) w
        = (Inl (panic_error m g l), w')
     \<and> th_owner th = Some a \<and> w_envs w a = Some h
     \<and> w_txns w' = (w_txns w)(t \<mapsto> th\<lparr>th_poisoned := True\<rparr>)
     \<and> w_envs w' = (w_envs w)(a \<mapsto> h\<lparr>eh_poisoned := True\<rparr>)
     \<and> w_guard w' = w_guard w \<and> w_xps w' = w_xps w \<and> w_open w' = w_open w \<and> w_lib w' = n
     \<and> \<not> live_txn t w' \<and> \<not> open_env a w'"
proof -
  have I: "inv w" by (rule inv_reachable [OF assms(2,1)])
  obtain a h e where t: "th_owner th = Some a" "w_envs w a = Some h" "txn_usable q e w"
    using live_txn_ready [OF I assms(3)] assms(4,5) by (metis option.inject)
  obtain r where r: "guard (bindM (txn_at t) (\<lambda>h. txn_call (th_txn h) (f h))) (Some (poison_txn t)) w
      = (Inl (panic_error m g l), panicked_txn e t th a h n r w)"
    using guard_on_txn_panics [where f = f, OF inv_calm(2) [OF I] assms(4,5) t(3,1,2) assms(6)] by blast
  let ?v = "panicked_txn e t th a h n r w"
  have "\<not> live_txn t ?v" "\<not> open_env a ?v"
    using t(1) by (auto simp: panicked_txn_def live_txn_def open_env_def healthy_def)
  moreover have "w_txns ?v = (w_txns w)(t \<mapsto> th\<lparr>th_poisoned := True\<rparr>)"
      "w_envs ?v = (w_envs w)(a \<mapsto> h\<lparr>eh_poisoned := True\<rparr>)" "w_guard ?v = w_guard w"
      "w_xps ?v = w_xps w" "w_open ?v = w_open w" "w_lib ?v = n"
    by (simp_all add: panicked_txn_def)
  ultimately show ?thesis using r t(1,2) by blast
qed

definition demo_failing :: "demo world" where
  "demo_failing = demo_begun\<lparr>w_lib := demo_store\<lparr>d_panics := True\<rparr>\<rparr>"

lemma demo_failing_reachable: "reachable demo_lib demo_failing"
  unfolding demo_failing_def by (rule reachable.later [OF demo_begun_reachable step.outside])

lemma demo_failing_live: "live_txn 2 demo_failing"
  by (simp add: demo_failing_def live_txn_def demo_worlds healthy_def)

theorem panic_contained_witness:
  "\<exists>w'. guard (get_call demo_lib 2 ''a'') (Some (poison_txn 2)) demo_failing
     = (Inl (panic_error (Some ''assert'') (Some ''f'') 7), w') \<and> \<not> live_txn 2 w'"
proof -
  have w: "w_txns demo_failing 2 = Some demo_txn" "th_txn demo_txn = Some 1"
    by (simp_all add: demo_failing_def demo_worlds)
  have "L_get demo_lib 1 (th_dbi demo_txn) ''a'' (w_lib demo_failing)
      = (NPanic (Some ''assert'') (Some ''f'') 7, w_lib demo_failing)"
    by (simp add: demo_failing_def demo_lib_def demo_call_def)
  from panic_contained [where f = "\<lambda>h p. L_get demo_lib p (th_dbi h) ''a''",
      OF demo_ok demo_failing_reachable demo_failing_live w this]
  show ?thesis by (auto simp: get_call_def)
qed

section \<open>The end of a transaction\<close>

lemma wp_runs: "wp m Q (\<lambda>_ _. False) s \<Longrightarrow> \<exists>x s'. m s = (Inr x, s') \<and> Q x s'"
  by (auto simp: wp_def split: prod.splits sum.splits)

lemma push_ended [simp]:
  "set_guard (w_guard w) (txn_ended q ((push_frame w)\<lparr>w_lib := n\<rparr>)) = txn_ended q (w\<lparr>w_lib := n\<rparr>)"
  by (simp add: set_guard_def push_frame_def txn_ended_def)

text \<open>The guarded commit or abort, when libmdbx answers.\<close>

lemma finish_call_run:
  assumes "w_txns w t = Some th" and "th_txn th = Some q" and "txn_usable q e w"
    and "(if commit then L_txn_commit L else L_txn_abort L) q (w_lib w) = (NRet rc, n)"
  shows "guard (finish_call L t commit) poison w
    = (Inr rc, if rc = MDBX_THREAD_MISMATCH then w\<lparr>w_lib := n\<rparr> else txn_ended q (w\<lparr>w_lib := n\<rparr>))"
proof -
  have "txn_call (Some q) (if commit then L_txn_commit L else L_txn_abort L) (push_frame w)
      = (Inr rc, (push_frame w)\<lparr>w_lib := n\<rparr>)"
    by (rule txn_call_run) (use assms in simp_all)
  then have "finish_call L t commit (push_frame w) = (Inr rc,
      if rc = MDBX_THREAD_MISMATCH then (push_frame w)\<lparr>w_lib := n\<rparr> else txn_ended q ((push_frame w)\<lparr>w_lib := n\<rparr>))"
    using assms(1,2) by (simp add: finish_call_def txn_end_call_def bindM_def txn_at_def fetchM_def thenM_def
        whenM_def returnM_def modifyM_def)
  then show ?thesis
    by (simp add: guard_def mdbx_r_run_guarded_def bindM_def returnM_def Let_def)
qed

text \<open>The state a transaction is left in by a commit or an abort with a given status.\<close>

definition end_state :: "bool \<Rightarrow> int \<Rightarrow> txn_state" where
  "end_state commit rc = (if commit \<and> rc = MDBX_SUCCESS then st_committed else st_aborted)"

definition end_result :: "'n libmdbx \<Rightarrow> int \<Rightarrow> err + unit" where
  "end_result L rc =
     (if rc = MDBX_SUCCESS then Inr ()
      else if rc = MDBX_RESULT_TRUE then Inl RolledBack else Inl (MdbxError (condition_of L rc)))"

lemma end_state_over [simp]: "end_state commit rc \<noteq> st_active"
  by (simp add: end_state_def)

lemma finish_run:
  assumes I: "inv w" and p: "txn_ptr w i t" "w_xps w i = Some p" and l: "live_txn t w"
    and t: "w_txns w t = Some th" "th_txn th = Some q"
    and rc: "(if commit then L_txn_commit L else L_txn_abort L) q (w_lib w) = (NRet rc, n)"
  shows "if rc = MDBX_THREAD_MISMATCH
    then finish_txn L (R_ExtPtr i) commit w = (end_result L rc, w\<lparr>w_lib := n\<rparr>)
    else \<exists>a h r. th_owner th = Some a \<and> w_envs w a = Some h \<and>
      finish_txn L (R_ExtPtr i) commit w = (end_result L rc,
        put_xptr i (p\<lparr>xp_prot := R_NilValue\<rparr>)
          (put_txn t (finished_txn (end_state commit rc) th)
            (put_env a (h\<lparr>eh_live := [], eh_roots := r\<rparr>) (txn_ended q (w\<lparr>w_lib := n\<rparr>)))))"
proof -
  obtain a h e where o: "th_owner th = Some a" "w_envs w a = Some h" "txn_usable q e w"
    using live_txn_ready [OF I l] t by (metis option.inject)
  have live: "eh_live h = [t]" using inv_owner [OF I t(1) o(1)] o(2) by (metis option.inject)
  note start = txn_from_sexp_live [OF I p(1) l] finish_call_run [OF t o(3) rc, of "Some (poison_txn t)"]
  show ?thesis
  proof (cases "rc = MDBX_THREAD_MISMATCH")
    case True
    then show ?thesis
      by (simp add: finish_txn_def bindM_def start thenM_def whenM_def check_def stopM_def end_result_def branch_codes_distinct)
  next
    case False
    have "wp (mark_finished L t (end_state commit rc)) (\<lambda>_ w'. \<exists>r. w' = put_txn t (finished_txn (end_state commit rc) th)
        (put_env a (h\<lparr>eh_live := [], eh_roots := r\<rparr>) (txn_ended q (w\<lparr>w_lib := n\<rparr>)))) (\<lambda>_ _. False) (txn_ended q (w\<lparr>w_lib := n\<rparr>))"
      by (rule wp_mark_native [OF I t o(1,2) live]) auto
    then obtain r where r: "mark_finished L t (end_state commit rc) (txn_ended q (w\<lparr>w_lib := n\<rparr>)) = (Inr (),
        put_txn t (finished_txn (end_state commit rc) th) (put_env a (h\<lparr>eh_live := [], eh_roots := r\<rparr>) (txn_ended q (w\<lparr>w_lib := n\<rparr>))))"
      by (auto dest: wp_runs)
    have "finish_txn L (R_ExtPtr i) commit w = (end_result L rc,
        put_xptr i (p\<lparr>xp_prot := R_NilValue\<rparr>)
          (put_txn t (finished_txn (end_state commit rc) th)
            (put_env a (h\<lparr>eh_live := [], eh_roots := r\<rparr>) (txn_ended q (w\<lparr>w_lib := n\<rparr>)))))"
      using False p(2) r [unfolded end_state_def] unfolding end_state_def [symmetric]
      by (simp add: finish_txn_def bindM_def start thenM_def whenM_def check_def stopM_def returnM_def modifyM_def
          end_state_def set_prot_def set_xptr_def xptr_at_def fetchM_def end_result_def branch_codes_distinct)
    then show ?thesis unfolding if_not_P [OF False] using o(1,2) by blast
  qed
qed

text \<open>C17: commit, for every status libmdbx can answer. On \<open>MDBX_THREAD_MISMATCH\<close> nothing was
  ended: the error is reported and the handle stays live. On any other status the native
  transaction is gone: the handle is finished and disowned, the environment has no transaction
  any more, and the result is success, the rolled-back error, or the error of the status; only
  \<open>MDBX_SUCCESS\<close> is recorded as committed.\<close>

theorem commit_outcome:
  assumes "library_ok L" and "reachable L w" and "txn_ptr w i t" and "live_txn t w"
    and "w_txns w t = Some th" and "th_txn th = Some q" and "th_owner th = Some a"
    and "L_txn_commit L q (w_lib w) = (NRet rc, n)"
  shows "\<exists>w'. mdbx_txn_commit L (R_ExtPtr i) w
        = (if rc = MDBX_SUCCESS then Inr () else if rc = MDBX_RESULT_TRUE then Inl RolledBack
           else Inl (MdbxError (condition_of L rc)), w')
     \<and> w_lib w' = n
     \<and> (if rc = MDBX_THREAD_MISMATCH then w' = w\<lparr>w_lib := n\<rparr> \<and> live_txn t w'
        else w_txns w' = (w_txns w)(t \<mapsto> th\<lparr>th_txn := None,
                 th_state := if rc = MDBX_SUCCESS then st_committed else st_aborted, th_owner := None\<rparr>)
             \<and> (\<exists>h. w_envs w' a = Some h \<and> eh_live h = []) \<and> open_env a w' \<and> \<not> live_txn t w')"
proof -
  have I: "inv w" by (rule inv_reachable [OF assms(2,1)])
  obtain p where p: "w_xps w i = Some p" using assms(3) by (auto simp: txn_ptr_def)
  note run = finish_run [where commit = True, unfolded if_True, OF I assms(3) p assms(4-6,8)]
  show ?thesis
  proof (cases "rc = MDBX_THREAD_MISMATCH")
    case True
    have "mdbx_txn_commit L (R_ExtPtr i) w = (end_result L rc, w\<lparr>w_lib := n\<rparr>)"
      using run unfolding if_P [OF True] mdbx_txn_commit_def .
    moreover have "live_txn t (w\<lparr>w_lib := n\<rparr>)" using assms(4) by (simp add: live_txn_def healthy_def)
    ultimately show ?thesis unfolding if_P [OF True] end_result_def by (intro exI [of _ "w\<lparr>w_lib := n\<rparr>"]) simp
  next
    case False
    obtain h r where h: "w_envs w a = Some h" and r: "mdbx_txn_commit L (R_ExtPtr i) w = (end_result L rc,
        put_xptr i (p\<lparr>xp_prot := R_NilValue\<rparr>)
          (put_txn t (finished_txn (end_state True rc) th)
            (put_env a (h\<lparr>eh_live := [], eh_roots := r\<rparr>) (txn_ended q (w\<lparr>w_lib := n\<rparr>)))))"
      using run assms(7) unfolding if_not_P [OF False] mdbx_txn_commit_def by auto
    let ?v = "put_xptr i (p\<lparr>xp_prot := R_NilValue\<rparr>)
          (put_txn t (finished_txn (end_state True rc) th)
            (put_env a (h\<lparr>eh_live := [], eh_roots := r\<rparr>) (txn_ended q (w\<lparr>w_lib := n\<rparr>))))"
    obtain e where e: "eh_env h = Some e" "healthy w h"
      using assms(4,5,7) h by (auto simp: live_txn_def)
    have "open_env a ?v" using e by (simp add: open_env_def healthy_def)
    moreover have "\<not> live_txn t ?v" by (simp add: live_txn_def)
    moreover have "w_txns ?v = (w_txns w)(t \<mapsto> th\<lparr>th_txn := None,
        th_state := if rc = MDBX_SUCCESS then st_committed else st_aborted, th_owner := None\<rparr>)"
      by (simp add: finished_txn_def end_state_def)
    moreover have "w_lib ?v = n" "\<exists>h. w_envs ?v a = Some h \<and> eh_live h = []" by simp_all
    ultimately show ?thesis using r unfolding if_not_P [OF False] end_result_def by blast
  qed
qed

theorem commit_outcome_witness:
  "\<exists>w'. mdbx_txn_commit demo_lib (R_ExtPtr 3) demo_begun = (Inr (), w') \<and> \<not> live_txn 2 w' \<and> open_env 0 w'"
proof -
  have w: "txn_ptr demo_begun 3 2" "live_txn 2 demo_begun" "w_txns demo_begun 2 = Some demo_txn"
      "th_txn demo_txn = Some 1" "th_owner demo_txn = Some 0"
      "L_txn_commit demo_lib 1 (w_lib demo_begun) = (NRet MDBX_SUCCESS, demo_store)"
    by (simp_all add: demo_worlds txn_ptr_def live_txn_def healthy_def demo_lib_def demo_call_def demo_store_def)
  from commit_outcome [OF demo_ok demo_begun_reachable w] show ?thesis
    by (simp add: branch_codes_distinct) blast
qed

section \<open>Abort settles everything\<close>

lemma txn_pointer_run:
  assumes "txn_ptr w i t" and "w_txns w t = Some th"
  shows "mdbx_txn_abort L (R_ExtPtr i) w =
     (if th_txn th = None then returnM () else
      bindM (broken_graph th) (\<lambda>broken.
      if broken then
        thenM (abandon (map_option PTxn (th_txn th)))
       (thenM (mark_finished L t st_aborted) (set_prot (R_ExtPtr i) R_NilValue))
      else finish_txn L (R_ExtPtr i) False)) w"
  using assms by (auto simp: txn_ptr_def mdbx_txn_abort_def refusal_run)

lemma abort_over:
  assumes "txn_ptr w i t" and "w_txns w t = Some th" and "th_txn th = None"
  shows "mdbx_txn_abort L (R_ExtPtr i) w = (Inr (), w)"
  using assms by (simp add: txn_pointer_run returnM_def)

lemma abort_broken:
  assumes I: "inv w" and p: "txn_ptr w i t" and t: "w_txns w t = Some th" "th_txn th \<noteq> None" "th_pid th = w_pid w"
    and o: "th_owner th = Some a" "w_envs w a = Some h" "eh_poisoned h"
  shows "\<exists>v th'. mdbx_txn_abort L (R_ExtPtr i) w = (Inr (), v) \<and> w_lib v = w_lib w
     \<and> w_txns v t = Some th' \<and> th_txn th' = None \<and> txn_ptr v i t"
proof -
  let ?Q = "\<lambda>_ v. w_lib v = w_lib w \<and> (\<exists>th'. w_txns v t = Some th' \<and> th_txn th' = None) \<and> txn_ptr v i t"
  obtain x where x: "w_xps w i = Some x" using p by (auto simp: txn_ptr_def)
  have b: "broken_graph th w = (Inr True, w)"
    using t(3) o by (simp add: broken_graph_def bindM_def current_pid_def getsM_def returnM_def env_at_def fetchM_def)
  have "wp (thenM (abandon (map_option PTxn (th_txn th)))
       (thenM (mark_finished L t st_aborted) (set_prot (R_ExtPtr i) R_NilValue))) ?Q (\<lambda>_ _. False) w"
    unfolding wp_then
  proof (rule wp_abandon_any [OF I])
    fix v
    assume v: "inv v" "abandoned_more w v"
    note f = abandoned_more_frame [OF v(2)]
    show "wp (mark_finished L t st_aborted) (\<lambda>_. wp (set_prot (R_ExtPtr i) R_NilValue) ?Q (\<lambda>_ _. False)) (\<lambda>_ _. False) v"
      by (rule wp_mark_broken [OF v(1)])
        (use t o x p in \<open>auto simp: f healthy_def set_prot_def wp_simps txn_ptr_def\<close>)
  qed
  from wp_runs [OF this] obtain v where v: "thenM (abandon (map_option PTxn (th_txn th)))
       (thenM (mark_finished L t st_aborted) (set_prot (R_ExtPtr i) R_NilValue)) w = (Inr (), v)" "?Q () v" by auto
  have "mdbx_txn_abort L (R_ExtPtr i) w = (Inr (), v)"
    using t(2) v(1) by (auto simp: txn_pointer_run [OF p t(1)] bindM_def [of "broken_graph th"] b)
  then show ?thesis using v(2) by blast
qed

lemma finish_call_panics:
  assumes "panic_wf (w_last_panic w)" and "w_txns w t = Some th" and "th_txn th = Some q"
    and "txn_usable q e w" and "th_owner th = Some a" and "w_envs w a = Some h"
    and "(if commit then L_txn_commit L else L_txn_abort L) q (w_lib w) = (NPanic m g l, n)"
  shows "\<exists>r. guard (finish_call L t commit) (Some (poison_txn t)) w
     = (Inl (panic_error m g l), panicked_txn e t th a h n r w)"
proof -
  let ?v = "kill_env e ((push_frame w)\<lparr>w_lib := n\<rparr>)"
  have "txn_call (Some q) (if commit then L_txn_commit L else L_txn_abort L) (push_frame w) = mdbx_r_panic m g l ?v"
    by (rule txn_call_panics) (use assms in simp_all)
  then have "finish_call L t commit (push_frame w) = mdbx_r_panic m g l ?v"
    using assms(2,3) panic_bind [of ?v "length (w_guard w)" "w_guard w" m g l] assms(1)
    by (simp add: finish_call_def txn_end_call_def bindM_def txn_at_def fetchM_def)
  then show ?thesis using txn_guard_panics [where call = "finish_call L t commit", OF assms(1,2,5,6)] by blast
qed

lemma abort_live:
  assumes "inv w" and "txn_ptr w i t" and "live_txn t w" and "w_txns w t = Some th"
  shows "mdbx_txn_abort L (R_ExtPtr i) w = finish_txn L (R_ExtPtr i) False w"
proof -
  obtain q a h where t: "th_txn th = Some q" "th_owner th = Some a" "w_envs w a = Some h"
      "eh_env h \<noteq> None" "healthy w h"
    using assms(3,4) by (auto simp: live_txn_def)
  obtain k where "w_envs w a = Some k" "th_pid th = eh_pid k" "th_poisoned th \<Longrightarrow> eh_poisoned k"
    using inv_owner [OF assms(1,4) t(2)] by metis
  then have "broken_graph th w = (Inr False, w)"
    using t by (auto simp: broken_graph_def bindM_def current_pid_def getsM_def returnM_def env_at_def fetchM_def healthy_def)
  then show ?thesis
    using t(1) by (simp add: txn_pointer_run [OF assms(2,4)] bindM_def [of "broken_graph th"])
qed

text \<open>An abort of a transaction that is over, or that libmdbx must not be asked to end.\<close>

lemma abort_dead:
  assumes I: "inv w" and p: "txn_ptr w i t" and t: "w_txns w t = Some th" "th_pid th = w_pid w"
    and d: "\<not> live_txn t w"
  shows "\<exists>v th'. mdbx_txn_abort L (R_ExtPtr i) w = (Inr (), v) \<and> w_lib v = w_lib w
     \<and> w_txns v t = Some th' \<and> th_txn th' = None \<and> txn_ptr v i t"
proof (cases "th_txn th")
  case None
  then show ?thesis using abort_over [OF p t(1) None, of L] t(1) p by simp
next
  case (Some q)
  then obtain a where a: "th_owner th = Some a" using inv_no_owner [OF I t(1)] by (cases "th_owner th") auto
  obtain h where h: "w_envs w a = Some h" "eh_env h \<noteq> None" "th_pid th = eh_pid h"
    using inv_owner [OF I t(1) a] by metis
  have "eh_poisoned h" using d t Some a h by (auto simp: live_txn_def healthy_def)
  then show ?thesis using abort_broken [OF I p t(1) _ t(2) a h(1)] Some by blast
qed

text \<open>An abort of a live transaction ends it or panics.\<close>

lemma abort_live_cases:
  assumes I: "inv w" and A: "abort_ends L" and p: "txn_ptr w i t" and l: "live_txn t w" and t: "w_txns w t = Some th"
  obtains
    (over) r v th' where "mdbx_txn_abort L (R_ExtPtr i) w = (r, v)" "txn_ptr v i t"
      and "w_txns v t = Some th'" and "th_txn th' = None"
  | (panic) v th' m g k where "mdbx_txn_abort L (R_ExtPtr i) w = (Inl (panic_error m g k), v)"
      and "txn_ptr v i t" and "w_txns v t = Some th'" and "\<not> live_txn t v" and "th_pid th' = w_pid v"
proof -
  obtain x where x: "w_xps w i = Some x" using p by (auto simp: txn_ptr_def)
  obtain q a h e where q: "th_txn th = Some q" "th_owner th = Some a" "w_envs w a = Some h" "txn_usable q e w"
      "healthy w h"
    using live_txn_ready [OF I l] t by (metis option.inject)
  obtain k where "w_envs w a = Some k" "th_pid th = eh_pid k" using inv_owner [OF I t q(2)] by metis
  then have pid: "th_pid th = w_pid w" using q(3,5) by (simp add: healthy_def)
  obtain r n where f: "L_txn_abort L q (w_lib w) = (r, n)" by (cases "L_txn_abort L q (w_lib w)")
  show thesis
  proof (cases r)
    case (NRet rc)
    then have rc: "rc \<noteq> MDBX_THREAD_MISMATCH" using A f by (auto simp: abort_ends_def)
    have "(if False then L_txn_commit L else L_txn_abort L) q (w_lib w) = (NRet rc, n)" using f NRet by simp
    from finish_run [OF I p x l t q(1) this] rc
    obtain h' roots where "finish_txn L (R_ExtPtr i) False w = (end_result L rc,
      put_xptr i (x\<lparr>xp_prot := R_NilValue\<rparr>)
        (put_txn t (finished_txn (end_state False rc) th)
          (put_env a (h'\<lparr>eh_live := [], eh_roots := roots\<rparr>) (txn_ended q (w\<lparr>w_lib := n\<rparr>)))))"
      using q(2) by auto
    then show thesis
      using p x unfolding abort_live [OF I p l t, of L, symmetric]
      by (intro over [of _ _ "finished_txn (end_state False rc) th"]) (auto simp: txn_ptr_def)
  next
    case (NPanic m g k)
    obtain r where r: "guard (finish_call L t False) (Some (poison_txn t)) w
        = (Inl (panic_error m g k), panicked_txn e t th a h n r w)"
      using finish_call_panics [where commit = False, unfolded if_False, OF inv_calm(2) [OF I] t q(1,4,2,3)] f NPanic by blast
    have "mdbx_txn_abort L (R_ExtPtr i) w = (Inl (panic_error m g k), panicked_txn e t th a h n r w)"
      unfolding abort_live [OF I p l t]
      by (simp add: finish_txn_def bindM_def txn_from_sexp_live [OF I p l] r)
    then show thesis
      by (rule panic [of m g k _ "th\<lparr>th_poisoned := True\<rparr>"])
        (use p t q(2) pid in \<open>auto simp: panicked_txn_def txn_ptr_def live_txn_def healthy_def\<close>)
  qed
qed

text \<open>C18: in the process that began it, a transaction can always be got rid of: whatever the first
  abort did, even if it panicked, a second one succeeds without touching libmdbx and leaves the
  transaction over; and if the first did not panic the second changes nothing at all.\<close>

theorem abort_settles:
  assumes "library_ok L" and "reachable L w" and "txn_ptr w i t" and "w_txns w t = Some th"
    and "th_pid th = w_pid w"
    and "mdbx_txn_abort L (R_ExtPtr i) w = (r1, w1)" and "mdbx_txn_abort L (R_ExtPtr i) w1 = (r2, w2)"
  shows "r2 = Inr () \<and> w_lib w2 = w_lib w1 \<and> (\<exists>th2. w_txns w2 t = Some th2 \<and> th_txn th2 = None)
       \<and> (w2 = w1 \<or> (\<exists>m f l. r1 = Inl (AssertFailed m f l)))"
proof -
  have I: "inv w" and A: "abort_ends L" using inv_reachable [OF assms(2,1)] assms(1) by (simp_all add: library_ok_def)
  have "sexp_ok (handle_arg (Do_txn_abort (R_ExtPtr i))) w" using assms(3) by (auto simp: sexp_ok_def txn_ptr_def)
  then have I1: "inv w1"
    using perform_outcome [OF assms(1) I, of "Do_txn_abort (R_ExtPtr i)"] assms(6) by simp
  show ?thesis
  proof (cases "live_txn t w")
    case False
    obtain th' where "w_lib w1 = w_lib w" "w_txns w1 t = Some th'" "th_txn th' = None" "txn_ptr w1 i t"
      using abort_dead [OF I assms(3-5) False, of L] assms(6) by auto
    then show ?thesis using abort_over [of w1 i t th' L] assms(7) by simp
  next
    case True
    from I A assms(3) True assms(4) show ?thesis
    proof (cases rule: abort_live_cases)
      case (over r v th')
      then show ?thesis using abort_over [of w1 i t th' L] assms(6,7) by simp
    next
      case (panic v th' m g k)
      then show ?thesis
        using abort_dead [OF I1, of i t th' L] assms(6,7) by (auto simp: panic_error_def)
    qed
  qed
qed

theorem abort_settles_witness:
  "fst (mdbx_txn_abort demo_lib (R_ExtPtr 3) (snd (mdbx_txn_abort demo_lib (R_ExtPtr 3) demo_failing))) = Inr ()"
proof -
  have w: "txn_ptr demo_failing 3 2" "w_txns demo_failing 2 = Some demo_txn" "th_pid demo_txn = w_pid demo_failing"
    by (simp_all add: demo_failing_def demo_worlds txn_ptr_def)
  show ?thesis
    using abort_settles [OF demo_ok demo_failing_reachable w prod.collapse [symmetric] prod.collapse [symmetric]] by blast
qed

end
