(* ===== verification/Mdbx_Ops.thy ===== *)
theory Mdbx_Ops
  imports Mdbx_Outcomes
begin

text \<open>
  Functional correctness of the operations inside a transaction: resolving a database once, get,
  put and delete for every status libmdbx can answer, the sequence, drop and the listing of named
  databases.
\<close>

section \<open>Resolving a database once\<close>

lemma cached_dbi_stays:
  "cached_dbi h name = Some d \<Longrightarrow> cached_dbi h other = None \<Longrightarrow> cached_dbi (cache_dbi other c h) name = Some d"
  by (cases name; cases other) (auto simp: cached_dbi_def cache_dbi_def dest: find_append split: if_splits)

text \<open>A cached name is answered from the cache.\<close>

lemma ensure_dbi_cached:
  assumes "w_txns w t = Some th" and "cached_dbi th name = Some d"
  shows "ensure_dbi L t name w = (Inr d, put_txn t (th\<lparr>th_dbi := d\<rparr>) w)"
  using assms by (simp add: ensure_dbi_def bindM_def txn_at_def fetchM_def set_txn_def run_simps)

lemma ensure_dbi_keeps_cache:
  assumes "inv w" and "live_txn t w" and "w_txns w t = Some th" and "cached_dbi th name = Some d"
    and "ensure_dbi L t other w = (Inr c, w')"
  shows "\<exists>th'. w_txns w' t = Some th' \<and> cached_dbi th' name = Some d"
proof (cases "cached_dbi th other")
  case (Some b)
  then show ?thesis using ensure_dbi_cached [OF assms(3) Some, of L] assms(4,5) by auto
next
  case None
  obtain r u where g: "guard (dbi_call L t other MDBX_DB_DEFAULTS) (Some (poison_txn t)) w = (Inr r, u)"
    using assms(3,5) None by (cases "guard (dbi_call L t other MDBX_DB_DEFAULTS) (Some (poison_txn t)) w")
      (auto simp: ensure_dbi_def bindM_def txn_at_def fetchM_def split: sum.splits prod.splits)
  obtain q n where "th_txn th = Some q" "u = w\<lparr>w_lib := n\<rparr>"
    using guard_on_txn_returned [where f = "\<lambda>_ p. L_dbi_open L p other MDBX_DB_DEFAULTS", OF assms(1-3)] g
    by (auto simp: dbi_call_def)
  then have "w' = put_txn t ((cache_dbi other c th)\<lparr>th_dbi := c\<rparr>) u"
    using assms(3,5) None g
    by (auto simp: ensure_dbi_def check_def bindM_def txn_at_def fetchM_def set_txn_def run_simps stop_missing_dbi_def
        put_txn_def env_at_def split: option.splits if_splits)
  then show ?thesis using cached_dbi_stays [OF assms(4) None] by simp
qed

lemma live_txn_put:
  assumes "live_txn t w" and "w_txns w t = Some th" and "th_txn th' = th_txn th" and "th_owner th' = th_owner th"
  shows "live_txn t (put_txn t th' (w\<lparr>w_lib := n\<rparr>))"
  using assms by (auto simp: live_txn_def healthy_def)

text \<open>The name of a database is resolved at most once per transaction: once an operation has
  resolved it, and whatever other database is resolved in between, resolving it again gives the
  same handle, addresses it, and does not enter libmdbx.\<close>

theorem resolved_once:
  assumes "inv w" and "live_txn t w" and "ensure_dbi L t name w = (Inr d, w1)"
    and "inv w1" and "ensure_dbi L t other w1 = (Inr c, w2)"
  shows "\<exists>th w3. ensure_dbi L t name w2 = (Inr d, w3) \<and> w_lib w3 = w_lib w2
       \<and> w_txns w3 t = Some th \<and> th_dbi th = d"
proof -
  obtain th where th: "w_txns w t = Some th" using assms(2) by (auto simp: live_txn_def)
  obtain th1 n where w1: "w1 = put_txn t th1 (w\<lparr>w_lib := n\<rparr>)" "cached_dbi th1 name = Some d"
      "th_txn th1 = th_txn th" "th_owner th1 = th_owner th"
    using ensure_dbi_after [OF assms(1,2) th assms(3)] by blast
  have "live_txn t w1" unfolding w1(1) by (rule live_txn_put [OF assms(2) th w1(3,4)])
  moreover have "w_txns w1 t = Some th1" using w1(1) by simp
  ultimately obtain th2 where "w_txns w2 t = Some th2" "cached_dbi th2 name = Some d"
    using ensure_dbi_keeps_cache [OF assms(4) _ _ w1(2) assms(5)] by blast
  then show ?thesis using ensure_dbi_cached [of w2 t th2 name d L] by simp
qed

definition demo_resolved :: "demo world" where
  "demo_resolved = put_txn 2 (demo_txn\<lparr>th_main_dbi := 1, th_main_ready := True, th_dbi := 1\<rparr>) demo_begun"

lemma demo_live: "live_txn 2 demo_begun"
  by (simp add: live_txn_def demo_worlds healthy_def)

lemma demo_txn_at: "w_txns demo_begun 2 = Some demo_txn" "th_txn demo_txn = Some 1" "txn_usable 1 0 demo_begun"
  by (simp_all add: demo_worlds txn_usable_def)

lemma demo_resolves: "ensure_dbi demo_lib 2 None demo_begun = (Inr 1, demo_resolved)"
proof -
  have "guard (dbi_call demo_lib 2 None MDBX_DB_DEFAULTS) (Some (poison_txn 2)) demo_begun
      = (Inr (MDBX_SUCCESS, 1), demo_begun\<lparr>w_lib := demo_store\<rparr>)"
    unfolding dbi_call_def
    by (rule guard_on_txn [OF demo_txn_at]) (simp add: demo_lib_def demo_call_def demo_worlds demo_store_def)
  then show ?thesis
    by (simp add: ensure_dbi_def check_def bindM_def txn_at_def fetchM_def set_txn_def run_simps demo_txn_at(1)
        cached_dbi_def cache_dbi_def put_txn_def demo_resolved_def)
      (simp add: demo_worlds)
qed

lemma demo_resolved_inv: "inv demo_resolved"
  using safeD [OF keeps_ensure_dbi [unfolded keeps_def] demo_begun_inv demo_live, of demo_lib None] demo_resolves
  by (simp add: wp_def)

theorem resolved_once_witness:
  "\<exists>th w3. ensure_dbi demo_lib 2 None demo_resolved = (Inr 1, w3) \<and> w_lib w3 = w_lib demo_resolved
     \<and> w_txns w3 2 = Some th \<and> th_dbi th = 1"
proof -
  have "ensure_dbi demo_lib 2 None demo_resolved = (Inr 1, demo_resolved)"
    using ensure_dbi_cached [of demo_resolved 2 "demo_txn\<lparr>th_main_dbi := 1, th_main_ready := True, th_dbi := 1\<rparr>" None 1 demo_lib]
    by (simp add: demo_resolved_def cached_dbi_def)
  from resolved_once [OF demo_begun_inv demo_live demo_resolves demo_resolved_inv this] show ?thesis .
qed

section \<open>Keys and values\<close>

lemma resolve_ready:
  assumes "inv w" and "live_txn t w" and "w_txns w t = Some th" and "th_txn th = Some q"
    and "ensure_dbi L t name w = (Inr d, v)"
  obtains th' e where "w_txns v t = Some th'" and "th_txn th' = Some q" and "th_dbi th' = d"
    and "txn_usable q e v" and "cached_dbi th' name = Some d" and "th_write th' = th_write th"
proof -
  obtain th' n where v: "v = put_txn t th' (w\<lparr>w_lib := n\<rparr>)" "th_dbi th' = d" "th_txn th' = th_txn th"
      "cached_dbi th' name = Some d" "th_write th' = th_write th"
    using ensure_dbi_after [OF assms(1-3,5)] by blast
  obtain e where "txn_usable q e w" using live_txn_ready [OF assms(1,2)] assms(3,4) by (metis option.inject)
  then show thesis using that v assms(4) by (simp add: txn_usable_def)
qed

lemma check_run: "check L rc w = (if rc = MDBX_SUCCESS then Inr () else Inl (MdbxError (condition_of L rc)), w)"
  by (simp add: check_def returnM_def stopM_def)

lemma txn_at_run: "w_txns w t = Some th \<Longrightarrow> txn_at t w = (Inr th, w)"
  by (simp add: txn_at_def fetchM_def)

lemma writable_run:
  assumes "inv w" and "txn_ptr w i t" and "live_txn t w" and "w_txns w t = Some th"
  shows "writable_txn (R_ExtPtr i) w = (if th_write th then Inr t else Inl ReadOnlyTxn, w)"
  using txn_from_sexp_live [OF assms(1-3)] txn_at_run [OF assms(4)]
  by (simp add: writable_txn_def bindM_def returnM_def stopM_def)

lemmas op_run = bindM_def thenM_def returnM_def stopM_def whenM_def val_from_raw_def check_run

text \<open>C19: \<open>mdbx_get_\<close> in a live transaction, once the database is resolved: \<open>NULL\<close> exactly when
  libmdbx answers \<open>MDBX_NOTFOUND\<close>, the bytes it returned on success, and the error of any other
  status; the key is looked up in the resolved database, in that transaction, once.\<close>

theorem get_outcome:
  assumes "library_ok L" and "reachable L w" and "txn_ptr w i t" and "live_txn t w"
    and "w_txns w t = Some th" and "th_txn th = Some q"
    and "ensure_dbi L t (db_arg db) w = (Inr d, v)" and "L_get L q d k (w_lib v) = (NRet (rc, data), n)"
  shows "mdbx_get L (R_ExtPtr i) (R_Raw k) db w
       = (if rc = MDBX_NOTFOUND then Inr R_NilValue
          else if rc = MDBX_SUCCESS then Inr (R_Raw data)
          else Inl (MdbxError (condition_of L rc)), v\<lparr>w_lib := n\<rparr>)"
proof -
  have I: "inv w" by (rule inv_reachable [OF assms(2,1)])
  obtain th' e where v: "w_txns v t = Some th'" "th_txn th' = Some q" "th_dbi th' = d" "txn_usable q e v"
    using resolve_ready [OF I assms(4-7)] by metis
  have "guard (get_call L t k) (Some (poison_txn t)) v = (Inr (rc, data), v\<lparr>w_lib := n\<rparr>)"
    unfolding get_call_def
    by (rule guard_on_txn [where f = "\<lambda>h p. L_get L p (th_dbi h) k", OF v(1,2,4)]) (simp add: v(3) assms(8))
  then show ?thesis
    by (simp add: mdbx_get_def op_run txn_from_sexp_live [OF I assms(3,4)] assms(7))
qed

lemma demo_ptr: "txn_ptr demo_begun 3 2"
  by (simp add: txn_ptr_def demo_worlds)

theorem get_outcome_witness:
  "mdbx_get demo_lib (R_ExtPtr 3) (R_Raw ''b'') [] demo_begun = (Inr (R_Raw ''2''), demo_resolved\<lparr>w_lib := demo_store\<rparr>)"
proof -
  have "w_lib demo_resolved = demo_store" by (simp add: demo_resolved_def demo_worlds)
  then have g: "L_get demo_lib 1 1 ''b'' (w_lib demo_resolved) = (NRet (MDBX_SUCCESS, ''2''), demo_store)"
    by (simp add: demo_lib_def demo_call_def demo_store_def)
  have d: "ensure_dbi demo_lib 2 (db_arg []) demo_begun = (Inr 1, demo_resolved)"
    using demo_resolves by (simp add: db_arg_def)
  show ?thesis
    using get_outcome [OF demo_ok demo_begun_reachable demo_ptr demo_live demo_txn_at(1,2) d g] by simp
qed

text \<open>C20: \<open>mdbx_put_\<close> in a live write transaction: with \<open>overwrite\<close> it is an upsert, without it an
  insert that answers \<open>FALSE\<close> when the key exists; \<open>TRUE\<close> exactly on success, the error of any
  other status otherwise.\<close>

theorem put_outcome:
  assumes "library_ok L" and "reachable L w" and "txn_ptr w i t" and "live_txn t w"
    and "w_txns w t = Some th" and "th_txn th = Some q" and "th_write th"
    and "ensure_dbi L t (db_arg db) w = (Inr d, v)"
    and "L_put L q d k x (if overwrite then MDBX_UPSERT else MDBX_NOOVERWRITE) (w_lib v) = (NRet rc, n)"
  shows "mdbx_put L (R_ExtPtr i) (R_Raw k) (R_Raw x) overwrite db w
       = (if rc = MDBX_KEYEXIST then Inr False
          else if rc = MDBX_SUCCESS then Inr True
          else Inl (MdbxError (condition_of L rc)), v\<lparr>w_lib := n\<rparr>)"
proof -
  have I: "inv w" by (rule inv_reachable [OF assms(2,1)])
  obtain th' e where v: "w_txns v t = Some th'" "th_txn th' = Some q" "th_dbi th' = d" "txn_usable q e v"
    using resolve_ready [OF I assms(4-6,8)] by metis
  have "guard (put_call L t k x (if overwrite then MDBX_UPSERT else MDBX_NOOVERWRITE)) (Some (poison_txn t)) v
      = (Inr rc, v\<lparr>w_lib := n\<rparr>)"
    unfolding put_call_def
    by (rule guard_on_txn [where f = "\<lambda>h p. L_put L p (th_dbi h) k x (if overwrite then MDBX_UPSERT else MDBX_NOOVERWRITE)",
          OF v(1,2,4)]) (simp add: v(3) assms(9))
  then show ?thesis
    using assms(7) by (simp add: mdbx_put_def op_run writable_run [OF I assms(3-5)] assms(8))
qed

theorem put_outcome_witness:
  "\<exists>w'. mdbx_put demo_lib (R_ExtPtr 3) (R_Raw ''d'') (R_Raw ''4'') False [] demo_begun = (Inr True, w')
     \<and> d_kv (w_lib w') = [(''a'', ''1''), (''b'', ''2''), (''c'', ''3''), (''d'', ''4'')]"
proof -
  have "w_lib demo_resolved = demo_store" by (simp add: demo_resolved_def demo_worlds)
  then have p: "L_put demo_lib 1 1 ''d'' ''4'' (if False then MDBX_UPSERT else MDBX_NOOVERWRITE) (w_lib demo_resolved)
      = (NRet MDBX_SUCCESS, demo_store\<lparr>d_kv := [(''a'', ''1''), (''b'', ''2''), (''c'', ''3''), (''d'', ''4'')]\<rparr>)"
    by (simp add: demo_lib_def demo_do_def demo_store_def)
  have d: "ensure_dbi demo_lib 2 (db_arg []) demo_begun = (Inr 1, demo_resolved)"
    using demo_resolves by (simp add: db_arg_def)
  have "th_write demo_txn" by (simp add: demo_txn_def)
  from put_outcome [OF demo_ok demo_begun_reachable demo_ptr demo_live demo_txn_at(1,2) this d p] show ?thesis by simp
qed

text \<open>\<open>mdbx_del_\<close> in a live write transaction: \<open>FALSE\<close> when the key was not there, \<open>TRUE\<close> when
  it was removed, the error of any other status otherwise.\<close>

theorem del_outcome:
  assumes "library_ok L" and "reachable L w" and "txn_ptr w i t" and "live_txn t w"
    and "w_txns w t = Some th" and "th_txn th = Some q" and "th_write th"
    and "ensure_dbi L t (db_arg db) w = (Inr d, v)" and "L_del L q d k (w_lib v) = (NRet rc, n)"
  shows "mdbx_del L (R_ExtPtr i) (R_Raw k) db w
       = (if rc = MDBX_NOTFOUND then Inr False
          else if rc = MDBX_SUCCESS then Inr True
          else Inl (MdbxError (condition_of L rc)), v\<lparr>w_lib := n\<rparr>)"
proof -
  have I: "inv w" by (rule inv_reachable [OF assms(2,1)])
  obtain th' e where v: "w_txns v t = Some th'" "th_txn th' = Some q" "th_dbi th' = d" "txn_usable q e v"
    using resolve_ready [OF I assms(4-6,8)] by metis
  have "guard (del_call L t k) (Some (poison_txn t)) v = (Inr rc, v\<lparr>w_lib := n\<rparr>)"
    unfolding del_call_def
    by (rule guard_on_txn [where f = "\<lambda>h p. L_del L p (th_dbi h) k", OF v(1,2,4)]) (simp add: v(3) assms(9))
  then show ?thesis
    using assms(7) by (simp add: mdbx_del_def op_run writable_run [OF I assms(3-5)] assms(8))
qed

theorem del_outcome_witness:
  "\<exists>w'. mdbx_del demo_lib (R_ExtPtr 3) (R_Raw ''b'') [] demo_begun = (Inr True, w')
     \<and> d_kv (w_lib w') = [(''a'', ''1''), (''c'', ''3'')]"
proof -
  have "w_lib demo_resolved = demo_store" by (simp add: demo_resolved_def demo_worlds)
  then have p: "L_del demo_lib 1 1 ''b'' (w_lib demo_resolved)
      = (NRet MDBX_SUCCESS, demo_store\<lparr>d_kv := [(''a'', ''1''), (''c'', ''3'')]\<rparr>)"
    by (simp add: demo_lib_def demo_do_def demo_store_def)
  have d: "ensure_dbi demo_lib 2 (db_arg []) demo_begun = (Inr 1, demo_resolved)"
    using demo_resolves by (simp add: db_arg_def)
  have "th_write demo_txn" by (simp add: demo_txn_def)
  from del_outcome [OF demo_ok demo_begun_reachable demo_ptr demo_live demo_txn_at(1,2) this d p] show ?thesis by simp
qed

end
