(* ===== verification/Mdbx_Named.thy ===== *)
theory Mdbx_Named
  imports Mdbx_Ops
begin

text \<open>
  Read-only transactions, the sequence of a database, and named databases: what is refused before
  anything is written, the bound that keeps a sequence exact, and the listing.
\<close>

section \<open>A read-only transaction\<close>

text \<open>The calls that ask to write, and the error a read-only transaction answers.\<close>

definition write_refusal :: "call \<Rightarrow> err option" where
  "write_refusal c =
     (case c of
        Do_put s k v b d \<Rightarrow> Some ReadOnlyTxn
      | Do_del s k d \<Rightarrow> Some ReadOnlyTxn
      | Do_dbi_drop s d b \<Rightarrow> Some ReadOnlyTxn
      | Do_dbi_open s n create \<Rightarrow> if create then Some CreateNeedsWrite else None
      | Do_dbi_sequence s d inc \<Rightarrow> if dlt (Fin 0) inc then Some ReadOnlyTxn else None
      | _ \<Rightarrow> None)"

text \<open>C21: in a read-only transaction every operation that would write (put, delete, drop, creating a
  database, advancing a sequence) is refused by the package itself, before libmdbx is entered,
  and nothing changes.\<close>

theorem read_only_refuses_writes:
  assumes "library_ok L" and "reachable L w" and "txn_ptr w i t" and "live_txn t w"
    and "w_txns w t = Some th" and "\<not> th_write th" and "handle_arg c = R_ExtPtr i"
    and "write_refusal c = Some e"
  shows "perform L c w = (Inl e, w)"
proof -
  have I: "inv w" by (rule inv_reachable [OF assms(2,1)])
  note run = writable_run [OF I assms(3-5)] txn_from_sexp_live [OF I assms(3,4)] txn_at_run [OF assms(5)]
  show ?thesis
    using assms(6-8)
    by (cases c) (auto simp: write_refusal_def ignoreM_def mdbx_put_def mdbx_del_def mdbx_dbi_drop_def
        mdbx_dbi_open_def mdbx_dbi_sequence_def op_run run split: if_splits)
qed

definition demo_reading :: "demo world" where
  "demo_reading = put_txn 2 (demo_txn\<lparr>th_write := False\<rparr>) (put_xptr 3 (demo_txn_ptr\<lparr>xp_attrs := [(''write'', ALogical False), (''path'', AString ''/db'')]\<rparr>) demo_begun)"

lemma demo_reading_runs:
  "perform demo_lib (Do_txn_begin (R_ExtPtr 1) False []) demo_opened = (Inr (), demo_reading)"
  by (simp add: demo_run demo_worlds demo_reading_def demo_store_def mdbx_txn_begin_def txn_flags_from_names_def bits_from_def
      begin_call_def txn_begin_call_def txn_created_def fresh_txn_handle_def new_txn_sexp_def get_attrib_def
      live_add_def fun_upd_twist)

lemma demo_reading_reachable: "reachable demo_lib demo_reading"
  by (rule reachable.later [OF demo_opened_reachable], rule step.call [OF _ demo_reading_runs])
    (simp add: sexp_ok_def demo_opened_def)

theorem read_only_refuses_writes_witness:
  "perform demo_lib (Do_put (R_ExtPtr 3) (R_Raw ''d'') (R_Raw ''4'') True []) demo_reading = (Inl ReadOnlyTxn, demo_reading)"
  by (rule read_only_refuses_writes [OF demo_ok demo_reading_reachable, where t = 2 and i = 3 and th = "demo_txn\<lparr>th_write := False\<rparr>"])
    (simp_all add: demo_reading_def txn_ptr_def live_txn_def healthy_def demo_worlds write_refusal_def)

section \<open>The sequence\<close>

lemma sequence_guard_exact:
  assumes "0 < k"
  shows "(\<not> dle (Fin (of_nat k)) max_exact_integer \<or> dlt (dsub max_exact_integer (Fin (of_nat k))) (as_num c))
     \<longleftrightarrow> 2 ^ 53 < c + k"
proof (cases "k \<le> 2 ^ 53")
  case False
  then have "(of_nat (2 ^ 53)::rat) < of_nat k" by (simp only: of_nat_less_iff not_le)
  then show ?thesis using False by (simp add: max_exact_integer_def)
next
  case True
  then have "of_nat k \<le> (of_nat (2 ^ 53)::rat)" by (simp only: of_nat_le_iff)
  then have k: "of_nat k \<le> (9007199254740992::rat)" by simp
  have sub: "dround (9007199254740992 - of_nat k) = of_int (2 ^ 53 - int k)"
    using dround_exact [of "2 ^ 53 - int k"] True by simp
  show ?thesis
  proof (cases "c \<le> 2 ^ 53")
    case True
    have "dlt (Fin (of_int (2 ^ 53 - int k))) (Fin (of_nat c)) \<longleftrightarrow> (2 ^ 53 :: rat) < of_nat (c + k)" by (simp add: algebra_simps)
    also have "\<dots> \<longleftrightarrow> (of_nat (2 ^ 53) :: rat) < of_nat (c + k)" by simp
    also have "\<dots> \<longleftrightarrow> 2 ^ 53 < c + k" by (simp only: of_nat_less_iff)
    finally show ?thesis using k sub as_num_exact [OF True] by (simp add: max_exact_integer_def)
  next
    case False
    then obtain q where "as_num c = Fin q" "2 ^ 53 \<le> q" using as_num_ge [of c] by auto
    then show ?thesis using False k sub assms by (simp add: max_exact_integer_def)
  qed
qed

lemma cast_nat: "k < 2 ^ bits \<Longrightarrow> cast_unsigned bits (Fin (of_nat k)) = Some k"
  by (simp add: cast_unsigned_def trunc_rat_def)

lemma sequence_call_run:
  assumes "w_txns v t = Some th" and "th_txn th = Some q" and "txn_usable q e v"
    and "L_dbi_sequence L q (th_dbi th) k (w_lib v) = (NRet r, n)"
  shows "guard (sequence_call L t k) poison v = (Inr r, v\<lparr>w_lib := n\<rparr>)"
  unfolding sequence_call_def
  by (rule guard_on_txn [where f = "\<lambda>h p. L_dbi_sequence L p (th_dbi h) k", OF assms(1-3)]) (simp add: assms(4))

text \<open>C22: reserving \<open>k > 0\<close> numbers of a sequence. The counter is read first, and when it would pass
  \<open>2^53\<close> the reservation is refused with the counter untouched; otherwise it is advanced by
  exactly \<open>k\<close>, and what is handed to R, the value before, is exact, as is every number reserved.\<close>

theorem sequence_outcome:
  assumes "library_ok L" and "reachable L w" and "txn_ptr w i t" and "live_txn t w"
    and "w_txns w t = Some th" and "th_txn th = Some q" and "th_write th"
    and "ensure_dbi L t (db_arg db) w = (Inr d, v)" and "0 < k"
    and "L_dbi_sequence L q d 0 (w_lib v) = (NRet (MDBX_SUCCESS, c), n)"
    and "L_dbi_sequence L q d k n = (NRet (rc, c'), n')"
  shows "mdbx_dbi_sequence L (R_ExtPtr i) db (Fin (of_nat k)) w
       = (if 2 ^ 53 < c + k
          then (Inl (SequencePast (as_num c) (Fin (of_nat k))), v\<lparr>w_lib := n\<rparr>)
          else (if rc = MDBX_RESULT_TRUE then Inl (SequenceOverflow (Fin (of_nat k)))
                else if rc = MDBX_SUCCESS then Inr (as_num c')
                else Inl (MdbxError (condition_of L rc)), v\<lparr>w_lib := n'\<rparr>))
     \<and> (c + k \<le> 2 ^ 53 \<longrightarrow> (\<forall>j \<le> k. as_num (c + j) = Fin (of_nat (c + j))))"
proof -
  have I: "inv w" by (rule inv_reachable [OF assms(2,1)])
  obtain th' e where v: "w_txns v t = Some th'" "th_txn th' = Some q" "th_dbi th' = d" "txn_usable q e v"
    using resolve_ready [OF I assms(4-6,8)] by metis
  have first: "guard (sequence_call L t 0) (Some (poison_txn t)) v = (Inr (MDBX_SUCCESS, c), v\<lparr>w_lib := n\<rparr>)"
    by (rule sequence_call_run [OF v(1,2,4)]) (simp add: v(3) assms(10))
  have second: "guard (sequence_call L t k) (Some (poison_txn t)) (v\<lparr>w_lib := n\<rparr>) = (Inr (rc, c'), v\<lparr>w_lib := n'\<rparr>)"
    using sequence_call_run [of "v\<lparr>w_lib := n\<rparr>" t th' q e L k "(rc, c')" n' "Some (poison_txn t)"] v assms(11)
    by (simp add: txn_usable_def)
  have pos: "dlt (Fin 0) (Fin (of_nat k))" "\<not> dle (Fin (of_nat k)) (Fin 0)" using assms(9) by simp_all
  note run = writable_run [OF I assms(3-5)] and bound = sequence_guard_exact [OF assms(9), of c]
  have "mdbx_dbi_sequence L (R_ExtPtr i) db (Fin (of_nat k)) w
       = (if 2 ^ 53 < c + k
          then (Inl (SequencePast (as_num c) (Fin (of_nat k))), v\<lparr>w_lib := n\<rparr>)
          else (if rc = MDBX_RESULT_TRUE then Inl (SequenceOverflow (Fin (of_nat k)))
                else if rc = MDBX_SUCCESS then Inr (as_num c')
                else Inl (MdbxError (condition_of L rc)), v\<lparr>w_lib := n'\<rparr>))"
  proof (cases "2 ^ 53 < c + k")
    case True
    then have "\<not> dle (Fin (of_nat k)) max_exact_integer \<or> dlt (dsub max_exact_integer (Fin (of_nat k))) (as_num c)"
      using bound by blast
    then show ?thesis unfolding if_P [OF True]
      using assms(7) pos by (auto simp: mdbx_dbi_sequence_def op_run run assms(8) first Let_def)
  next
    case False
    then have "cast_unsigned 64 (Fin (of_nat k)) = Some k" by (intro cast_nat) simp
    moreover have "dle (Fin (of_nat k)) max_exact_integer" "\<not> dlt (dsub max_exact_integer (Fin (of_nat k))) (as_num c)"
      using bound False by blast+
    ultimately show ?thesis unfolding if_not_P [OF False]
      using assms(7) pos by (simp add: mdbx_dbi_sequence_def op_run run assms(8) first second Let_def castM_def)
  qed
  moreover have "as_num (c + j) = Fin (of_nat (c + j))" if "c + k \<le> 2 ^ 53" "j \<le> k" for j
    by (rule as_num_exact) (use that in simp)
  ultimately show ?thesis by blast
qed

theorem sequence_outcome_witness:
  "\<exists>w'. mdbx_dbi_sequence demo_lib (R_ExtPtr 3) [] (Fin (of_nat 4)) demo_begun = (Inr (as_num 5), w') \<and> d_seq (w_lib w') = 9"
proof -
  have l: "w_lib demo_resolved = demo_store" by (simp add: demo_resolved_def demo_worlds)
  have p: "L_dbi_sequence demo_lib 1 1 0 (w_lib demo_resolved) = (NRet (MDBX_SUCCESS, 5), demo_store)"
    "L_dbi_sequence demo_lib 1 1 4 demo_store = (NRet (MDBX_SUCCESS, 5), demo_store\<lparr>d_seq := 9\<rparr>)"
    by (simp_all add: l demo_lib_def demo_do_def demo_store_def)
  have d: "ensure_dbi demo_lib 2 (db_arg []) demo_begun = (Inr 1, demo_resolved)"
    using demo_resolves by (simp add: db_arg_def)
  have w: "th_write demo_txn" "0 < (4 :: nat)" by (simp_all add: demo_txn_def)
  from sequence_outcome [OF demo_ok demo_begun_reachable demo_ptr demo_live demo_txn_at(1,2) w(1) d w(2) p]
  show ?thesis by simp
qed

section \<open>Dropping and listing\<close>

lemma tables_run:
  assumes "w_txns w t = Some th" and "th_txn th = Some q" and "txn_usable q e w"
    and "L_tables L q (w_lib w) = (NRet (names, rc), n)"
  shows "enumerate_tables L t visitor ctx (push_frame w)
    = visit_tables visitor rc names ctx ((push_frame w)\<lparr>w_lib := n\<rparr>)"
proof -
  have "txn_call (Some q) (L_tables L) (push_frame w) = (Inr (names, rc), (push_frame w)\<lparr>w_lib := n\<rparr>)"
    by (rule txn_call_run) (use assms in simp_all)
  then show ?thesis using assms(1,2) by (simp add: enumerate_tables_def bindM_def txn_at_def fetchM_def)
qed

lemma count_run:
  assumes "w_txns w t = Some th" and "th_txn th = Some q" and "txn_usable q e w"
    and "L_tables L q (w_lib w) = (NRet (name # names, rc), n)"
  shows "count_named_tables L t w = (Inr 1, w\<lparr>w_lib := n\<rparr>)"
proof -
  have "guard (count_call L t) (Some (poison_txn t)) w = (Inr (MDBX_SUCCESS, 1), w\<lparr>w_lib := n\<rparr>)"
    by (rule guard_return)
      (simp add: count_call_def bindM_def tables_run [OF assms] count_visit_def returnM_def code_defs)
  then show ?thesis by (simp add: count_named_tables_def op_run)
qed

text \<open>C23: the two drops that would destroy what they must not. In every live write transaction, deleting
  the main database is refused outright, whatever named databases there are and before libmdbx is
  asked anything. Emptying it is refused whenever libmdbx enumerates a named database, before anything
  is dropped: all that happened is the enumeration.\<close>

theorem main_database_protected:
  assumes "library_ok L" and "reachable L w" and "txn_ptr w i t" and "live_txn t w"
    and "w_txns w t = Some th" and "th_txn th = Some q" and "th_write th"
  shows "mdbx_dbi_drop L (R_ExtPtr i) [] True w = (Inl DeleteMain, w)
       \<and> (\<forall>name names rc n. L_tables L q (w_lib w) = (NRet (name # names, rc), n)
            \<longrightarrow> mdbx_dbi_drop L (R_ExtPtr i) [] False w = (Inl EmptyMainWithNamed, w\<lparr>w_lib := n\<rparr>))"
proof -
  have I: "inv w" by (rule inv_reachable [OF assms(2,1)])
  obtain e where u: "txn_usable q e w" using live_txn_ready [OF I assms(4)] assms(5,6) by (metis option.inject)
  note run = writable_run [OF I assms(3-5)]
  show ?thesis using assms(7) by (auto simp: mdbx_dbi_drop_def op_run run count_run [OF assms(5,6) u])
qed

theorem main_database_protected_witness:
  "mdbx_dbi_drop demo_lib (R_ExtPtr 3) [] True demo_begun = (Inl DeleteMain, demo_begun)
   \<and> mdbx_dbi_drop demo_lib (R_ExtPtr 3) [] False demo_begun = (Inl EmptyMainWithNamed, demo_begun\<lparr>w_lib := demo_store\<rparr>)"
proof -
  have "L_tables demo_lib 1 (w_lib demo_begun) = (NRet (''t'' # [], MDBX_SUCCESS), demo_store)" "th_write demo_txn"
    by (simp_all add: demo_lib_def demo_call_def demo_store_def demo_begun_def demo_txn_def)
  then show ?thesis
    using main_database_protected [OF demo_ok demo_begun_reachable demo_ptr demo_live demo_txn_at(1,2)] by blast
qed

text \<open>The allocations of the listing, one per name until one fails.\<close>

fun list_allocs :: "'n libmdbx \<Rightarrow> bytes list \<Rightarrow> 'n \<Rightarrow> bool \<times> 'n" where
  "list_allocs L [] n = (True, n)"
| "list_allocs L (x # xs) n =
     (case L_alloc L (length x) n of (ok, n') \<Rightarrow> if ok then list_allocs L xs n' else (False, n'))"

lemma list_visit_run:
  assumes "L_ENOMEM L \<noteq> 0"
  shows "\<exists>rc' out. visit_tables (list_visit L) rc names (acc, False) w
      = (Inr (rc', out, \<not> fst (list_allocs L names (w_lib w))), w\<lparr>w_lib := snd (list_allocs L names (w_lib w))\<rparr>)
     \<and> (fst (list_allocs L names (w_lib w)) \<longrightarrow> rc' = rc \<and> out = acc @ names)"
proof (induction names arbitrary: acc w)
  case Nil
  then show ?case by (simp add: returnM_def)
next
  case (Cons x xs)
  obtain ok n where a: "L_alloc L (length x) (w_lib w) = (ok, n)" by (cases "L_alloc L (length x) (w_lib w)")
  show ?case
  proof (cases ok)
    case True
    then show ?thesis
      using Cons.IH [of "acc @ [x]" "w\<lparr>w_lib := n\<rparr>"] a
      by (simp add: bindM_def list_visit_def allocM_def returnM_def)
  next
    case False
    then show ?thesis using a assms by (simp add: bindM_def list_visit_def allocM_def returnM_def)
  qed
qed

text \<open>C24: \<open>mdbx_dbi_list_\<close> answers exactly the names libmdbx enumerates, in its order, when every
  copy could be allocated and the status is success; a failed allocation is its own error, and a
  failed enumeration the error of its status.\<close>

theorem dbi_list_outcome:
  assumes "library_ok L" and "reachable L w" and "txn_ptr w i t" and "live_txn t w"
    and "w_txns w t = Some th" and "th_txn th = Some q" and "L_ENOMEM L \<noteq> 0"
    and "L_tables L q (w_lib w) = (NRet (names, rc), n)" and "list_allocs L names n = (ok, n')"
  shows "mdbx_dbi_list L (R_ExtPtr i) w
       = (if \<not> ok then Inl ListOutOfMemory
          else if rc = MDBX_SUCCESS then Inr names
          else Inl (MdbxError (condition_of L rc)), w\<lparr>w_lib := n'\<rparr>)"
proof -
  have I: "inv w" by (rule inv_reachable [OF assms(2,1)])
  obtain e where e: "txn_usable q e w" using live_txn_ready [OF I assms(4)] assms(5,6) by (metis option.inject)
  obtain rc' out where v: "visit_tables (list_visit L) rc names ([], False) ((push_frame w)\<lparr>w_lib := n\<rparr>)
      = (Inr (rc', out, \<not> ok), (push_frame w)\<lparr>w_lib := n'\<rparr>)" "ok \<longrightarrow> rc' = rc \<and> out = names"
    using list_visit_run [OF assms(7), of rc names "[]" "(push_frame w)\<lparr>w_lib := n\<rparr>"] assms(9) by auto
  have "guard (list_call L t) (Some (poison_txn t)) w = (Inr (rc', out, \<not> ok), w\<lparr>w_lib := n'\<rparr>)"
    by (rule guard_return) (simp add: list_call_def tables_run [OF assms(5,6) e assms(8)] v(1))
  then show ?thesis
    using v(2) by (simp add: mdbx_dbi_list_def op_run txn_from_sexp_live [OF I assms(3,4)])
qed

theorem dbi_list_outcome_witness:
  "mdbx_dbi_list demo_lib (R_ExtPtr 3) demo_begun = (Inr [''t''], demo_begun\<lparr>w_lib := demo_store\<rparr>)"
proof -
  have p: "L_ENOMEM demo_lib \<noteq> 0" "L_tables demo_lib 1 (w_lib demo_begun) = (NRet ([''t''], MDBX_SUCCESS), demo_store)"
    "list_allocs demo_lib [''t''] demo_store = (True, demo_store)"
    by (simp_all add: demo_lib_def demo_call_def demo_store_def demo_begun_def)
  show ?thesis
    using dbi_list_outcome [OF demo_ok demo_begun_reachable demo_ptr demo_live demo_txn_at(1,2) p] by simp
qed

end
