(* ===== verification/Mdbx_ScanSpec.thy ===== *)
theory Mdbx_ScanSpec
  imports Mdbx_Named
begin

text \<open>
  What a scan returns. The reference is a list function on the sorted table, \<open>scan_rows\<close>; the
  cursor of libmdbx is described by \<open>cursor_ok\<close>, which says of each cursor operation, where the package
  uses it, what its documentation says; and the guarded walk of \<open>scan_call\<close>, with its positioning
  step for backward scans, is shown to compute the reference.
\<close>

section \<open>The reference\<close>

type_synonym rows = "(bytes \<times> bytes) list"

definition scan_rows :: "rows \<Rightarrow> nat \<Rightarrow> bool \<Rightarrow> bytes option \<Rightarrow> rows" where
  "scan_rows xs limit reverse start =
     take limit
      (if reverse
       then rev (case start of None \<Rightarrow> xs | Some s \<Rightarrow> takeWhile (\<lambda>r. fst r \<le> s) xs)
       else (case start of None \<Rightarrow> xs | Some s \<Rightarrow> dropWhile (\<lambda>r. fst r < s) xs))"

text \<open>Where a cursor operation lands, in a table and from a position; \<open>None\<close> is \<open>MDBX_NOTFOUND\<close>.\<close>

definition row_at :: "rows \<Rightarrow> nat \<Rightarrow> nat option" where
  "row_at xs i = (if i < length xs then Some i else None)"

definition seek :: "rows \<Rightarrow> nat \<Rightarrow> bytes \<Rightarrow> MDBX_cursor_op \<Rightarrow> nat option" where
  "seek xs pos key opr =
     (case opr of
        MDBX_FIRST \<Rightarrow> row_at xs 0
      | MDBX_LAST \<Rightarrow> if xs = [] then None else Some (length xs - 1)
      | MDBX_NEXT \<Rightarrow> row_at xs (pos + 1)
      | MDBX_PREV \<Rightarrow> if pos = 0 then None else Some (pos - 1)
      | MDBX_SET_RANGE \<Rightarrow> row_at xs (length (takeWhile (\<lambda>r. fst r < key) xs)))"

text \<open>
  In the states \<open>good\<close> the database holds \<open>xs\<close> and nothing fails. The cursor stands at row \<open>pos\<close>, or at
  none: it has none when it was just opened, and may have none after it found no row. What is said of it:
  from either end, and from the key \<open>start\<close> of the scan, it goes to the row \<open>seek\<close> names; so do the steps to a
  neighbour of the row it stands at. Of steps from no row, which libmdbx answers in ways of its own, nothing is
  said. An allocation may fail.
\<close>

definition pinned :: "bytes option \<Rightarrow> nat option \<Rightarrow> bytes \<Rightarrow> MDBX_cursor_op \<Rightarrow> bool" where
  "pinned start i key opr =
     (case opr of
        MDBX_FIRST \<Rightarrow> True
      | MDBX_LAST \<Rightarrow> True
      | MDBX_NEXT \<Rightarrow> i \<noteq> None
      | MDBX_PREV \<Rightarrow> i \<noteq> None
      | MDBX_SET_RANGE \<Rightarrow> start = Some key)"

definition cursor_ok ::
  "'n libmdbx \<Rightarrow> nat \<Rightarrow> nat \<Rightarrow> nat \<Rightarrow> rows \<Rightarrow> bytes option \<Rightarrow> ('n \<Rightarrow> nat option) \<Rightarrow> ('n \<Rightarrow> bool) \<Rightarrow> bool" where
  "cursor_ok L q d c xs start pos good \<longleftrightarrow>
     (\<forall>n. good n \<longrightarrow>
        (\<forall>m. \<exists>n' ok. L_alloc L m n = (ok, n') \<and> good n' \<and> pos n' = pos n)
        \<and> (\<forall>a b. \<exists>n' r. L_cmp L q d a b n = (NRet r, n') \<and> good n' \<and> pos n' = pos n \<and> (0 < r \<longleftrightarrow> b < a))
        \<and> (\<forall>key opr. pinned start (pos n) key opr \<longrightarrow>
             (\<exists>n' rc row. L_cursor_get L c key opr n = (NRet (rc, row), n') \<and> good n'
               \<and> (case seek xs (the (pos n)) key opr of
                    None \<Rightarrow> rc = MDBX_NOTFOUND
                  | Some i \<Rightarrow> rc = MDBX_SUCCESS \<and> row = xs ! i \<and> pos n' = Some i)))
        \<and> (\<exists>n'. L_cursor_close L c n = (NRet (), n')))"

text \<open>That there is an allocation that fails.\<close>

definition memory_short :: "'n libmdbx \<Rightarrow> bool" where
  "memory_short L \<longleftrightarrow> (\<exists>m n. \<not> fst (L_alloc L m n))"

text \<open>The rows a walk has still to visit after the row at \<open>i\<close>.\<close>

definition after :: "rows \<Rightarrow> bool \<Rightarrow> nat \<Rightarrow> rows" where
  "after xs reverse i = (if reverse then rev (take i xs) else drop (i + 1) xs)"

lemma after_seek:
  assumes "i < length xs"
  shows "case seek xs i key (if reverse then MDBX_PREV else MDBX_NEXT) of
      None \<Rightarrow> after xs reverse i = []
    | Some j \<Rightarrow> j < length xs \<and> after xs reverse i = xs ! j # after xs reverse j"
proof (cases reverse)
  case True
  show ?thesis
  proof (cases i)
    case 0
    then show ?thesis using True by (simp add: seek_def after_def)
  next
    case (Suc j)
    then show ?thesis using True assms by (simp add: seek_def after_def take_Suc_conv_app_nth)
  qed
next
  case False
  then show ?thesis
    by (auto simp: seek_def after_def row_at_def Cons_nth_drop_Suc)
qed

section \<open>The positioning\<close>

lemma takeWhile_le:
  assumes "sorted_wrt (\<lambda>a b. fst a < fst b) xs"
  shows "takeWhile (\<lambda>r. fst r \<le> (s :: bytes)) xs =
    (let i = length (takeWhile (\<lambda>r. fst r < s) xs) in take (if i < length xs \<and> fst (xs ! i) = s then i + 1 else i) xs)"
  using assms
proof (induction xs)
  case (Cons x xs)
  show ?case
  proof (cases "fst x < s")
    case True
    then show ?thesis using Cons less_imp_le [OF True] by (simp add: Let_def)
  next
    case False
    have "takeWhile (\<lambda>r. fst r \<le> s) xs = []" if "fst x = s"
      using Cons.prems that by (cases xs) auto
    then show ?thesis using False by auto
  qed
qed simp

lemma dropWhile_index: "dropWhile P xs = drop (length (takeWhile P xs)) xs"
  by (induction xs) auto

text \<open>The row a scan starts at, and that the walk from there is the reference.\<close>

definition first_row :: "rows \<Rightarrow> bool \<Rightarrow> bytes option \<Rightarrow> nat option" where
  "first_row xs reverse start =
     (case start of
        None \<Rightarrow> if xs = [] then None else Some (if reverse then length xs - 1 else 0)
      | Some s \<Rightarrow>
          (let i = length (takeWhile (\<lambda>r. fst r < s) xs) in
           if \<not> reverse then row_at xs i
           else if i < length xs \<and> fst (xs ! i) = s then Some i
           else if i = 0 then None else Some (i - 1)))"

lemma take_rev_last: "0 < i \<Longrightarrow> i \<le> length xs \<Longrightarrow> rev (take i xs) = xs ! (i - 1) # rev (take (i - 1) xs)"
  by (cases i) (simp_all add: take_Suc_conv_app_nth)

lemma first_row_rows:
  assumes "sorted_wrt (\<lambda>a b. fst a < fst b) xs"
  shows "case first_row xs reverse start of
      None \<Rightarrow> scan_rows xs m reverse start = []
    | Some i \<Rightarrow> i < length xs \<and> scan_rows xs m reverse start = take m (xs ! i # after xs reverse i)"
proof (cases start)
  case None
  then show ?thesis
    using take_rev_last [of "length xs" xs]
    by (cases xs) (auto simp: first_row_def scan_rows_def after_def)
next
  case (Some s)
  let ?i = "length (takeWhile (\<lambda>r. fst r < s) xs)"
  have i: "?i \<le> length xs" by (rule length_takeWhile_le)
  show ?thesis
  proof (cases reverse)
    case True
    define n where "n = (if ?i < length xs \<and> fst (xs ! ?i) = s then ?i + 1 else ?i)"
    have "takeWhile (\<lambda>r. fst r \<le> s) xs = take n xs" "n \<le> length xs"
      using i by (simp_all add: takeWhile_le [OF assms] Let_def n_def)
    moreover have "first_row xs reverse start = (if n = 0 then None else Some (n - 1))"
      using True Some by (simp add: first_row_def n_def Let_def)
    ultimately show ?thesis
      using True Some take_rev_last [of n xs] by (cases "n = 0") (simp_all add: scan_rows_def after_def)
  next
    case False
    then show ?thesis
      using Some by (auto simp: first_row_def scan_rows_def after_def row_at_def Let_def dropWhile_index Cons_nth_drop_Suc)
  qed
qed

section \<open>The walk\<close>

definition fetch_row ::
  "'n libmdbx \<Rightarrow> nat option \<Rightarrow> nat \<Rightarrow> nat \<Rightarrow> bool \<Rightarrow> bytes option \<Rightarrow> MDBX_cursor_op \<Rightarrow> bytes \<Rightarrow> bool
     \<Rightarrow> ('n, int \<times> bytes \<times> bytes) mem" where
  "fetch_row L p d c reverse start opr key positioning =
     bindM (cursor_get L p c key opr) (\<lambda>r.
       case start of
         Some from_key \<Rightarrow> if positioning \<and> reverse then reposition L p d c from_key r else returnM r
       | None \<Rightarrow> returnM r)"

lemma scan_loop_fetch:
  "scan_loop L p d c limit want reverse start opr key positioning ks vs w =
     (if length ks < limit then
        bindM (fetch_row L p d c reverse start opr key positioning) (\<lambda>r.
        if fst r = MDBX_NOTFOUND then returnM (MDBX_SUCCESS, False, ks, vs)
        else if fst r \<noteq> MDBX_SUCCESS then returnM (fst r, False, ks, vs)
        else
          bindM (allocM L (length (fst (snd r)))) (\<lambda>ok.
          if \<not> ok then returnM (MDBX_SUCCESS, True, ks, vs) else
          bindM (if want then allocM L (length (snd (snd r))) else returnM True) (\<lambda>ok.
          if \<not> ok then returnM (MDBX_SUCCESS, True, ks @ [fst (snd r)], vs) else
          scan_loop L p d c limit want reverse start
            (if reverse then MDBX_PREV else MDBX_NEXT) (fst (snd r)) False
            (ks @ [fst (snd r)]) (if want then vs @ [snd (snd r)] else vs)))) w
      else (Inr (MDBX_SUCCESS, False, ks, vs), w))"
  by (subst scan_loop.simps)
    (auto simp: fetch_row_def bindM_def returnM_def split: prod.split sum.split)

lemma scan_loop_stop:
  assumes "length ks < limit" and "fetch_row L p d c reverse start opr key positioning w = (Inr (MDBX_NOTFOUND, row), u)"
  shows "scan_loop L p d c limit want reverse start opr key positioning ks vs w = (Inr (MDBX_SUCCESS, False, ks, vs), u)"
  using assms by (subst scan_loop_fetch) (simp add: bindM_def returnM_def)

text \<open>What the loop is to return: the rows \<open>ys\<close> after what it has, or that an allocation failed.\<close>

definition walked :: "'n libmdbx \<Rightarrow> bool \<Rightarrow> rows \<Rightarrow> bytes list \<Rightarrow> bytes list \<Rightarrow> int \<times> bool \<times> bytes list \<times> bytes list \<Rightarrow> bool" where
  "walked L want ys ks vs out \<longleftrightarrow>
     out = (MDBX_SUCCESS, False, ks @ map fst ys, if want then vs @ map snd ys else vs)
     \<or> memory_short L \<and> fst out = MDBX_SUCCESS \<and> fst (snd out)"

lemma walked_none [simp]: "walked L want [] ks vs (MDBX_SUCCESS, False, ks, vs)"
  by (simp add: walked_def)

lemma walked_more:
  "walked L want ys (ks @ [fst r]) (if want then vs @ [snd r] else vs) out \<Longrightarrow> walked L want (r # ys) ks vs out"
  by (auto simp: walked_def)

lemma alloc_run:
  assumes "cursor_ok L q d c xs start pos good" and "good (w_lib v)"
  obtains ok n where "allocM L m v = (Inr ok, v\<lparr>w_lib := n\<rparr>)" "good n" "pos n = pos (w_lib v)" "ok \<or> memory_short L"
proof -
  obtain ok n where "L_alloc L m (w_lib v) = (ok, n)" "good n" "pos n = pos (w_lib v)"
    using assms unfolding cursor_ok_def by blast
  then have "allocM L m v = (Inr ok, v\<lparr>w_lib := n\<rparr>)" "good n" "pos n = pos (w_lib v)" "ok \<or> memory_short L"
    unfolding memory_short_def by (simp_all add: allocM_def) (metis fst_conv)
  then show thesis by (rule that)
qed

text \<open>A row was found: it is collected and the loop goes on, or there is no memory for it.\<close>

lemma scan_loop_row:
  assumes ok: "cursor_ok L q d c xs start pos good" and "length ks < limit"
    and "fetch_row L p d c reverse start opr key positioning w = (Inr (MDBX_SUCCESS, k, x), u)" and "good (w_lib u)"
  obtains (more) n where "good n" "pos n = pos (w_lib u)"
      "scan_loop L p d c limit want reverse start opr key positioning ks vs w
     = scan_loop L p d c limit want reverse start (if reverse then MDBX_PREV else MDBX_NEXT) k False
         (ks @ [k]) (if want then vs @ [x] else vs) (u\<lparr>w_lib := n\<rparr>)"
  | (short) n out where "good n" "\<And>xs. walked L want xs ks vs out"
      "scan_loop L p d c limit want reverse start opr key positioning ks vs w = (Inr out, u\<lparr>w_lib := n\<rparr>)"
proof -
  obtain b1 n1 where n1: "allocM L (length k) u = (Inr b1, u\<lparr>w_lib := n1\<rparr>)" "good n1" "pos n1 = pos (w_lib u)" "b1 \<or> memory_short L"
    using alloc_run [OF ok assms(4), of "length k"] by metis
  have g1: "good (w_lib (u\<lparr>w_lib := n1\<rparr>))" using n1(2) by simp
  obtain b2 n2 where n2: "allocM L (length x) (u\<lparr>w_lib := n1\<rparr>) = (Inr b2, u\<lparr>w_lib := n2\<rparr>)" "good n2" "pos n2 = pos n1" "b2 \<or> memory_short L"
    using alloc_run [OF ok g1, of "length x"] by auto
  note run = scan_loop_fetch [of L p d c limit want reverse start opr key positioning ks vs w]
  consider "\<not> b1" | "b1" "\<not> want" | "b1" "want" "b2" | "b1" "want" "\<not> b2" by blast
  then show thesis
  proof cases
    case 1
    show thesis
      by (rule short [of n1 "(MDBX_SUCCESS, True, ks, vs)"])
        (use 1 n1 run assms(2,3) in \<open>simp_all add: bindM_def returnM_def walked_def\<close>)
  next
    case 2
    show thesis by (rule more [of n1]) (use 2 n1 run assms(2,3) in \<open>simp_all add: bindM_def returnM_def\<close>)
  next
    case 3
    show thesis by (rule more [of n2]) (use 3 n1 n2 run assms(2,3) in \<open>simp_all add: bindM_def\<close>)
  next
    case 4
    show thesis
      by (rule short [of n2 "(MDBX_SUCCESS, True, ks @ [k], vs)"])
        (use 4 n1 n2 run assms(2,3) in \<open>simp_all add: bindM_def returnM_def walked_def\<close>)
  qed
qed

lemma cursor_run:
  assumes "cursor_ok L q d c xs start pos good" and "good (w_lib w)" and "txn_usable q e w"
    and "pinned start (pos (w_lib w)) key opr"
  shows "\<exists>n rc row. cursor_get L (Some q) c key opr w = (Inr (rc, row), w\<lparr>w_lib := n\<rparr>) \<and> good n
     \<and> (case seek xs (the (pos (w_lib w))) key opr of
          None \<Rightarrow> rc = MDBX_NOTFOUND | Some i \<Rightarrow> rc = MDBX_SUCCESS \<and> row = xs ! i \<and> pos n = Some i)"
proof -
  obtain n rc row where r: "L_cursor_get L c key opr (w_lib w) = (NRet (rc, row), n)" "good n"
      "case seek xs (the (pos (w_lib w))) key opr of
          None \<Rightarrow> rc = MDBX_NOTFOUND | Some i \<Rightarrow> rc = MDBX_SUCCESS \<and> row = xs ! i \<and> pos n = Some i"
    using assms(1,2,4) unfolding cursor_ok_def by blast
  have "cursor_get L (Some q) c key opr w = (Inr (rc, row), w\<lparr>w_lib := n\<rparr>)"
    unfolding cursor_get_def by (rule txn_call_run [OF assms(3)]) (rule r(1))
  then show ?thesis using r(2,3) by blast
qed

lemma cmp_run:
  assumes "cursor_ok L q d c xs start pos good" and "good (w_lib w)" and "txn_usable q e w"
  shows "\<exists>n r. txn_call (Some q) (\<lambda>t. L_cmp L t d a b) w = (Inr r, w\<lparr>w_lib := n\<rparr>) \<and> good n
     \<and> pos n = pos (w_lib w) \<and> (0 < r \<longleftrightarrow> b < a)"
proof -
  obtain n r where r: "L_cmp L q d a b (w_lib w) = (NRet r, n)" "good n" "pos n = pos (w_lib w)" "0 < r \<longleftrightarrow> b < a"
    using assms(1,2) unfolding cursor_ok_def by blast
  have "txn_call (Some q) (\<lambda>t. L_cmp L t d a b) w = (Inr r, w\<lparr>w_lib := n\<rparr>)"
    by (rule txn_call_run [OF assms(3)]) (rule r(1))
  then show ?thesis using r(2-4) by blast
qed

lemma usable_lib [simp]: "txn_usable q e (w\<lparr>w_lib := n\<rparr>) = txn_usable q e w"
  by (simp add: txn_usable_def)

text \<open>After the first row: a row and the step to the next one, until the limit or the end.\<close>

lemma scan_walk:
  assumes ok: "cursor_ok L q d c xs start pos good" and u: "txn_usable q e w"
    and "good (w_lib w)" and "pos (w_lib w) = Some i" and "i < length xs"
  shows "\<exists>n out. good n \<and> scan_loop L (Some q) d c limit want reverse start
        (if reverse then MDBX_PREV else MDBX_NEXT) key False ks vs w = (Inr out, w\<lparr>w_lib := n\<rparr>)
     \<and> walked L want (take (limit - length ks) (after xs reverse i)) ks vs out"
  using assms(2-)
proof (induction "limit - length ks" arbitrary: ks vs key w i)
  case 0
  then show ?case by (intro exI [of _ "w_lib w"]) (simp add: scan_loop_fetch)
next
  case (Suc m)
  let ?opr = "if reverse then MDBX_PREV else MDBX_NEXT"
  have room: "length ks < limit" using Suc.hyps(2) by simp
  have step: "pinned start (pos (w_lib w)) key ?opr" using Suc.prems(3) by (simp add: pinned_def)
  obtain n rc row where r: "cursor_get L (Some q) c key ?opr w = (Inr (rc, row), w\<lparr>w_lib := n\<rparr>)" "good n"
      "case seek xs i key ?opr of None \<Rightarrow> rc = MDBX_NOTFOUND | Some j \<Rightarrow> rc = MDBX_SUCCESS \<and> row = xs ! j \<and> pos n = Some j"
    using cursor_run [OF ok Suc.prems(2,1) step] Suc.prems(3) by auto
  have f: "fetch_row L (Some q) d c reverse start ?opr key False w = (Inr (rc, row), w\<lparr>w_lib := n\<rparr>)"
    using r(1) by (simp add: fetch_row_def bindM_def returnM_def split: option.split)
  note succ = after_seek [where key = key and reverse = reverse, OF Suc.prems(4)]
  show ?case
  proof (cases "seek xs i key ?opr")
    case None
    then have "after xs reverse i = []" "rc = MDBX_NOTFOUND" using r(3) succ by simp_all
    then show ?thesis using scan_loop_stop [OF room, of L "Some q" d c reverse start ?opr key False w row] f r(2) by auto
  next
    case (Some j)
    then have j: "rc = MDBX_SUCCESS" "row = xs ! j" "pos n = Some j" "j < length xs"
        "after xs reverse i = xs ! j # after xs reverse j" using r(3) succ by simp_all
    have f': "fetch_row L (Some q) d c reverse start ?opr key False w
        = (Inr (MDBX_SUCCESS, fst (xs ! j), snd (xs ! j)), w\<lparr>w_lib := n\<rparr>)" using f j(1,2) by simp
    have g: "good (w_lib (w\<lparr>w_lib := n\<rparr>))" using r(2) by simp
    from ok room f' g show ?thesis
    proof (cases rule: scan_loop_row [where want = want and vs = vs])
      case (more n2)
      have m: "m = limit - length (ks @ [fst (xs ! j)])" using Suc.hyps(2) by simp
      have rest: "take (limit - length ks) (after xs reverse i) = xs ! j # take m (after xs reverse j)"
        using j(5) unfolding Suc.hyps(2) [symmetric] by simp
      show ?thesis
        using Suc.hyps(1) [OF m, of "w\<lparr>w_lib := n2\<rparr>" j "fst (xs ! j)" "if want then vs @ [snd (xs ! j)] else vs"]
          Suc.prems(1) more j(3,4) m unfolding rest by (fastforce intro: walked_more)
    next
      case (short n2 out)
      then show ?thesis by auto
    qed
  qed
qed

text \<open>The first row, positioning included.\<close>

text \<open>The first row of a backward scan from a key: the first one not before it, or the one before that.\<close>

lemma reposition_back:
  assumes ok: "cursor_ok L q d c xs (Some s) pos good" and u: "txn_usable q e w" and g: "good (w_lib w)"
    and i: "i = length (takeWhile (\<lambda>r. fst r < s) xs)" "i < length xs" and p: "pos (w_lib w) = Some i"
  shows "\<exists>n rc row. reposition L (Some q) d c s (MDBX_SUCCESS, xs ! i) w = (Inr (rc, row), w\<lparr>w_lib := n\<rparr>) \<and> good n
     \<and> (case first_row xs True (Some s) of
          None \<Rightarrow> rc = MDBX_NOTFOUND | Some i \<Rightarrow> rc = MDBX_SUCCESS \<and> row = xs ! i \<and> pos n = Some i)"
proof -
  have ge: "\<not> fst (xs ! i) < s" using nth_length_takeWhile [of "\<lambda>r. fst r < s" xs] i by simp
  obtain n x where c: "txn_call (Some q) (\<lambda>t. L_cmp L t d (fst (xs ! i)) s) w = (Inr x, w\<lparr>w_lib := n\<rparr>)"
      "good n" "pos n = Some i" "0 < x \<longleftrightarrow> s < fst (xs ! i)"
    using cmp_run [OF ok g u, of "fst (xs ! i)" s] p by auto
  have g': "good (w_lib (w\<lparr>w_lib := n\<rparr>))" and u': "txn_usable q e (w\<lparr>w_lib := n\<rparr>)" using c(2) u by simp_all
  show ?thesis
  proof (cases "s < fst (xs ! i)")
    case True
    then have e: "seek xs i k MDBX_PREV = first_row xs True (Some s)" for k
      using i by (auto simp: seek_def first_row_def Let_def)
    have "reposition L (Some q) d c s (MDBX_SUCCESS, xs ! i) w = cursor_get L (Some q) c (fst (xs ! i)) MDBX_PREV (w\<lparr>w_lib := n\<rparr>)"
      using c(1,4) True by (simp add: reposition_def bindM_def)
    then show ?thesis
      using cursor_run [OF ok g' u', of "fst (xs ! i)" MDBX_PREV] unfolding world.simps
      by (simp add: c(3) pinned_def e)
  next
    case False
    then have "fst (xs ! i) = s" using ge by simp
    then have "first_row xs True (Some s) = Some i" using i by (simp add: first_row_def Let_def)
    moreover have "reposition L (Some q) d c s (MDBX_SUCCESS, xs ! i) w = (Inr (MDBX_SUCCESS, xs ! i), w\<lparr>w_lib := n\<rparr>)"
      using c(1,4) False by (simp add: reposition_def bindM_def returnM_def)
    ultimately show ?thesis using c(2,3) by auto
  qed
qed

lemma fetch_first:
  assumes ok: "cursor_ok L q d c xs start pos good" and u: "txn_usable q e w" and g: "good (w_lib w)"
  shows "\<exists>n rc row. fetch_row L (Some q) d c reverse start (first_op reverse start) (first_key start) True w
        = (Inr (rc, row), w\<lparr>w_lib := n\<rparr>) \<and> good n
     \<and> (case first_row xs reverse start of
          None \<Rightarrow> rc = MDBX_NOTFOUND | Some i \<Rightarrow> rc = MDBX_SUCCESS \<and> row = xs ! i \<and> pos n = Some i)"
proof (cases "\<exists>s. start = Some s \<and> reverse")
  case False
  have s: "seek xs p (first_key start) (first_op reverse start) = first_row xs reverse start" for p
    using False by (cases start) (auto simp: seek_def first_op_def first_key_def first_row_def row_at_def)
  have pin: "pinned start p (first_key start) (first_op reverse start)" for p
    by (cases start) (simp_all add: pinned_def first_op_def first_key_def)
  have f: "fetch_row L (Some q) d c reverse start (first_op reverse start) (first_key start) True w
      = bindM (cursor_get L (Some q) c (first_key start) (first_op reverse start)) returnM w"
    using False by (cases start) (simp_all add: fetch_row_def)
  show ?thesis
    using cursor_run [OF ok g u pin] unfolding f s
    by (auto simp: bindM_def returnM_def)
next
  case True
  then obtain s where s: "start = Some s" and rv: "reverse = True" by blast
  define i where "i = length (takeWhile (\<lambda>r. fst r < s) xs)"
  obtain n rc row where r: "cursor_get L (Some q) c s MDBX_SET_RANGE w = (Inr (rc, row), w\<lparr>w_lib := n\<rparr>)" "good n"
      "case row_at xs i of None \<Rightarrow> rc = MDBX_NOTFOUND | Some i \<Rightarrow> rc = MDBX_SUCCESS \<and> row = xs ! i \<and> pos n = Some i"
    using cursor_run [OF ok g u, of s MDBX_SET_RANGE] s by (auto simp: seek_def i_def pinned_def)
  have f: "fetch_row L (Some q) d c reverse start (first_op reverse start) (first_key start) True w
      = reposition L (Some q) d c s (rc, row) (w\<lparr>w_lib := n\<rparr>)"
    using r(1) s rv by (simp add: fetch_row_def bindM_def first_op_def first_key_def)
  have u': "txn_usable q e (w\<lparr>w_lib := n\<rparr>)" and g': "good (w_lib (w\<lparr>w_lib := n\<rparr>))" using u r(2) by simp_all
  show ?thesis
  proof (cases "i < length xs")
    case False
    then have rc: "rc = MDBX_NOTFOUND" using r(3) by (simp add: row_at_def)
    have "i = length xs" using False length_takeWhile_le [of "\<lambda>r. fst r < s" xs] by (simp add: i_def)
    then have e: "seek xs p k MDBX_LAST = first_row xs reverse start" for p k
      using s rv by (auto simp: seek_def first_row_def i_def)
    show ?thesis
      using cursor_run [OF ok g' u', of "fst row" MDBX_LAST] unfolding f rc e by (auto simp: reposition_def pinned_def)
  next
    case True
    then have rc: "rc = MDBX_SUCCESS" "row = xs ! i" "pos n = Some i" using r(3) by (simp_all add: row_at_def)
    show ?thesis using reposition_back [OF ok [unfolded s] u' g' i_def True] rc(3) unfolding s rv f [unfolded rc(1,2) s rv] by simp
  qed
qed

lemma scan_all:
  assumes ok: "cursor_ok L q d c xs start pos good" and u: "txn_usable q e w" and g: "good (w_lib w)"
    and sorted: "sorted_wrt (\<lambda>a b. fst a < fst b) xs"
  shows "\<exists>n out. good n \<and> scan_loop L (Some q) d c limit want reverse start (first_op reverse start) (first_key start) True [] [] w
      = (Inr out, w\<lparr>w_lib := n\<rparr>) \<and> walked L want (scan_rows xs limit reverse start) [] [] out"
proof (cases "limit = 0")
  case True
  then show ?thesis using g by (intro exI [of _ "w_lib w"]) (simp add: scan_loop_fetch scan_rows_def)
next
  case False
  then have room: "length ([] :: bytes list) < limit" by simp
  obtain n rc row where f: "fetch_row L (Some q) d c reverse start (first_op reverse start) (first_key start) True w
        = (Inr (rc, row), w\<lparr>w_lib := n\<rparr>)" "good n"
      "case first_row xs reverse start of
          None \<Rightarrow> rc = MDBX_NOTFOUND | Some i \<Rightarrow> rc = MDBX_SUCCESS \<and> row = xs ! i \<and> pos n = Some i"
    using fetch_first [OF ok u g] by blast
  note first = first_row_rows [where reverse = reverse and start = start and m = limit, OF sorted]
  show ?thesis
  proof (cases "first_row xs reverse start")
    case None
    then have "rc = MDBX_NOTFOUND" "scan_rows xs limit reverse start = []" using f(3) first by simp_all
    then show ?thesis
      using scan_loop_stop [OF room, of L "Some q" d c reverse start "first_op reverse start" "first_key start" True w row] f(1,2)
      by auto
  next
    case (Some i)
    then have i: "rc = MDBX_SUCCESS" "row = xs ! i" "pos n = Some i" "i < length xs"
        "scan_rows xs limit reverse start = take limit (xs ! i # after xs reverse i)" using f(3) first by simp_all
    have f': "fetch_row L (Some q) d c reverse start (first_op reverse start) (first_key start) True w
        = (Inr (MDBX_SUCCESS, fst (xs ! i), snd (xs ! i)), w\<lparr>w_lib := n\<rparr>)" using f(1) i(1,2) by simp
    have g': "good (w_lib (w\<lparr>w_lib := n\<rparr>))" using f(2) by simp
    from ok room f' g' show ?thesis
    proof (cases rule: scan_loop_row [where want = want and vs = "[]"])
      case (more n2)
      have u2: "txn_usable q e (w\<lparr>w_lib := n2\<rparr>)" and g2: "good (w_lib (w\<lparr>w_lib := n2\<rparr>))" "pos (w_lib (w\<lparr>w_lib := n2\<rparr>)) = Some i"
        using u more i(3) by simp_all
      have rest: "scan_rows xs limit reverse start = xs ! i # take (limit - 1) (after xs reverse i)"
        using False i(5) by (cases limit) simp_all
      show ?thesis
        using scan_walk [OF ok u2 g2 i(4), of limit want reverse "fst (xs ! i)" "[] @ [fst (xs ! i)]"
            "if want then [] @ [snd (xs ! i)] else []"] more(3) unfolding rest by (fastforce intro: walked_more)
    next
      case (short n2 out)
      then show ?thesis by auto
    qed
  qed
qed

section \<open>The entry point\<close>

lemma scan_call_run:
  assumes ok: "cursor_ok L q d c xs start pos good" and v: "w_txns v t = Some th" "th_txn th = Some q" "th_dbi th = d"
    and u: "txn_usable q e v" and sorted: "sorted_wrt (\<lambda>a b. fst a < fst b) xs"
    and opened: "L_cursor_open L q d (w_lib v) = (NRet (MDBX_SUCCESS, c), n)" "good n"
  shows "\<exists>n' out. guard (scan_call L t limit want reverse start) poison v = (Inr out, v\<lparr>w_lib := n'\<rparr>)
     \<and> walked L want (scan_rows xs limit reverse start) [] [] out"
proof -
  let ?u = "(push_frame v)\<lparr>w_lib := n\<rparr>"
  have o: "txn_call (Some q) (\<lambda>p. L_cursor_open L p d) (push_frame v) = (Inr (MDBX_SUCCESS, c), ?u)"
    by (rule txn_call_run) (use u opened(1) in simp_all)
  have u': "txn_usable q e ?u" and g: "good (w_lib ?u)" using u opened(2) by simp_all
  obtain n1 out where l: "good n1" "scan_loop L (Some q) d c limit want reverse start (first_op reverse start) (first_key start) True [] [] ?u
     = (Inr out, ?u\<lparr>w_lib := n1\<rparr>)" "walked L want (scan_rows xs limit reverse start) [] [] out"
    using scan_all [OF ok u' g sorted] by metis
  obtain n2 where "L_cursor_close L c n1 = (NRet (), n2)" using ok l(1) unfolding cursor_ok_def by blast
  then have x: "txn_call (Some q) (\<lambda>_. L_cursor_close L c) (?u\<lparr>w_lib := n1\<rparr>) = (Inr (), ?u\<lparr>w_lib := n2\<rparr>)"
    using txn_call_run [of q e "?u\<lparr>w_lib := n1\<rparr>" "\<lambda>_. L_cursor_close L c" "()" n2] u by simp
  have "scan_call L t limit want reverse start (push_frame v) = (Inr out, (push_frame v)\<lparr>w_lib := n2\<rparr>)"
    using v l(2) x o by (simp add: scan_call_def bindM_def txn_at_def fetchM_def thenM_def returnM_def)
  then show ?thesis using l(3) by (intro exI [of _ n2] exI [of _ out] conjI guard_return)
qed

text \<open>C25: \<open>mdbx_scan_\<close> is a slice of the sorted table. On a live transaction whose database is
  resolved, with a cursor that behaves as documented, it returns exactly the first \<open>limit\<close> rows
  from the start key on, in key order, or, backwards, the rows from the greatest key that is at
  most the start key down; keys and values in step, and the values only when they are asked for.
  The one other outcome is the error for an allocation that failed. Nothing but libmdbx's state
  has changed since the database was resolved.\<close>

theorem scan_outcome:
  assumes "library_ok L" and "reachable L w" and "txn_ptr w i t" and "live_txn t w"
    and "w_txns w t = Some th" and "th_txn th = Some q"
    and "ensure_dbi L t (db_arg db) w = (Inr d, v)"
    and "dle limit (max_native_integer (L_sizeof_voidp L))" and "scan_limit L limit = Some m"
    and "L_cursor_open L q d (w_lib v) = (NRet (MDBX_SUCCESS, c), n)" and "good n"
    and "cursor_ok L q d c xs (raw_or_null start) pos good" and "sorted_wrt (\<lambda>a b. fst a < fst b) xs"
  shows "\<exists>r n'. mdbx_scan L (R_ExtPtr i) limit want db start reverse w = (r, v\<lparr>w_lib := n'\<rparr>)
     \<and> (r = Inr (map fst (scan_rows xs m reverse (raw_or_null start)),
                 if want then map snd (scan_rows xs m reverse (raw_or_null start)) else [])
        \<or> memory_short L \<and> r = Inl ScanOutOfMemory)"
proof -
  have I: "inv w" by (rule inv_reachable [OF assms(2,1)])
  obtain th' e where v: "w_txns v t = Some th'" "th_txn th' = Some q" "th_dbi th' = d" "txn_usable q e v"
    using resolve_ready [OF I assms(4-7)] by metis
  obtain n' out where g: "guard (scan_call L t m want reverse (raw_or_null start)) (Some (poison_txn t)) v = (Inr out, v\<lparr>w_lib := n'\<rparr>)"
      "walked L want (scan_rows xs m reverse (raw_or_null start)) [] [] out"
    using scan_call_run [OF assms(12) v assms(13,10,11)] by metis
  show ?thesis
    using assms(8,9) g(2)
    by (auto simp: mdbx_scan_def op_run castM_def txn_from_sexp_live [OF I assms(3,4)] assms(7) g(1) walked_def)
qed

definition demo_rows :: rows where
  "demo_rows = [(''a'', ''1''), (''b'', ''2''), (''c'', ''3'')]"

definition demo_scannable :: "demo \<Rightarrow> bool" where
  "demo_scannable n \<longleftrightarrow> d_kv n = demo_rows \<and> \<not> d_panics n \<and> (\<forall>p. d_pos n = Some p \<longrightarrow> p < 3)"

lemma demo_memory: "\<not> memory_short demo_lib"
  by (simp add: memory_short_def demo_lib_def)

lemma demo_cursor: "cursor_ok demo_lib 1 1 0 demo_rows start d_pos demo_scannable"
  unfolding cursor_ok_def
proof (intro allI impI conjI)
  fix n key opr m a b
  assume n: "demo_scannable n"
  then have kv: "d_kv n = demo_rows" "\<not> d_panics n" "\<And>p. d_pos n = Some p \<Longrightarrow> p < 3" by (simp_all add: demo_scannable_def)
  show "\<exists>n' ok. L_alloc demo_lib m n = (ok, n') \<and> demo_scannable n' \<and> d_pos n' = d_pos n"
    using n by (auto simp: demo_lib_def)
  show "\<exists>n' r. L_cmp demo_lib 1 1 a b n = (NRet r, n') \<and> demo_scannable n' \<and> d_pos n' = d_pos n \<and> (0 < r \<longleftrightarrow> b < a)"
    using n kv by (simp add: demo_lib_def demo_call_def)
  show "\<exists>n'. L_cursor_close demo_lib 0 n = (NRet (), n')"
    using kv by (simp add: demo_lib_def demo_call_def)
  assume pin: "pinned start (d_pos n) key opr"
  define i where "i = (case opr of MDBX_FIRST \<Rightarrow> 0 | MDBX_LAST \<Rightarrow> 2 | MDBX_NEXT \<Rightarrow> the (d_pos n) + 1
      | MDBX_PREV \<Rightarrow> if the (d_pos n) = 0 then 3 else the (d_pos n) - 1
      | MDBX_SET_RANGE \<Rightarrow> length (takeWhile (\<lambda>r. fst r < key) demo_rows))"
  have len: "length demo_rows = 3" by (simp add: demo_rows_def)
  have s: "seek demo_rows (the (d_pos n)) key opr = (if i < 3 then Some i else None)"
    using kv(3) pin
    by (cases opr) (simp_all add: seek_def i_def row_at_def len pinned_def, auto simp: demo_rows_def)
  have "L_cursor_get demo_lib 0 key opr n
      = (NRet (demo_at i n), if i < 3 then n\<lparr>d_pos := Some i\<rparr> else n)"
    using kv pin by (cases opr) (auto simp: demo_lib_def demo_cursor_get_def demo_do_def i_def len Let_def pinned_def)
  then show "\<exists>n' rc row. L_cursor_get demo_lib 0 key opr n = (NRet (rc, row), n') \<and> demo_scannable n'
      \<and> (case seek demo_rows (the (d_pos n)) key opr of
           None \<Rightarrow> rc = MDBX_NOTFOUND | Some i \<Rightarrow> rc = MDBX_SUCCESS \<and> row = demo_rows ! i \<and> d_pos n' = Some i)"
    using n kv unfolding s by (cases "i < 3") (simp_all add: demo_at_def len demo_scannable_def)
qed

theorem scan_outcome_witness:
  "\<exists>w'. mdbx_scan demo_lib (R_ExtPtr 3) (Fin 2) True [] (R_Raw ''bb'') True demo_begun
     = (Inr ([''b'', ''a''], [''2'', ''1'']), w')"
proof -
  have d: "ensure_dbi demo_lib 2 (db_arg []) demo_begun = (Inr 1, demo_resolved)"
    using demo_resolves by (simp add: db_arg_def)
  have m: "dle (Fin 2) (max_native_integer (L_sizeof_voidp demo_lib))" "scan_limit demo_lib (Fin 2) = Some 2"
    by (simp_all add: demo_lib_def max_native_integer_def max_exact_integer_def scan_limit_def cast_unsigned_def trunc_rat_def)
  have o: "L_cursor_open demo_lib 1 1 (w_lib demo_resolved) = (NRet (MDBX_SUCCESS, 0), demo_store)" "demo_scannable demo_store"
    by (simp_all add: demo_resolved_def demo_begun_def demo_lib_def demo_do_def demo_store_def demo_scannable_def demo_rows_def)
  have s: "sorted_wrt (\<lambda>a b. fst a < fst b) demo_rows" by (simp add: demo_rows_def less_char_def)
  have "scan_rows demo_rows 2 True (raw_or_null (R_Raw ''bb'')) = [(''b'', ''2''), (''a'', ''1'')]"
    by (simp add: scan_rows_def raw_or_null_def demo_rows_def less_char_def)
  then show ?thesis
    using scan_outcome [where reverse = True and start = "R_Raw ''bb''" and want = True,
        OF demo_ok demo_begun_reachable demo_ptr demo_live demo_txn_at(1,2) d m o demo_cursor s] demo_memory
    by auto
qed

section \<open>Whatever the cursor answers\<close>

lemma wp_case_result:
  "wp m (\<lambda>_ _. True) (\<lambda>_ _. True) s \<Longrightarrow> (\<And>x s'. wp (f x) Q (\<lambda>_ _. True) s') \<Longrightarrow> wp (bindM m f) Q (\<lambda>_ _. True) s"
  unfolding wp_bind by (rule wp_mono [of m "\<lambda>_ _. True" "\<lambda>_ _. True"]) simp_all

lemma scan_loop_bounded:
  assumes "length ks \<le> limit" and "length vs = (if want then length ks else 0)"
  shows "wp (scan_loop L p d c limit want reverse start opr key positioning ks vs)
    (\<lambda>(rc, oom, ks', vs') _. length ks' \<le> limit \<and> (\<not> oom \<longrightarrow> length vs' = (if want then length ks' else 0)))
    (\<lambda>_ _. True) w"
  using assms
proof (induction "limit - length ks" arbitrary: ks vs opr key positioning w)
  case 0
  then show ?case by (simp add: wp_def scan_loop_fetch)
next
  case (Suc m ks vs opr key positioning w)
  have room: "length ks < limit" using Suc.hyps(2) by simp
  let ?Q = "\<lambda>(rc, oom, ks', vs') _. length ks' \<le> limit \<and> (\<not> oom \<longrightarrow> length vs' = (if want then length ks' else 0))"
  let ?body = "bindM (fetch_row L p d c reverse start opr key positioning) (\<lambda>r.
        if fst r = MDBX_NOTFOUND then returnM (MDBX_SUCCESS, False, ks, vs)
        else if fst r \<noteq> MDBX_SUCCESS then returnM (fst r, False, ks, vs)
        else
          bindM (allocM L (length (fst (snd r)))) (\<lambda>ok.
          if \<not> ok then returnM (MDBX_SUCCESS, True, ks, vs) else
          bindM (if want then allocM L (length (snd (snd r))) else returnM True) (\<lambda>ok.
          if \<not> ok then returnM (MDBX_SUCCESS, True, ks @ [fst (snd r)], vs) else
          scan_loop L p d c limit want reverse start
            (if reverse then MDBX_PREV else MDBX_NEXT) (fst (snd r)) False
            (ks @ [fst (snd r)]) (if want then vs @ [snd (snd r)] else vs))))"
  have e: "scan_loop L p d c limit want reverse start opr key positioning ks vs w = ?body w"
    by (subst scan_loop_fetch) (rule if_P [OF room])
  have "wp ?body ?Q (\<lambda>_ _. True) w"
  proof (rule wp_case_result [OF wp_any], goal_cases)
    case (1 r u)
    have loop: "wp (scan_loop L p d c limit want reverse start (if reverse then MDBX_PREV else MDBX_NEXT) (fst (snd r)) False
            (ks @ [fst (snd r)]) (if want then vs @ [snd (snd r)] else vs)) ?Q (\<lambda>_ _. True) s" for s
      by (rule Suc.hyps(1)) (use Suc.hyps(2) Suc.prems in \<open>simp_all split: if_splits\<close>)
    show ?case
      using Suc.prems room loop
      by (cases "fst r = MDBX_NOTFOUND"; cases "fst r = MDBX_SUCCESS")
        (auto simp: wp_return intro!: wp_case_result [OF wp_any])
  qed
  then show ?case by (simp only: wp_def e)
qed

lemma scan_call_bounded:
  "wp (scan_call L t limit want reverse start)
    (\<lambda>(rc, oom, ks', vs') _. length ks' \<le> limit \<and> (\<not> oom \<longrightarrow> length vs' = (if want then length ks' else 0)))
    (\<lambda>_ _. True) w"
  unfolding scan_call_def
proof (intro wp_case_result [OF wp_any], goal_cases)
  case (1 h u r v)
  have "wp (bindM (scan_loop L (th_txn h) (th_dbi h) (snd r) limit want reverse start
                (first_op reverse start) (first_key start) True [] []) (\<lambda>out.
       thenM (txn_call (th_txn h) (\<lambda>_. L_cursor_close L (snd r))) (returnM out)))
     (\<lambda>(rc, oom, ks', vs') _. length ks' \<le> limit \<and> (\<not> oom \<longrightarrow> length vs' = (if want then length ks' else 0)))
     (\<lambda>_ _. True) v"
    unfolding wp_bind
    by (rule wp_mono [OF scan_loop_bounded])
      (auto simp: thenM_def wp_return intro!: wp_case_result [OF wp_any])
  then show ?case by (simp add: wp_return)
qed

text \<open>C26: the bound of a scan does not depend on libmdbx: whatever the cursor answers, a scan that
  returns has at most \<open>limit\<close> keys, as many values as keys when values are asked for, and none
  when they are not.\<close>

theorem scan_bounded:
  assumes "mdbx_scan L txn limit want db start reverse w = (Inr (ks, vs), w')"
  shows "\<exists>m. scan_limit L limit = Some m \<and> length ks \<le> m \<and> length vs = (if want then length ks else 0)"
proof -
  let ?R = "\<lambda>(ks, vs) _. \<exists>m. scan_limit L limit = Some m \<and> length ks \<le> m \<and> length vs = (if want then length ks else 0)"
  have body: "wp (bindM (guard (scan_call L t m want reverse st) (Some (poison_txn t))) (\<lambda>out.
      if fst (snd out) then stopM ScanOutOfMemory
      else thenM (check L (fst out))
             (returnM (fst (snd (snd out)), if want then snd (snd (snd out)) else [])))) ?R (\<lambda>_ _. True) u"
    if "scan_limit L limit = Some m" for t m st u
  proof -
    have "wp (guard (scan_call L t m want reverse st) (Some (poison_txn t)))
      (\<lambda>(rc, oom, ks', vs') _. length ks' \<le> m \<and> (\<not> oom \<longrightarrow> length vs' = (if want then length ks' else 0)))
      (\<lambda>_ _. True) u"
      by (rule wp_guard, rule wp_mono [OF scan_call_bounded]) auto
    then show ?thesis unfolding wp_bind by (rule wp_mono) (use that in \<open>auto simp: wp_simps\<close>)
  qed
  have tail: "wp (bindM (castM (scan_limit L limit)) (\<lambda>m.
      bindM (guard (scan_call L t m want reverse st) (Some (poison_txn t))) (\<lambda>out.
      if fst (snd out) then stopM ScanOutOfMemory
      else thenM (check L (fst out))
             (returnM (fst (snd (snd out)), if want then snd (snd (snd out)) else []))))) ?R (\<lambda>_ _. True) u"
    for t st u
  proof (cases "scan_limit L limit")
    case None
    show ?thesis unfolding None castM_def option.case wp_bind [of "stopM _"] wp_stop by (rule TrueI)
  next
    case (Some m)
    then show ?thesis using body [OF Some, of t st u] by (simp only: castM_def option.case wp_bind [of "returnM _"] wp_return)
  qed
  have "wp (mdbx_scan L txn limit want db start reverse) ?R (\<lambda>_ _. True) w"
    unfolding mdbx_scan_def wp_if wp_stop thenM_def [of "ensure_dbi _ _ _"]
    by simp (intro impI, rule wp_case_result [OF wp_any], rule wp_case_result [OF wp_any], rule tail)
  then show ?thesis using assms by (simp add: wp_def)
qed

theorem scan_bounded_witness:
  "\<exists>ks vs w'. mdbx_scan demo_lib (R_ExtPtr 3) (Fin 2) True [] R_NilValue False demo_begun = (Inr (ks, vs), w')
     \<and> length ks \<le> 2 \<and> length vs = length ks"
proof -
  have m: "dle (Fin 2) (max_native_integer (L_sizeof_voidp demo_lib))" "scan_limit demo_lib (Fin 2) = Some 2"
    by (simp_all add: demo_lib_def max_native_integer_def max_exact_integer_def scan_limit_def cast_unsigned_def trunc_rat_def)
  have d: "ensure_dbi demo_lib 2 (db_arg []) demo_begun = (Inr 1, demo_resolved)"
    using demo_resolves by (simp add: db_arg_def)
  have v: "w_txns demo_resolved 2 = Some (demo_txn\<lparr>th_main_dbi := 1, th_main_ready := True, th_dbi := 1\<rparr>)"
      "txn_usable 1 0 demo_resolved"
    by (simp_all add: demo_resolved_def demo_begun_def txn_usable_def)
  have o: "L_cursor_open demo_lib 1 1 (w_lib demo_resolved) = (NRet (MDBX_SUCCESS, 0), demo_store)" "demo_scannable demo_store"
    by (simp_all add: demo_resolved_def demo_begun_def demo_lib_def demo_do_def demo_store_def demo_scannable_def demo_rows_def)
  have s: "sorted_wrt (\<lambda>a b. fst a < fst b) demo_rows" by (simp add: demo_rows_def less_char_def)
  obtain n ks vs where "guard (scan_call demo_lib 2 2 True False None) (Some (poison_txn 2)) demo_resolved
      = (Inr (MDBX_SUCCESS, False, ks, vs), demo_resolved\<lparr>w_lib := n\<rparr>)"
    using scan_call_run [where want = True and reverse = False and start = None and limit = 2,
        OF demo_cursor v(1) _ _ v(2) s o, of "Some (poison_txn 2)"] demo_memory by (auto simp: demo_txn_def walked_def)
  then have "mdbx_scan demo_lib (R_ExtPtr 3) (Fin 2) True [] R_NilValue False demo_begun = (Inr (ks, vs), demo_resolved\<lparr>w_lib := n\<rparr>)"
    using m by (simp add: mdbx_scan_def op_run castM_def raw_or_null_def d
        txn_from_sexp_live [OF demo_begun_inv demo_ptr demo_live])
  then show ?thesis using scan_bounded [of demo_lib "R_ExtPtr 3" "Fin 2" True "[]" R_NilValue False demo_begun ks vs] m(2) by auto
qed

end
