(* ===== verification/Mdbx_Vocabulary.thy ===== *)
theory Mdbx_Vocabulary
  imports Mdbx_OpsSafe
begin

unbundle bit_operations_syntax

text \<open>
  Properties of the tables and texts: flag names and bits in both directions, statuses and the
  conditions they become, the panic buffers, and the numbers that cross between R and libmdbx.
\<close>

section \<open>Names to bits\<close>

lemma bits_loop_first_unknown:
  "find (\<lambda>n. n \<notin> fe_name ` set table) names = Some n \<Longrightarrow> bits_loop table bits names = Inl (UnknownFlag n)"
proof (induction names arbitrary: bits)
  case (Cons m ms)
  show ?case
  proof (cases "m \<in> fe_name ` set table")
    case True
    then obtain e where "find (\<lambda>e. fe_name e = m) table = Some e"
      by (cases "find (\<lambda>e. fe_name e = m) table") (auto simp: find_None_iff)
    then show ?thesis using Cons True by simp
  next
    case False
    then have "find (\<lambda>e. fe_name e = m) table = None" by (auto simp: find_None_iff)
    then show ?thesis using Cons.prems False by simp
  qed
qed simp

lemma names_entries:
  assumes "set names \<subseteq> fe_name ` set table" and "\<And>e. e \<in> set table \<Longrightarrow> bit_of table (fe_name e) = fe_bit e"
  shows "(\<exists>n \<in> set names. P (bit_of table n)) \<longleftrightarrow> (\<exists>e \<in> set table. fe_name e \<in> set names \<and> P (fe_bit e))"
proof
  assume "\<exists>n \<in> set names. P (bit_of table n)"
  then obtain n where n: "n \<in> set names" "P (bit_of table n)" by blast
  then obtain e where "e \<in> set table" "n = fe_name e" using assms(1) by auto
  then show "\<exists>e \<in> set table. fe_name e \<in> set names \<and> P (fe_bit e)" using n assms(2) by auto
next
  assume "\<exists>e \<in> set table. fe_name e \<in> set names \<and> P (fe_bit e)"
  then obtain e where "e \<in> set table" "fe_name e \<in> set names" "P (fe_bit e)" by blast
  then show "\<exists>n \<in> set names. P (bit_of table n)" using assms(2) by (intro bexI [of _ "fe_name e"]) simp_all
qed

lemma bit_bits_from:
  assumes "set names \<subseteq> fe_name ` set table"
  shows "\<exists>b. bits_from names table = Inr b \<and> (\<forall>i. bit b i \<longleftrightarrow> (\<exists>n \<in> set names. bit (bit_of table n) i))"
  using bits_loop_known [OF assms, of 0] by (auto simp: bits_from_def bit_foldl_or)

text \<open>C27: \<open>bits_from\<close> on either table: the first name that is in no entry is the error; otherwise the
  result has exactly the bits of the named flags, so the order of the names and repetitions do not
  matter.\<close>

theorem names_to_bits:
  assumes "table = env_flags \<or> table = txn_flags"
  shows "case find (\<lambda>n. n \<notin> fe_name ` set table) names of
      Some n \<Rightarrow> bits_from names table = Inl (UnknownFlag n)
    | None \<Rightarrow> \<exists>b. bits_from names table = Inr b
        \<and> (\<forall>i. bit b i \<longleftrightarrow> (\<exists>e \<in> set table. fe_name e \<in> set names \<and> bit (fe_bit e) i))"
proof (cases "find (\<lambda>n. n \<notin> fe_name ` set table) names")
  case None
  then have known: "set names \<subseteq> fe_name ` set table" by (auto simp: find_None_iff)
  have "bit_of table (fe_name e) = fe_bit e" if "e \<in> set table" for e
    using assms that env_table.find_hit txn_table.find_hit by (auto simp: bit_of_def)
  note entries = names_entries [OF known this, where P = "\<lambda>b. bit b i" for i]
  then show ?thesis using bit_bits_from [OF known] None by (simp add: entries)
next
  case (Some n)
  then show ?thesis using bits_loop_first_unknown by (simp add: bits_from_def)
qed

theorem names_to_bits_witness:
  "bits_from [''TRY'', ''NOPE'', ''NOSYNC''] txn_flags = Inl (UnknownFlag ''NOPE'')"
proof -
  have "find (\<lambda>n. n \<notin> fe_name ` set txn_flags) [''TRY'', ''NOPE'', ''NOSYNC''] = Some ''NOPE''"
    by (simp add: txn_flags_def)
  then show ?thesis using names_to_bits [of txn_flags "[''TRY'', ''NOPE'', ''NOSYNC'']"] by simp
qed

section \<open>Bits to names\<close>

lemma and_eq_bits: "b AND m = m \<longleftrightarrow> (\<forall>i. bit (m :: u32) i \<longrightarrow> bit b i)"
proof
  assume e: "b AND m = m"
  have "bit b i" if "bit m i" for i
  proof -
    have "bit (b AND m) i" using that unfolding e .
    then show ?thesis by (simp add: bit_and_iff)
  qed
  then show "\<forall>i. bit m i \<longrightarrow> bit b i" by blast
next
  assume "\<forall>i. bit m i \<longrightarrow> bit b i"
  then show "b AND m = m" by (intro bit_eqI) (auto simp: bit_and_iff)
qed

lemma env_bits:
  assumes "env_flags_from_names ns = Inr b"
  shows "set ns \<subseteq> fe_name ` set env_flags"
    and "bit b i \<longleftrightarrow> (\<exists>e \<in> set env_flags. fe_name e \<in> set ns \<and> bit (fe_bit e) i)"
proof -
  show known: "set ns \<subseteq> fe_name ` set env_flags"
    using assms bits_loop_unknown [of ns env_flags 0] by (auto simp: env_flags_from_names_def bits_from_def)
  have "bit_of env_flags (fe_name e) = fe_bit e" if "e \<in> set env_flags" for e
    using env_table.find_hit [OF that] by (simp add: bit_of_def)
  note entries = names_entries [OF known this, where P = "\<lambda>b. bit b i"]
  then show "bit b i \<longleftrightarrow> (\<exists>e \<in> set env_flags. fe_name e \<in> set ns \<and> bit (fe_bit e) i)"
    using bit_bits_from [OF known] assms by (auto simp: env_flags_from_names_def entries)
qed

lemma utterly_entry:
  "\<exists>e \<in> set env_flags. fe_name e = ''UTTERLY_NOSYNC'' \<and> fe_bit e = MDBX_UTTERLY_NOSYNC"
  "e \<in> set env_flags \<Longrightarrow> fe_name e = ''UTTERLY_NOSYNC'' \<Longrightarrow> fe_bit e = MDBX_UTTERLY_NOSYNC"
  "e \<in> set env_flags \<Longrightarrow> fe_name e = ''SAFE_NOSYNC'' \<Longrightarrow> MDBX_UTTERLY_NOSYNC AND fe_bit e = fe_bit e"
  by (auto simp: env_flags_def flag_defs)

text \<open>C28: parsing what was printed: for any accepted list of names, the names reported for its bits
  parse back to the same bits, although \<open>SAFE_NOSYNC\<close> is left out when \<open>UTTERLY_NOSYNC\<close>, which
  contains it, is reported.\<close>

theorem flag_bits_round_trip:
  assumes "env_flags_from_names ns = Inr b"
  shows "env_flags_from_names (names_from b) = Inr b"
proof -
  obtain c where c: "env_flags_from_names (names_from b) = Inr c"
    using bits_loop_known [OF reported_names_known, of 0 b] by (auto simp: env_flags_from_names_def bits_from_def)
  have names: "fe_name e \<in> set (names_from b) \<longleftrightarrow> reported b e" if "e \<in> set env_flags" for e
    using that env_table.find_iff by (auto simp: names_from_filter) (metis option.inject)
  have "bit c i = bit b i" for i
  proof
    assume "bit c i"
    then obtain e where "e \<in> set env_flags" "reported b e" "bit (fe_bit e) i" using env_bits(2) [OF c] names by blast
    then show "bit b i" by (simp add: reported_def and_eq_bits)
  next
    assume "bit b i"
    then obtain e where e: "e \<in> set env_flags" "fe_name e \<in> set ns" "bit (fe_bit e) i" using env_bits(2) [OF assms] by blast
    have sub: "b AND fe_bit e = fe_bit e" using env_bits(2) [OF assms] e(1,2) by (auto simp: and_eq_bits)
    show "bit c i"
    proof (cases "reported b e")
      case True
      then show ?thesis using env_bits(2) [OF c] names e by blast
    next
      case False
      then have s: "fe_name e = ''SAFE_NOSYNC''" "b AND MDBX_UTTERLY_NOSYNC = MDBX_UTTERLY_NOSYNC"
        using sub by (auto simp: reported_def)
      obtain u where u: "u \<in> set env_flags" "fe_name u = ''UTTERLY_NOSYNC''" "fe_bit u = MDBX_UTTERLY_NOSYNC"
        using utterly_entry(1) by blast
      then have "reported b u" using s by (simp add: reported_def)
      moreover have "bit (fe_bit u) i" using utterly_entry(3) [OF e(1) s(1)] e(3) u(3) by (simp add: and_eq_bits)
      ultimately show ?thesis using env_bits(2) [OF c] names u(1) by blast
    qed
  qed
  then show ?thesis using c by (metis bit_eqI)
qed

theorem flag_bits_round_trip_witness:
  "env_flags_from_names [''SAFE_NOSYNC'', ''UTTERLY_NOSYNC''] = Inr MDBX_UTTERLY_NOSYNC
   \<and> env_flags_from_names (names_from MDBX_UTTERLY_NOSYNC) = Inr MDBX_UTTERLY_NOSYNC"
proof -
  have "env_flags_from_names [''SAFE_NOSYNC'', ''UTTERLY_NOSYNC''] = Inr MDBX_UTTERLY_NOSYNC"
    by (simp add: env_flags_from_names_def bits_from_def env_flags_def flag_defs)
  then show ?thesis using flag_bits_round_trip by blast
qed

text \<open>The bit a flag has to itself, and that it has it to itself.\<close>

definition private_bits :: "flag_entry \<Rightarrow> u32" where
  "private_bits e = (if fe_name e = ''UTTERLY_NOSYNC'' then fe_bit e AND NOT MDBX_SAFE_NOSYNC else fe_bit e)"

lemma private_bits_table:
  "\<forall>e \<in> set env_flags. private_bits e \<noteq> 0 \<and> fe_bit e AND private_bits e = private_bits e
     \<and> (\<forall>f \<in> set env_flags. private_bits e AND fe_bit f \<noteq> 0 \<longrightarrow>
          fe_name f = fe_name e \<or> fe_name e = ''SAFE_NOSYNC'' \<and> fe_name f = ''UTTERLY_NOSYNC'')"
  by (simp add: env_flags_def private_bits_def flag_defs)

lemma flag_in_bits:
  assumes "env_flags_from_names ns = Inr b" and "e \<in> set env_flags"
  shows "b AND fe_bit e = fe_bit e \<longleftrightarrow>
    fe_name e \<in> set ns \<or> fe_name e = ''SAFE_NOSYNC'' \<and> ''UTTERLY_NOSYNC'' \<in> set ns"
proof
  assume sub: "b AND fe_bit e = fe_bit e"
  have p: "private_bits e \<noteq> 0" "fe_bit e AND private_bits e = private_bits e" using private_bits_table assms(2) by blast+
  then obtain i where i: "bit (private_bits e) i" by (metis bit_0_eq bit_eqI bot_apply bot_bool_def)
  then have "bit b i" using p(2) sub by (simp add: and_eq_bits)
  then obtain f where f: "f \<in> set env_flags" "fe_name f \<in> set ns" "bit (fe_bit f) i" using env_bits(2) [OF assms(1)] by blast
  have "bit (private_bits e AND fe_bit f) i" using i f(3) by (simp add: bit_and_iff)
  then have "private_bits e AND fe_bit f \<noteq> 0" by auto
  then have "fe_name f = fe_name e \<or> fe_name e = ''SAFE_NOSYNC'' \<and> fe_name f = ''UTTERLY_NOSYNC''"
    using private_bits_table assms(2) f(1) by blast
  then show "fe_name e \<in> set ns \<or> fe_name e = ''SAFE_NOSYNC'' \<and> ''UTTERLY_NOSYNC'' \<in> set ns"
    using f(2) by auto
next
  assume e: "fe_name e \<in> set ns \<or> fe_name e = ''SAFE_NOSYNC'' \<and> ''UTTERLY_NOSYNC'' \<in> set ns"
  obtain u where u: "u \<in> set env_flags" "fe_name u = ''UTTERLY_NOSYNC''" "fe_bit u = MDBX_UTTERLY_NOSYNC"
    using utterly_entry(1) by blast
  have "bit b i" if "bit (fe_bit e) i" for i
    using e
  proof
    assume "fe_name e \<in> set ns"
    then show ?thesis using env_bits(2) [OF assms(1)] assms(2) that by blast
  next
    assume s: "fe_name e = ''SAFE_NOSYNC'' \<and> ''UTTERLY_NOSYNC'' \<in> set ns"
    then have "bit (fe_bit u) i" using utterly_entry(3) [OF assms(2)] that u(3) by (simp add: and_eq_bits)
    then show ?thesis unfolding env_bits(2) [OF assms(1)] using u(1,2) s by (intro bexI [of _ u]) simp_all
  qed
  then show "b AND fe_bit e = fe_bit e" by (simp add: and_eq_bits)
qed

text \<open>C29: printing what was parsed: the names reported for the bits of an accepted list are the names
  of that list, each once and in the order of the table, except that \<open>SAFE_NOSYNC\<close> gives way to
  \<open>UTTERLY_NOSYNC\<close>.\<close>

theorem flag_names_round_trip:
  assumes "env_flags_from_names ns = Inr b"
  shows "names_from b = map fe_name (filter (\<lambda>e. fe_name e \<in> set ns
     \<and> (fe_name e = ''SAFE_NOSYNC'' \<longrightarrow> ''UTTERLY_NOSYNC'' \<notin> set ns)) env_flags)"
proof -
  obtain u where u: "u \<in> set env_flags" "fe_name u = ''UTTERLY_NOSYNC''" "fe_bit u = MDBX_UTTERLY_NOSYNC"
    using utterly_entry(1) by blast
  have "b AND MDBX_UTTERLY_NOSYNC = MDBX_UTTERLY_NOSYNC \<longleftrightarrow> ''UTTERLY_NOSYNC'' \<in> set ns"
    using flag_in_bits [OF assms u(1)] u by simp
  then have "reported b e \<longleftrightarrow> fe_name e \<in> set ns \<and> (fe_name e = ''SAFE_NOSYNC'' \<longrightarrow> ''UTTERLY_NOSYNC'' \<notin> set ns)"
    if "e \<in> set env_flags" for e
    using flag_in_bits [OF assms that] by (auto simp: reported_def)
  then show ?thesis unfolding names_from_filter by (intro arg_cong [where f = "map fe_name"] filter_cong) auto
qed

theorem flag_names_round_trip_witness:
  "names_from (MDBX_UTTERLY_NOSYNC OR MDBX_WRITEMAP) = [''UTTERLY_NOSYNC'', ''WRITEMAP'']"
proof -
  have "env_flags_from_names [''WRITEMAP'', ''SAFE_NOSYNC'', ''UTTERLY_NOSYNC''] = Inr (MDBX_UTTERLY_NOSYNC OR MDBX_WRITEMAP)"
    by (simp add: env_flags_from_names_def bits_from_def env_flags_def flag_defs)
  from flag_names_round_trip [OF this] show ?thesis by (simp add: env_flags_def)
qed

section \<open>Statuses and conditions\<close>

lemma subclass_inj:
  assumes "e \<in> set error_table" and "f \<in> set error_table" and "subclass_of (ee_name e) = subclass_of (ee_name f)"
  shows "e = f"
  using subclasses_distinct assms by (auto simp: distinct_map inj_on_def)

text \<open>C30: \<open>check\<close> is faithful. Success is the only status that raises nothing; any other status raises a
  condition that carries the status itself, a message that fits the buffer, and the classes
  \<open>mdbx_error\<close>, \<open>error\<close>, \<open>condition\<close> after at most one subclass; and two different statuses that
  have a subclass never share it, so a handler for one never catches the other.\<close>

theorem check_faithful:
  "(fst (check L rc w) = Inr () \<longleftrightarrow> rc = MDBX_SUCCESS) \<and> snd (check L rc w) = w
   \<and> (rc = MDBX_SUCCESS \<or> (\<exists>c sub. check L rc w = (Inl (MdbxError c), w)
        \<and> mc_code c = rc \<and> mc_name c = error_name rc \<and> length (mc_message c) < 512
        \<and> mc_class c = sub @ [''mdbx_error'', ''error'', ''condition''] \<and> length sub \<le> 1
        \<and> (\<forall>r n m. rc \<noteq> r \<and> error_name rc = Some n \<and> error_name r = Some m
             \<longrightarrow> sub = [subclass_of n] \<and> subclass_of n \<noteq> subclass_of m)))"
proof (cases "rc = MDBX_SUCCESS")
  case True
  then show ?thesis by (simp add: check_def returnM_def)
next
  case False
  have "subclass_of n \<noteq> subclass_of m" if r: "rc \<noteq> r" "error_name rc = Some n" "error_name r = Some m" for r n m
  proof -
    obtain e f where "e \<in> set error_table" "f \<in> set error_table" "ee_code e = rc" "ee_code f = r"
        "ee_name e = n" "ee_name f = m"
      using r(2,3) by (auto simp: error_name_Some)
    then show ?thesis using r(1) subclass_inj by metis
  qed
  moreover have "length (snprintf 512 s) < 512" for s by (simp add: snprintf_def)
  ultimately show ?thesis
    using False by (auto simp: check_def stopM_def condition_of_def Let_def split: option.split)
qed

theorem check_faithful_witness:
  "\<forall>L w. \<exists>c. check L MDBX_BUSY w = (Inl (MdbxError c), w) \<and> mc_code c = MDBX_BUSY"
  using check_faithful [where rc = MDBX_BUSY] branch_codes_distinct(5) by blast

text \<open>The error table names each status it lists by exactly one name and each name by exactly one
  status, and lists neither \<open>MDBX_SUCCESS\<close> nor \<open>MDBX_RESULT_TRUE\<close>.\<close>

theorem error_names_bijective:
  "(error_name r = Some n \<longleftrightarrow> (n, r) \<in> set mdbx_test_error_codes)
   \<and> (error_name r = Some n \<and> error_name s = Some n \<longrightarrow> r = s)
   \<and> distinct (map fst mdbx_test_error_codes) \<and> distinct (map snd mdbx_test_error_codes)
   \<and> error_name MDBX_SUCCESS = None \<and> error_name MDBX_RESULT_TRUE = None"
  using error_name_inj [of r n s] error_codes_distinct error_names_distinct success_not_named
  by (auto simp: error_name_Some mdbx_test_error_codes_def comp_def)

theorem error_names_bijective_witness:
  "error_name (- 30798) = Some ''MDBX_NOTFOUND''"
proof -
  have "(''MDBX_NOTFOUND'', - 30798) \<in> set mdbx_test_error_codes"
    by (simp add: mdbx_test_error_codes_def error_table_def code_defs)
  then show ?thesis using error_names_bijective [of "- 30798" "''MDBX_NOTFOUND''"] by blast
qed

section \<open>Panic texts\<close>

text \<open>C31: copying a panic text never writes outside the buffer, whatever the text and the old
  contents, always leaves it terminated, and keeps the longest prefix that fits.\<close>

theorem copy_text_bounded:
  assumes "length buf = sz" and "0 < sz"
  shows "\<exists>buf'. mdbx_r_copy_text buf sz (Some s) = Some buf' \<and> length buf' = sz \<and> NUL \<in> set buf'
       \<and> c_string buf' = take (sz - 1) (c_string s)"
proof -
  obtain b where b: "mdbx_r_copy_text buf sz (Some s) = Some b" "length b = sz" "c_string b = take (sz - 1) (c_string s)"
    using copy_text_spec [OF assms] by blast
  have "NUL \<in> set b"
  proof (rule ccontr)
    assume "NUL \<notin> set b"
    then have "c_string b = b" by (auto simp: c_string_def intro!: takeWhile_eq_all_conv [THEN iffD2])
    then have "length b \<le> sz - 1" using b(3) by (metis length_take min.cobounded2)
    then show False using b(2) assms(2) by simp
  qed
  then show ?thesis using b by blast
qed

theorem copy_text_bounded_witness:
  "\<exists>b. mdbx_r_copy_text (replicate 4 CHR ''x'') 4 (Some ''panic'') = Some b \<and> c_string b = ''pan''"
  using copy_text_bounded [of "replicate 4 CHR ''x''" 4 "''panic''"] by (auto simp: c_string_def)

section \<open>Numbers\<close>

text \<open>A counter that leaves for R is exact up to \<open>2^53\<close>, and one beyond it never comes out as a
  smaller number than \<open>2^53\<close>.\<close>

theorem counters_to_doubles:
  "if n \<le> 2 ^ 53 then as_num n = Fin (of_nat n) else (\<exists>q. as_num n = Fin q \<and> 2 ^ 53 \<le> q)"
  using as_num_exact [of n] as_num_ge [of n] by auto

lemma cast_unsigned_whole:
  assumes "dle d (Fin (of_int b))" and "0 \<le> b" and "b < 2 ^ bits"
  shows "\<exists>n. cast_unsigned bits (positive_or_zero d) = Some n \<and> int n \<le> b
     \<and> n = (case d of Fin q \<Rightarrow> nat \<lfloor>q\<rfloor> | _ \<Rightarrow> 0)"
proof -
  have r: "dle (Fin 0) (positive_or_zero d)" "dle (positive_or_zero d) (Fin (of_int b))"
    using positive_or_zero_range [OF assms(1,2)] by simp_all
  obtain q where q: "positive_or_zero d = Fin q" "0 \<le> q" "cast_unsigned bits (positive_or_zero d) = Some (nat \<lfloor>q\<rfloor>)"
    using cast_unsigned_defined [OF r assms(3)] by blast
  have "\<lfloor>q\<rfloor> \<le> b" using r(2) q(1) by (simp add: floor_le_iff)
  then have "int (nat \<lfloor>q\<rfloor>) \<le> b" using assms(2) by simp
  moreover have "nat \<lfloor>q\<rfloor> = (case d of Fin q \<Rightarrow> nat \<lfloor>q\<rfloor> | _ \<Rightarrow> 0)"
    using q(1,2) assms(1) by (cases d) (auto simp: positive_or_zero_def split: if_splits)
  ultimately show ?thesis using q(3) by blast
qed

lemma cast_signed_whole:
  assumes "dle d (Fin (of_int b))" and "0 \<le> b" and "b < 2 ^ (bits - 1)"
  shows "\<exists>n. cast_signed bits (positive_or_zero d) = Some n \<and> 0 \<le> n \<and> n \<le> b
     \<and> n = (case d of Fin q \<Rightarrow> max 0 \<lfloor>q\<rfloor> | _ \<Rightarrow> 0)"
proof -
  have r: "dle (Fin 0) (positive_or_zero d)" "dle (positive_or_zero d) (Fin (of_int b))"
    using positive_or_zero_range [OF assms(1,2)] by simp_all
  obtain q where q: "positive_or_zero d = Fin q" "0 \<le> q" "cast_signed bits (positive_or_zero d) = Some \<lfloor>q\<rfloor>"
    using cast_signed_defined [OF r assms(3)] by blast
  have "\<lfloor>q\<rfloor> \<le> b" "0 \<le> \<lfloor>q\<rfloor>" using r(2) q(1,2) by (simp_all add: floor_le_iff)
  moreover have "\<lfloor>q\<rfloor> = (case d of Fin q \<Rightarrow> max 0 \<lfloor>q\<rfloor> | _ \<Rightarrow> 0)"
    using q(1,2) assms(1) by (cases d) (auto simp: positive_or_zero_def split: if_splits)
  ultimately show ?thesis using q(3) by blast
qed

text \<open>C32: every numeric argument that passes its range check is narrowed without undefined behaviour,
  and to the whole part of the number: the 64-bit options of \<open>mdbx_env_open_\<close>, and the map and page
  sizes, which are signed and as wide as a pointer; what is not positive becomes zero.\<close>

theorem narrowing_exact:
  assumes "4 \<le> sz"
  shows "(dle d max_exact_integer \<longrightarrow>
            (\<exists>n. cast_unsigned 64 (positive_or_zero d) = Some n \<and> n \<le> 2 ^ 53
               \<and> n = (case d of Fin q \<Rightarrow> nat \<lfloor>q\<rfloor> | _ \<Rightarrow> 0)))
       \<and> (dle d (max_native_integer sz) \<longrightarrow>
            (\<exists>n. cast_signed (8 * sz) (positive_or_zero d) = Some n \<and> 0 \<le> n \<and> n < 2 ^ (8 * sz - 1)
               \<and> n = (case d of Fin q \<Rightarrow> max 0 \<lfloor>q\<rfloor> | _ \<Rightarrow> 0)))"
proof (intro conjI impI)
  assume "dle d max_exact_integer"
  then obtain n where "cast_unsigned 64 (positive_or_zero d) = Some n" "int n \<le> 9007199254740992"
      "n = (case d of Fin q \<Rightarrow> nat \<lfloor>q\<rfloor> | _ \<Rightarrow> 0)"
    using cast_unsigned_whole [of d 9007199254740992 64] unfolding max_exact_of_int by auto
  then show "\<exists>n. cast_unsigned 64 (positive_or_zero d) = Some n \<and> n \<le> 2 ^ 53
      \<and> n = (case d of Fin q \<Rightarrow> nat \<lfloor>q\<rfloor> | _ \<Rightarrow> 0)" by auto
next
  assume "dle d (max_native_integer sz)"
  then obtain n where "cast_signed (8 * sz) (positive_or_zero d) = Some n" "0 \<le> n" "n \<le> native_bound sz"
      "n = (case d of Fin q \<Rightarrow> max 0 \<lfloor>q\<rfloor> | _ \<Rightarrow> 0)"
    using cast_signed_whole [OF _ native_bound_nonneg native_bound_fits(1) [OF assms]] unfolding max_native_of_int by blast
  then show "\<exists>n. cast_signed (8 * sz) (positive_or_zero d) = Some n \<and> 0 \<le> n \<and> n < 2 ^ (8 * sz - 1)
      \<and> n = (case d of Fin q \<Rightarrow> max 0 \<lfloor>q\<rfloor> | _ \<Rightarrow> 0)"
    using native_bound_fits(1) [OF assms] by (intro exI [of _ n]) simp
qed

theorem narrowing_exact_witness:
  "cast_unsigned 64 (positive_or_zero (Fin (5 / 2))) = Some 2"
proof -
  have "dle (Fin (5 / 2)) max_exact_integer" "\<lfloor>5 / 2 :: rat\<rfloor> = 2" by (simp_all add: max_exact_integer_def floor_eq_iff)
  then show ?thesis using narrowing_exact [of 8 "Fin (5 / 2)"] by simp
qed

end
