(* ===== verification/Mdbx_Openings.thy ===== *)
theory Mdbx_Openings
  imports Mdbx_Outcomes
begin

unbundle bit_operations_syntax

text \<open>
  Opening and closing environments and beginning transactions, on the branches that decide who may
  use a path: one open environment per key and process, one transaction per environment, no close
  while a transaction is open, and an environment inherited across a fork.
\<close>

section \<open>One open environment per key\<close>

text \<open>C33: opening a path whose key this process already has open is refused, with the message that
  says whether it is the same spelling of the path, before anything is created; nothing changes.\<close>

theorem same_key_refused:
  assumes "library_ok L" and "reachable L w" and "w_envs w a = Some h" and "eh_env h \<noteq> None"
    and "eh_pid h = w_pid w" and "eh_key h = key" and "env_flags_from_names extra = Inr bits"
    and "dle max_dbs max_exact_integer" and "dle map_size (max_native_integer (L_sizeof_voidp L))"
    and "dle max_readers max_exact_integer"
  shows "mdbx_env_open L path key readonly subdir max_dbs map_size max_readers mode extra w
       = (Inl (if eh_path h = path then AlreadyOpen path else AlreadyOpenAs path (eh_path h)), w)"
proof -
  have I: "inv w" by (rule inv_reachable [OF assms(2,1)])
  have "a \<in> set (w_open w)" using open_invD(2) [OF inv_D(4) [OF I], of a] assms(3,4) by blast
  moreover have "matches key w a" using assms(3,5,6) by (simp add: matches_def)
  ultimately obtain b where b: "find (matches key w) (w_open w) = Some b"
    by (cases "find (matches key w) (w_open w)") (auto simp: find_None_iff)
  then obtain k where k: "w_envs w b = Some k" "eh_key k = key" "eh_pid k = w_pid w" "b \<in> set (w_open w)"
    using find_SomeD [OF b] by (auto simp: matches_def)
  then have "eh_env k \<noteq> None" using open_invD(2) [OF inv_D(4) [OF I], of b] by auto
  then have "b = a"
    using open_invD(3) [OF inv_D(4) [OF I] assms(3) k(1) assms(4)] k assms(5,6) by auto
  then have "find_open_env key w = (Inr (Some a), w)" using find_open_run [OF I, of key] b by simp
  then show ?thesis
    using assms(3,7-10) by (simp add: mdbx_env_open_def bindM_def liftM_def returnM_def stopM_def Let_def env_at_def fetchM_def)
qed

theorem same_key_refused_witness:
  "mdbx_env_open demo_lib ''./db'' ''/db'' False True (Fin 0) (Fin 0) (Fin 0) 420 [] demo_opened
     = (Inl (AlreadyOpenAs ''./db'' ''/db''), demo_opened)"
proof -
  have w: "w_envs demo_opened 0 = Some demo_env" "eh_env demo_env \<noteq> None" "eh_pid demo_env = w_pid demo_opened"
      "eh_key demo_env = ''/db''" "env_flags_from_names [] = Inr 0"
      "dle (Fin 0) max_exact_integer" "dle (Fin 0) (max_native_integer (L_sizeof_voidp demo_lib))" "eh_path demo_env = ''/db''"
    by (simp_all add: demo_worlds env_flags_from_names_def bits_from_def max_exact_integer_def max_native_integer_def)
  show ?thesis
    using same_key_refused [OF demo_ok demo_opened_reachable w(1-7,6), of "''./db''"] w(8) by simp
qed

section \<open>Closing\<close>

text \<open>C34: an environment that is not poisoned is never closed under its transactions: while one is
  registered, \<open>mdbx_env_close_\<close> refuses and changes nothing; and without one, in the process that
  opened it, it calls \<open>mdbx_env_close\<close> once, and whatever the status answers the handle is closed,
  unregistered, and the status reported.\<close>

theorem close_outcome:
  assumes "library_ok L" and "reachable L w" and "env_ptr w i a" and "open_env a w" and "w_envs w a = Some h"
    and "eh_env h = Some e" and "L_env_close L e (w_lib w) = (NRet rc, n)"
  shows "if eh_live h \<noteq> [] then mdbx_env_close L (R_ExtPtr i) w = (Inl (EnvHasTxns 1), w)
         else \<exists>w'. mdbx_env_close L (R_ExtPtr i) w
             = (if rc = MDBX_SUCCESS then Inr () else Inl (MdbxError (condition_of L rc)), w')
           \<and> w_lib w' = n \<and> w_open w' = removeAll a (w_open w)
           \<and> w_envs w' = (w_envs w)(a \<mapsto> h\<lparr>eh_env := None\<rparr>) \<and> w_txns w' = w_txns w"
proof -
  have I: "inv w" by (rule inv_reachable [OF assms(2,1)])
  have h: "\<not> eh_poisoned h" "eh_pid h = w_pid w" using assms(4,5) by (auto simp: open_env_def healthy_def)
  obtain p where p: "w_xps w i = Some p" "''mdbx_env'' \<in> set (xp_class p)" "xp_tag p = env_tag" "xp_addr p = AEnv a"
    using assms(3) by (auto simp: env_ptr_def)
  have run: "mdbx_env_close L (R_ExtPtr i) w =
     (if eh_live h \<noteq> [] then stopM (EnvHasTxns (length (eh_live h))) else close_handle L a True) w"
    using p h(1) assms(5) by (simp add: mdbx_env_close_def refusal_run)
  show ?thesis
  proof (cases "eh_live h = []")
    case False
    then have "length (eh_live h) = 1"
      using own_invD(2) [OF inv_D(3) [OF I] assms(5)] by (cases "eh_live h") simp_all
    then show ?thesis using False run by (simp add: stopM_def)
  next
    case True
    have u: "e \<in> set (w_usable_envs w)" "e \<notin> snd ` set (w_usable_txns w)"
      using inv_closable [OF I assms(5,6) True] h by (simp_all add: healthy_def)
    let ?w = "push_frame (open_remove a w)"
    have "env_call (Some e) (L_env_close L) ?w = (Inr rc, ?w\<lparr>w_lib := n\<rparr>)"
      by (rule env_call_run) (use u(1) assms(7) in \<open>simp_all add: env_usable_def open_remove_def\<close>)
    then have "close_call L a ?w = (Inr rc, if rc = MDBX_BUSY then ?w\<lparr>w_lib := n\<rparr> else kill_env e (?w\<lparr>w_lib := n\<rparr>))"
      using assms(5,6) u(2) by (simp add: close_call_def env_close_call_def bindM_def env_at_def fetchM_def getsM_def thenM_def
          whenM_def returnM_def modifyM_def)
    then obtain v where v: "mdbx_r_run_guarded (close_call L a) (Some (poison_env a)) (open_remove a w) = (Inr (GuardOk rc), v)"
        "w_envs v = w_envs w" "w_lib v = n" "w_open v = removeAll a (w_open w)" "w_txns v = w_txns w"
      by (simp add: mdbx_r_run_guarded_def Let_def open_remove_def push_frame_def)
    have "mdbx_env_close L (R_ExtPtr i) w
        = (if rc = MDBX_SUCCESS then Inr () else Inl (MdbxError (condition_of L rc)), put_env a (h\<lparr>eh_env := None\<rparr>) v)"
      using run True assms(5,6) h v(1,2)
      by (simp add: close_handle_def bindM_def env_at_def fetchM_def thenM_def unregister_env_def modifyM_def current_pid_def
          getsM_def set_env_def check_def returnM_def stopM_def open_remove_def)
    then show ?thesis using True v by simp
  qed
qed

theorem close_outcome_witness:
  "mdbx_env_close demo_lib (R_ExtPtr 1) demo_begun = (Inl (EnvHasTxns 1), demo_begun)"
proof -
  have w: "env_ptr demo_begun 1 0" "open_env 0 demo_begun" "w_envs demo_begun 0 = Some (demo_env\<lparr>eh_live := [2]\<rparr>)"
      "eh_env (demo_env\<lparr>eh_live := [2]\<rparr>) = Some 0" "L_env_close demo_lib 0 (w_lib demo_begun) = (NRet MDBX_SUCCESS, demo_store)"
    by (simp_all add: demo_worlds env_ptr_def open_env_def healthy_def demo_lib_def demo_call_def demo_store_def)
  show ?thesis using close_outcome [OF demo_ok demo_begun_reachable w] by simp
qed

text \<open>
  When \<open>mdbx_env_close\<close> panics, the handle is closed all the same, but unlike every other path that
  gives a native environment up this one does not record it: the abandoned registry is unchanged,
  so nothing the process can reach holds the pointer any more.
\<close>

lemma close_panic_outcome:
  assumes "library_ok L" and "reachable L w" and "env_ptr w i a" and "open_env a w" and "w_envs w a = Some h"
    and "eh_env h = Some e" and "eh_live h = []" and "L_env_close L e (w_lib w) = (NPanic m f l, n)"
  shows "\<exists>w' h'. mdbx_env_close L (R_ExtPtr i) w = (Inl (panic_error m f l), w')
     \<and> w_envs w' a = Some h' \<and> eh_env h' = None \<and> eh_poisoned h'
     \<and> w_open w' = removeAll a (w_open w) \<and> w_abandoned w' = w_abandoned w"
proof -
  have I: "inv w" by (rule inv_reachable [OF assms(2,1)])
  have h: "\<not> eh_poisoned h" "eh_pid h = w_pid w" using assms(4,5) by (auto simp: open_env_def healthy_def)
  obtain p where p: "w_xps w i = Some p" "''mdbx_env'' \<in> set (xp_class p)" "xp_tag p = env_tag" "xp_addr p = AEnv a"
    using assms(3) by (auto simp: env_ptr_def)
  have run: "mdbx_env_close L (R_ExtPtr i) w = close_handle L a True w"
    using p h(1) assms(5,7) by (simp add: mdbx_env_close_def refusal_run)
  have u: "e \<in> set (w_usable_envs w)" "e \<notin> snd ` set (w_usable_txns w)"
    using inv_closable [OF I assms(5,6,7)] h by (simp_all add: healthy_def)
  let ?o = "open_remove a w"
  let ?v = "kill_env e ((push_frame ?o)\<lparr>w_lib := n\<rparr>)"
  let ?u = "\<lambda>q. put_env a (h\<lparr>eh_poisoned := True\<rparr>) ((kill_env e (?o\<lparr>w_lib := n\<rparr>))\<lparr>w_last_panic := q\<rparr>)"
  have "env_call (Some e) (L_env_close L) (push_frame ?o) = mdbx_r_panic m f l ?v"
    by (rule env_call_panics) (use u(1) assms(8) in \<open>simp_all add: env_usable_def open_remove_def\<close>)
  moreover obtain q where q: "panic_wf q" "record_panic m f l (w_last_panic ?v) = Some q" "pi_line q = l"
      "c_string (pi_message q) = take 255 (c_string (case m of Some s \<Rightarrow> s | None \<Rightarrow> ''(unknown assertion)''))"
      "c_string (pi_function q) = take 127 (c_string (case f of Some s \<Rightarrow> s | None \<Rightarrow> ''(unknown function)''))"
    using record_panic_spec [of "w_last_panic ?v" m f l] inv_calm(2) [OF I] by (auto simp: open_remove_def)
  moreover have "w_guard ?v = length (w_guard w) # w_guard w" by (simp add: open_remove_def)
  ultimately have "close_call L a (push_frame ?o) = (Inl (Longjmp (length (w_guard w))), ?v\<lparr>w_last_panic := q\<rparr>)"
    using assms(5,6) u(2)
    by (simp add: close_call_def env_close_call_def run_simps env_at_def mdbx_r_panic_def open_remove_def)
  then have "mdbx_r_run_guarded (close_call L a) (Some (poison_env a)) ?o = (Inr (GuardPanic q), ?u q)"
    using assms(5) by (simp add: mdbx_r_run_guarded_def run_simps open_remove_def poison_env_def set_env_def env_at_def
        set_guard_def kill_env_def push_frame_def put_env_def)
  then have "mdbx_env_close L (R_ExtPtr i) w = (Inl (panic_error m f l), put_env a (h\<lparr>eh_poisoned := True, eh_env := None\<rparr>) (?u q))"
    using run assms(5,6) h q(3-5)
    by (simp add: close_handle_def bindM_def env_at_def fetchM_def thenM_def unregister_env_def modifyM_def current_pid_def
        getsM_def set_env_def stop_after_panic_def stopM_def panic_error_def)
  then show ?thesis by (simp add: open_remove_def)
qed

lemma close_panic_outcome_witness:
  "\<exists>w'. mdbx_env_close demo_lib (R_ExtPtr 1) (demo_opened\<lparr>w_lib := demo_store\<lparr>d_panics := True\<rparr>\<rparr>)
     = (Inl (panic_error (Some ''assert'') (Some ''f'') 7), w') \<and> w_open w' = [] \<and> w_abandoned w' = None"
proof -
  let ?w = "demo_opened\<lparr>w_lib := demo_store\<lparr>d_panics := True\<rparr>\<rparr>"
  have r: "reachable demo_lib ?w" by (rule reachable.later [OF demo_opened_reachable step.outside])
  have "env_ptr ?w 1 0" "open_env 0 ?w" "w_envs ?w 0 = Some demo_env" "eh_env demo_env = Some 0" "eh_live demo_env = []"
      "L_env_close demo_lib 0 (w_lib ?w) = (NPanic (Some ''assert'') (Some ''f'') 7, w_lib ?w)"
    by (simp_all add: demo_worlds env_ptr_def open_env_def healthy_def demo_lib_def demo_call_def)
  from close_panic_outcome [OF demo_ok r this] show ?thesis by (auto simp: demo_opened_def)
qed

section \<open>Beginning a transaction\<close>

lemma unwind_returned: "m s = (Inr x, s') \<Longrightarrow> unwindM m c s = (Inr x, s')"
  by (simp add: unwindM_def)

lemma unwind_threw: "m s = (Inl e, s') \<Longrightarrow> c s' = (Inr (), s'') \<Longrightarrow> unwindM m c s = (Inl e, s'')"
  by (simp add: unwindM_def thenM_def bindM_def stopM_def)

lemma bind_returned: "m s = (Inr x, s') \<Longrightarrow> f x s' = r \<Longrightarrow> bindM m f s = r"
  by (simp add: bindM_def)

lemma bind_threw: "m s = (Inl e, s') \<Longrightarrow> bindM m f s = (Inl e, s')"
  by (simp add: bindM_def)

lemma begin_guard_run:
  assumes "w_envs w a = Some h" and "eh_env h = Some e" and "env_usable e w"
    and "L_txn_begin L e flags (w_ids w) (w_lib w) = (NRet rc, n)"
  shows "guard (begin_call L a flags) poison w
    = (Inr (rc, if rc = MDBX_SUCCESS then Some (w_ids w) else None),
       if rc = MDBX_SUCCESS then txn_created e (w\<lparr>w_lib := n\<rparr>) else w\<lparr>w_lib := n\<rparr>)"
proof -
  have "env_call (Some e) (\<lambda>e. L_txn_begin L e flags (w_ids w)) (push_frame w) = (Inr rc, (push_frame w)\<lparr>w_lib := n\<rparr>)"
    by (rule env_call_run) (use assms in simp_all)
  then have "begin_call L a flags (push_frame w)
    = (Inr (rc, if rc = MDBX_SUCCESS then Some (w_ids w) else None),
       if rc = MDBX_SUCCESS then txn_created e ((push_frame w)\<lparr>w_lib := n\<rparr>) else (push_frame w)\<lparr>w_lib := n\<rparr>)"
    using assms(1,2) by (simp add: begin_call_def txn_begin_call_def bindM_def env_at_def fetchM_def getsM_def thenM_def
        returnM_def modifyM_def)
  then show ?thesis
    by (simp add: guard_def mdbx_r_run_guarded_def bindM_def returnM_def Let_def set_guard_def push_frame_def txn_created_def)
qed

lemma new_txn_sexp_run:
  assumes "w_txns v t = Some th" and "th_owner th = Some a" and "w_envs v a = Some h"
    and "w_xps v i = Some px" and "i \<noteq> w_next v"
  shows "\<exists>u. new_txn_sexp t (R_ExtPtr i) is_write v = (Inr (R_ExtPtr (w_next v)), u)
     \<and> w_lib u = w_lib v \<and> w_txns u = w_txns v \<and> w_envs u = (w_envs v)(a \<mapsto> live_add t h)
     \<and> w_pid u = w_pid v \<and> txn_ptr u (w_next v) t"
proof -
  have "wp (new_txn_sexp t (R_ExtPtr i) is_write) (\<lambda>x u. x = R_ExtPtr (w_next v)
     \<and> w_lib u = w_lib v \<and> w_txns u = w_txns v \<and> w_envs u = (w_envs v)(a \<mapsto> live_add t h)
     \<and> w_pid u = w_pid v \<and> txn_ptr u (w_next v) t) (\<lambda>_ _. False) v"
    using assms by (simp add: new_txn_sexp_def get_attrib_def wp_simps txn_ptr_def)
  from wp_runs [OF this] show ?thesis by auto
qed

lemma begin_body_run:
  assumes "w_envs v a = Some h" and "eh_env h = Some e" and "env_usable e v" and "txn_flags_from_names extra = Inr bits"
    and "L_txn_begin L e ((if is_write then MDBX_TXN_READWRITE else MDBX_TXN_RDONLY) OR bits) (w_ids v) (w_lib v) = (NRet rc, n)"
  shows "begin_body L a is_write extra v
    = (if rc = MDBX_SUCCESS then (Inr (Some (w_ids v)), txn_created e (v\<lparr>w_lib := n\<rparr>))
       else (Inl (MdbxError (condition_of L rc)), v\<lparr>w_lib := n\<rparr>))"
  using assms(4) begin_guard_run [OF assms(1-3,5)]
  by (simp add: liftM_def bindM_def returnM_def Let_def thenM_def check_def stopM_def)

lemma begin_start:
  assumes "env_ptr w i a" and "open_env a w" and "w_envs w a = Some h"
  shows "mdbx_txn_begin L (R_ExtPtr i) is_write extra w =
     (if eh_live h \<noteq> [] then (Inl TxnAlreadyOpen, w) else
      bindM (unwindM (begin_body L a is_write extra) (delete_txn (w_next w))) (\<lambda>native_txn.
      thenM (set_txn (w_next w) (\<lambda>h. h\<lparr>th_txn := native_txn\<rparr>)) (new_txn_sexp (w_next w) (R_ExtPtr i) is_write))
        (with_txn (fresh_txn_handle a is_write (w_pid w)) w))"
proof -
  have "bindM (env_at a) f w = f h w" "bindM current_pid g w = g (w_pid w) w"
      "bindM (new_txn th) k w = k (w_next w) (with_txn th w)" "bindM (env_from_sexp (R_ExtPtr i)) k w = k a w"
    for f :: "_ \<Rightarrow> (_, rsexp) mem" and g :: "_ \<Rightarrow> (_, rsexp) mem" and k :: "_ \<Rightarrow> (_, rsexp) mem" and th
    using assms(3) env_from_sexp_open [OF assms(1,2)]
    by (simp_all add: env_at_def fetchM_def current_pid_def getsM_def new_txn_def bindM_def thenM_def
        returnM_def modifyM_def with_txn_def)
  then show ?thesis by (simp add: mdbx_txn_begin_def stopM_def)
qed

text \<open>After libmdbx answered: the native transaction goes into the handle and the pointer is made.\<close>

lemma begin_finish:
  assumes I: "inv w" and a: "w_envs w a = Some h" "eh_env h = Some e" "healthy w h" and px: "w_xps w i = Some px"
    and new_def: "new = (fresh_txn_handle a is_write (w_pid w))\<lparr>th_txn := Some (w_ids w)\<rparr>"
  shows "\<exists>v x. thenM (set_txn (w_next w) (\<lambda>h. h\<lparr>th_txn := Some (w_ids w)\<rparr>)) (new_txn_sexp (w_next w) (R_ExtPtr i) is_write)
        (txn_created e ((with_txn (fresh_txn_handle a is_write (w_pid w)) w)\<lparr>w_lib := n\<rparr>)) = (Inr (R_ExtPtr x), v)
     \<and> w_lib v = n \<and> txn_ptr v x (w_next w) \<and> live_txn (w_next w) v
     \<and> w_txns v = (w_txns w)(w_next w \<mapsto> new) \<and> w_envs v = (w_envs w)(a \<mapsto> live_add (w_next w) h)"
proof -
  let ?t = "w_next w" and ?th = "fresh_txn_handle a is_write (w_pid w)"
  let ?v = "txn_created e ((with_txn ?th w)\<lparr>w_lib := n\<rparr>)"
  let ?u = "put_txn ?t new ?v"
  have ne: "a \<noteq> ?t" "i \<noteq> ?t + 1" using heap_invD(3,5) [OF inv_D(1) [OF I]] a(1) px by fastforce+
  have "w_txns ?v ?t = Some ?th" by (simp add: with_txn_def)
  then have "thenM (set_txn ?t (\<lambda>h. h\<lparr>th_txn := Some (w_ids w)\<rparr>)) (new_txn_sexp ?t (R_ExtPtr i) is_write) ?v
      = new_txn_sexp ?t (R_ExtPtr i) is_write ?u"
    by (simp add: thenM_def bindM_def set_txn_def txn_at_def fetchM_def modifyM_def new_def)
  moreover obtain v where v: "new_txn_sexp ?t (R_ExtPtr i) is_write ?u = (Inr (R_ExtPtr (w_next ?u)), v)"
      "w_lib v = w_lib ?u" "w_txns v = w_txns ?u" "w_envs v = (w_envs ?u)(a \<mapsto> live_add ?t h)"
      "w_pid v = w_pid ?u" "txn_ptr v (w_next ?u) ?t"
    using new_txn_sexp_run [of ?u ?t new a h i px is_write] a(1) px ne
    by (auto simp: with_txn_def fresh_txn_handle_def new_def)
  moreover have "live_txn ?t v"
    using v(3-5) a by (auto simp: live_txn_def fresh_txn_handle_def healthy_def new_def live_add_def with_txn_def)
  ultimately show ?thesis by (auto simp: with_txn_def)
qed

text \<open>C35: \<open>mdbx_txn_begin_\<close> on an open environment. While a transaction is open another is refused and
  nothing changes. Otherwise libmdbx is asked once, for a transaction of the requested kind; when
  it refuses, no handle is left behind and the environment is still free; when it answers, the
  result is a pointer to a live transaction of the requested kind that the environment registers.\<close>

theorem begin_outcome:
  assumes "library_ok L" and "reachable L w" and "env_ptr w i a" and "open_env a w" and "w_envs w a = Some h"
    and "eh_env h = Some e" and "txn_flags_from_names extra = Inr bits"
    and "L_txn_begin L e ((if is_write then MDBX_TXN_READWRITE else MDBX_TXN_RDONLY) OR bits) (w_ids w) (w_lib w)
       = (NRet rc, n)"
  shows "if eh_live h \<noteq> [] then mdbx_txn_begin L (R_ExtPtr i) is_write extra w = (Inl TxnAlreadyOpen, w)
         else if rc \<noteq> MDBX_SUCCESS
         then \<exists>w'. mdbx_txn_begin L (R_ExtPtr i) is_write extra w = (Inl (MdbxError (condition_of L rc)), w')
            \<and> w_lib w' = n \<and> w_txns w' = w_txns w \<and> w_envs w' = w_envs w
            \<and> w_live_txn_handles w' = w_live_txn_handles w
         else \<exists>w' x t th. mdbx_txn_begin L (R_ExtPtr i) is_write extra w = (Inr (R_ExtPtr x), w')
            \<and> w_lib w' = n \<and> txn_ptr w' x t \<and> live_txn t w' \<and> w_txns w t = None
            \<and> w_txns w' = (w_txns w)(t \<mapsto> th) \<and> th_write th = is_write \<and> th_state th = st_active
            \<and> w_envs w' = (w_envs w)(a \<mapsto> h\<lparr>eh_live := [t]\<rparr>)"
proof -
  have I: "inv w" by (rule inv_reachable [OF assms(2,1)])
  let ?t = "w_next w" and ?th = "fresh_txn_handle a is_write (w_pid w)"
  let ?w = "with_txn ?th w"
  obtain px where px: "w_xps w i = Some px" using assms(3) by (auto simp: env_ptr_def)
  have h: "healthy w h" using assms(4,5) by (simp add: open_env_def)
  have ne: "w_txns w ?t = None" "w_envs ?w a = Some h"
    using inv_fresh [OF I] assms(5) by (simp_all add: with_txn_def)
  have "env_usable e ?w" using inv_env_usable [OF I assms(5,6) h] by (simp add: env_usable_def with_txn_def)
  note body = begin_body_run [OF ne(2) assms(6) this assms(7), of L is_write rc n]
  note start = begin_start [OF assms(3-5), of L is_write extra]
  consider "eh_live h \<noteq> []" | "eh_live h = []" "rc \<noteq> MDBX_SUCCESS" | "eh_live h = []" "rc = MDBX_SUCCESS" by blast
  then show ?thesis
  proof cases
    case 1
    then show ?thesis using start by simp
  next
    case 2
    have del: "delete_txn ?t (?w\<lparr>w_lib := n\<rparr>) = (Inr (), (?w\<lparr>w_lib := n\<rparr>)\<lparr>w_txns := (w_txns w)(?t := None)\<rparr>)"
      by (simp add: delete_txn_def bindM_def txn_at_def fetchM_def modifyM_def with_txn_def)
    have "mdbx_txn_begin L (R_ExtPtr i) is_write extra w = (Inl (MdbxError (condition_of L rc)),
        (?w\<lparr>w_lib := n\<rparr>)\<lparr>w_txns := (w_txns w)(?t := None)\<rparr>)"
      unfolding start if_not_P [OF iffD2 [OF not_not 2(1)]]
      by (rule bind_threw, rule unwind_threw [rotated], rule del) (use 2(2) assms(8) body in \<open>simp add: with_txn_def\<close>)
    then show ?thesis using 2 ne(1) by (simp add: with_txn_def fun_upd_idem)
  next
    case 3
    obtain v x where v: "thenM (set_txn ?t (\<lambda>h. h\<lparr>th_txn := Some (w_ids w)\<rparr>)) (new_txn_sexp ?t (R_ExtPtr i) is_write)
          (txn_created e (?w\<lparr>w_lib := n\<rparr>)) = (Inr (R_ExtPtr x), v)"
        "w_lib v = n" "txn_ptr v x ?t" "live_txn ?t v"
        "w_txns v = (w_txns w)(?t \<mapsto> ?th\<lparr>th_txn := Some (w_ids w)\<rparr>)" "w_envs v = (w_envs w)(a \<mapsto> live_add ?t h)"
      using begin_finish [OF I assms(5,6) h px refl, of is_write n] by blast
    have r: "mdbx_txn_begin L (R_ExtPtr i) is_write extra w = (Inr (R_ExtPtr x), v)"
      unfolding start if_not_P [OF iffD2 [OF not_not 3(1)]]
      by (rule bind_returned [rotated], rule v(1), rule unwind_returned) (use 3(2) assms(8) body in \<open>simp add: with_txn_def\<close>)
    have "w_envs v = (w_envs w)(a \<mapsto> h\<lparr>eh_live := [?t]\<rparr>)" using v(6) 3(1) by (simp add: live_add_def)
    moreover have "\<not> eh_live h \<noteq> []" "\<not> rc \<noteq> MDBX_SUCCESS" using 3 by simp_all
    ultimately show ?thesis
      by (simp only: if_False) (intro exI [of _ v] exI [of _ x] exI [of _ ?t] exI [of _ "?th\<lparr>th_txn := Some (w_ids w)\<rparr>"]
          conjI r v(2-5) ne(1); simp add: fresh_txn_handle_def)
  qed
qed

theorem begin_outcome_witness:
  "\<exists>w' x t th. mdbx_txn_begin demo_lib (R_ExtPtr 1) True [''TRY''] demo_opened = (Inr (R_ExtPtr x), w')
     \<and> live_txn t w' \<and> w_txns w' t = Some th \<and> th_write th"
proof -
  have w: "env_ptr demo_opened 1 0" "open_env 0 demo_opened" "w_envs demo_opened 0 = Some demo_env" "eh_env demo_env = Some 0"
      "txn_flags_from_names [''TRY''] = Inr MDBX_TXN_TRY"
      "L_txn_begin demo_lib 0 ((if True then MDBX_TXN_READWRITE else MDBX_TXN_RDONLY) OR MDBX_TXN_TRY) (w_ids demo_opened) (w_lib demo_opened)
         = (NRet MDBX_SUCCESS, demo_store)"
    by (simp_all add: demo_worlds env_ptr_def open_env_def healthy_def demo_lib_def demo_call_def demo_store_def
        txn_flags_from_names_def bits_from_def txn_flags_def)
  have "eh_live demo_env = []" by (simp add: demo_env_def)
  with begin_outcome [OF demo_ok demo_opened_reachable w] obtain w' x t th where
    "mdbx_txn_begin demo_lib (R_ExtPtr 1) True [''TRY''] demo_opened = (Inr (R_ExtPtr x), w')" "live_txn t w'"
    "w_txns w' = (w_txns demo_opened)(t \<mapsto> th)" "th_write th = True" by auto
  then show ?thesis by auto
qed

section \<open>Across a fork\<close>

text \<open>C36: an environment inherited across a fork. Closing it in the child drops the child's copy of
  the pointer without entering libmdbx, takes it out of the registry, and says whose it is; while
  it has an inherited transaction it is refused like any other. And it never stands in the way of
  the child opening the same path, which only handles of this process do.\<close>

theorem inherited_env_released:
  assumes "library_ok L" and "reachable L w" and "env_ptr w i a" and "w_envs w a = Some h"
    and "eh_env h \<noteq> None" and "eh_pid h \<noteq> w_pid w"
  shows "(if eh_live h = []
          then \<exists>w' h'. mdbx_env_close L (R_ExtPtr i) w = (Inl (EnvForeignClose (eh_pid h) (w_pid w)), w')
             \<and> w_lib w' = w_lib w \<and> w_envs w' a = Some h' \<and> eh_env h' = None \<and> a \<notin> set (w_open w')
          else eh_poisoned h \<or> mdbx_env_close L (R_ExtPtr i) w = (Inl (EnvHasTxns 1), w))
       \<and> ((\<forall>b k. w_envs w b = Some k \<and> eh_env k \<noteq> None \<and> eh_key k = eh_key h \<longrightarrow> eh_pid k \<noteq> w_pid w)
          \<longrightarrow> find_open_env (eh_key h) w = (Inr None, w))"
proof (intro conjI impI)
  have I: "inv w" by (rule inv_reachable [OF assms(2,1)])
  obtain p where p: "w_xps w i = Some p" "''mdbx_env'' \<in> set (xp_class p)" "xp_tag p = env_tag" "xp_addr p = AEnv a"
    using assms(3) by (auto simp: env_ptr_def)
  have d: "dead_env w a" using assms(4,6) by (simp add: dead_env_def healthy_def)
  show "if eh_live h = []
      then \<exists>w' h'. mdbx_env_close L (R_ExtPtr i) w = (Inl (EnvForeignClose (eh_pid h) (w_pid w)), w')
         \<and> w_lib w' = w_lib w \<and> w_envs w' a = Some h' \<and> eh_env h' = None \<and> a \<notin> set (w_open w')
      else eh_poisoned h \<or> mdbx_env_close L (R_ExtPtr i) w = (Inl (EnvHasTxns 1), w)"
  proof (cases "eh_live h = []")
    case True
    let ?E = "\<lambda>e w'. e = EnvForeignClose (eh_pid h) (w_pid w) \<and> (\<exists>k. w_envs w' a = Some k \<and> eh_env k = None)"
    have same: "put_env a (h\<lparr>eh_live := []\<rparr>) w = w" using True assms(4) put_env_id [of w a h] by (metis env_handle.surjective env_handle.update_convs(6))
    have "wp (mdbx_env_close L (R_ExtPtr i)) (\<lambda>_ _. False) ?E w"
      unfolding env_pointer_run [OF p]
      using close_foreign [OF assms(4-6), of L] True assms(4)
      by (auto simp: wp_bind wp_env_at wp_then wp_when detach_txns_def wp_current_pid wp_for_Nil wp_return wp_set_env same)
    moreover have "wp (mdbx_env_close L (R_ExtPtr i)) (\<lambda>_. worse w) (\<lambda>_. worse w) w"
      by (rule env_close_silent [OF p(1)]) (use p(4) d in simp)
    moreover have "wp (mdbx_env_close L (R_ExtPtr i)) (\<lambda>_. inv) (\<lambda>_. inv) w"
      by (rule wp_mono [OF safeD [OF safe_env_close I]]) (use assms(1) p(1) in \<open>auto simp: library_ok_def sexp_ok_def\<close>)
    ultimately show ?thesis
      using True closed_released by (fastforce simp: wp_def worse_def split: prod.splits sum.splits)
  next
    case False
    then have "length (eh_live h) = 1"
      using own_invD(2) [OF inv_D(3) [OF I] assms(4)] by (cases "eh_live h") simp_all
    then show ?thesis
      using False p assms(4) by (simp add: mdbx_env_close_def refusal_run)
  qed
next
  have I: "inv w" by (rule inv_reachable [OF assms(2,1)])
  assume free: "\<forall>b k. w_envs w b = Some k \<and> eh_env k \<noteq> None \<and> eh_key k = eh_key h \<longrightarrow> eh_pid k \<noteq> w_pid w"
  have "find (matches (eh_key h) w) (w_open w) = None"
    using free open_invD(2) [OF inv_D(4) [OF I]] by (fastforce simp: find_None_iff matches_def)
  then show "find_open_env (eh_key h) w = (Inr None, w)" using find_open_run [OF I, of "eh_key h"] by simp
qed

theorem inherited_env_released_witness:
  "\<exists>w'. mdbx_env_close demo_lib (R_ExtPtr 1) (forked 8 demo_opened) = (Inl (EnvForeignClose 7 8), w')"
proof -
  have r: "reachable demo_lib (forked 8 demo_opened)"
    by (rule reachable.later [OF demo_opened_reachable step.forking]) (simp add: demo_worlds)
  have w: "env_ptr (forked 8 demo_opened) 1 0" "w_envs (forked 8 demo_opened) 0 = Some demo_env"
      "eh_env demo_env \<noteq> None" "eh_pid demo_env \<noteq> w_pid (forked 8 demo_opened)"
      "eh_live demo_env = []" "eh_pid demo_env = 7" "w_pid (forked 8 demo_opened) = 8"
    by (simp_all add: demo_worlds env_ptr_def forked_def)
  show ?thesis using inherited_env_released [OF demo_ok r w(1-4)] w(5-7) by auto
qed

section \<open>The reported state\<close>

text \<open>What \<open>mdbx_txn_state_\<close> reports. A transaction inherited across a fork is invalid, a finished
  one is committed or aborted as it was recorded, an active one that may not be used is poisoned,
  and for a live one libmdbx is asked, which is the only case that enters it, and the answer is
  failed or active.\<close>

theorem txn_state_report:
  assumes "library_ok L" and "reachable L w" and "txn_ptr w i t" and "w_txns w t = Some th"
  shows "if th_pid th \<noteq> w_pid w then mdbx_txn_state L (R_ExtPtr i) w = (Inr Rep_invalid, w)
         else if th_state th = st_committed then mdbx_txn_state L (R_ExtPtr i) w = (Inr Rep_committed, w)
         else if th_state th = st_aborted then mdbx_txn_state L (R_ExtPtr i) w = (Inr Rep_aborted, w)
         else if \<not> live_txn t w then mdbx_txn_state L (R_ExtPtr i) w = (Inr Rep_poisoned, w)
         else \<exists>q flags n. th_txn th = Some q \<and> L_txn_flags L q (w_lib w) = (NRet flags, n)
            \<and> mdbx_txn_state L (R_ExtPtr i) w
                = (Inr (if flags AND MDBX_TXN_ERROR \<noteq> 0 then Rep_failed else Rep_active), w\<lparr>w_lib := n\<rparr>)"
proof -
  have I: "inv w" by (rule inv_reachable [OF assms(2,1)])
  obtain p where p: "w_xps w i = Some p" "''mdbx_txn'' \<in> set (xp_class p)" "xp_tag p = txn_tag" "xp_addr p = ATxn t"
    using assms(3) by (auto simp: txn_ptr_def)
  show ?thesis
  proof (cases "th_owner th")
    case None
    then have "th_state th \<noteq> st_active" using inv_no_owner [OF I assms(4)] by simp
    then show ?thesis using None p assms(4)
      by (cases "th_state th") (simp_all add: mdbx_txn_state_def refusal_run)
  next
    case (Some a)
    obtain h q where h: "w_envs w a = Some h" "th_pid th = eh_pid h" "th_poisoned th \<longrightarrow> eh_poisoned h"
        "th_txn th = Some q" "th_state th = st_active" "eh_env h \<noteq> None"
      using inv_owner [OF I assms(4) Some] own_invD(5) [OF inv_D(3) [OF I] assms(4) Some] by metis
    have live: "live_txn t w \<longleftrightarrow> \<not> eh_poisoned h" if "th_pid th = w_pid w"
      using h assms(4) Some that by (auto simp: live_txn_def healthy_def)
    show ?thesis
    proof (cases "th_pid th = w_pid w \<and> \<not> eh_poisoned h")
      case False
      then show ?thesis using live h Some p assms(4)
        by (auto simp: mdbx_txn_state_def refusal_run)
    next
      case True
      then have l: "live_txn t w" using live by blast
      obtain e where u: "txn_usable q e w" using live_txn_ready [OF I l] assms(4) h(4) by (metis option.inject)
      obtain flags n where f: "L_txn_flags L q (w_lib w) = (NRet flags, n)"
        using assms(1) unfolding library_ok_def readers_return_def by blast
      have "mdbx_txn_state L (R_ExtPtr i) w
          = (Inr (if flags AND MDBX_TXN_ERROR \<noteq> 0 then Rep_failed else Rep_active), w\<lparr>w_lib := n\<rparr>)"
        using True h Some p assms(4) txn_call_run [where f = "L_txn_flags L", OF u f]
        by (simp add: mdbx_txn_state_def refusal_run)
      then show ?thesis using True h l f by simp
    qed
  qed
qed

theorem txn_state_report_witness:
  "mdbx_txn_state demo_lib (R_ExtPtr 3) demo_panicked = (Inr Rep_poisoned, demo_panicked)"
proof -
  have w: "txn_ptr demo_panicked 3 2" "w_txns demo_panicked 2 = Some (demo_txn\<lparr>th_poisoned := True\<rparr>)"
      "th_pid (demo_txn\<lparr>th_poisoned := True\<rparr>) = w_pid demo_panicked" "\<not> live_txn 2 demo_panicked"
    by (auto simp: demo_panicked_def demo_worlds txn_ptr_def live_txn_def healthy_def)
  then show ?thesis using txn_state_report [OF demo_ok demo_panicked_reachable w(1,2)] by (simp add: demo_txn_def)
qed

section \<open>All or nothing\<close>

lemma find_registered:
  assumes I: "inv w" and V: "inv v" and o: "w_open v = w_open w @ [w_next w]"
    and h: "w_envs v (w_next w) = Some h" "eh_env h \<noteq> None" "eh_pid h = w_pid v" "eh_key h = key"
  shows "find_open_env key v = (Inr (Some (w_next w)), v)"
proof -
  have "\<not> matches key v b" if b: "b \<in> set (w_open w)" for b
  proof
    assume "matches key v b"
    then obtain k where k: "w_envs v b = Some k" "eh_key k = key" "eh_pid k = w_pid v" by (auto simp: matches_def)
    moreover have "b \<noteq> w_next w" using b open_invD(2) [OF inv_D(4) [OF I]] inv_fresh [OF I] by auto
    moreover have "eh_env k \<noteq> None" using open_invD(2) [OF inv_D(4) [OF V], of b] b k(1) o by auto
    ultimately show False using open_invD(3) [OF inv_D(4) [OF V], of b k "w_next w" h] h by simp
  qed
  moreover have "matches key v (w_next w)" using h by (simp add: matches_def)
  ultimately have "find (matches key v) (w_open v) = Some (w_next w)" unfolding o by (simp add: find_after)
  then show ?thesis using find_open_run [OF V, of key] by simp
qed

text \<open>C39: \<open>mdbx_env_open_\<close> is all or nothing. Whatever its arguments, and whether libmdbx refuses or
  panics at any of the calls an open makes, an error leaves every handle, every external pointer,
  the registry and the counters as they were. A result is a pointer to one new handle, open and
  usable, under the given path and key, with no transaction, which is the last entry of the
  registry and from now on what a search for its key finds.\<close>

theorem open_all_or_nothing:
  assumes "library_ok L" and "reachable L w"
    and "mdbx_env_open L path key readonly subdir max_dbs map_size max_readers mode extra w = (r, w')"
  shows "case r of
      Inl e \<Rightarrow> w_envs w' = w_envs w \<and> w_txns w' = w_txns w \<and> w_xps w' = w_xps w \<and> w_open w' = w_open w
        \<and> w_live_env_handles w' = w_live_env_handles w \<and> w_live_txn_handles w' = w_live_txn_handles w
    | Inr env \<Rightarrow> \<exists>i a h. env = R_ExtPtr i \<and> env_ptr w' i a \<and> w_envs w a = None \<and> w_envs w' = (w_envs w)(a \<mapsto> h)
        \<and> open_env a w' \<and> eh_path h = path \<and> eh_key h = key \<and> eh_live h = []
        \<and> w_open w' = w_open w @ [a] \<and> find_open_env key w' = (Inr (Some a), w')
        \<and> w_live_env_handles w' = w_live_env_handles w + 1 \<and> w_txns w' = w_txns w"
proof -
  have I: "inv w" by (rule inv_reachable [OF assms(2,1)])
  have sz: "4 \<le> L_sizeof_voidp L" using assms(1) by (simp add: library_ok_def)
  let ?Q = "\<lambda>env v. env = R_ExtPtr (w_next w + 1) \<and> inv v \<and> env_opened path key readonly w v"
  have "wp (mdbx_env_open L path key readonly subdir max_dbs map_size max_readers mode extra) ?Q (\<lambda>_. undone w) w"
    by (rule wp_env_open [OF sz I]) simp_all
  then have out: "case r of Inl e \<Rightarrow> undone w w' | Inr env \<Rightarrow> ?Q env w'"
    using assms(3) by (simp add: wp_def split: sum.splits)
  show ?thesis
  proof (cases r)
    case (Inl e)
    then show ?thesis using out by (simp add: undone_def)
  next
    case (Inr env)
    let ?a = "w_next w"
    have V: "inv w'" and e: "env = R_ExtPtr (?a + 1)" and o: "env_opened path key readonly w w'" using out Inr by simp_all
    from o obtain g subdir' where g: "w_envs w' = (w_envs w)(?a \<mapsto> (fresh_env_handle (w_pid w))
          \<lparr>eh_env := Some (w_ids w), eh_key := key, eh_path := path, eh_roots := g\<rparr>)"
        "w_xps w' = (w_xps w)(?a + 1 \<mapsto>
          \<lparr>xp_addr = AEnv ?a, xp_tag = env_tag, xp_prot = R_NilValue, xp_class = [''mdbx_env''],
           xp_attrs = [(''path'', AString path), (''readonly'', ALogical readonly), (''subdir'', ALogical subdir')]\<rparr>)"
      unfolding env_opened_def by blast
    have f: "w_txns w' = w_txns w" "w_open w' = w_open w @ [?a]" "w_pid w' = w_pid w"
        "w_live_env_handles w' = w_live_env_handles w + 1"
      using o unfolding env_opened_def by blast+
    obtain h where h: "w_envs w' = (w_envs w)(?a \<mapsto> h)" "eh_env h = Some (w_ids w)" "\<not> eh_poisoned h" "eh_pid h = w_pid w"
        "eh_path h = path" "eh_key h = key" "eh_live h = []"
      using g(1) by (simp add: fresh_env_handle_def)
    have p: "env_ptr w' (?a + 1) ?a" using g(2) by (simp add: env_ptr_def)
    have u: "open_env ?a w'" using h f(3) by (simp add: open_env_def healthy_def)
    have find: "find_open_env key w' = (Inr (Some ?a), w')"
      by (rule find_registered [OF I V f(2), of h]) (use h f(3) in simp_all)
    show ?thesis
      unfolding Inr sum.case
      by (intro exI [of _ "?a + 1"] exI [of _ ?a] exI [of _ h] conjI e p inv_fresh(1) [OF I] h u f find)
  qed
qed

theorem open_all_or_nothing_witness:
  "\<exists>i a h. w_envs demo_opened = (w_envs demo_start)(a \<mapsto> h) \<and> env_ptr demo_opened i a
     \<and> find_open_env (eh_key h) demo_opened = (Inr (Some a), demo_opened)"
proof -
  obtain env where r: "mdbx_env_open demo_lib ''/db'' ''/db'' False True (Fin 0) (Fin 0) (Fin 0) 420 [] demo_start
      = (Inr env, demo_opened)"
    using demo_open_runs by (auto simp: ignoreM_def bindM_def returnM_def split: prod.splits sum.splits)
  have "reachable demo_lib demo_start" unfolding demo_start_def by (rule reachable.loaded)
  from open_all_or_nothing [OF demo_ok this r] show ?thesis unfolding sum.case by metis
qed

end
