(* ===== verification/Mdbx_Forward.thy ===== *)
theory Mdbx_Forward
  imports Mdbx_System
begin

text \<open>
  How an entry point or a finalizer may change the handles that existed when it was called: a
  poisoned environment stays poisoned and a closed one closed, a transaction that has ended keeps
  how it ended, and an external pointer never comes to address another handle. Such a property of
  the whole run is proved as one that every statement keeps, whichever way it ends.
\<close>

section \<open>Properties that a computation keeps\<close>

definition stays :: "('s \<Rightarrow> bool) \<Rightarrow> ('e, 's, 'a) sem \<Rightarrow> bool" where
  "stays P m \<longleftrightarrow> (\<forall>s. P s \<longrightarrow> wp m (\<lambda>_. P) (\<lambda>_. P) s)"

lemma staysD: "stays P m \<Longrightarrow> P s \<Longrightarrow> wp m (\<lambda>_. P) (\<lambda>_. P) s"
  by (simp add: stays_def)

named_theorems stays_rules "statements that keep a property"

lemma stays_basic [stays_rules]:
  "stays P (returnM x)" "stays P (stopM e)" "stays P (getsM g)" "stays P (fetchM e c)"
  by (simp_all add: stays_def wp_simps split: option.splits)

lemma stays_read [stays_rules]: "stays P current_pid" "stays P (env_at a)" "stays P (txn_at t)" "stays P (xptr_at i)"
  unfolding current_pid_def env_at_def txn_at_def xptr_at_def by (rule stays_basic)+

lemma stays_bind [stays_rules]: "stays P m \<Longrightarrow> (\<And>x. stays P (f x)) \<Longrightarrow> stays P (bindM m f)"
  unfolding stays_def wp_bind by (blast intro: wp_mono)

lemma stays_then [stays_rules]: "stays P m \<Longrightarrow> stays P k \<Longrightarrow> stays P (thenM m k)"
  unfolding thenM_def by (rule stays_bind)

lemma stays_if [stays_rules]: "(b \<Longrightarrow> stays P m) \<Longrightarrow> (\<not> b \<Longrightarrow> stays P k) \<Longrightarrow> stays P (if b then m else k)"
  by simp

lemma stays_when [stays_rules]: "(b \<Longrightarrow> stays P m) \<Longrightarrow> stays P (whenM b m)"
  by (simp add: whenM_def stays_basic)

lemma stays_option [stays_rules]:
  "(v = None \<Longrightarrow> stays P m) \<Longrightarrow> (\<And>x. v = Some x \<Longrightarrow> stays P (k x)) \<Longrightarrow> stays P (case v of None \<Rightarrow> m | Some x \<Rightarrow> k x)"
  by (cases v) simp_all

lemma stays_prod [stays_rules]: "(\<And>x y. stays P (k x y)) \<Longrightarrow> stays P (case v of (x, y) \<Rightarrow> k x y)"
  by (cases v) simp

lemma stays_let [stays_rules]: "stays P (f t) \<Longrightarrow> stays P (let x = t in f x)"
  by simp

lemma stays_guard_result [stays_rules]:
  "(\<And>x. stays P (f x)) \<Longrightarrow> (\<And>p. stays P (g p)) \<Longrightarrow> stays P (case r of GuardOk x \<Rightarrow> f x | GuardPanic p \<Rightarrow> g p)"
  by (cases r) simp_all

lemma stays_lift [stays_rules]: "stays P (liftM r)"
  by (simp add: liftM_def stays_basic split: sum.splits)

lemma stays_for [stays_rules]: "(\<And>x. x \<in> set xs \<Longrightarrow> stays P (f x)) \<Longrightarrow> stays P (forM xs f)"
  by (induction xs) (simp_all add: stays_basic stays_then)

lemma stays_unwind [stays_rules]: "stays P m \<Longrightarrow> stays P c \<Longrightarrow> stays P (unwindM m c)"
  unfolding stays_def wp_unwind by (blast intro: wp_mono)

lemma stays_check [stays_rules]: "stays P (check L rc)"
  by (auto simp: check_def stays_basic intro: stays_rules)

lemma stays_cast [stays_rules]: "stays P (castM c)"
  by (simp add: castM_def stays_basic split: option.splits)

lemma stays_stop_after [stays_rules]: "stays P (stop_after_panic p)"
  by (simp add: stop_after_panic_def stays_basic)

lemma stays_tag [stays_rules]: "stays P (is_env_sexp x)" "stays P (is_txn_sexp x)" "stays P (env_addr x)" "stays P (txn_addr x)"
  unfolding is_env_sexp_def is_txn_sexp_def has_tag_def env_addr_def txn_addr_def
  by (cases x; auto simp: stays_basic intro!: stays_rules split: paddr.splits)+

lemma stays_from_sexp [stays_rules]: "stays P (env_from_sexp x)" "stays P (txn_from_sexp x)"
  unfolding env_from_sexp_def txn_from_sexp_def by (intro stays_rules)+

lemma stays_missing [stays_rules]: "stays P (stop_missing_dbi t n)"
  unfolding stop_missing_dbi_def by (intro stays_rules)

lemma stays_raw [stays_rules]: "stays P (val_from_raw x)" "stays P (writable_txn x)" "stays P (get_attrib x n)" "stays P (owner_of t)"
  unfolding val_from_raw_def writable_txn_def get_attrib_def owner_of_def
  by (cases x; auto intro!: stays_rules)+

lemma stays_off_thread:
  "(\<And>w r n. P w \<Longrightarrow> f (w_lib w) = (r, n) \<Longrightarrow> P (w\<lparr>w_lib := n\<rparr>)) \<Longrightarrow> stays P (off_thread f)"
  by (auto simp: stays_def wp_def off_thread_def split: prod.splits nres.splits)

section \<open>Properties the boundary keeps\<close>

text \<open>A property that does not look at the chain of guard frames or the record of the last panic.\<close>

locale boundary_property =
  fixes P :: "'n world \<Rightarrow> bool"
  assumes ignores_guard: "P w \<Longrightarrow> P (w\<lparr>w_guard := fs\<rparr>)"
    and ignores_panic: "P w \<Longrightarrow> P (w\<lparr>w_last_panic := p\<rparr>)"
begin

lemma recorded: "stays P (modifyM (\<lambda>w. w\<lparr>w_last_panic := p\<rparr>))"
  by (simp add: stays_def wp_modify ignores_panic)

lemma panic: "stays P (mdbx_r_panic msg func line)"
  unfolding mdbx_r_panic_def
  by (intro stays_bind stays_basic, rename_tac frames, case_tac frames)
    (auto intro!: stays_rules recorded split: option.splits)

lemma native_panics:
  assumes "\<And>w n r. P w \<Longrightarrow> f (w_lib w) = (NRet r, n) \<Longrightarrow> P (w\<lparr>w_lib := n\<rparr>)"
    and "\<And>w n m g l. P w \<Longrightarrow> f (w_lib w) = (NPanic m g l, n) \<Longrightarrow> P (damage (w\<lparr>w_lib := n\<rparr>))"
  shows "stays P (native damage f)"
  unfolding stays_def
proof (intro allI impI)
  fix w assume w: "P w"
  obtain r n where r: "f (w_lib w) = (r, n)" by fastforce
  show "wp (native damage f) (\<lambda>_. P) (\<lambda>_. P) w"
  proof (cases r)
    case (NPanic m g l)
    then have "P (damage (w\<lparr>w_lib := n\<rparr>))" using assms(2) [OF w] r by simp
    then show ?thesis using staysD [OF panic] r NPanic by (simp add: wp_def native_def)
  qed (use r assms(1) [OF w] in \<open>simp add: wp_def native_def\<close>)
qed

lemma run_guarded:
  assumes "stays P f" and "stays P (run_poison poison)"
  shows "stays P (mdbx_r_run_guarded f poison)"
  unfolding stays_def
proof (intro allI impI)
  fix w assume "P w"
  then have "P (push_frame w)" by (simp add: push_frame_def ignores_guard)
  then show "wp (mdbx_r_run_guarded f poison) (\<lambda>_. P) (\<lambda>_. P) w"
    by (intro wp_run_guarded wp_mono [OF staysD [OF assms(1)]])
      (auto intro: staysD [OF assms(2)] simp: set_guard_def ignores_guard)
qed

lemma run_poison: "(\<And>p. poison = Some p \<Longrightarrow> stays P p) \<Longrightarrow> stays P (run_poison poison)"
  by (cases poison) (simp_all add: stays_basic)

lemma guarded: "stays P f \<Longrightarrow> stays P (run_poison poison) \<Longrightarrow> stays P (guard f poison)"
  unfolding guard_def by (intro stays_rules run_guarded)

end

section \<open>Properties of the handles\<close>

text \<open>
  A property that reads nothing but the three heaps and the next address is kept by all that
  happens inside libmdbx, panics included, and by the registries and the guard chain.
\<close>

locale handle_property =
  fixes P :: "'n world \<Rightarrow> bool"
  assumes reads_handles: "w_next v = w_next w \<Longrightarrow> w_envs v = w_envs w \<Longrightarrow> w_txns v = w_txns w
      \<Longrightarrow> w_xps v = w_xps w \<Longrightarrow> P w \<Longrightarrow> P v"
begin

lemma modify: "(\<And>w. w_next (f w) = w_next w \<and> w_envs (f w) = w_envs w \<and> w_txns (f w) = w_txns w \<and> w_xps (f w) = w_xps w)
    \<Longrightarrow> stays P (modifyM f)"
  by (auto simp: stays_def wp_modify elim!: reads_handles [rotated -1])

end

sublocale handle_property \<subseteq> boundary_property P
  by unfold_locales (erule reads_handles [rotated -1]; simp)+

context handle_property
begin

lemma native_call:
  assumes "\<And>w. w_next (damage w) = w_next w \<and> w_envs (damage w) = w_envs w \<and> w_txns (damage w) = w_txns w \<and> w_xps (damage w) = w_xps w"
  shows "stays P (native damage f)"
  by (rule native_panics) (auto simp: assms elim!: reads_handles [rotated -1])

lemma calls: "stays P (env_call p f)" "stays P (txn_call p g)"
  unfolding env_call_def txn_call_def by (auto intro!: stays_rules native_call)

lemma env_txn: "stays P (env_txn_call p q f)"
  unfolding env_txn_call_def by (intro stays_rules calls)

lemma on_a_thread: "stays P (off_thread f)"
  by (rule stays_off_thread) (auto elim!: reads_handles [rotated -1])

lemma alloc: "stays P (allocM L n)"
  by (auto simp: stays_def wp_def allocM_def split: prod.splits elim!: reads_handles [rotated -1])

lemma registries: "stays P (register_env a)" "stays P (unregister_env a)" "stays P (abandon p)" "stays P (abandon_env a)"
  "stays P (heap_roots_call L q)"
  unfolding register_env_def unregister_env_def abandon_env_def abandon_def heap_roots_call_def
  by (intro stays_rules modify; simp add: open_add_def open_remove_def)+

lemmas kept = panic calls on_a_thread env_txn alloc run_guarded guarded registries

end

section \<open>Going forward\<close>

text \<open>What may become of an environment handle, and of a transaction handle; \<open>ok\<close> says whether the
  transaction may be committed.\<close>

definition env_forward :: "env_handle \<Rightarrow> env_handle \<Rightarrow> bool" where
  "env_forward h k \<longleftrightarrow> eh_pid k = eh_pid h \<and> eh_key k = eh_key h \<and> eh_path k = eh_path h
     \<and> (eh_poisoned h \<longrightarrow> eh_poisoned k) \<and> (eh_env k = eh_env h \<or> eh_env k = None)"

definition txn_forward :: "bool \<Rightarrow> txn_handle \<Rightarrow> txn_handle \<Rightarrow> bool" where
  "txn_forward ok h k \<longleftrightarrow> th_write k = th_write h \<and> th_pid k = th_pid h
     \<and> (th_poisoned h \<longrightarrow> th_poisoned k) \<and> (th_owner k = th_owner h \<or> th_owner k = None)
     \<and> (th_owner h = None \<longrightarrow> th_state k = th_state h \<and> th_txn k = th_txn h)
     \<and> (th_state k = st_committed \<longrightarrow> th_state h = st_committed \<or> ok)"

definition ptr_forward :: "xptr \<Rightarrow> xptr \<Rightarrow> bool" where
  "ptr_forward p q \<longleftrightarrow> xp_tag q = xp_tag p \<and> (xp_addr q = xp_addr p \<or> xp_addr q = ANull)"

text \<open>
  Every handle that \<open>w\<close> has and \<open>v\<close> could have had comes from one of \<open>v\<close>. Handles are made only
  when \<open>grow\<close>, and no pointer but those in \<open>X\<close> is cleared.
\<close>

definition forward :: "bool \<Rightarrow> nat set \<Rightarrow> 'n world \<Rightarrow> 'n world \<Rightarrow> bool" where
  "forward grow X v w \<longleftrightarrow> w_next v \<le> w_next w
     \<and> (\<forall>a k. w_envs w a = Some k \<and> a < w_next v \<longrightarrow> (\<exists>h. w_envs v a = Some h \<and> env_forward h k))
     \<and> (\<forall>t k. w_txns w t = Some k \<and> t < w_next v \<longrightarrow> (\<exists>h. w_txns v t = Some h \<and> txn_forward (live_txn t v) h k))
     \<and> (\<forall>x q. w_xps w x = Some q \<and> x < w_next v \<longrightarrow> (\<exists>p. w_xps v x = Some p \<and> ptr_forward p q))
     \<and> (\<not> grow \<longrightarrow> dom (w_envs w) \<subseteq> dom (w_envs v) \<and> dom (w_txns w) \<subseteq> dom (w_txns v))
     \<and> (\<forall>x p. w_xps v x = Some p \<and> x < w_next v \<and> x \<notin> X \<longrightarrow> (\<exists>q. w_xps w x = Some q \<and> xp_addr q = xp_addr p))"

lemma forward_steps [simp]: "env_forward h h" "txn_forward ok k k" "ptr_forward p p"
  by (simp_all add: env_forward_def txn_forward_def ptr_forward_def)

lemma forward_refl [simp]: "forward grow X v v"
  by (simp add: forward_def)

lemma env_forward_trans: "env_forward h k \<Longrightarrow> env_forward k l \<Longrightarrow> env_forward h l"
  by (auto simp: env_forward_def)

lemma txn_forward_trans: "txn_forward ok h k \<Longrightarrow> txn_forward False k l \<Longrightarrow> txn_forward ok h l"
  unfolding txn_forward_def by metis

lemma ptr_forward_trans: "ptr_forward p q \<Longrightarrow> ptr_forward q r \<Longrightarrow> ptr_forward p r"
  by (auto simp: ptr_forward_def)

interpretation on_forward: handle_property "forward grow X v" for grow X v
  by unfold_locales (simp add: forward_def)

lemmas [stays_rules] = on_forward.panic on_forward.on_a_thread on_forward.calls on_forward.env_txn on_forward.alloc
  on_forward.run_guarded on_forward.guarded on_forward.registries on_forward.run_poison

lemma stays_count [stays_rules]:
  "stays (forward grow X v) (modifyM (\<lambda>w. w\<lparr>w_live_env_handles := f w\<rparr>))"
  "stays (forward grow X v) (modifyM (\<lambda>w. w\<lparr>w_live_txn_handles := f w\<rparr>))"
  "stays (forward grow X v) (modifyM env_created)" "stays (forward grow X v) (modifyM (txn_created e))"
  "stays (forward grow X v) (modifyM (txn_ended p))" "stays (forward grow X v) (modifyM (kill_env e))"
  by (rule on_forward.modify; simp add: txn_ended_def)+

text \<open>Writing to a handle: to one made since \<open>v\<close> anything, to an older one only a step forward.\<close>

lemma forwardD:
  assumes "forward grow X v w"
  shows "w_next v \<le> w_next w"
    and "\<And>a k. w_envs w a = Some k \<Longrightarrow> a < w_next v \<Longrightarrow> \<exists>h. w_envs v a = Some h \<and> env_forward h k"
    and "\<And>t k. w_txns w t = Some k \<Longrightarrow> t < w_next v \<Longrightarrow> \<exists>h. w_txns v t = Some h \<and> txn_forward (live_txn t v) h k"
    and "\<And>x q. w_xps w x = Some q \<Longrightarrow> x < w_next v \<Longrightarrow> \<exists>p. w_xps v x = Some p \<and> ptr_forward p q"
    and "\<And>a k. \<not> grow \<Longrightarrow> w_envs w a = Some k \<Longrightarrow> w_envs v a \<noteq> None"
    and "\<And>t k. \<not> grow \<Longrightarrow> w_txns w t = Some k \<Longrightarrow> w_txns v t \<noteq> None"
    and "\<And>x p. w_xps v x = Some p \<Longrightarrow> x < w_next v \<Longrightarrow> x \<notin> X \<Longrightarrow> \<exists>q. w_xps w x = Some q \<and> xp_addr q = xp_addr p"
  using assms unfolding forward_def by - (elim conjE, blast)+

lemma forward_put_env:
  assumes "forward grow X v w" and "w_envs w a = Some k" and "a < w_next v \<Longrightarrow> env_forward k k'"
  shows "forward grow X v (put_env a k' w)"
proof -
  have "\<exists>h. w_envs v a = Some h \<and> env_forward h k'" if a: "a < w_next v"
    using forwardD(2) [OF assms(1,2) a] env_forward_trans assms(3) [OF a] by blast
  moreover have "insert a (dom (w_envs w)) = dom (w_envs w)" using assms(2) by blast
  ultimately show ?thesis using assms(1) by (simp add: forward_def)
qed

lemma forward_put_txn:
  assumes "forward grow X v w" and "w_txns w t = Some k"
    and "\<And>h. t < w_next v \<Longrightarrow> w_txns v t = Some h \<Longrightarrow> txn_forward (live_txn t v) h k \<Longrightarrow> txn_forward (live_txn t v) h k'"
  shows "forward grow X v (put_txn t k' w)"
proof -
  have "\<exists>h. w_txns v t = Some h \<and> txn_forward (live_txn t v) h k'" if t: "t < w_next v"
    using forwardD(3) [OF assms(1,2) t] assms(3) [OF t] by blast
  moreover have "insert t (dom (w_txns w)) = dom (w_txns w)" using assms(2) by blast
  ultimately show ?thesis using assms(1) by (simp add: forward_def)
qed

lemma forward_put_xptr:
  assumes "forward grow X v w" and "w_xps w x = Some q"
    and "x < w_next v \<Longrightarrow> ptr_forward q q' \<and> (x \<notin> X \<longrightarrow> xp_addr q' = xp_addr q)"
  shows "forward grow X v (put_xptr x q' w)"
proof -
  have "\<exists>p. w_xps v x = Some p \<and> ptr_forward p q'" if x: "x < w_next v"
    using forwardD(4) [OF assms(1,2) x] ptr_forward_trans assms(3) [OF x] by blast
  moreover have "xp_addr q' = xp_addr p" if "w_xps v x = Some p" "x < w_next v" "x \<notin> X" for p
    using forwardD(7) [OF assms(1) that] assms(2) assms(3) [OF that(2)] that(3) by auto
  ultimately show ?thesis using assms(1) by (simp add: forward_def)
qed

lemma stays_set_env [stays_rules]:
  "w_next v \<le> a \<or> (\<forall>h. env_forward h (f h)) \<Longrightarrow> stays (forward grow X v) (set_env a f)"
  by (auto simp: stays_def wp_set_env intro: forward_put_env split: option.splits)

lemma stays_set_txn [stays_rules]:
  "w_next v \<le> t \<or> (\<forall>h. txn_forward False h (f h)) \<Longrightarrow> stays (forward grow X v) (set_txn t f)"
  by (auto simp: stays_def wp_set_txn intro!: forward_put_txn intro: txn_forward_trans split: option.splits)

lemma stays_set_xptr [stays_rules]:
  "w_next v \<le> x \<or> (\<forall>p. ptr_forward p (f p) \<and> (x \<notin> X \<longrightarrow> xp_addr (f p) = xp_addr p)) \<Longrightarrow> stays (forward grow X v) (set_xptr x f)"
  by (auto simp: stays_def wp_set_xptr intro: forward_put_xptr split: option.splits)

lemma stays_delete [stays_rules]: "stays (forward grow X v) (delete_env a)" "stays (forward grow X v) (delete_txn t)"
  by (auto simp: stays_def wp_simps forward_def split: option.splits)

lemma stays_new [stays_rules]:
  "(\<And>a. w_next v \<le> a \<Longrightarrow> stays (forward True X v) (f a)) \<Longrightarrow> stays (forward True X v) (bindM (new_env h) f)"
  "(\<And>t. w_next v \<le> t \<Longrightarrow> stays (forward True X v) (g t)) \<Longrightarrow> stays (forward True X v) (bindM (new_txn k) g)"
  "(\<And>x. w_next v \<le> x \<Longrightarrow> stays (forward grow X v) (l x)) \<Longrightarrow> stays (forward grow X v) (bindM (new_xptr p) l)"
  unfolding stays_def wp_bind wp_new_env wp_new_txn wp_new_xptr by (auto simp: forward_def)

text \<open>A transaction may end if it had not when the operation began, and only a live one as committed.\<close>

definition may_end :: "'n world \<Rightarrow> nat \<Rightarrow> txn_state \<Rightarrow> bool" where
  "may_end v t s \<longleftrightarrow> (\<forall>h. w_txns v t = Some h \<longrightarrow> th_owner h \<noteq> None) \<and> (s = st_committed \<longrightarrow> live_txn t v)"

lemma stays_end:
  assumes "may_end v t s"
    and "\<And>h. th_write (f h) = th_write h \<and> th_pid (f h) = th_pid h \<and> th_poisoned (f h) = th_poisoned h
        \<and> (th_owner (f h) = th_owner h \<or> th_owner (f h) = None) \<and> (th_state (f h) = th_state h \<or> th_state (f h) = s)"
  shows "stays (forward grow X v) (set_txn t f)"
proof -
  have "txn_forward (live_txn t v) h (f k)" if "w_txns v t = Some h" "txn_forward (live_txn t v) h k" for h k
    using that assms(1) assms(2) [of k] unfolding txn_forward_def may_end_def by metis
  then show ?thesis
    unfolding stays_def wp_set_txn by (auto intro!: forward_put_txn split: option.splits)
qed

lemma stays_roots [stays_rules]: "stays (forward grow X v) (record_heap_roots L a)"
  unfolding record_heap_roots_def by (intro stays_rules) (simp add: env_forward_def)

lemma stays_unregister [stays_rules]: "stays (forward grow X v) (unregister_txn t)"
  unfolding unregister_txn_def by (intro stays_rules) (simp add: env_forward_def live_remove_def)

lemma stays_mark [stays_rules]: "may_end v t s \<Longrightarrow> stays (forward grow X v) (mark_finished L t s)"
  unfolding mark_finished_def
  by (intro stays_then stays_bind stays_read stays_option stays_when stays_roots stays_unregister stays_basic;
      rule stays_end, assumption, simp)

lemma stays_poison [stays_rules]:
  "stays (forward grow X v) (run_poison (Some (poison_txn t)))" "stays (forward grow X v) (run_poison (Some (poison_env a)))"
  "stays (forward grow X v) (run_poison None)"
  unfolding poison_txn_def poison_env_def run_poison_simps
  by (intro stays_rules; simp add: env_forward_def txn_forward_def)+

lemma stays_prot [stays_rules]: "stays (forward grow X v) (set_prot x p)"
  by (cases x) (auto simp: set_prot_def ptr_forward_def intro!: stays_rules)

end
