(* ===== verification/Mdbx_Progress.thy ===== *)
theory Mdbx_Progress
  imports Mdbx_Forward
begin

text \<open>
  Every entry point and every finalizer only takes handles forward, in the sense of
  \<open>Mdbx_Forward\<close>: first the functions handed to the guard, then the operations, then those that
  end transactions and close environments.
\<close>

section \<open>Guarded functions\<close>

lemma stays_visit:
  "(\<And>name ctx. stays P (visitor name ctx)) \<Longrightarrow> stays P (visit_tables visitor rc names ctx)"
  by (induction names arbitrary: ctx) (auto intro!: stays_rules)

lemma stays_enumerate: "(\<And>name ctx. stays (forward grow X v) (visitor name ctx)) \<Longrightarrow> stays (forward grow X v) (enumerate_tables L t visitor ctx)"
  unfolding enumerate_tables_def by (intro stays_rules stays_visit)

lemma stays_tables [stays_rules]: "stays (forward grow X v) (count_call L t)" "stays (forward grow X v) (list_call L t)"
  unfolding count_call_def list_call_def count_visit_def list_visit_def by (intro stays_rules stays_enumerate)+

lemma stays_cursor [stays_rules]: "stays (forward grow X v) (cursor_get L p c key opr)"
  unfolding cursor_get_def by (intro stays_rules)

lemma stays_reposition [stays_rules]: "stays (forward grow X v) (reposition L p dbi c from_key r)"
  unfolding reposition_def by (intro stays_rules)

lemma stays_scan_loop [stays_rules]:
  "stays (forward grow X v) (scan_loop L p dbi c limit want_values reverse start opr key positioning ks vs)"
proof (induction "limit - length ks" arbitrary: opr key positioning ks vs rule: less_induct)
  case less
  show ?case by (subst scan_loop.simps) (intro stays_rules less; simp)
qed

lemma stays_bodies [stays_rules]:
  "stays (forward grow X v) (dbi_call L t name flags)" "stays (forward grow X v) (get_call L t key)"
  "stays (forward grow X v) (put_call L t key data flags)" "stays (forward grow X v) (del_call L t key)"
  "stays (forward grow X v) (drop_call L t del)" "stays (forward grow X v) (sequence_call L t inc)"
  "stays (forward grow X v) (dbi_stat_call L t)" "stays (forward grow X v) (scan_call L t limit want_values reverse start)"
  "stays (forward grow X v) (reader_check_call L a)" "stays (forward grow X v) (path_call L a)"
  "stays (forward grow X v) (get_flags_call L a)" "stays (forward grow X v) (set_flags_call L a bits on)"
  "stays (forward grow X v) (sync_call L a force nonblock)" "stays (forward grow X v) panic_immediately"
  "stays (forward grow X v) (stat_call L q p)" "stays (forward grow X v) (info_call L q p)"
  unfolding dbi_call_def get_call_def put_call_def del_call_def drop_call_def sequence_call_def dbi_stat_call_def
    scan_call_def reader_check_call_def path_call_def get_flags_call_def set_flags_call_def sync_call_def
    panic_immediately_def stat_call_def info_call_def
  by (intro stays_rules)+

lemma stays_setup [stays_rules]: "stays (forward grow X v) (setup_call L)"
  unfolding setup_call_def by (rule on_forward.native_call) simp

lemma stays_native_ends [stays_rules]:
  "stays (forward grow X v) (finish_call L t commit)" "stays (forward grow X v) (begin_call L a flags)" "stays (forward grow X v) (close_call L a)"
  unfolding finish_call_def txn_end_call_def begin_call_def txn_begin_call_def close_call_def env_close_call_def
  by (intro stays_rules)+

section \<open>Operations\<close>

lemma stays_cache [stays_rules]: "stays (forward grow X v) (set_txn t (cache_dbi name d))"
  "stays (forward grow X v) (set_txn t (\<lambda>h. h\<lparr>th_dbi := d\<rparr>))" "stays (forward grow X v) (set_txn t (\<lambda>h. h\<lparr>th_named := g h\<rparr>))"
  by (rule stays_set_txn, simp add: txn_forward_def cache_dbi_def split: option.splits)+

lemma stays_ensure_dbi [stays_rules]: "stays (forward grow X v) (ensure_dbi L t name)"
  unfolding ensure_dbi_def by (intro stays_bind stays_then stays_read stays_cache stays_option stays_when stays_missing
      stays_check stays_basic on_forward.guarded stays_bodies stays_poison)

lemma stays_data [stays_rules]:
  "stays (forward grow X v) (mdbx_get L txn key db)" "stays (forward grow X v) (mdbx_put L txn key val overwrite db)"
  "stays (forward grow X v) (mdbx_del L txn key db)" "stays (forward grow X v) (mdbx_scan L txn limit values db start reverse)"
  "stays (forward grow X v) (mdbx_dbi_sequence L txn db increment)" "stays (forward grow X v) (mdbx_dbi_list L txn)"
  unfolding mdbx_get_def mdbx_put_def mdbx_del_def mdbx_scan_def mdbx_dbi_sequence_def mdbx_dbi_list_def
  by (intro stays_rules)+

lemma stays_dbi [stays_rules]:
  "stays (forward grow X v) (mdbx_dbi_open L txn name create)" "stays (forward grow X v) (mdbx_dbi_drop L txn db del)"
  unfolding mdbx_dbi_open_def mdbx_dbi_drop_def count_named_tables_def
  by (intro stays_bind stays_then stays_if stays_read stays_cache stays_option stays_when stays_missing stays_from_sexp
      stays_raw stays_check stays_basic on_forward.guarded stays_bodies stays_tables stays_poison stays_ensure_dbi)+

lemma stays_stat [stays_rules]:
  "stays (forward grow X v) (run_stat L a txn)" "stays (forward grow X v) (run_info L a txn)"
  unfolding run_stat_def run_info_def by (intro stays_rules)+

lemma stays_current [stays_rules]: "stays (forward grow X v) (current_txn a)"
proof -
  have "stays P (current_txn_loop ts)" for P :: "'a world \<Rightarrow> bool" and ts
    by (induction ts) (auto intro!: stays_rules)
  then show ?thesis unfolding current_txn_def by (intro stays_rules)
qed

lemma stays_env_ops [stays_rules]:
  "stays (forward grow X v) (mdbx_env_reader_check L env)" "stays (forward grow X v) (mdbx_env_path L env)"
  "stays (forward grow X v) (mdbx_env_get_flags L env)" "stays (forward grow X v) (mdbx_env_set_flags L env flags on)"
  "stays (forward grow X v) (mdbx_env_sync L env force nonblock)" "stays (forward grow X v) (mdbx_env_stat L env)"
  "stays (forward grow X v) (mdbx_env_info L env)" "stays (forward grow X v) (mdbx_env_is_open env)"
  "stays (forward grow X v) (mdbx_env_txn_count env)" "stays (forward grow X v) (mdbx_txn_stat L txn db)"
  "stays (forward grow X v) (mdbx_txn_info L txn)" "stays (forward grow X v) (mdbx_txn_id L txn)"
  "stays (forward grow X v) (mdbx_limits L pagesize)" "stays (forward grow X v) (mdbx_initialize L)"
  "stays (forward grow X v) (mdbx_test_check L rc)" "stays (forward grow X v) (mdbx_test_panic_stat env info)"
  "stays (forward grow X v) (mdbx_test_panic_get txn)"
  unfolding mdbx_env_reader_check_def mdbx_env_path_def mdbx_env_get_flags_def mdbx_env_set_flags_def
    mdbx_env_sync_def mdbx_env_stat_def mdbx_env_info_def mdbx_env_is_open_def mdbx_env_txn_count_def
    mdbx_txn_stat_def mdbx_txn_info_def mdbx_txn_id_def mdbx_limits_def mdbx_initialize_def mdbx_test_check_def
    mdbx_test_panic_stat_def mdbx_test_panic_get_def
  by (intro stays_rules)+

lemma stays_txn_state [stays_rules]: "stays (forward grow X v) (mdbx_txn_state L txn)"
  unfolding mdbx_txn_state_def
  by (intro stays_rules) (auto split: txn_state.split intro!: stays_rules)

section \<open>Beginning and opening\<close>

lemma stays_set_attrs [stays_rules]:
  "stays (forward grow X v) (set_xptr x (\<lambda>p. p\<lparr>xp_attrs := ats\<rparr>))" "stays (forward grow X v) (set_xptr x (\<lambda>p. p\<lparr>xp_class := cs\<rparr>))"
  by (rule stays_set_xptr, simp add: ptr_forward_def)+

lemma stays_new_sexps [stays_rules]:
  "stays (forward grow X v) (new_txn_sexp t env w)" "stays (forward grow X v) (new_env_sexp a path r s)"
  unfolding new_txn_sexp_def new_env_sexp_def
  by (intro stays_new stays_bind stays_then stays_count stays_read stays_option stays_basic stays_raw stays_set_attrs;
      rule stays_set_env; simp add: env_forward_def live_add_def)+

lemma stays_txn_begin [stays_rules]: "stays (forward True X v) (mdbx_txn_begin L env is_write extra)"
  unfolding mdbx_txn_begin_def
  by (intro stays_bind [OF stays_from_sexp(1)] stays_bind [OF stays_read(2)] stays_bind [OF stays_read(1)] stays_if
        stays_basic stays_new(2) stays_bind [OF stays_unwind] stays_lift stays_let stays_bind [OF stays_lift]
        stays_bind [OF on_forward.guarded] stays_native_ends stays_poison stays_then stays_check stays_delete
        stays_new_sexps)
    (rule stays_set_txn, simp)

lemma stays_close [stays_rules]: "stays (forward grow X v) (close_handle L a propagate)"
  unfolding close_handle_def by (intro stays_rules; simp add: env_forward_def)

lemma stays_open_call: "w_next v \<le> a \<Longrightarrow> stays (forward grow X v) (open_call L a path flags dbs readers sz mode)"
  unfolding open_call_def env_create_call_def
  by (intro stays_rules on_forward.native_call; simp)

lemma stays_open_guarded: "w_next v \<le> a \<Longrightarrow> stays (forward grow X v) (open_guarded L a path flags dbs readers sz mode)"
  unfolding open_guarded_def
  by (intro stays_bind stays_guard_result stays_then stays_stop_after on_forward.registries on_forward.run_guarded stays_open_call
      stays_poison stays_if stays_read stays_when stays_close stays_check stays_basic)

lemma stays_find_open [stays_rules]: "stays P (find_open_env key)"
proof -
  have "stays P (find_open_loop key as)" for as
    by (induction as) (auto intro!: stays_rules)
  then show ?thesis unfolding find_open_env_def by (intro stays_rules)
qed

lemma stays_env_open [stays_rules]:
  "stays (forward True X v) (mdbx_env_open L path key readonly subdir max_dbs map_size max_readers mode extra)"
  unfolding mdbx_env_open_def
  by (intro stays_bind [OF stays_lift] stays_let stays_if stays_basic stays_bind [OF stays_find_open] stays_option
      stays_bind [OF stays_read(2)] stays_bind [OF stays_read(1)] stays_bind [OF stays_cast] stays_new(1)
      stays_bind [OF stays_unwind] stays_open_guarded stays_delete stays_then stays_roots stays_bind [OF stays_new_sexps(2)]
      on_forward.registries, assumption)
    (rule stays_set_env, simp)

section \<open>Ending\<close>

lemma forward_start: "stays (forward grow X v) m \<Longrightarrow> wp m (\<lambda>_. forward grow X v) (\<lambda>_. forward grow X v) v"
  by (erule staysD) simp

lemma live_may_end: "live_txn t v \<Longrightarrow> may_end v t s"
  by (auto simp: may_end_def live_txn_def)

text \<open>An unfinished transaction had an owner to begin with.\<close>

lemma unfinished_may_end:
  assumes "inv v" and "forward grow X v w" and "w_txns w t = Some k" and "th_txn k \<noteq> None"
  shows "may_end v t st_aborted"
proof -
  have "th_owner h \<noteq> None" if h: "w_txns v t = Some h" for h
  proof
    assume o: "th_owner h = None"
    have "t < w_next v" by (rule heap_invD(4) [OF inv_D(1) [OF assms(1)] h])
    then have "txn_forward (live_txn t v) h k" using assms(2,3) h unfolding forward_def by fastforce
    then show False using o assms(4) inv_no_owner [OF assms(1) h o] by (simp add: txn_forward_def)
  qed
  then show ?thesis by (simp add: may_end_def)
qed

lemma stays_unfinished:
  assumes "inv v" and "\<And>h. (th_txn h \<noteq> None \<Longrightarrow> may_end v t st_aborted) \<Longrightarrow> stays (forward grow X v) (f h)"
  shows "stays (forward grow X v) (bindM (txn_at t) f)"
proof -
  have "wp (f k) (\<lambda>_. forward grow X v) (\<lambda>_. forward grow X v) w" if "forward grow X v w" "w_txns w t = Some k" for w k
    by (rule staysD [OF assms(2) that(1)]) (rule unfinished_may_end [OF assms(1) that])
  then show ?thesis by (auto simp: stays_def wp_bind wp_txn_at split: option.splits)
qed

lemma stays_detach_one: "may_end v t st_aborted \<Longrightarrow> stays (forward grow X v) (detach_one L usable t)"
  unfolding detach_one_def
  by (intro stays_bind stays_then stays_read stays_if stays_when on_forward.run_guarded on_forward.registries stays_native_ends
      stays_poison stays_basic; rule stays_end, assumption, simp)

lemma forward_detach:
  assumes "inv v" and "forward grow X v w" and "w_envs w a = w_envs v a"
  shows "wp (detach_txns L a) (\<lambda>_. forward grow X v) (\<lambda>_. forward grow X v) w"
proof (cases "w_envs v a")
  case (Some h)
  have "may_end v t st_aborted" if "t \<in> set (eh_live h)" for t
    using own_invD(1) [OF inv_D(3) [OF assms(1)] Some that] by (auto simp: may_end_def)
  then have "stays (forward grow X v) (forM (eh_live h) (detach_one L u))" for u
    by (intro stays_for stays_detach_one)
  then have "stays (forward grow X v) (thenM (forM (eh_live h) (detach_one L u)) (set_env a (\<lambda>h. h\<lparr>eh_live := []\<rparr>)))" for u
    by (rule stays_then) (rule stays_set_env, simp add: env_forward_def)
  then have "wp (thenM (forM (eh_live h) (detach_one L u)) (set_env a (\<lambda>h. h\<lparr>eh_live := []\<rparr>)))
      (\<lambda>_. forward grow X v) (\<lambda>_. forward grow X v) w" for u
    using assms(2) by (rule staysD)
  then show ?thesis
    unfolding detach_txns_def wp_bind wp_env_at wp_current_pid assms(3) Some option.case by blast
qed (use assms(2,3) in \<open>simp add: detach_txns_def wp_simps\<close>)

lemma forward_finish:
  assumes "inv v" and "sexp_ok txn v"
  shows "wp (finish_txn L txn commit) (\<lambda>_. forward grow X v) (\<lambda>_. forward grow X v) v"
  unfolding finish_txn_def
proof (rule wp_bindI, rule wp_mono [OF txn_from_sexp_wp [OF assms]])
  fix t w
  assume t: "w = v \<and> live_txn t v \<and> (\<exists>i. txn = R_ExtPtr i)"
  then have "stays (forward grow X v) (bindM (guard (finish_call L t commit) (Some (poison_txn t))) (\<lambda>rc.
     thenM (whenM (rc = MDBX_THREAD_MISMATCH) (check L rc))
    (thenM (mark_finished L t (if commit \<and> rc = MDBX_SUCCESS then st_committed else st_aborted))
    (thenM (set_prot txn R_NilValue)
           (if rc = MDBX_RESULT_TRUE then stopM RolledBack else check L rc)))))"
    by (intro stays_rules live_may_end) simp
  then show "wp (bindM (guard (finish_call L t commit) (Some (poison_txn t))) (\<lambda>rc.
     thenM (whenM (rc = MDBX_THREAD_MISMATCH) (check L rc))
    (thenM (mark_finished L t (if commit \<and> rc = MDBX_SUCCESS then st_committed else st_aborted))
    (thenM (set_prot txn R_NilValue)
           (if rc = MDBX_RESULT_TRUE then stopM RolledBack else check L rc))))) (\<lambda>_. forward grow X v) (\<lambda>_. forward grow X v) w"
    using t staysD by fastforce
qed simp

lemma forward_thread_mismatch:
  assumes "inv v" and "sexp_ok txn v"
  shows "wp (mdbx_test_thread_mismatch L txn) (\<lambda>_. forward grow X v) (\<lambda>_. forward grow X v) v"
  unfolding mdbx_test_thread_mismatch_def
proof (rule wp_bindI, rule wp_mono [OF txn_from_sexp_wp [OF assms]])
  fix t w
  assume t: "w = v \<and> live_txn t v \<and> (\<exists>i. txn = R_ExtPtr i)"
  then have "stays (forward grow X v) (bindM (txn_at t) (\<lambda>h. bindM (commit_off_thread L (th_txn h)) (\<lambda>rc.
      thenM (whenM (rc \<noteq> MDBX_THREAD_MISMATCH) (mark_finished L t st_aborted)) (returnM rc))))"
    unfolding commit_off_thread_def by (intro stays_rules live_may_end) simp
  then show "wp (bindM (txn_at t) (\<lambda>h. bindM (commit_off_thread L (th_txn h)) (\<lambda>rc.
      thenM (whenM (rc \<noteq> MDBX_THREAD_MISMATCH) (mark_finished L t st_aborted)) (returnM rc))))
      (\<lambda>_. forward grow X v) (\<lambda>_. forward grow X v) w"
    using t staysD by fastforce
qed simp

lemma forward_abort:
  assumes "inv v" and "sexp_ok txn v"
  shows "wp (mdbx_txn_abort L txn) (\<lambda>_. forward grow X v) (\<lambda>_. forward grow X v) v"
  unfolding mdbx_txn_abort_def
proof (rule wp_txn_handle [OF assms])
  fix i t h
  assume h: "w_txns v t = Some h"
  show "wp (case Some t of None \<Rightarrow> returnM () | Some t \<Rightarrow> bindM (txn_at t) (\<lambda>h.
         if th_txn h = None then returnM () else
         bindM (broken_graph h) (\<lambda>broken.
         if broken then
           thenM (abandon (map_option PTxn (th_txn h)))
          (thenM (mark_finished L t st_aborted) (set_prot txn R_NilValue))
         else finish_txn L txn False))) (\<lambda>_. forward grow X v) (\<lambda>_. forward grow X v) v"
  proof (cases "th_txn h = None")
    case False
    have "stays (forward grow X v) (thenM (abandon (map_option PTxn (th_txn h)))
          (thenM (mark_finished L t st_aborted) (set_prot txn R_NilValue)))"
      by (intro stays_rules unfinished_may_end [OF assms(1) forward_refl h False])
    then have "wp (if b then thenM (abandon (map_option PTxn (th_txn h)))
          (thenM (mark_finished L t st_aborted) (set_prot txn R_NilValue)) else finish_txn L txn False)
        (\<lambda>_. forward grow X v) (\<lambda>_. forward grow X v) v" for b
      using forward_finish [OF assms] forward_start by (cases b) simp_all
    moreover have "wp (broken_graph h) (\<lambda>b w. w = v) (\<lambda>_ w. w = v) v"
      by (simp add: broken_graph_def wp_simps split: option.splits)
    ultimately show ?thesis
      using h False by (auto simp: wp_bind wp_txn_at elim!: wp_mono)
  qed (use h in \<open>simp add: wp_simps\<close>)
qed (simp_all add: wp_return)

lemma forward_env_close:
  assumes "inv v" and "sexp_ok env v"
  shows "wp (mdbx_env_close L env) (\<lambda>_. forward grow X v) (\<lambda>_. forward grow X v) v"
  unfolding mdbx_env_close_def
proof (rule wp_env_handle [OF assms])
  fix i a h
  assume h: "w_envs v a = Some h"
  let ?rest = "bindM (env_at a) (\<lambda>h. if eh_live h \<noteq> [] then stopM (EnvHasTxns (length (eh_live h)))
         else close_handle L a True)"
  let ?P = "\<lambda>m. wp m (\<lambda>_. forward grow X v) (\<lambda>_. forward grow X v)"
  have r: "stays (forward grow X v) ?rest" by (intro stays_rules)
  have "wp (detach_txns L a) (\<lambda>_. ?P ?rest) (\<lambda>_. forward grow X v) v"
    by (rule wp_mono [OF forward_detach [OF assms(1) forward_refl refl]], rule staysD [OF r])
  then have "?P (bindM (env_at a) (\<lambda>h. thenM (whenM (eh_poisoned h) (detach_txns L a)) ?rest)) v"
    using forward_start [OF r] h
    unfolding wp_bind [of "env_at a" "\<lambda>h. thenM (whenM (eh_poisoned h) (detach_txns L a)) k" for k] wp_env_at wp_then wp_when
    by simp
  then show "?P (case Some a of None \<Rightarrow> returnM () | Some a \<Rightarrow> bindM (env_at a) (\<lambda>h.
         thenM (whenM (eh_poisoned h) (detach_txns L a))
        (bindM (env_at a) (\<lambda>h.
         if eh_live h \<noteq> [] then stopM (EnvHasTxns (length (eh_live h)))
         else close_handle L a True)))) v" by simp
qed (simp_all add: wp_return)

section \<open>Finalizers\<close>

lemma forward_finalize_env:
  assumes "inv v" and "w_xps v x = Some p" and "x \<in> X"
  shows "wp (finalize_env L x) (\<lambda>_. forward grow X v) (\<lambda>_. forward grow X v) v"
proof -
  have "stays (forward grow X v) (thenM (close_handle L a False) (thenM (delete_env a)
       (modifyM (\<lambda>w. w\<lparr>w_live_env_handles := w_live_env_handles w - 1\<rparr>))))" for a
    by (intro stays_rules)
  then have "wp (thenM (detach_txns L a) (thenM (close_handle L a False) (thenM (delete_env a)
       (modifyM (\<lambda>w. w\<lparr>w_live_env_handles := w_live_env_handles w - 1\<rparr>))))) (\<lambda>_. forward grow X v) (\<lambda>_. forward grow X v)
       (put_xptr x (p\<lparr>xp_addr := ANull\<rparr>) v)" for a
    unfolding wp_then [of "detach_txns L a"]
    by (intro wp_mono [OF forward_detach [OF assms(1)]])
      (auto intro: forward_put_xptr [OF forward_refl assms(2)] staysD simp: ptr_forward_def assms(3))
  then show ?thesis
    using assms(2) unfolding finalize_env_def wp_bind wp_then [of "set_xptr x f" for f]
    by (auto simp: env_addr_def wp_bind wp_xptr_at wp_return wp_stop wp_set_xptr wp_then [of "set_xptr x f" for f]
        split: paddr.splits)
qed

lemma stays_finalize_txn:
  assumes "inv v" and "x \<in> X"
  shows "stays (forward grow X v) (finalize_txn L x)"
proof -
  have may: "stays (forward grow X v) (finalizer_may_abort h)" for h
    unfolding finalizer_may_abort_def by (intro stays_rules)
  have x: "stays (forward grow X v) (set_xptr x (\<lambda>p. p\<lparr>xp_addr := ANull\<rparr>))"
    by (rule stays_set_xptr) (simp add: ptr_forward_def assms(2))
  show ?thesis
    unfolding finalize_txn_def
    by (intro stays_bind [OF stays_tag(4)] stays_option stays_basic stays_then [OF x] stays_bind [OF may]
        stays_bind [OF stays_if] stays_bind [OF on_forward.run_guarded] stays_native_ends stays_poison
        stays_unfinished [OF assms(1)] stays_then stays_delete stays_count stays_if stays_when on_forward.registries stays_mark
        stays_unregister; blast)
qed

section \<open>Every call and every step\<close>

lemmas stays_entry_points = stays_data stays_dbi stays_env_ops stays_txn_state stays_txn_begin stays_env_open

lemma wp_ignore: "wp m (\<lambda>_. Q) E w \<Longrightarrow> wp (ignoreM m) (\<lambda>_. Q) E w"
  unfolding ignoreM_def wp_bind by (erule wp_mono) (simp_all add: wp_return)

text \<open>The two calls that make handles.\<close>

fun creates :: "call \<Rightarrow> bool" where
  "creates (Do_env_open path key readonly subdir max_dbs map_size max_readers mode extra) = True"
| "creates (Do_txn_begin env is_write extra) = True"
| "creates _ = False"

lemma forward_perform:
  assumes "inv v" and "sexp_ok (handle_arg c) v"
  shows "wp (perform L c) (\<lambda>_. forward (creates c) X v) (\<lambda>_. forward (creates c) X v) v"
proof (cases c)
  case (Do_env_close env)
  then show ?thesis using forward_env_close [OF assms(1)] assms(2) by simp
next
  case (Do_txn_commit txn)
  then show ?thesis using forward_finish [OF assms(1)] assms(2) by (simp add: mdbx_txn_commit_def)
next
  case (Do_txn_abort txn)
  then show ?thesis using forward_abort [OF assms(1)] assms(2) by simp
next
  case (Do_test_thread_mismatch txn)
  then show ?thesis using forward_thread_mismatch [OF assms(1)] assms(2) by (simp add: wp_ignore)
qed (simp_all only: perform.simps creates.simps; (rule wp_ignore)?; rule forward_start, rule stays_entry_points)+

lemma forward_finalized:
  assumes "inv v" and "w_xps v x = Some p"
  shows "finalize_env L x v = (r, w) \<Longrightarrow> forward grow {x} v w"
    and "finalize_txn L x v = (q, w) \<Longrightarrow> forward grow {x} v w"
  by (rule wp_ends [OF forward_finalize_env [OF assms]], simp, assumption)
    (rule wp_ends [OF forward_start [OF stays_finalize_txn [OF assms(1)]]], simp, assumption)

lemma forward_weaken: "forward grow X v w \<Longrightarrow> forward True UNIV v w"
  by (simp add: forward_def)

lemma forward_step:
  assumes "library_ok L" and "inv v" and "step L v w"
  shows "forward True UNIV v w"
  using assms(3)
proof cases
  case (call c r)
  then show ?thesis
    using wp_ends [OF forward_perform [OF assms(2)]] by (blast intro: forward_weaken)
next
  case (collect_env x p r)
  then show ?thesis by (blast intro: forward_weaken forward_finalized(1) [OF assms(2)])
next
  case (collect_txn x p r)
  then show ?thesis by (blast intro: forward_weaken forward_finalized(2) [OF assms(2)])
next
  case (restyle x p cs ats)
  then show ?thesis by (auto simp: ptr_forward_def intro!: forward_put_xptr [OF forward_refl])
qed (auto simp: forward_def forked_def)

end
