(* ===== verification/Mdbx_Phases.thy ===== *)
theory Mdbx_Phases
  imports Mdbx_Progress Mdbx_Outcomes
begin

text \<open>
  The abstract life of a transaction and of an environment, which the package's handles refine:
  whatever R calls and in whatever order finalizers run, a handle only moves up in the order of
  its phases.
\<close>

section \<open>Phases\<close>

datatype txn_phase = Ph_active | Ph_poisoned | Ph_committed | Ph_aborted

text \<open>An active transaction can go anywhere, a poisoned one can only be aborted.\<close>

instantiation txn_phase :: order
begin

fun less_eq_txn_phase :: "txn_phase \<Rightarrow> txn_phase \<Rightarrow> bool" where
  "less_eq_txn_phase Ph_active _ = True"
| "less_eq_txn_phase Ph_poisoned q = (q = Ph_poisoned \<or> q = Ph_aborted)"
| "less_eq_txn_phase p q = (p = q)"

definition less_txn_phase :: "txn_phase \<Rightarrow> txn_phase \<Rightarrow> bool" where
  "less_txn_phase p q \<longleftrightarrow> p \<le> q \<and> \<not> q \<le> p"

instance
proof
  fix p q r :: txn_phase
  show "(p < q) = (p \<le> q \<and> \<not> q \<le> p)" by (rule less_txn_phase_def)
  show "p \<le> p" by (cases p) simp_all
  show "p \<le> q \<Longrightarrow> q \<le> r \<Longrightarrow> p \<le> r" by (cases p; cases q; cases r) simp_all
  show "p \<le> q \<Longrightarrow> q \<le> p \<Longrightarrow> p = q" by (cases p; cases q) simp_all
qed

end

datatype env_phase = Ph_open | Ph_broken | Ph_closed

text \<open>An environment is open, then perhaps poisoned, then closed.\<close>

instantiation env_phase :: linorder
begin

fun less_eq_env_phase :: "env_phase \<Rightarrow> env_phase \<Rightarrow> bool" where
  "less_eq_env_phase Ph_open _ = True"
| "less_eq_env_phase Ph_broken q = (q \<noteq> Ph_open)"
| "less_eq_env_phase Ph_closed q = (q = Ph_closed)"

definition less_env_phase :: "env_phase \<Rightarrow> env_phase \<Rightarrow> bool" where
  "less_env_phase p q \<longleftrightarrow> p \<le> q \<and> \<not> q \<le> p"

instance
proof
  fix p q r :: env_phase
  show "(p < q) = (p \<le> q \<and> \<not> q \<le> p)" by (rule less_env_phase_def)
  show "p \<le> p" by (cases p) simp_all
  show "p \<le> q \<Longrightarrow> q \<le> r \<Longrightarrow> p \<le> r" by (cases p; cases q; cases r) simp_all
  show "p \<le> q \<Longrightarrow> q \<le> p \<Longrightarrow> p = q" by (cases p; cases q) simp_all
  show "p \<le> q \<or> q \<le> p" by (cases p; cases q) simp_all
qed

end

text \<open>The phase a handle is in: the abstraction function.\<close>

definition owner_poisoned :: "'n world \<Rightarrow> txn_handle \<Rightarrow> bool" where
  "owner_poisoned w th \<longleftrightarrow>
     (case th_owner th of None \<Rightarrow> False
      | Some a \<Rightarrow> (case w_envs w a of None \<Rightarrow> False | Some h \<Rightarrow> eh_poisoned h))"

definition phase_of_txn :: "'n world \<Rightarrow> txn_handle \<Rightarrow> txn_phase" where
  "phase_of_txn w th =
     (case th_state th of
        st_committed \<Rightarrow> Ph_committed
      | st_aborted \<Rightarrow> Ph_aborted
      | st_active \<Rightarrow> if th_poisoned th \<or> owner_poisoned w th then Ph_poisoned else Ph_active)"

definition phase_of_env :: "env_handle \<Rightarrow> env_phase" where
  "phase_of_env h = (if eh_env h = None then Ph_closed else if eh_poisoned h then Ph_broken else Ph_open)"

section \<open>One step\<close>

lemma phase_of_finished: "th_state th \<noteq> st_active \<Longrightarrow>
    phase_of_txn w th = (if th_state th = st_committed then Ph_committed else Ph_aborted)"
  by (cases "th_state th") (simp_all add: phase_of_txn_def)

lemma phase_of_owned:
  assumes "inv w" and "w_txns w t = Some th" and "th_owner th = Some a" and "w_envs w a = Some h"
  shows "phase_of_txn w th = (if eh_poisoned h then Ph_poisoned else Ph_active)"
proof -
  obtain k where "w_envs w a = Some k" "th_state th = st_active" "th_poisoned th \<longrightarrow> eh_poisoned k"
    by (rule inv_owner [OF assms(1-3)]) blast
  then show ?thesis using assms(3,4) by (auto simp: phase_of_txn_def owner_poisoned_def)
qed

lemma txn_phase_step:
  assumes "inv v" and "inv w" and "forward grow X v w" and "w_txns v t = Some h" and "w_txns w t = Some k"
  shows "phase_of_txn v h \<le> phase_of_txn w k"
proof -
  have f: "txn_forward (live_txn t v) h k"
    using forwardD(3) [OF assms(3,5) heap_invD(4) [OF inv_D(1) [OF assms(1)] assms(4)]] assms(4) by auto
  show ?thesis
  proof (cases "th_owner h")
    case None
    then have "th_state h \<noteq> st_active" "th_state k = th_state h"
      using inv_no_owner [OF assms(1,4)] f by (simp_all add: txn_forward_def)
    then show ?thesis by (simp add: phase_of_finished)
  next
    case (Some a)
    obtain e where e: "w_envs v a = Some e" "th_state h = st_active"
      by (rule inv_owner [OF assms(1,4) Some]) blast
    note h = phase_of_owned [OF assms(1,4) Some e(1)]
    show ?thesis
    proof (cases "th_owner k")
      case None
      then have s: "th_state k \<noteq> st_active" using inv_no_owner [OF assms(2,5)] by simp
      have "\<not> eh_poisoned e" if "th_state k = st_committed"
        using f that e assms(4) Some by (auto simp: txn_forward_def live_txn_def healthy_def)
      then show ?thesis using s by (cases "th_state k") (simp_all add: h phase_of_finished)
    next
      case owner: (Some b)
      then have b: "b = a" using f Some by (simp add: txn_forward_def)
      obtain e' where e': "w_envs w a = Some e'"
        using inv_owner [OF assms(2,5) owner] b by metis
      have "env_forward e e'"
        using forwardD(2) [OF assms(3) e' heap_invD(3) [OF inv_D(1) [OF assms(1)] e(1)]] e(1) by auto
      then show ?thesis
        using h phase_of_owned [OF assms(2,5) owner, of e'] e' b by (auto simp: env_forward_def)
    qed
  qed
qed

lemma env_phase_step: "env_forward h k \<Longrightarrow> phase_of_env h \<le> phase_of_env k"
  by (auto simp: env_forward_def phase_of_env_def)

section \<open>Any number of steps\<close>

lemma steps_reachable: "rtranclp (step L) v w \<Longrightarrow> reachable L v \<Longrightarrow> reachable L w"
  by (induction rule: rtranclp_induct) (auto intro: reachable.later)

lemma steps_inv: "library_ok L \<Longrightarrow> reachable L v \<Longrightarrow> rtranclp (step L) v w \<Longrightarrow> inv w"
  by (blast intro: inv_reachable steps_reachable)

text \<open>What every step does to the handles it finds, any number of steps do.\<close>

lemma steps_forward:
  assumes "library_ok L" and "reachable L v" and "rtranclp (step L) v w"
    and step: "\<And>u w k. reachable L u \<Longrightarrow> step L u w \<Longrightarrow> heap w t = Some k \<Longrightarrow> t < w_next u \<Longrightarrow>
        \<exists>h. heap u t = Some h \<and> R u h w k"
    and refl: "\<And>u h. R u h u h" and trans: "\<And>u h w k x l. R u h w k \<Longrightarrow> R w k x l \<Longrightarrow> R u h x l"
    and "t < w_next v" and "heap w t = Some l"
  shows "\<exists>h. heap v t = Some h \<and> R v h w l"
proof -
  have "w_next v \<le> w_next w \<and> (\<forall>l. heap w t = Some l \<longrightarrow> (\<exists>h. heap v t = Some h \<and> R v h w l))"
    using assms(3)
  proof (induction rule: rtranclp_induct)
    case base
    then show ?case using refl by blast
  next
    case (step u w)
    have r: "reachable L u" by (rule steps_reachable [OF step.hyps(1) assms(2)])
    have "w_next u \<le> w_next w"
      using forward_step [OF assms(1) inv_reachable [OF r assms(1)] step.hyps(2)] by (simp add: forward_def)
    moreover have "\<exists>h. heap v t = Some h \<and> R v h w l" if l: "heap w t = Some l" for l
    proof -
      have "t < w_next u" using step.IH assms(7) by simp
      then obtain k where "heap u t = Some k" "R u k w l" using assms(4) [OF r step.hyps(2) l] by blast
      then show ?thesis using step.IH trans by blast
    qed
    ultimately show ?case using step.IH by auto
  qed
  then show ?thesis using assms(8) by blast
qed

text \<open>C37: the life of a transaction refines the order of its phases. After any calls, finalizers and
  forks, a handle that could have been there at \<open>w\<close> was there, and is in the same or a later phase:
  poisoned never becomes active or committed again, and how a transaction ended stays what it was.
  Its mode and its process never change, and it never gets another owner.\<close>

theorem txn_lifecycle:
  assumes "library_ok L" and "reachable L w" and "rtranclp (step L) w w'"
    and "t < w_next w" and "w_txns w' t = Some th'"
  shows "\<exists>th. w_txns w t = Some th \<and> phase_of_txn w th \<le> phase_of_txn w' th'
     \<and> th_write th' = th_write th \<and> th_pid th' = th_pid th \<and> (th_owner th' = th_owner th \<or> th_owner th' = None)"
proof -
  let ?R = "\<lambda>u h w k. phase_of_txn u h \<le> phase_of_txn w k \<and> th_write k = th_write h \<and> th_pid k = th_pid h
      \<and> (th_owner k = th_owner h \<or> th_owner k = None)"
  show ?thesis
  proof (rule steps_forward [where heap = w_txns and R = ?R, OF assms(1-3) _ _ _ assms(4,5)])
    fix u v k
    assume u: "reachable L u" "step L u v" and k: "w_txns v t = Some k" "t < w_next u"
    have I: "inv u" "inv v" by (rule inv_reachable [OF _ assms(1)], intro u reachable.later [OF u])+
    have f: "forward True UNIV u v" by (rule forward_step [OF assms(1) I(1) u(2)])
    then obtain h where h: "w_txns u t = Some h" "txn_forward (live_txn t u) h k" using forwardD(3) [OF f k] by blast
    then have "?R u h v k" using txn_phase_step [OF I f h(1) k(1)] by (simp add: txn_forward_def)
    then show "\<exists>h. w_txns u t = Some h \<and> ?R u h v k" using h(1) by blast
  qed (simp, metis order_trans)
qed

lemma demo_panic_step: "step demo_lib demo_begun demo_panicked"
proof -
  obtain e where "perform demo_lib (Do_test_panic_get (R_ExtPtr 3)) demo_begun = (Inl e, demo_panicked)"
    using demo_panic_runs by blast
  then show ?thesis by (rule step.call [rotated]) (simp add: sexp_ok_def demo_begun_def)
qed

theorem txn_lifecycle_witness:
  "\<exists>th. w_txns demo_begun 2 = Some th
     \<and> phase_of_txn demo_begun th \<le> phase_of_txn demo_panicked (demo_txn\<lparr>th_poisoned := True\<rparr>)"
proof -
  have w: "2 < w_next demo_begun" "w_txns demo_panicked 2 = Some (demo_txn\<lparr>th_poisoned := True\<rparr>)"
    by (simp_all add: demo_panicked_def demo_worlds)
  show ?thesis
    using txn_lifecycle [OF demo_ok demo_begun_reachable r_into_rtranclp [of "step demo_lib", OF demo_panic_step] w] by blast
qed

text \<open>C38: the life of an environment refines the order of its phases: open, then perhaps poisoned,
  then closed, never back, with the same process, path and key throughout. And an external pointer
  keeps its tag and the handle it addresses, or comes to address nothing.\<close>

theorem env_lifecycle:
  assumes "library_ok L" and "reachable L w" and "rtranclp (step L) w w'"
  shows "(\<forall>a h'. a < w_next w \<and> w_envs w' a = Some h' \<longrightarrow>
            (\<exists>h. w_envs w a = Some h \<and> phase_of_env h \<le> phase_of_env h' \<and> eh_pid h' = eh_pid h
               \<and> eh_path h' = eh_path h \<and> eh_key h' = eh_key h \<and> (eh_env h' = eh_env h \<or> eh_env h' = None)))
       \<and> (\<forall>x q. x < w_next w \<and> w_xps w' x = Some q \<longrightarrow>
            (\<exists>p. w_xps w x = Some p \<and> xp_tag q = xp_tag p \<and> (xp_addr q = xp_addr p \<or> xp_addr q = ANull)))"
proof (intro conjI allI impI)
  have f: "forward True UNIV u v" if "reachable L u" "step L u v" for u v
    by (rule forward_step [OF assms(1) inv_reachable [OF that(1) assms(1)] that(2)])
  fix a h'
  assume h': "a < w_next w \<and> w_envs w' a = Some h'"
  have "\<exists>h. w_envs w a = Some h \<and> env_forward h h'"
    by (rule steps_forward [where heap = w_envs and R = "\<lambda>_ h _ k. env_forward h k", OF assms _ _ _ conjunct1 [OF h'] conjunct2 [OF h']])
      (use forwardD(2) [OF f] env_forward_trans in auto)
  then show "\<exists>h. w_envs w a = Some h \<and> phase_of_env h \<le> phase_of_env h' \<and> eh_pid h' = eh_pid h
      \<and> eh_path h' = eh_path h \<and> eh_key h' = eh_key h \<and> (eh_env h' = eh_env h \<or> eh_env h' = None)"
    using env_phase_step by (auto simp: env_forward_def)
next
  have f: "forward True UNIV u v" if "reachable L u" "step L u v" for u v
    by (rule forward_step [OF assms(1) inv_reachable [OF that(1) assms(1)] that(2)])
  fix x q
  assume q: "x < w_next w \<and> w_xps w' x = Some q"
  have "\<exists>p. w_xps w x = Some p \<and> ptr_forward p q"
    by (rule steps_forward [where heap = w_xps and R = "\<lambda>_ p _ q. ptr_forward p q", OF assms _ _ _ conjunct1 [OF q] conjunct2 [OF q]])
      (use forwardD(4) [OF f] ptr_forward_trans in auto)
  then show "\<exists>p. w_xps w x = Some p \<and> xp_tag q = xp_tag p \<and> (xp_addr q = xp_addr p \<or> xp_addr q = ANull)"
    by (auto simp: ptr_forward_def)
qed

theorem env_lifecycle_witness:
  "\<exists>h. w_envs demo_begun 0 = Some h \<and> phase_of_env h \<le> phase_of_env (demo_env\<lparr>eh_live := [2], eh_poisoned := True\<rparr>)"
proof -
  have w: "0 < w_next demo_begun" "w_envs demo_panicked 0 = Some (demo_env\<lparr>eh_live := [2], eh_poisoned := True\<rparr>)"
    by (simp_all add: demo_panicked_def demo_worlds)
  show ?thesis
    using env_lifecycle [OF demo_ok demo_begun_reachable r_into_rtranclp [of "step demo_lib", OF demo_panic_step]] w by blast
qed

end
