(* ===== verification/Mdbx_Drain.thy ===== *)
theory Mdbx_Drain
  imports Mdbx_Progress Mdbx_Outcomes
begin

text \<open>
  Nothing leaks. Between two calls every handle has an external pointer, so R's collector finds it;
  and running the finalizers of all pointers, in any order, frees every handle.
\<close>

section \<open>Every handle has a pointer\<close>

definition rooted :: "nat set \<Rightarrow> 'n world \<Rightarrow> bool" where
  "rooted S w \<longleftrightarrow> (\<forall>a h. w_envs w a = Some h \<longrightarrow> (\<exists>x p. x \<in> S \<and> w_xps w x = Some p \<and> xp_addr p = AEnv a))
     \<and> (\<forall>t h. w_txns w t = Some h \<longrightarrow> (\<exists>x p. x \<in> S \<and> w_xps w x = Some p \<and> xp_addr p = ATxn t))"

lemma rootedI:
  assumes "\<And>a h. w_envs w a = Some h \<Longrightarrow> \<exists>x p. x \<in> S \<and> w_xps w x = Some p \<and> xp_addr p = AEnv a"
    and "\<And>t h. w_txns w t = Some h \<Longrightarrow> \<exists>x p. x \<in> S \<and> w_xps w x = Some p \<and> xp_addr p = ATxn t"
  shows "rooted S w"
  using assms unfolding rooted_def by blast

lemma rooted_UNIV_I:
  assumes "\<And>a h. w_envs w a = Some h \<Longrightarrow> \<exists>x p. w_xps w x = Some p \<and> xp_addr p = AEnv a"
    and "\<And>t h. w_txns w t = Some h \<Longrightarrow> \<exists>x p. w_xps w x = Some p \<and> xp_addr p = ATxn t"
  shows "rooted UNIV w"
  using assms unfolding rooted_def by blast

lemma rootedD:
  assumes "rooted S w"
  shows "w_envs w a = Some h \<Longrightarrow> \<exists>x p. x \<in> S \<and> w_xps w x = Some p \<and> xp_addr p = AEnv a"
    and "w_txns w t = Some k \<Longrightarrow> \<exists>x p. x \<in> S \<and> w_xps w x = Some p \<and> xp_addr p = ATxn t"
  using assms unfolding rooted_def by blast+

text \<open>Handles go, pointers stay.\<close>

lemma rooted_fewer:
  assumes "inv v" and "rooted S v" and f: "forward False X v w"
    and X: "\<And>x p a h. x \<in> X \<Longrightarrow> w_xps v x = Some p \<Longrightarrow> xp_addr p = AEnv a \<Longrightarrow> w_envs w a = None"
      "\<And>x p t h. x \<in> X \<Longrightarrow> w_xps v x = Some p \<Longrightarrow> xp_addr p = ATxn t \<Longrightarrow> w_txns w t = None"
  shows "rooted (S - X) w"
proof (rule rootedI)
  note old = heap_invD(5) [OF inv_D(1) [OF assms(1)]]
  fix a h assume h: "w_envs w a = Some h"
  then obtain x p where x: "w_xps v x = Some p" "xp_addr p = AEnv a" "x \<in> S"
    using forwardD(5) [OF f _ h] rootedD(1) [OF assms(2)] by blast
  then have "x \<notin> X" using X(1) h by fastforce
  then show "\<exists>x p. x \<in> S - X \<and> w_xps w x = Some p \<and> xp_addr p = AEnv a" using forwardD(7) [OF f x(1) old [OF x(1)]] x(2,3) by auto
next
  note old = heap_invD(5) [OF inv_D(1) [OF assms(1)]]
  fix t h assume h: "w_txns w t = Some h"
  then obtain x p where x: "w_xps v x = Some p" "xp_addr p = ATxn t" "x \<in> S"
    using forwardD(6) [OF f _ h] rootedD(2) [OF assms(2)] by blast
  then have "x \<notin> X" using X(2) h by fastforce
  then show "\<exists>x p. x \<in> S - X \<and> w_xps w x = Some p \<and> xp_addr p = ATxn t" using forwardD(7) [OF f x(1) old [OF x(1)]] x(2,3) by auto
qed

text \<open>One more handle, with the pointer to it.\<close>

lemma rooted_gains:
  assumes I: "inv v" and r: "rooted UNIV v" and x: "w_xps w = (w_xps v)(w_next v + 1 \<mapsto> p)"
    and e: "\<And>a k. w_envs w a = Some k \<Longrightarrow> w_envs v a = None \<Longrightarrow> xp_addr p = AEnv a"
    and t: "\<And>t k. w_txns w t = Some k \<Longrightarrow> w_txns v t = None \<Longrightarrow> xp_addr p = ATxn t"
  shows "rooted UNIV w"
proof -
  have fresh: "w_xps v (w_next v + 1) = None" using heap_invD(5) [OF inv_D(1) [OF I], of "w_next v + 1"]
    by (cases "w_xps v (w_next v + 1)") auto
  have more: "\<exists>y q. w_xps w y = Some q \<and> xp_addr q = c" if "\<exists>y q. w_xps v y = Some q \<and> xp_addr q = c" for c
    using that fresh unfolding x by (metis fun_upd_other option.distinct(1))
  have new: "\<exists>y q. w_xps w y = Some q \<and> xp_addr q = xp_addr p" unfolding x by (metis fun_upd_same)
  show ?thesis
  proof (rule rooted_UNIV_I)
    fix a k assume k: "w_envs w a = Some k"
    show "\<exists>y q. w_xps w y = Some q \<and> xp_addr q = AEnv a"
      using more [of "AEnv a"] rootedD(1) [OF r, of a] new e [OF k] by (cases "w_envs v a") auto
  next
    fix s k assume k: "w_txns w s = Some k"
    show "\<exists>y q. w_xps w y = Some q \<and> xp_addr q = ATxn s"
      using more [of "ATxn s"] rootedD(2) [OF r, of s] new t [OF k] by (cases "w_txns v s") auto
  qed
qed

lemma rooted_new:
  assumes I: "inv v" and r: "rooted UNIV v"
  shows "undone v w \<Longrightarrow> rooted UNIV w" "unborn v w \<Longrightarrow> rooted UNIV w" "env_opened path key readonly v w \<Longrightarrow> rooted UNIV w"
    "txn_made v w \<Longrightarrow> rooted UNIV w"
proof -
  show "undone v w \<Longrightarrow> rooted UNIV w" using r by (simp add: undone_def rooted_def)
  show "unborn v w \<Longrightarrow> rooted UNIV w"
    using r unfolding unborn_def rooted_def by (metis domD domI)
  show "rooted UNIV w" if o: "env_opened path key readonly v w"
  proof -
    obtain h p where w: "w_envs w = (w_envs v)(w_next v \<mapsto> h)" "w_txns w = w_txns v"
        "w_xps w = (w_xps v)(w_next v + 1 \<mapsto> p)" "xp_addr p = AEnv (w_next v)"
      using o unfolding env_opened_def by (elim exE conjE) simp
    show ?thesis by (rule rooted_gains [OF I r w(3)]) (use w(1,2,4) in \<open>auto split: if_splits\<close>)
  qed
  show "rooted UNIV w" if o: "txn_made v w"
  proof -
    obtain h p where w: "dom (w_envs w) = dom (w_envs v)" "w_txns w = (w_txns v)(w_next v \<mapsto> h)"
        "w_xps w = (w_xps v)(w_next v + 1 \<mapsto> p)" "xp_addr p = ATxn (w_next v)"
      using o unfolding txn_made_def by blast
    show ?thesis by (rule rooted_gains [OF I r w(3)]) (use w(1,2,4) in \<open>auto split: if_splits\<close>)
  qed
qed

section \<open>What a finalizer frees\<close>

lemma wp_last:
  assumes "\<And>s. wp k Q (\<lambda>_ _. True) s"
  shows "wp (thenM m k) Q (\<lambda>_ _. True) s"
  unfolding wp_then by (rule wp_mono [OF wp_any]) (use assms in auto)

lemma finalize_env_frees:
  assumes "finalize_env L x w = (Inr (), w')" and "w_xps w x = Some p" and "xp_addr p = AEnv a"
  shows "w_envs w' a = None"
proof -
  have "wp (finalize_env L x) (\<lambda>_ v. w_envs v a = None) (\<lambda>_ _. True) w"
    unfolding finalize_env_def wp_bind env_addr_def rsexp.case wp_xptr_at assms(2) option.case assms(3) paddr.case wp_return
    by (rule wp_last, rule wp_last, rule wp_last) (simp add: wp_simps split: option.splits)
  then show ?thesis using assms(1) by (simp add: wp_def)
qed

lemma wp_last_bind:
  assumes "\<And>x s. wp (f x) Q (\<lambda>_ _. True) s"
  shows "wp (bindM m f) Q (\<lambda>_ _. True) s"
  unfolding wp_bind by (rule wp_mono [OF wp_any]) (use assms in auto)

lemma finalize_txn_frees:
  assumes "finalize_txn L x w = (Inr (), w')" and "w_xps w x = Some p" and "xp_addr p = ATxn t"
  shows "w_txns w' t = None"
proof -
  have a: "wp (txn_addr (R_ExtPtr x)) Q E w = Q (Some t) w" for Q E
    using assms(2,3) by (simp add: txn_addr_def wp_simps)
  have "wp (finalize_txn L x) (\<lambda>_ v. w_txns v t = None) (\<lambda>_ _. True) w"
    unfolding finalize_txn_def wp_bind [of "txn_addr (R_ExtPtr x)"] a option.case
    by (rule wp_last, rule wp_last_bind, rule wp_last_bind, rule wp_last_bind, rule wp_last_bind, rule wp_last)
      (simp add: wp_simps split: option.splits)
  then show ?thesis using assms(1) by (simp add: wp_def)
qed

text \<open>One finalizer, as R runs it: the one that was registered with the pointer's kind.\<close>

definition run_finalizer :: "'n libmdbx \<Rightarrow> nat \<Rightarrow> ('n, unit) mem" where
  "run_finalizer L x =
     bindM (xptr_at x) (\<lambda>p.
       if xp_tag p = env_tag then finalize_env L x
       else if xp_tag p = txn_tag then finalize_txn L x
       else returnM ())"

text \<open>It ends, and frees the handle it is for: what is left has a pointer other than this one.\<close>

lemma run_finalizer_ends:
  assumes "library_ok L" and I: "inv w" and R: "rooted S w" and x: "w_xps w x = Some p"
  shows "\<exists>w'. run_finalizer L x w = (Inr (), w') \<and> inv w' \<and> rooted (S - {x}) w' \<and> forward False {x} w w'"
proof -
  have A: "abort_ends L" using assms(1) by (simp add: library_ok_def)
  note P = ptr_invD [OF inv_D(2) [OF I]]
  have finished: ?thesis
    if r: "run_finalizer L x w = (Inr (), v)" "inv v" "forward False {x} w v"
      and e: "\<And>a. xp_addr p = AEnv a \<Longrightarrow> w_envs v a = None" and t: "\<And>t. xp_addr p = ATxn t \<Longrightarrow> w_txns v t = None" for v
    using rooted_fewer [OF I R r(3)] x e t r by auto
  have at: "run_finalizer L x w = (if xp_tag p = env_tag then finalize_env L x
       else if xp_tag p = txn_tag then finalize_txn L x else returnM ()) w"
    using x by (simp add: run_finalizer_def xptr_at_def bindM_def fetchM_def)
  consider "xp_tag p = env_tag" | "xp_tag p = txn_tag" | "xp_tag p \<noteq> env_tag" "xp_tag p \<noteq> txn_tag" by blast
  then show ?thesis
  proof cases
    case 1
    obtain v where v: "finalize_env L x w = (Inr (), v)" "inv v" using finalize_env_ends [OF I A x 1] by blast
    show ?thesis
      by (rule finished [OF _ v(2) forward_finalized(1) [OF I x v(1)]])
        (use at 1 v finalize_env_frees [OF v(1) x] P(4) [OF x] in auto)
  next
    case 2
    obtain v where v: "finalize_txn L x w = (Inr (), v)" "inv v" using finalize_txn_ends [OF I A x 2] by blast
    show ?thesis
      by (rule finished [OF _ v(2) forward_finalized(2) [OF I x v(1)]])
        (use at 2 v finalize_txn_frees [OF v(1) x] P(3) [OF x] in auto)
  next
    case 3
    show ?thesis
      by (rule finished [of w]) (use at 3 I P(3,4) [OF x] in \<open>auto simp: returnM_def\<close>)
  qed
qed

section \<open>Every reachable state is rooted\<close>

lemma rooted_more: "rooted S w \<Longrightarrow> S \<subseteq> T \<Longrightarrow> rooted T w"
  unfolding rooted_def by blast

lemma rooted_perform:
  assumes "library_ok L" and I: "inv v" and R: "rooted UNIV v" and "sexp_ok (handle_arg c) v" and "perform L c v = (r, w)"
  shows "rooted UNIV w"
proof (cases "creates c")
  case False
  have "forward (creates c) {} v w" by (rule wp_ends [OF forward_perform [OF I assms(4)] assms(5)])
  then show ?thesis using False rooted_fewer [OF I R, of "{}"] by simp
next
  case True
  have sz: "4 \<le> L_sizeof_voidp L" using assms(1) by (simp add: library_ok_def)
  have "wp (perform L c) (\<lambda>_. rooted UNIV) (\<lambda>_. rooted UNIV) v"
  proof (cases c)
    case (Do_env_open path key readonly subdir max_dbs map_size max_readers mode extra)
    show ?thesis
      unfolding Do_env_open perform.simps
      by (rule wp_ignore, rule wp_env_open [OF sz I]) (auto intro: rooted_new [OF I R])
  next
    case (Do_txn_begin env is_write extra)
    then show ?thesis
      using assms(4) unfolding Do_txn_begin perform.simps
      by (intro wp_ignore wp_txn_begin [OF I]) (auto intro: rooted_new [OF I R])
  qed (use True in simp_all)
  then show ?thesis using assms(5) by (rule wp_ends)
qed

lemma rooted_step:
  assumes "library_ok L" and I: "inv v" and R: "rooted UNIV v" and "step L v w"
  shows "rooted UNIV w"
  using assms(4)
proof cases
  case (call c r)
  then show ?thesis by (intro rooted_perform [OF assms(1) I R])
next
  case (collect_env x p r)
  then have "run_finalizer L x v = (r, w)" by (simp add: run_finalizer_def xptr_at_def bindM_def fetchM_def)
  then show ?thesis using run_finalizer_ends [OF assms(1) I R collect_env(1)] rooted_more by fastforce
next
  case (collect_txn x p r)
  then have "run_finalizer L x v = (r, w)" by (simp add: run_finalizer_def xptr_at_def bindM_def fetchM_def)
  then show ?thesis using run_finalizer_ends [OF assms(1) I R collect_txn(1)] rooted_more by fastforce
next
  case (restyle x p cs ats)
  show ?thesis
    unfolding restyle
    by (rule rooted_fewer [OF I R, where X = "{}", unfolded Diff_empty], rule forward_put_xptr [OF forward_refl restyle(2)])
      (simp_all add: ptr_forward_def)
next
  case (other_pointer p)
  show ?thesis
    unfolding other_pointer
    by (rule rooted_fewer [OF I R, where X = "{}", unfolded Diff_empty]) (auto simp: forward_def)
next
  case (outside n)
  then show ?thesis using R by (simp add: rooted_def)
next
  case (forking pid)
  then show ?thesis using R by (simp add: rooted_def forked_def)
qed

lemma rooted_reachable: "reachable L w \<Longrightarrow> library_ok L \<Longrightarrow> rooted UNIV w"
proof (induction rule: reachable.induct)
  case (loaded pid n)
  then show ?case by (simp add: rooted_def initial_world_def)
next
  case (later w w')
  then show ?case using rooted_step inv_reachable by blast
qed

section \<open>Draining\<close>

lemma drain:
  assumes "library_ok L" and "inv w" and "rooted (set xs) w" and "set xs \<subseteq> dom (w_xps w)" and "distinct xs"
  shows "\<exists>w'. forM xs (run_finalizer L) w = (Inr (), w') \<and> inv w' \<and> rooted {} w'"
  using assms(2-)
proof (induction xs arbitrary: w)
  case Nil
  then show ?case by (simp add: returnM_def)
next
  case (Cons x xs)
  obtain p where p: "w_xps w x = Some p" using Cons.prems(3) by auto
  obtain v where v: "run_finalizer L x w = (Inr (), v)" "inv v" "rooted (set (x # xs) - {x}) v" "forward False {x} w v"
    using run_finalizer_ends [OF assms(1) Cons.prems(1,2) p] by blast
  have "set xs \<subseteq> dom (w_xps v)"
  proof
    fix y assume y: "y \<in> set xs"
    then obtain q where "w_xps w y = Some q" "y \<noteq> x" using Cons.prems(3,4) by auto
    then show "y \<in> dom (w_xps v)"
      using forwardD(7) [OF v(4)] heap_invD(5) [OF inv_D(1) [OF Cons.prems(1)]] by blast
  qed
  moreover have "rooted (set xs) v" using v(3) Cons.prems(4) by simp
  ultimately obtain u where u: "forM xs (run_finalizer L) v = (Inr (), u)" "inv u" "rooted {} u"
    using Cons.IH [OF v(2)] Cons.prems(4) by auto
  then show ?case using v(1) by (simp add: thenM_def bindM_def)
qed

text \<open>C40: nothing leaks, whatever happened before and in whatever order R runs the finalizers. From
  any reachable state, running the finalizer of every external pointer once, in any order, returns
  normally and leaves no environment handle, no transaction handle, an empty registry, and both
  counters at zero.\<close>

theorem everything_released:
  assumes "library_ok L" and "reachable L w" and "distinct xs" and "set xs = dom (w_xps w)"
  shows "\<exists>w'. forM xs (run_finalizer L) w = (Inr (), w') \<and> w_envs w' = Map.empty \<and> w_txns w' = Map.empty
     \<and> w_open w' = [] \<and> w_live_env_handles w' = 0 \<and> w_live_txn_handles w' = 0"
proof -
  have I: "inv w" by (rule inv_reachable [OF assms(2,1)])
  have "rooted (set xs) w"
    using rooted_reachable [OF assms(2,1)] unfolding assms(4) rooted_def by blast
  then obtain w' where w': "forM xs (run_finalizer L) w = (Inr (), w')" "inv w'" "rooted {} w'"
    using drain [OF assms(1) I _ _ assms(3)] assms(4) by blast
  then have e: "w_envs w' = Map.empty" "w_txns w' = Map.empty"
    by (auto simp: rooted_def fun_eq_iff)
  moreover have "a \<notin> set (w_open w')" for a using open_invD(2) [OF inv_D(4) [OF w'(2)], of a] e(1) by simp
  then have "w_open w' = []" by (cases "w_open w'") auto
  moreover have "w_live_env_handles w' = 0" "w_live_txn_handles w' = 0"
    using heap_invD(6,7) [OF inv_D(1) [OF w'(2)]] e by simp_all
  ultimately show ?thesis using w'(1) by auto
qed

theorem everything_released_witness:
  "\<exists>w'. forM [1, 3] (run_finalizer demo_lib) demo_begun = (Inr (), w') \<and> w_envs w' = Map.empty \<and> w_txns w' = Map.empty"
proof -
  have "set [1, 3] = dom (w_xps demo_begun)" by (auto simp: demo_begun_def)
  then show ?thesis using everything_released [OF demo_ok demo_begun_reachable, of "[1, 3]"] by auto
qed

end
