(* ===== verification/Mdbx_Publish.thy ===== *)
theory Mdbx_Publish
  imports Mdbx_Openings Mdbx_Progress
begin

text \<open>
  Who publishes. The package never makes writes visible except by \<open>mdbx_txn_commit_\<close>: no other
  entry point, no finalizer and no error path commits. libmdbx is described by what its other calls
  do not do, and the property is one that every statement of the package keeps.
\<close>

section \<open>The hypothesis on libmdbx\<close>

definition keeps_pub :: "('n \<Rightarrow> 'd) \<Rightarrow> ('n \<Rightarrow> 'a \<times> 'n) \<Rightarrow> bool" where
  "keeps_pub pub f \<longleftrightarrow> (\<forall>n. pub (snd (f n)) = pub n)"

lemma keeps_pubD: "keeps_pub pub f \<Longrightarrow> f n = (x, n') \<Longrightarrow> pub n' = pub n"
  by (metis keeps_pub_def snd_conv)

text \<open>
  \<open>pub\<close> is what the databases hold for everybody. Only a commit that succeeds, or one that panics
  half way, changes it, and not on a thread that did not begin the transaction; opening an environment is left out, because it may create the file.
\<close>

definition commit_only :: "'n libmdbx \<Rightarrow> ('n \<Rightarrow> 'd) \<Rightarrow> bool" where
  "commit_only L pub \<longleftrightarrow>
     (\<forall>m. keeps_pub pub (L_alloc L m)) \<and> keeps_pub pub (L_setup_debug L)
   \<and> (\<forall>e. keeps_pub pub (L_env_get_flags L e)) \<and> (\<forall>e bits on. keeps_pub pub (L_env_set_flags L e bits on))
   \<and> (\<forall>e force nonblock. keeps_pub pub (L_env_sync_ex L e force nonblock)) \<and> (\<forall>e. keeps_pub pub (L_env_close L e))
   \<and> (\<forall>e. keeps_pub pub (L_reader_check L e)) \<and> (\<forall>e. keeps_pub pub (L_env_get_path L e))
   \<and> (\<forall>e t. keeps_pub pub (L_env_stat_ex L e t)) \<and> (\<forall>e t. keeps_pub pub (L_env_info_ex L e t))
   \<and> (\<forall>e flags t. keeps_pub pub (L_txn_begin L e flags t)) \<and> (\<forall>t. keeps_pub pub (L_txn_abort L t))
   \<and> (\<forall>t. keeps_pub pub (L_txn_flags L t)) \<and> (\<forall>t. keeps_pub pub (L_txn_id L t))
   \<and> (\<forall>t name flags. keeps_pub pub (L_dbi_open L t name flags)) \<and> (\<forall>t d. keeps_pub pub (L_dbi_stat L t d))
   \<and> (\<forall>t d inc. keeps_pub pub (L_dbi_sequence L t d inc)) \<and> (\<forall>t d del. keeps_pub pub (L_drop L t d del))
   \<and> (\<forall>t. keeps_pub pub (L_tables L t)) \<and> (\<forall>t d k. keeps_pub pub (L_get L t d k))
   \<and> (\<forall>t d k x flags. keeps_pub pub (L_put L t d k x flags)) \<and> (\<forall>t d k. keeps_pub pub (L_del L t d k))
   \<and> (\<forall>t d. keeps_pub pub (L_cursor_open L t d)) \<and> (\<forall>c k opr. keeps_pub pub (L_cursor_get L c k opr))
   \<and> (\<forall>c. keeps_pub pub (L_cursor_close L c)) \<and> (\<forall>t d a b. keeps_pub pub (L_cmp L t d a b))
   \<and> (\<forall>t. keeps_pub pub (L_commit_off_thread L t))
   \<and> (\<forall>t n rc n'. L_txn_commit L t n = (NRet rc, n') \<and> rc \<noteq> MDBX_SUCCESS \<longrightarrow> pub n' = pub n)"

lemma commit_only_keeps:
  assumes "commit_only L pub"
  shows "keeps_pub pub (L_alloc L m)" "keeps_pub pub (L_setup_debug L)" "keeps_pub pub (L_env_get_flags L e)"
    "keeps_pub pub (L_env_set_flags L e bits on)" "keeps_pub pub (L_env_sync_ex L e force nonblock)" "keeps_pub pub (L_env_close L e)"
    "keeps_pub pub (L_reader_check L e)" "keeps_pub pub (L_env_get_path L e)" "keeps_pub pub (L_env_stat_ex L e u)"
    "keeps_pub pub (L_env_info_ex L e u)" "keeps_pub pub (L_txn_begin L e flags t)" "keeps_pub pub (L_txn_abort L t)"
    "keeps_pub pub (L_txn_flags L t)" "keeps_pub pub (L_txn_id L t)" "keeps_pub pub (L_dbi_open L t name flags)"
    "keeps_pub pub (L_dbi_stat L t d)" "keeps_pub pub (L_dbi_sequence L t d inc)" "keeps_pub pub (L_drop L t d del)"
    "keeps_pub pub (L_tables L t)" "keeps_pub pub (L_get L t d k)" "keeps_pub pub (L_put L t d k x flags)" "keeps_pub pub (L_del L t d k)"
    "keeps_pub pub (L_cursor_open L t d)" "keeps_pub pub (L_cursor_get L c k opr)" "keeps_pub pub (L_cursor_close L c)"
    "keeps_pub pub (L_cmp L t d k x)" "keeps_pub pub (L_commit_off_thread L t)"
  using assms unfolding commit_only_def by simp_all

lemma failed_commit_keeps:
  "commit_only L pub \<Longrightarrow> L_txn_commit L t n = (NRet rc, n') \<Longrightarrow> rc \<noteq> MDBX_SUCCESS \<Longrightarrow> pub n' = pub n"
  unfolding commit_only_def by blast

section \<open>Properties of the library's state\<close>

text \<open>The counterpart of \<open>handle_property\<close>: a property that reads nothing but the library's state,
  which native transactions may be used, and the process, is kept by everything the package does to its own memory.\<close>

locale native_property =
  fixes P :: "'n world \<Rightarrow> bool"
  assumes reads_native: "w_lib v = w_lib w \<Longrightarrow> w_usable_txns v = w_usable_txns w \<Longrightarrow> w_ids v = w_ids w
      \<Longrightarrow> w_pid v = w_pid w \<Longrightarrow> P w \<Longrightarrow> P v"
begin

lemma change: "(\<And>w. w_lib (f w) = w_lib w \<and> w_usable_txns (f w) = w_usable_txns w \<and> w_ids (f w) = w_ids w \<and> w_pid (f w) = w_pid w)
    \<Longrightarrow> stays P (modifyM f)"
  by (auto simp: stays_def wp_modify elim!: reads_native [rotated -1])

lemma memory: "stays P (set_env a f)" "stays P (set_txn t g)" "stays P (set_xptr x k)" "stays P (delete_env a)" "stays P (delete_txn t)"
  unfolding set_env_def set_txn_def set_xptr_def delete_env_def delete_txn_def
  by (intro stays_rules change; simp)+

lemma fresh: "stays P (new_env h)" "stays P (new_txn th)" "stays P (new_xptr p)"
  unfolding new_env_def new_txn_def new_xptr_def by (intro stays_rules change; simp)+

lemma poisons: "stays P (run_poison (Some (poison_txn t)))" "stays P (run_poison (Some (poison_env a)))" "stays P (run_poison None)"
  unfolding run_poison_simps poison_txn_def poison_env_def by (intro stays_rules memory)+

lemma registries: "stays P (register_env a)" "stays P (unregister_env a)" "stays P (abandon p)" "stays P (abandon_env a)"
  "stays P (heap_roots_call L q)"
  unfolding register_env_def unregister_env_def abandon_env_def abandon_def heap_roots_call_def
  by (intro stays_rules change; simp add: open_add_def open_remove_def)+

lemma endings: "stays P (set_prot s v)" "stays P (record_heap_roots L a)" "stays P (unregister_txn t)"
  unfolding set_prot_def record_heap_roots_def unregister_txn_def
  by (cases s) (auto intro!: stays_rules memory registries)

lemma mark: "stays P (mark_finished L t st)"
  unfolding mark_finished_def by (intro stays_rules memory endings)

lemma births: "stays P (new_txn_sexp t env is_write)" "stays P (new_env_sexp a path r s)"
  unfolding new_txn_sexp_def new_env_sexp_def by (intro stays_rules fresh memory change; simp)+

lemma counts: "stays P (modifyM (\<lambda>w. w\<lparr>w_live_env_handles := f w\<rparr>))" "stays P (modifyM (\<lambda>w. w\<lparr>w_live_txn_handles := f w\<rparr>))"
  by (rule change; simp)+

end

sublocale native_property \<subseteq> boundary_property P
  by unfold_locales (erule reads_native [rotated -1]; simp)+

locale library_property =
  fixes P :: "'n world \<Rightarrow> bool"
  assumes reads_library: "w_lib v = w_lib w \<Longrightarrow> w_pid v = w_pid w \<Longrightarrow> P w \<Longrightarrow> P v"

sublocale library_property \<subseteq> native_property P
  by unfold_locales (rule reads_library)

context library_property
begin

lemma modify: "(\<And>w. w_lib (f w) = w_lib w \<and> w_pid (f w) = w_pid w) \<Longrightarrow> stays P (modifyM f)"
  by (auto simp: stays_def wp_modify elim!: reads_library [rotated -1])

lemma native_call:
  assumes "\<And>w. w_lib (damage w) = w_lib w \<and> w_pid (damage w) = w_pid w"
    and "\<And>w. P w \<Longrightarrow> P (w\<lparr>w_lib := snd (f (w_lib w))\<rparr>)"
  shows "stays P (native damage f)"
proof (rule native_panics)
  fix w n m g l
  assume "P w" and "f (w_lib w) = (NPanic m g l, n)"
  then have "P (w\<lparr>w_lib := n\<rparr>)" using assms(2) by fastforce
  then show "P (damage (w\<lparr>w_lib := n\<rparr>))" by (rule reads_library [rotated -1]) (simp_all add: assms(1))
qed (use assms(2) in fastforce)

end

definition published :: "('n \<Rightarrow> 'd) \<Rightarrow> 'd \<times> int \<Rightarrow> 'n world \<Rightarrow> bool" where
  "published pub d w \<longleftrightarrow> (pub (w_lib w), w_pid w) = d"

interpretation published: library_property "published pub d" for pub d
  by unfold_locales (simp add: published_def)

lemma published_native:
  "(\<And>w. w_lib (damage w) = w_lib w \<and> w_pid (damage w) = w_pid w) \<Longrightarrow> keeps_pub pub f \<Longrightarrow> stays (published pub d) (native damage f)"
  by (rule published.native_call) (simp_all add: published_def keeps_pub_def)

lemma published_calls:
  "(\<And>e. keeps_pub pub (f e)) \<Longrightarrow> stays (published pub d) (env_call p f)"
  "(\<And>q. keeps_pub pub (g q)) \<Longrightarrow> stays (published pub d) (txn_call r g)"
  unfolding env_call_def txn_call_def by (auto intro!: stays_rules published_native)

lemma published_off_thread: "keeps_pub pub f \<Longrightarrow> stays (published pub d) (off_thread f)"
  by (rule stays_off_thread) (auto simp: published_def dest: keeps_pubD)

lemma published_env_txn: "(\<And>q t. keeps_pub pub (f q t)) \<Longrightarrow> stays (published pub d) (env_txn_call q t f)"
  unfolding env_txn_call_def by (intro stays_rules published_calls)

lemma published_alloc: "keeps_pub pub (L_alloc L m) \<Longrightarrow> stays (published pub d) (allocM L m)"
  by (auto simp: stays_def wp_def allocM_def published_def split: prod.splits dest: keeps_pubD)

lemma stays_ignore: "stays P m \<Longrightarrow> stays P (ignoreM m)"
  unfolding ignoreM_def by (intro stays_rules)

text \<open>The two entry points that may publish.\<close>

fun may_publish :: "call \<Rightarrow> bool" where
  "may_publish (Do_txn_commit txn) = True"
| "may_publish (Do_env_open path key readonly subdir max_dbs map_size max_readers mode extra) = True"
| "may_publish _ = False"

lemma stays_current_txn: "stays P (current_txn a)"
proof -
  have "stays P (current_txn_loop ts)" for ts
    by (induction ts) (auto intro!: stays_rules)
  then show ?thesis unfolding current_txn_def by (intro stays_rules)
qed

section \<open>The entry points\<close>

text \<open>The contract with libmdbx: the calls that keep the property. What the entry points do besides
  calling libmdbx keeps it anyway, so that they all keep it, but for the two that are left out: a commit, and the opening.\<close>

locale calls_property = native_property P for P :: "'n world \<Rightarrow> bool" +
  fixes L :: "'n libmdbx"
  assumes library_calls: "\<And>m. stays P (allocM L m)" "stays P (native (\<lambda>w. w) (L_setup_debug L))"
    and on_env: "\<And>p. stays P (env_call p (L_env_get_flags L))" "\<And>p bits on. stays P (env_call p (\<lambda>e. L_env_set_flags L e bits on))"
      "\<And>p force nonblock. stays P (env_call p (\<lambda>e. L_env_sync_ex L e force nonblock))" "\<And>p. stays P (env_close_call L p)"
      "\<And>p. stays P (env_call p (L_reader_check L))" "\<And>p. stays P (env_call p (L_env_get_path L))"
      "\<And>p t. stays P (env_call p (\<lambda>e. L_env_stat_ex L e t))" "\<And>p t. stays P (env_call p (\<lambda>e. L_env_info_ex L e t))"
    and on_txn: "\<And>q. stays P (txn_call q (L_txn_abort L))" "\<And>q. stays P (txn_call q (L_txn_flags L))"
      "\<And>q. stays P (txn_call q (L_txn_id L))" "\<And>q name flags. stays P (txn_call q (\<lambda>t. L_dbi_open L t name flags))"
      "\<And>q d. stays P (txn_call q (\<lambda>t. L_dbi_stat L t d))" "\<And>q d inc. stays P (txn_call q (\<lambda>t. L_dbi_sequence L t d inc))"
      "\<And>q d del. stays P (txn_call q (\<lambda>t. L_drop L t d del))" "\<And>q. stays P (txn_call q (L_tables L))"
      "\<And>q d k. stays P (txn_call q (\<lambda>t. L_get L t d k))" "\<And>q d k x flags. stays P (txn_call q (\<lambda>t. L_put L t d k x flags))"
      "\<And>q d k. stays P (txn_call q (\<lambda>t. L_del L t d k))" "\<And>q d k x. stays P (txn_call q (\<lambda>t. L_cmp L t d k x))"
      "\<And>q d. stays P (txn_call q (\<lambda>t. L_cursor_open L t d))" "\<And>q c k opr. stays P (txn_call q (\<lambda>_. L_cursor_get L c k opr))"
      "\<And>q c. stays P (txn_call q (\<lambda>_. L_cursor_close L c))" "\<And>q. stays P (off_thread (L_commit_off_thread L q))"
    and begins: "\<And>p flags. stays P (txn_begin_call L p flags)"
    and ends: "\<And>q. stays P (modifyM (txn_ended q) :: ('n, unit) mem)" "\<And>e. stays P (modifyM (kill_env e) :: ('n, unit) mem)"
begin

lemmas calls = library_calls on_env on_txn begins ends

lemma env_txn: "stays P (env_txn_call q t (L_env_stat_ex L))" "stays P (env_txn_call q t (L_env_info_ex L))"
  unfolding env_txn_call_def by (intro stays_rules calls)+

lemmas statements = memory fresh guarded run_guarded poisons registries endings mark births counts panic calls env_txn

lemma enumerate:
  assumes "\<And>name ctx. stays P (visitor name ctx)"
  shows "stays P (enumerate_tables L t visitor ctx)"
  unfolding enumerate_tables_def
  by (intro stays_rules stays_visit assms statements)

lemma tables: "stays P (count_call L t)" "stays P (list_call L t)"
  unfolding count_call_def list_call_def count_visit_def list_visit_def
  by (intro stays_rules enumerate statements)+

lemma cursor: "stays P (cursor_get L p c key opr)" "stays P (reposition L p dbi c from_key r)"
  unfolding reposition_def cursor_get_def
  by (intro stays_rules statements)+

lemma scan_loop: "stays P (scan_loop L p dbi c limit want_values reverse start opr key positioning ks vs)"
proof (induction "limit - length ks" arbitrary: opr key positioning ks vs rule: less_induct)
  case less
  show ?case
    by (subst scan_loop.simps)
      (intro stays_rules statements cursor less; simp)
qed

lemma panic_now: "stays P panic_immediately"
  unfolding panic_immediately_def by (intro stays_rules statements)

text \<open>The functions handed to the guard.\<close>

lemma bodies: "stays P (dbi_call L t name flags)" "stays P (get_call L t key)"
    "stays P (put_call L t key data flags)" "stays P (del_call L t key)"
    "stays P (drop_call L t del)" "stays P (sequence_call L t inc)"
    "stays P (dbi_stat_call L t)" "stays P (scan_call L t limit want_values reverse start)"
    "stays P (reader_check_call L a)" "stays P (path_call L a)"
    "stays P (get_flags_call L a)" "stays P (set_flags_call L a bits on)"
    "stays P (sync_call L a force nonblock)"
    "stays P (stat_call L q p)" "stays P (info_call L q p)"
    "stays P (finish_call L t False)" "stays P (begin_call L a fl)"
    "stays P (close_call L a)"
  unfolding dbi_call_def get_call_def put_call_def del_call_def drop_call_def sequence_call_def dbi_stat_call_def
    scan_call_def reader_check_call_def path_call_def get_flags_call_def set_flags_call_def sync_call_def
    stat_call_def info_call_def finish_call_def txn_end_call_def begin_call_def
    close_call_def if_False
  by (intro stays_rules statements scan_loop)+

lemma set_up: "stays P (setup_call L)"
  unfolding setup_call_def by (rule calls)

lemma ensure_dbi: "stays P (ensure_dbi L t name)"
  unfolding ensure_dbi_def by (intro stays_rules statements bodies)

lemma data: "stays P (mdbx_get L txn key db)" "stays P (mdbx_put L txn key val overwrite db)"
    "stays P (mdbx_del L txn key db)" "stays P (mdbx_scan L txn limit values db start reverse)"
    "stays P (mdbx_dbi_sequence L txn db increment)" "stays P (mdbx_dbi_list L txn)"
    "stays P (mdbx_dbi_open L txn name create)" "stays P (mdbx_dbi_drop L txn db del)"
  unfolding mdbx_get_def mdbx_put_def mdbx_del_def mdbx_scan_def mdbx_dbi_sequence_def mdbx_dbi_list_def
    mdbx_dbi_open_def mdbx_dbi_drop_def count_named_tables_def
  by (intro stays_rules statements ensure_dbi bodies tables)+

lemma stats: "stays P (run_stat L a txn)" "stays P (run_info L a txn)"
  unfolding run_stat_def run_info_def by (intro stays_rules statements bodies)+

lemma env_ops: "stays P (mdbx_env_reader_check L env)" "stays P (mdbx_env_path L env)"
    "stays P (mdbx_env_get_flags L env)" "stays P (mdbx_env_set_flags L env flags on)"
    "stays P (mdbx_env_sync L env force nonblock)" "stays P (mdbx_env_stat L env)"
    "stays P (mdbx_env_info L env)" "stays P (mdbx_env_is_open env)"
    "stays P (mdbx_env_txn_count env)" "stays P (mdbx_txn_stat L txn db)"
    "stays P (mdbx_txn_info L txn)" "stays P (mdbx_txn_id L txn)"
    "stays P (mdbx_limits L pagesize)" "stays P (mdbx_initialize L)"
    "stays P (mdbx_test_check L rc)" "stays P (mdbx_test_panic_stat env info)"
    "stays P (mdbx_test_panic_get txn)"
  unfolding mdbx_env_reader_check_def mdbx_env_path_def mdbx_env_get_flags_def mdbx_env_set_flags_def
    mdbx_env_sync_def mdbx_env_stat_def mdbx_env_info_def mdbx_env_is_open_def mdbx_env_txn_count_def
    mdbx_txn_stat_def mdbx_txn_info_def mdbx_txn_id_def mdbx_limits_def mdbx_initialize_def mdbx_test_check_def
    mdbx_test_panic_stat_def mdbx_test_panic_get_def
  by (intro stays_rules statements panic_now stays_current_txn stats ensure_dbi bodies set_up)+

lemma txn_state: "stays P (mdbx_txn_state L txn)"
  unfolding mdbx_txn_state_def
  by (intro stays_rules)
    (auto split: txn_state.split intro!: stays_rules statements)

lemma thread_mismatch: "stays P (mdbx_test_thread_mismatch L txn)"
  unfolding mdbx_test_thread_mismatch_def commit_off_thread_def by (intro stays_rules statements)

lemma begun: "stays P (mdbx_txn_begin L env is_write extra)"
  unfolding mdbx_txn_begin_def by (intro stays_rules statements bodies)

text \<open>Ending without committing.\<close>

lemma close: "stays P (close_handle L a propagate)"
  unfolding close_handle_def by (intro stays_rules statements bodies)

lemma detach: "stays P (detach_txns L a)"
proof -
  have "stays P (detach_one L u t)" for u t
    unfolding detach_one_def by (intro stays_rules statements bodies)
  then show ?thesis unfolding detach_txns_def by (intro stays_rules statements)
qed

lemma env_close: "stays P (mdbx_env_close L env)"
  unfolding mdbx_env_close_def by (intro stays_rules statements detach close)

lemma abort: "stays P (mdbx_txn_abort L txn)"
  unfolding mdbx_txn_abort_def broken_graph_def finish_txn_def
  by (intro stays_rules statements bodies)

lemma finalizers: "stays P (finalize_env L x)" "stays P (finalize_txn L x)"
  unfolding finalize_env_def finalize_txn_def finalizer_may_abort_def
  by (intro stays_rules statements detach close bodies)+

text \<open>Every entry point but commit and open.\<close>

lemma performed:
  assumes "\<not> may_publish c"
  shows "stays P (perform L c)"
  using assms
  by (cases c; simp only: perform.simps may_publish.simps simp_thms)
    ((rule stays_ignore)?, rule data env_ops txn_state thread_mismatch begun env_close abort)+

end

text \<open>A property that a commit and an opening keep as well is kept by every entry point.\<close>

locale whole_property = calls_property P L for P :: "'n world \<Rightarrow> bool" and L :: "'n libmdbx" +
  assumes commits: "\<And>q. stays P (txn_call q (L_txn_commit L))"
    and openings: "\<And>e. stays P (native (\<lambda>w. w) (L_env_create L e))" "stays P (modifyM env_created :: ('n, unit) mem)"
      "\<And>p opt v. stays P (env_call p (\<lambda>e. L_env_set_option L e opt v))" "\<And>p v. stays P (env_call p (\<lambda>e. L_env_set_geometry L e v))"
      "\<And>p path flags mode. stays P (env_call p (\<lambda>e. L_env_open L e path flags mode))"
begin

lemma commit: "stays P (mdbx_txn_commit L txn)"
  unfolding mdbx_txn_commit_def finish_txn_def finish_call_def txn_end_call_def if_True
  by (intro stays_rules statements commits)

lemma opened: "stays P (mdbx_env_open L path key readonly subdir max_dbs map_size max_readers mode extra)"
  unfolding mdbx_env_open_def open_guarded_def open_call_def env_create_call_def
  by (intro stays_rules stays_find_open statements close openings)

lemma every: "stays P (perform L c)"
proof (cases "may_publish c")
  case True
  then show ?thesis by (cases c) (simp_all add: stays_ignore commit opened)
qed (rule performed)

end

section \<open>What is published\<close>

lemma published_begins:
  assumes "\<And>e t. keeps_pub pub (L_txn_begin L e flags t)"
  shows "stays (published pub d) (txn_begin_call L p flags)"
  unfolding txn_begin_call_def by (intro stays_rules published_calls assms published.modify; simp add: txn_created_def)

lemma published_closes: "(\<And>e. keeps_pub pub (L_env_close L e)) \<Longrightarrow> stays (published pub d) (env_close_call L p)"
  unfolding env_close_call_def by (intro stays_rules published_calls published.modify; simp)

lemma published_calls_property:
  assumes "commit_only L pub"
  shows "calls_property (published pub d) L"
  by unfold_locales
    ((rule published_alloc published_off_thread published_closes published_calls published_begins published_native published.modify, (rule commit_only_keeps [OF assms])?)+;
     simp add: txn_ended_def commit_only_keeps [OF assms])+

lemmas published_perform = calls_property.performed [OF published_calls_property]
lemmas published_finalizers = calls_property.finalizers [OF published_calls_property]
lemmas published_abort = calls_property.abort [OF published_calls_property]

lemma stays_run: "stays (published pub d) m \<Longrightarrow> d = (pub (w_lib w), w_pid w) \<Longrightarrow> m w = (r, w') \<Longrightarrow> pub (w_lib w') = pub (w_lib w)"
  and stays_pid: "stays (published pub d) m \<Longrightarrow> d = (pub (w_lib w), w_pid w) \<Longrightarrow> m w = (r, w') \<Longrightarrow> w_pid w' = w_pid w"
  by (auto simp: stays_def wp_def published_def split: sum.splits)

section \<open>Committing\<close>

lemma txn_from_sexp_accepts:
  assumes "txn_from_sexp x w = (Inr t, v)"
  shows "\<exists>i. x = R_ExtPtr i \<and> txn_ptr w i t \<and> v = w"
  using assms
  by (cases x) (auto simp: txn_from_sexp_def refusal_run txn_ptr_def split: option.splits if_splits paddr.splits)

text \<open>A commit of a live transaction: libmdbx answered, and the status is the result, or it panicked.\<close>

lemma commit_cases:
  assumes I: "inv w" and p: "txn_ptr w i t" and l: "live_txn t w" and t: "w_txns w t = Some th" "th_txn th = Some q"
    and run: "mdbx_txn_commit L (R_ExtPtr i) w = (r, w')"
  obtains (returned) rc where "L_txn_commit L q (w_lib w) = (NRet rc, w_lib w')" "r = end_result L rc"
  | (panicked) m g k n m' g' where "L_txn_commit L q (w_lib w) = (NPanic m g k, n)" "r = Inl (AssertFailed m' g' k)"
proof -
  obtain a h e where o: "th_owner th = Some a" "w_envs w a = Some h" "txn_usable q e w"
    using live_txn_ready [OF I l] t by (metis option.inject)
  obtain x where x: "w_xps w i = Some x" using p by (auto simp: txn_ptr_def)
  obtain res n where n: "L_txn_commit L q (w_lib w) = (res, n)" by fastforce
  show thesis
  proof (cases res)
    case (NRet rc)
    then have nr: "L_txn_commit L q (w_lib w) = (NRet rc, n)" using n by simp
    have "r = end_result L rc \<and> w_lib w' = n"
      using finish_run [where commit = True, unfolded if_True, OF I p x l t nr] run
      by (auto simp: mdbx_txn_commit_def split: if_splits)
    then show thesis using nr returned by simp
  next
    case (NPanic m g k)
    then obtain u where "guard (finish_call L t True) (Some (poison_txn t)) w = (Inl (panic_error m g k), u)"
      using finish_call_panics [where commit = True, unfolded if_True, OF inv_calm(2) [OF I] t o(3,1,2)] n by blast
    then have "r = Inl (panic_error m g k)"
      using run txn_from_sexp_live [OF I p l] by (simp add: mdbx_txn_commit_def finish_txn_def bindM_def)
    then show thesis using panicked n NPanic unfolding panic_error_def by blast
  qed
qed

lemma commit_live:
  assumes I: "inv w" and ok: "sexp_ok txn w" and run: "mdbx_txn_commit L txn w = (r, w')" and new: "w' \<noteq> w \<or> r = Inr ()"
  shows "\<exists>i t. txn = R_ExtPtr i \<and> txn_ptr w i t \<and> live_txn t w"
proof (cases "txn_from_sexp txn w")
  case (Pair a v)
  note acc = txn_from_sexp_wp [OF I ok, unfolded wp_def Pair]
  show ?thesis
  proof (cases a)
    case (Inl e)
    then have "v = w" using acc by simp
    then show ?thesis using run new Pair Inl by (simp add: mdbx_txn_commit_def finish_txn_def bindM_def)
  qed (use txn_from_sexp_accepts Pair acc in fastforce)
qed

lemma commit_publishes:
  assumes I: "inv w" and ok: "sexp_ok txn w" and C: "commit_only L pub"
    and run: "mdbx_txn_commit L txn w = (r, w')" and new: "pub (w_lib w') \<noteq> pub (w_lib w)"
  shows "\<exists>i t. txn = R_ExtPtr i \<and> txn_ptr w i t \<and> live_txn t w \<and> (r = Inr () \<or> (\<exists>m g l. r = Inl (AssertFailed m g l)))"
proof -
  obtain i t where i: "txn = R_ExtPtr i" "txn_ptr w i t" "live_txn t w"
    using commit_live [OF I ok run] new by auto
  obtain th q where t: "w_txns w t = Some th" "th_txn th = Some q" using i(3) by (auto simp: live_txn_def)
  from I i(2,3) t run [unfolded i(1)] show ?thesis
  proof (cases rule: commit_cases)
    case (returned rc)
    then show ?thesis using i failed_commit_keeps [OF C returned(1)] new by (auto simp: end_result_def)
  qed (use i in blast)+
qed

text \<open>The call that may create a database file.\<close>

fun opens :: "call \<Rightarrow> bool" where
  "opens (Do_env_open path key readonly subdir max_dbs map_size max_readers mode extra) = True"
| "opens _ = False"

section \<open>The process\<close>

text \<open>No call changes the process id: what holds of everything the library has holds of nothing in it.\<close>

lemma nothing_published: "keeps_pub (\<lambda>n. ()) f" "commit_only L (\<lambda>n. ())"
  by (simp_all add: keeps_pub_def commit_only_def)

interpretation process: whole_property "published (\<lambda>n. ()) d" L for d L
  by (intro whole_property.intro published_calls_property nothing_published whole_property_axioms.intro
      published_calls published_native published.modify; simp add: env_created_def nothing_published)

lemma perform_pid: "perform L c w = (r, w') \<Longrightarrow> w_pid w' = w_pid w"
  by (rule stays_pid [OF process.every refl])

lemma finalize_pid: "finalize_env L x w = (r, w') \<Longrightarrow> w_pid w' = w_pid w" "finalize_txn L x w = (r, w') \<Longrightarrow> w_pid w' = w_pid w"
  by (rule stays_pid [OF process.finalizers(1) refl], assumption, rule stays_pid [OF process.finalizers(2) refl], assumption)

end
