(* ===== verification/Mdbx_Store.thy ===== *)
theory Mdbx_Store
  imports Mdbx_Publish
begin

unbundle bit_operations_syntax

text \<open>
  The store a transaction is: the main table and the named ones, and what each operation of the
  package answers and leaves. A named table is a record of the main one, as libmdbx documents: its name is a
  key there that may be read but not written. \<open>store_ok\<close> says of libmdbx what its documentation says of the calls
  the package makes inside a transaction; that the package, with its caches of resolved
  databases and its refusals, implements the store is proved in \<open>Mdbx_StoreRuns\<close>.
\<close>

section \<open>Tables and stores\<close>

type_synonym table = "bytes \<rightharpoonup> bytes"

record store =
  st_main :: table
  st_named :: "(bytes \<times> table) list"

definition table_of :: "store \<Rightarrow> string option \<Rightarrow> table option" where
  "table_of S name = (case name of None \<Rightarrow> Some (st_main S) | Some n \<Rightarrow> map_of (st_named S) n)"

text \<open>
  \<open>st_main\<close> has the rows of the main table that are not records of tables. At the name of a named table
  the main table has such a record, whose bytes are libmdbx's own business.
\<close>

definition is_record :: "store \<Rightarrow> string option \<Rightarrow> bytes \<Rightarrow> bool" where
  "is_record S name k \<longleftrightarrow> name = None \<and> k \<in> fst ` set (st_named S)"

text \<open>A name at which the main table has a row of its own cannot be a table.\<close>

definition taken :: "store \<Rightarrow> string option \<Rightarrow> bool" where
  "taken S name \<longleftrightarrow> (case name of None \<Rightarrow> False | Some n \<Rightarrow> st_main S n \<noteq> None)"

text \<open>The named tables are kept in the order of their names, which is the order of enumeration.\<close>

fun put_named :: "bytes \<Rightarrow> table \<Rightarrow> (bytes \<times> table) list \<Rightarrow> (bytes \<times> table) list" where
  "put_named n m [] = [(n, m)]"
| "put_named n m (e # es) =
     (if fst e = n then (n, m) # es else if n < fst e then (n, m) # e # es else e # put_named n m es)"

definition set_table :: "string option \<Rightarrow> table \<Rightarrow> store \<Rightarrow> store" where
  "set_table name m S =
     (case name of None \<Rightarrow> S\<lparr>st_main := m\<rparr> | Some n \<Rightarrow> S\<lparr>st_named := put_named n m (st_named S)\<rparr>)"

definition drop_table :: "string \<Rightarrow> store \<Rightarrow> store" where
  "drop_table n S = S\<lparr>st_named := filter (\<lambda>e. fst e \<noteq> n) (st_named S)\<rparr>"

text \<open>No table is listed twice, and a key of the main table is a row or a record, not both.\<close>

definition store_wf :: "store \<Rightarrow> bool" where
  "store_wf S \<longleftrightarrow> sorted (map fst (st_named S)) \<and> distinct (map fst (st_named S))
     \<and> (\<forall>n \<in> fst ` set (st_named S). st_main S n = None)"

lemma put_named_keys: "set (map fst (put_named n m es)) = insert n (set (map fst es))"
  by (induction es) auto

lemma put_named_wf:
  "sorted (map fst es) \<Longrightarrow> distinct (map fst es)
    \<Longrightarrow> sorted (map fst (put_named n m es)) \<and> distinct (map fst (put_named n m es))"
proof (induction es)
  case (Cons e es)
  show ?case
  proof (cases "fst e < n")
    case True
    then have "put_named n m (e # es) = e # put_named n m es" by auto
    then show ?thesis using Cons True put_named_keys [of n m es] by auto
  qed (use Cons in \<open>auto simp: not_less\<close>)
qed simp

lemma map_of_put_named:
  "sorted (map fst es) \<Longrightarrow> map_of (put_named n m es) = (map_of es)(n \<mapsto> m)"
proof (induction es)
  case (Cons e es)
  have "map_of es n = None" if "n < fst e" using that Cons.prems by (force simp: map_of_eq_None_iff)
  then show ?case using Cons by (cases e) (auto simp: fun_eq_iff)
qed simp

lemma table_of_set: "store_wf S \<Longrightarrow> table_of (set_table name m S) other = (if other = name then Some m else table_of S other)"
  by (cases name; cases other) (simp_all add: table_of_def set_table_def store_wf_def map_of_put_named)

lemma map_of_drop: "map_of (filter (\<lambda>e. fst e \<noteq> n) es) = (map_of es)(n := None)"
  by (induction es) (auto simp: fun_eq_iff)

lemma table_of_drop: "table_of (drop_table n S) other = (if other = Some n then None else table_of S other)"
  by (cases other) (simp_all add: table_of_def drop_table_def map_of_drop)

text \<open>The writes that keep a store one: of rows that are not records, and of names that are not rows.\<close>

definition writable :: "store \<Rightarrow> string option \<Rightarrow> table \<Rightarrow> bool" where
  "writable S name m \<longleftrightarrow> \<not> taken S name \<and> (\<forall>k. m k \<noteq> None \<longrightarrow> \<not> is_record S name k)"

lemma store_wf_set: "store_wf S \<Longrightarrow> writable S name m \<Longrightarrow> store_wf (set_table name m S)"
proof (cases name)
  case None
  assume "store_wf S" "writable S name m"
  moreover from this have "\<forall>n \<in> fst ` set (st_named S). m n = None" using None unfolding writable_def is_record_def by blast
  ultimately show ?thesis using None by (simp add: store_wf_def set_table_def)
next
  case (Some n)
  assume "store_wf S" "writable S name m"
  then show ?thesis
    using put_named_keys [of n m "st_named S"] Some
    by (auto simp: store_wf_def set_table_def put_named_wf writable_def taken_def)
qed

lemma store_wf_drop: "store_wf S \<Longrightarrow> store_wf (drop_table n S)"
  by (auto simp: store_wf_def drop_table_def distinct_map_filter sorted_filter [of fst, simplified])

lemma table_not_taken: "store_wf S \<Longrightarrow> table_of S name = Some m \<Longrightarrow> \<not> taken S name"
  by (cases name) (force simp: store_wf_def taken_def table_of_def dest: map_of_SomeD)+

lemma taken_no_table: "store_wf S \<Longrightarrow> taken S name \<Longrightarrow> table_of S name = None"
  using table_not_taken by fastforce

lemma main_not_taken [simp]: "\<not> taken S None"
  by (simp add: taken_def)

lemma table_not_record: "store_wf S \<Longrightarrow> table_of S name = Some m \<Longrightarrow> m k \<noteq> None \<Longrightarrow> \<not> is_record S name k"
  by (auto simp: store_wf_def is_record_def table_of_def)

lemma writable_rows:
  assumes "store_wf S" and "table_of S name = Some m"
  shows "\<not> is_record S name k \<Longrightarrow> writable S name (m(k \<mapsto> x))" and "writable S name (m(k := None))"
    and "writable S name Map.empty"
  using table_not_taken [OF assms] table_not_record [OF assms] by (auto simp: writable_def)

lemma writable_new: "\<not> taken S (Some n) \<Longrightarrow> writable S (Some n) m"
  by (auto simp: writable_def is_record_def)

section \<open>Operations and answers\<close>

text \<open>What R asks of a transaction.\<close>

datatype op =
    Op_get "string list" bytes
  | Op_put "string list" bytes bytes bool
  | Op_del "string list" bytes
  | Op_open string bool
  | Op_drop "string list" bool
  | Op_list

text \<open>
  What it is answered: a value or nothing, yes or no, done, the names, no such table, the
  transaction is read-only, refused by the package, refused by libmdbx because a table's record is not a row
  (\<open>MDBX_INCOMPATIBLE\<close>), or a failure of libmdbx. Two answers the store does not determine: the bytes of
  a record, and whether a record that is overwritten is refused or happens to be left as it is, the bytes
  being its own.
\<close>

datatype answer =
    A_value "bytes option" | A_flag bool | A_done | A_names "bytes list"
  | A_missing | A_read_only | A_refused | A_incompatible | A_failed
  | A_some_value | A_unwritten

text \<open>When an answer of the package is one the store gives.\<close>

fun agrees :: "answer \<Rightarrow> answer \<Rightarrow> bool" where
  "agrees A_some_value a \<longleftrightarrow> (\<exists>x. a = A_value (Some x))"
| "agrees A_unwritten a \<longleftrightarrow> a = A_incompatible \<or> a = A_flag True"
| "agrees b a \<longleftrightarrow> a = b"

definition on_table :: "store \<Rightarrow> string list \<Rightarrow> (table \<Rightarrow> answer \<times> store) \<Rightarrow> answer \<times> store" where
  "on_table S db f = (case table_of S (db_arg db) of
     None \<Rightarrow> (if taken S (db_arg db) then A_incompatible else A_missing, S) | Some m \<Rightarrow> f m)"

fun spec :: "bool \<Rightarrow> op \<Rightarrow> store \<Rightarrow> answer \<times> store" where
  "spec wr (Op_get db k) S =
     on_table S db (\<lambda>m. (if is_record S (db_arg db) k then A_some_value else A_value (m k), S))"
| "spec wr (Op_put db k x overwrite) S =
     (if \<not> wr then (A_read_only, S) else
      on_table S db (\<lambda>m. if \<not> overwrite \<and> (m k \<noteq> None \<or> is_record S (db_arg db) k) then (A_flag False, S)
                         else if is_record S (db_arg db) k then (A_unwritten, S)
                         else (A_flag True, set_table (db_arg db) (m(k \<mapsto> x)) S)))"
| "spec wr (Op_del db k) S =
     (if \<not> wr then (A_read_only, S) else
      on_table S db (\<lambda>m. if is_record S (db_arg db) k then (A_incompatible, S)
                         else if m k = None then (A_flag False, S)
                         else (A_flag True, set_table (db_arg db) (m(k := None)) S)))"
| "spec wr (Op_open n create) S =
     (if create \<and> \<not> wr then (A_read_only, S)
      else case table_of S (Some n) of
        Some m \<Rightarrow> (A_done, S)
      | None \<Rightarrow> if taken S (Some n) then (A_incompatible, S)
          else if create then (A_done, set_table (Some n) Map.empty S) else (A_missing, S))"
| "spec wr (Op_drop db del) S =
     (if \<not> wr then (A_read_only, S)
      else case db_arg db of
        None \<Rightarrow> if del \<or> st_named S \<noteq> [] then (A_refused, S) else (A_done, set_table None Map.empty S)
      | Some n \<Rightarrow> on_table S db (\<lambda>m. (A_done, if del then drop_table n S else set_table (Some n) Map.empty S)))"
| "spec wr Op_list S = (A_names (map fst (st_named S)), S)"

text \<open>
  A run of operations, as far as the answers tell: a failed operation leaves the store alone.
  libmdbx may answer \<open>MDBX_INCOMPATIBLE\<close> for reasons of its own too.
\<close>

definition failure :: "answer \<Rightarrow> bool" where
  "failure a \<longleftrightarrow> a = A_failed \<or> a = A_incompatible"

fun explains :: "bool \<Rightarrow> bool \<Rightarrow> op list \<Rightarrow> answer list \<Rightarrow> store \<Rightarrow> store option" where
  "explains fails wr [] [] S = Some S"
| "explains fails wr (x # xs) (a # as) S =
     (if agrees (fst (spec wr x S)) a then explains fails wr xs as (snd (spec wr x S))
      else if fails \<and> failure a then explains fails wr xs as S else None)"
| "explains fails wr _ _ S = None"

text \<open>The same run on the store alone; a run in which nothing failed is that one.\<close>

fun spec_run :: "bool \<Rightarrow> op list \<Rightarrow> store \<Rightarrow> answer list \<times> store" where
  "spec_run wr [] S = ([], S)"
| "spec_run wr (x # xs) S = (case spec wr x S of (a, T) \<Rightarrow> case spec_run wr xs T of (as, U) \<Rightarrow> (a # as, U))"

definition answers :: "bool \<Rightarrow> op list \<Rightarrow> store \<Rightarrow> answer list \<Rightarrow> store \<Rightarrow> bool" where
  "answers wr xs S as T \<longleftrightarrow> list_all2 agrees (fst (spec_run wr xs S)) as \<and> snd (spec_run wr xs S) = T"

lemma explains_exact: "explains False wr xs as S = Some T \<Longrightarrow> answers wr xs S as T"
  unfolding answers_def
  by (induction False wr xs as S rule: explains.induct) (auto split: if_splits prod.splits)

text \<open>A read transaction changes nothing.\<close>

lemma spec_reads: "snd (spec False x S) = S"
  by (cases x) (auto simp: on_table_def split: option.splits)

section \<open>The package's side\<close>

text \<open>One operation, as the calls R makes.\<close>

fun op_call :: "'n libmdbx \<Rightarrow> rsexp \<Rightarrow> op \<Rightarrow> ('n, answer) mem" where
  "op_call L txn (Op_get db k) =
     bindM (mdbx_get L txn (R_Raw k) db) (\<lambda>v. returnM (A_value (case v of R_Raw x \<Rightarrow> Some x | _ \<Rightarrow> None)))"
| "op_call L txn (Op_put db k x overwrite) =
     bindM (mdbx_put L txn (R_Raw k) (R_Raw x) overwrite db) (\<lambda>b. returnM (A_flag b))"
| "op_call L txn (Op_del db k) = bindM (mdbx_del L txn (R_Raw k) db) (\<lambda>b. returnM (A_flag b))"
| "op_call L txn (Op_open n create) = bindM (mdbx_dbi_open L txn n create) (\<lambda>_. returnM A_done)"
| "op_call L txn (Op_drop db del) = bindM (mdbx_dbi_drop L txn db del) (\<lambda>_. returnM A_done)"
| "op_call L txn Op_list = bindM (mdbx_dbi_list L txn) (\<lambda>ns. returnM (A_names ns))"

text \<open>The conditions the package raises itself are answers, and so is \<open>MDBX_INCOMPATIBLE\<close>; every other one is a failure.\<close>

definition answer_of :: "err + answer \<Rightarrow> answer" where
  "answer_of r =
     (case r of
        Inr a \<Rightarrow> a
      | Inl e \<Rightarrow> (case e of
          MissingDbi n p \<Rightarrow> A_missing
        | ReadOnlyTxn \<Rightarrow> A_read_only
        | CreateNeedsWrite \<Rightarrow> A_read_only
        | DeleteMain \<Rightarrow> A_refused
        | EmptyMainWithNamed \<Rightarrow> A_refused
        | MdbxError c \<Rightarrow> if mc_code c = MDBX_INCOMPATIBLE then A_incompatible else A_failed
        | _ \<Rightarrow> A_failed))"

definition run_op :: "'n libmdbx \<Rightarrow> rsexp \<Rightarrow> op \<Rightarrow> 'n world \<Rightarrow> answer \<times> 'n world" where
  "run_op L txn x w = (case op_call L txn x w of (r, w') \<Rightarrow> (answer_of r, w'))"

fun run_ops :: "'n libmdbx \<Rightarrow> rsexp \<Rightarrow> op list \<Rightarrow> 'n world \<Rightarrow> answer list \<times> 'n world" where
  "run_ops L txn [] w = ([], w)"
| "run_ops L txn (x # xs) w =
     (case run_op L txn x w of (a, v) \<Rightarrow> case run_ops L txn xs v of (as, w') \<Rightarrow> (a # as, w'))"

section \<open>The hypothesis on libmdbx\<close>

text \<open>
  How to read libmdbx's state: what environment \<open>e\<close> holds for everybody; for a native transaction
  that can go on, its environment, whether it may write, and the store it sees; and which table a
  handle denotes in it. \<open>rd_fails\<close> is whether calls may fail at all, beyond the statuses that are
  answers: a full disk, a corrupted page, an assertion.
\<close>

record 'n reading =
  rd_committed :: "'n \<Rightarrow> nat \<Rightarrow> store"
  rd_view :: "'n \<Rightarrow> nat \<Rightarrow> (nat \<times> bool \<times> store) option"
  rd_name :: "'n \<Rightarrow> nat \<Rightarrow> nat \<Rightarrow> string option option"
  rd_fails :: bool

text \<open>
  A call inside transaction \<open>q\<close> has three outcomes. It did what it is for: the transaction now sees
  \<open>S'\<close>. It failed and changed nothing the transaction sees. Or it failed half way, and the
  transaction can only be ended. Table handles stay what they were, except one that is \<open>gone\<close>.
\<close>

definition sees :: "'n reading \<Rightarrow> nat \<Rightarrow> nat option \<Rightarrow> 'n \<Rightarrow> store \<Rightarrow> 'n \<Rightarrow> bool" where
  "sees R q gone n S' n' \<longleftrightarrow>
     (\<exists>e wr S. rd_view R n q = Some (e, wr, S) \<and> rd_view R n' q = Some (e, wr, S'))
     \<and> (\<forall>d name. rd_name R n q d = Some name \<and> Some d \<noteq> gone \<longrightarrow> rd_name R n' q d = Some name)"

definition spoilt :: "'n reading \<Rightarrow> nat \<Rightarrow> 'n \<Rightarrow> store \<Rightarrow> 'n \<Rightarrow> bool" where
  "spoilt R q n S n' \<longleftrightarrow> rd_fails R \<and> (sees R q None n S n' \<or> rd_view R n' q = None)"

definition dbi_ok :: "'n libmdbx \<Rightarrow> 'n reading \<Rightarrow> bool" where
  "dbi_ok L R \<longleftrightarrow>
     (\<forall>q n e wr S name create rc d n'. rd_view R n q = Some (e, wr, S) \<and> (create \<longrightarrow> wr \<and> name \<noteq> None)
        \<and> L_dbi_open L q name (if create then MDBX_CREATE else MDBX_DB_DEFAULTS) n = (NRet (rc, d), n') \<longrightarrow>
        (if rc = MDBX_SUCCESS
         then (create \<or> table_of S name \<noteq> None) \<and> \<not> taken S name \<and> rd_name R n' q d = Some name
            \<and> sees R q None n (if table_of S name = None then set_table name Map.empty S else S) n'
         else if rc = MDBX_NOTFOUND then \<not> create \<and> table_of S name = None \<and> \<not> taken S name \<and> sees R q None n S n'
         else if rc = MDBX_INCOMPATIBLE \<and> taken S name then sees R q None n S n'
         else spoilt R q n S n'))"

definition rows_ok :: "'n libmdbx \<Rightarrow> 'n reading \<Rightarrow> bool" where
  "rows_ok L R \<longleftrightarrow>
     (\<forall>q n e wr S d name m k. rd_view R n q = Some (e, wr, S) \<and> rd_name R n q d = Some name \<and> table_of S name = Some m \<longrightarrow>
        (\<forall>rc x n'. L_get L q d k n = (NRet (rc, x), n') \<longrightarrow>
           (if rc = MDBX_SUCCESS then (is_record S name k \<or> m k = Some x) \<and> sees R q None n S n'
            else if rc = MDBX_NOTFOUND then \<not> is_record S name k \<and> m k = None \<and> sees R q None n S n'
            else spoilt R q n S n'))
      \<and> (wr \<longrightarrow> (\<forall>x overwrite rc n'. L_put L q d k x (if overwrite then MDBX_UPSERT else MDBX_NOOVERWRITE) n = (NRet rc, n') \<longrightarrow>
           (if rc = MDBX_SUCCESS
            then (overwrite \<or> m k = None \<and> \<not> is_record S name k)
               \<and> sees R q None n (if is_record S name k then S else set_table name (m(k \<mapsto> x)) S) n'
            else if rc = MDBX_KEYEXIST then \<not> overwrite \<and> (m k \<noteq> None \<or> is_record S name k) \<and> sees R q None n S n'
            else if rc = MDBX_INCOMPATIBLE \<and> overwrite \<and> is_record S name k then sees R q None n S n'
            else spoilt R q n S n')))
      \<and> (wr \<longrightarrow> (\<forall>rc n'. L_del L q d k n = (NRet rc, n') \<longrightarrow>
           (if rc = MDBX_SUCCESS
            then m k \<noteq> None \<and> \<not> is_record S name k \<and> sees R q None n (set_table name (m(k := None)) S) n'
            else if rc = MDBX_NOTFOUND then m k = None \<and> \<not> is_record S name k \<and> sees R q None n S n'
            else if rc = MDBX_INCOMPATIBLE \<and> is_record S name k then sees R q None n S n'
            else spoilt R q n S n'))))"

definition tables_ok :: "'n libmdbx \<Rightarrow> 'n reading \<Rightarrow> bool" where
  "tables_ok L R \<longleftrightarrow>
     (\<forall>q n e wr S. rd_view R n q = Some (e, wr, S) \<longrightarrow>
        store_wf S
      \<and> (\<forall>names rc n'. L_tables L q n = (NRet (names, rc), n') \<longrightarrow>
           (if rc = MDBX_SUCCESS then names = map fst (st_named S) \<and> sees R q None n S n'
            else (names \<noteq> [] \<longrightarrow> st_named S \<noteq> []) \<and> rc \<noteq> MDBX_RESULT_TRUE \<and> spoilt R q n S n'))
      \<and> (\<forall>d name del rc n'. rd_name R n q d = Some name \<and> table_of S name \<noteq> None \<and> wr \<and> (name = None \<longrightarrow> \<not> del \<and> st_named S = [])
           \<and> L_drop L q d del n = (NRet rc, n') \<longrightarrow>
           (if rc = MDBX_SUCCESS
            then sees R q (if del then Some d else None) n
                   (if del then drop_table (the name) S else set_table name Map.empty S) n'
            else spoilt R q n S n'))
      \<and> (\<forall>m ok n'. L_alloc L m n = (ok, n') \<longrightarrow> sees R q None n S n'))"

text \<open>A transaction that failed half way answers every call with an error, and cannot be committed.\<close>

definition blocked_ok :: "'n libmdbx \<Rightarrow> 'n reading \<Rightarrow> bool" where
  "blocked_ok L R \<longleftrightarrow>
     (\<forall>q n. rd_view R n q = None \<longrightarrow>
        (\<forall>name flags rc d n'. L_dbi_open L q name flags n = (NRet (rc, d), n') \<longrightarrow>
           rc \<noteq> MDBX_SUCCESS \<and> rc \<noteq> MDBX_NOTFOUND \<and> rd_view R n' q = None)
      \<and> (\<forall>d k rc x n'. L_get L q d k n = (NRet (rc, x), n') \<longrightarrow>
           rc \<noteq> MDBX_SUCCESS \<and> rc \<noteq> MDBX_NOTFOUND \<and> rd_view R n' q = None)
      \<and> (\<forall>d k x flags rc n'. L_put L q d k x flags n = (NRet rc, n') \<longrightarrow>
           rc \<noteq> MDBX_SUCCESS \<and> rc \<noteq> MDBX_KEYEXIST \<and> rd_view R n' q = None)
      \<and> (\<forall>d k rc n'. L_del L q d k n = (NRet rc, n') \<longrightarrow>
           rc \<noteq> MDBX_SUCCESS \<and> rc \<noteq> MDBX_NOTFOUND \<and> rd_view R n' q = None)
      \<and> (\<forall>d del rc n'. L_drop L q d del n = (NRet rc, n') \<longrightarrow> rc \<noteq> MDBX_SUCCESS \<and> rd_view R n' q = None)
      \<and> (\<forall>names rc n'. L_tables L q n = (NRet (names, rc), n') \<longrightarrow>
           names = [] \<and> rc \<noteq> MDBX_SUCCESS \<and> rc \<noteq> MDBX_RESULT_TRUE \<and> rd_view R n' q = None)
      \<and> (\<forall>m ok n'. L_alloc L m n = (ok, n') \<longrightarrow> rd_view R n' q = None)
      \<and> (\<forall>rc n'. L_txn_commit L q n = (NRet rc, n') \<longrightarrow> rc \<noteq> MDBX_SUCCESS))"

definition panics :: "'a nres \<times> 'n \<Rightarrow> bool" where
  "panics r \<longleftrightarrow> (case fst r of NPanic m g l \<Rightarrow> True | NRet x \<Rightarrow> False)"

lemma panics_simps [simp]: "panics (NPanic m g l, n)" "\<not> panics (NRet x, n)"
  by (simp_all add: panics_def)

definition ends_ok :: "'n libmdbx \<Rightarrow> 'n reading \<Rightarrow> bool" where
  "ends_ok L R \<longleftrightarrow>
     (\<forall>e flags q n n'. L_txn_begin L e flags q n = (NRet MDBX_SUCCESS, n') \<longrightarrow>
        rd_view R n' q = Some (e, flags AND MDBX_TXN_RDONLY = 0, rd_committed R n e))
   \<and> (\<forall>q n e wr S n'. rd_view R n q = Some (e, wr, S) \<and> L_txn_commit L q n = (NRet MDBX_SUCCESS, n') \<longrightarrow>
        rd_committed R n' = (if wr then (rd_committed R n)(e := S) else rd_committed R n))
   \<and> (\<forall>q n e wr S r n'. rd_view R n q = Some (e, wr, S) \<and> L_txn_commit L q n = (r, n') \<longrightarrow> r = NRet MDBX_SUCCESS \<or> rd_fails R)"

text \<open>A library that does not fail neither panics nor runs out of memory.\<close>

definition steady :: "'n libmdbx \<Rightarrow> bool" where
  "steady L \<longleftrightarrow>
     (\<forall>q name flags n. \<not> panics (L_dbi_open L q name flags n)) \<and> (\<forall>q d k n. \<not> panics (L_get L q d k n))
   \<and> (\<forall>q d k x flags n. \<not> panics (L_put L q d k x flags n)) \<and> (\<forall>q d k n. \<not> panics (L_del L q d k n))
   \<and> (\<forall>q d del n. \<not> panics (L_drop L q d del n)) \<and> (\<forall>q n. \<not> panics (L_tables L q n))
   \<and> (\<forall>m n. fst (L_alloc L m n))"

definition store_ok :: "'n libmdbx \<Rightarrow> 'n reading \<Rightarrow> bool" where
  "store_ok L R \<longleftrightarrow> L_ENOMEM L \<noteq> 0 \<and> dbi_ok L R \<and> rows_ok L R \<and> tables_ok L R \<and> blocked_ok L R \<and> ends_ok L R
     \<and> commit_only L (rd_committed R) \<and> (rd_fails R \<or> steady L)"

end
