(* ===== verification/Mdbx_Tracks.thy ===== *)
theory Mdbx_Tracks
  imports Mdbx_Store Mdbx_Named
begin

unbundle bit_operations_syntax

text \<open>
  A transaction handle that tracks a store: what the native transaction sees, and that the cache of
  resolved databases agrees with it. How the guarded calls and the resolving of a name keep it.
\<close>

section \<open>A transaction that tracks a store\<close>

text \<open>The cache of a transaction handle is right: what it resolves, the transaction has.\<close>

definition caches :: "'n reading \<Rightarrow> store \<Rightarrow> 'n \<Rightarrow> nat \<Rightarrow> txn_handle \<Rightarrow> bool" where
  "caches R S n q th \<longleftrightarrow> distinct (map fst (th_named th))
     \<and> (\<forall>name d. cached_dbi th name = Some d \<longrightarrow> rd_name R n q d = Some name \<and> table_of S name \<noteq> None)"

definition grips :: "'n reading \<Rightarrow> nat \<Rightarrow> bool \<Rightarrow> store \<Rightarrow> 'n \<Rightarrow> nat \<Rightarrow> txn_handle \<Rightarrow> bool" where
  "grips R e wr S n q th \<longleftrightarrow> rd_fails R \<and> rd_view R n q = None \<or> rd_view R n q = Some (e, wr, S) \<and> caches R S n q th"

definition tracks :: "'n reading \<Rightarrow> nat \<Rightarrow> bool \<Rightarrow> nat \<Rightarrow> nat \<Rightarrow> store \<Rightarrow> 'n world \<Rightarrow> bool" where
  "tracks R e wr i t S w \<longleftrightarrow> txn_ptr w i t \<and> (live_txn t w \<or> rd_fails R)
     \<and> (\<exists>th. w_txns w t = Some th \<and> th_write th = wr
           \<and> (live_txn t w \<longrightarrow> (\<exists>q. th_txn th = Some q \<and> grips R e wr S (w_lib w) q th)))"

lemma tracksD:
  assumes "tracks R e wr i t S w" and "live_txn t w"
  obtains th q where "w_txns w t = Some th" "th_write th = wr" "th_txn th = Some q" "grips R e wr S (w_lib w) q th"
  using assms by (auto simp: tracks_def)

lemma tracks_lib:
  assumes "tracks R e wr i t S w" and "w_txns w t = Some th" and "th_txn th = Some q" and "grips R e wr S' n q th"
  shows "tracks R e wr i t S' (w\<lparr>w_lib := n\<rparr>)"
  using assms by (auto simp: tracks_def txn_ptr_def live_txn_def healthy_def)

lemma tracks_put:
  assumes "tracks R e wr i t S w" and "w_txns w t = Some th" and "th_write th' = th_write th"
    and "th_txn th' = Some q" and "grips R e wr S' n q th'" and "live_txn t w"
    and "th_state th' = th_state th" "th_owner th' = th_owner th" "th_poisoned th' = th_poisoned th" "th_pid th' = th_pid th"
  shows "tracks R e wr i t S' (put_txn t th' (w\<lparr>w_lib := n\<rparr>))"
  using assms by (auto simp: tracks_def txn_ptr_def live_txn_def healthy_def)

lemma tracks_over:
  assumes "tracks R e wr i t S w" and "w_txns w t = Some th" and "\<not> live_txn t v" and "w_xps v = w_xps w"
    and "w_txns v t = Some th'" and "th_write th' = th_write th" and "rd_fails R"
  shows "tracks R e wr i t S v"
  using assms by (auto simp: tracks_def txn_ptr_def)

text \<open>What libmdbx's outcomes do to the grip.\<close>

lemma sees_grips:
  assumes "sees R q None n S' n'" and "rd_view R n q = Some (e, wr, S)" and "caches R S n q th"
    and "\<And>name. table_of S name \<noteq> None \<Longrightarrow> table_of S' name \<noteq> None"
  shows "grips R e wr S' n' q th"
  using assms unfolding sees_def grips_def caches_def by fastforce

lemma spoilt_grips:
  assumes "spoilt R q n S n'" and "rd_view R n q = Some (e, wr, S)" and "caches R S n q th"
  shows "grips R e wr S n' q th"
  using assms sees_grips [of R q n S n' e wr S th] by (auto simp: spoilt_def) (simp add: grips_def)

lemma blocked_grips: "rd_fails R \<Longrightarrow> rd_view R n q = None \<Longrightarrow> grips R e wr S n q th"
  by (simp add: grips_def)

lemma grips_blocked: "grips R e wr S n q th \<Longrightarrow> rd_view R n q = None \<Longrightarrow> rd_fails R"
  by (simp add: grips_def)

lemma spoilt_fails: "spoilt R q n S n' \<Longrightarrow> rd_fails R"
  by (simp add: spoilt_def)

lemma caches_dbi [simp]: "caches R S n q (th\<lparr>th_dbi := d\<rparr>) = caches R S n q th"
  by (simp add: caches_def)

lemma grips_dbi [simp]: "grips R e wr S n q (th\<lparr>th_dbi := d\<rparr>) = grips R e wr S n q th"
  by (simp add: grips_def)

text \<open>Adding, replacing and erasing a cached name.\<close>

lemma find_snoc_other: "\<not> P x \<Longrightarrow> find P (xs @ [x]) = find P xs"
  by (induction xs) simp_all

lemma cached_after: "cached_dbi th name = None \<Longrightarrow>
    cached_dbi (cache_dbi name d th) other = (if other = name then Some d else cached_dbi th other)"
  by (cases name; cases other) (auto simp: cached_dbi_def cache_dbi_def find_snoc find_snoc_other split: option.splits)

lemma named_after: "cached_dbi th name = None \<Longrightarrow> distinct (map fst (th_named th))
    \<Longrightarrow> distinct (map fst (th_named (cache_dbi name d th)))"
  by (cases name) (auto simp: cached_dbi_def cache_dbi_def find_None_iff)

lemma find_recache: "find (\<lambda>e. fst e = m) (recache n d xs) = (if m = n then Some (n, d) else find (\<lambda>e. fst e = m) xs)"
  by (induction xs) auto

lemma set_recache: "set (map fst (recache n d xs)) = insert n (set (map fst xs))"
  by (induction xs) auto

lemma distinct_recache: "distinct (map fst xs) \<Longrightarrow> distinct (map fst (recache n d xs))"
  by (induction xs) (use set_recache in \<open>auto simp del: set_map\<close>)

lemma erase_filter: "distinct (map fst xs) \<Longrightarrow> erase_name n xs = filter (\<lambda>e. fst e \<noteq> n) xs"
  by (induction xs) (auto intro!: filter_True [symmetric] simp: image_iff)

lemma find_erase:
  "distinct (map fst xs) \<Longrightarrow> find (\<lambda>e. fst e = m) (erase_name n xs) = (if m = n then None else find (\<lambda>e. fst e = m) xs)"
proof (induction xs)
  case (Cons x xs)
  from Cons.prems have "find (\<lambda>e. fst e = n) xs = None" if "fst x = n"
    using that by (auto simp: find_None_iff image_iff)
  then show ?case using Cons by auto
qed simp

lemma distinct_erase: "distinct (map fst xs) \<Longrightarrow> distinct (map fst (erase_name n xs))"
  by (simp add: erase_filter distinct_map_filter)

lemma bind_assoc: "bindM (bindM m f) g = bindM m (\<lambda>x. bindM (f x) g)"
  by (simp add: fun_eq_iff bindM_def split: prod.splits sum.splits)

lemma bind_stop: "bindM (stopM e) f = stopM e"
  by (simp add: fun_eq_iff bindM_def stopM_def)

lemma bind_return: "bindM (returnM x) f = f x"
  by (simp add: fun_eq_iff bindM_def returnM_def)

lemma stop_run: "stopM e s = (Inl e, s)"
  by (simp add: stopM_def)

lemma bind_runs: "m s = (Inr x, s') \<Longrightarrow> bindM m f s = f x s'"
  by (simp add: bindM_def)

section \<open>Guarded calls\<close>

text \<open>A function handed to the guard that calls libmdbx and goes on.\<close>

lemma guard_panics_anyhow:
  assumes "inv w" and "w_txns w t = Some th" and "th_txn th = Some q" and "txn_usable q e w"
    and "th_owner th = Some a" and "w_envs w a = Some h" and "f th q (w_lib w) = (NPanic m g l, n)"
  shows "\<exists>r. panic_wf r \<and> guard (bindM (bindM (txn_at t) (\<lambda>h. txn_call (th_txn h) (f h))) k) (Some (poison_txn t)) w
     = (Inl (panic_error m g l), panicked_txn e t th a h n r w)"
proof (rule txn_guard_panics [OF inv_calm(2) [OF assms(1)] assms(2,5,6)])
  let ?v = "kill_env e ((push_frame w)\<lparr>w_lib := n\<rparr>)"
  have "txn_call (Some q) (f th) (push_frame w) = mdbx_r_panic m g l ?v"
    by (rule txn_call_panics) (use assms in simp_all)
  then have "bindM (bindM (txn_at t) (\<lambda>h. txn_call (th_txn h) (f h))) k (push_frame w) = bindM (mdbx_r_panic m g l) k ?v"
    using assms(2,3) by (simp add: bindM_def txn_at_def fetchM_def)
  also have "\<dots> = mdbx_r_panic m g l ?v"
    by (rule panic_bind) (use inv_calm(2) [OF assms(1)] in simp_all)
  finally show "bindM (bindM (txn_at t) (\<lambda>h. txn_call (th_txn h) (f h))) k (push_frame w) = mdbx_r_panic m g l ?v" .
qed

text \<open>Either libmdbx answered, and nothing but its state changed, or it panicked, and the transaction
  is over for R.\<close>

lemma tracks_panicked:
  assumes "tracks R e wr i t S w" and "w_txns w t = Some th" and "th_owner th = Some a" and "rd_fails R"
  shows "tracks R e wr i t S (panicked_txn e' t th a h n r w)"
  by (rule tracks_over [OF assms(1,2), where th' = "th\<lparr>th_poisoned := True\<rparr>"])
    (use assms(3,4) in \<open>auto simp: panicked_txn_def live_txn_def healthy_def\<close>)

lemma failed_panic [simp]: "answer_of (Inl (panic_error m g l)) = A_failed"
  by (simp add: answer_of_def panic_error_def)

lemma failed_status [simp]: "failure (answer_of (Inl (MdbxError c)))"
  by (simp add: answer_of_def failure_def)

lemma failure_simps [simp]: "failure A_failed" "failure A_incompatible"
  by (simp_all add: failure_def)

lemma answer_incompatible [simp]: "answer_of (Inl (MdbxError (condition_of L MDBX_INCOMPATIBLE))) = A_incompatible"
  by (simp add: answer_of_def condition_of_def Let_def)

lemma guard_cases:
  assumes I: "inv w" and l: "live_txn t w" and T: "tracks R e wr i t S w"
    and g: "guard (bindM (txn_at t) (\<lambda>h. txn_call (th_txn h) (f h))) (Some (poison_txn t)) w = (r, v)"
    and calm: "\<forall>th q n. panics (f th q n) \<longrightarrow> rd_fails R"
  obtains (returned) th q x n where "w_txns w t = Some th" "th_write th = wr" "th_txn th = Some q"
      "grips R e wr S (w_lib w) q th" "f th q (w_lib w) = (NRet x, n)" "r = Inr x" "v = w\<lparr>w_lib := n\<rparr>"
  | (panicked) m g l where "r = Inl (panic_error m g l)" "tracks R e wr i t S v" "rd_fails R"
proof -
  obtain th q where t: "w_txns w t = Some th" "th_write th = wr" "th_txn th = Some q" "grips R e wr S (w_lib w) q th"
    using tracksD [OF T l] by blast
  obtain a h e' where o: "th_owner th = Some a" "w_envs w a = Some h" "txn_usable q e' w"
    using live_txn_ready [OF I l] t(1,3) by (metis option.inject)
  obtain res n where f: "f th q (w_lib w) = (res, n)" by fastforce
  show thesis
  proof (cases res)
    case (NRet x)
    then have "f th q (w_lib w) = (NRet x, n)" using f by simp
    moreover from guard_on_txn [where f = f, OF t(1,3) o(3) this, of "Some (poison_txn t)"] g
    have "r = Inr x" "v = w\<lparr>w_lib := n\<rparr>" by simp_all
    ultimately show thesis by (rule returned [OF t])
  next
    case (NPanic m g' l')
    then have "f th q (w_lib w) = (NPanic m g' l', n)" using f by simp
    from guard_on_txn_panics [where f = f, OF inv_calm(2) [OF I] t(1,3) o(3,1,2) this] g
    have "r = Inl (panic_error m g' l') \<and> (\<exists>q. v = panicked_txn e' t th a h n q w)" by auto
    moreover have "rd_fails R" using calm [THEN spec, THEN spec, THEN spec, of th q "w_lib w"] f NPanic by simp
    ultimately show thesis using panicked tracks_panicked [OF T t(1) o(1)] by blast
  qed
qed

section \<open>Resolving a table\<close>

lemma store_okD:
  assumes "store_ok L R"
  shows "L_ENOMEM L \<noteq> 0" "dbi_ok L R" "rows_ok L R" "tables_ok L R" "blocked_ok L R" "ends_ok L R" "commit_only L (rd_committed R)"
    "rd_fails R \<or> steady L"
  using assms unfolding store_ok_def by simp_all

text \<open>A panic means that the library may fail.\<close>

lemma calmD:
  assumes "store_ok L R"
  shows "panics (L_dbi_open L q name flags n) \<Longrightarrow> rd_fails R" "panics (L_get L q d k n) \<Longrightarrow> rd_fails R"
    "panics (L_put L q d k x flags n) \<Longrightarrow> rd_fails R" "panics (L_del L q d k n) \<Longrightarrow> rd_fails R"
    "panics (L_drop L q d del n) \<Longrightarrow> rd_fails R" "panics (L_tables L q n) \<Longrightarrow> rd_fails R"
    "\<not> fst (L_alloc L m n) \<Longrightarrow> rd_fails R"
  using store_okD(8) [OF assms] unfolding steady_def by (metis)+

lemma calm_drop: "store_ok L R \<Longrightarrow> \<forall>th q n. panics (L_drop L q (th_dbi th) del n) \<longrightarrow> rd_fails R"
  by (intro allI impI) (rule calmD(5))

lemma calm_dbi: "store_ok L R \<Longrightarrow> \<forall>th q n. panics (L_dbi_open L q name flags n) \<longrightarrow> rd_fails R"
  by (intro allI impI) (rule calmD(1))

lemma dbi_okD:
  assumes "store_ok L R" and "rd_view R n q = Some (e, wr, S)" and "create \<Longrightarrow> wr \<and> name \<noteq> None"
    and "L_dbi_open L q name (if create then MDBX_CREATE else MDBX_DB_DEFAULTS) n = (NRet (rc, d), n')"
  shows "if rc = MDBX_SUCCESS
         then (create \<or> table_of S name \<noteq> None) \<and> \<not> taken S name \<and> rd_name R n' q d = Some name
            \<and> sees R q None n (if table_of S name = None then set_table name Map.empty S else S) n'
         else if rc = MDBX_NOTFOUND then \<not> create \<and> table_of S name = None \<and> \<not> taken S name \<and> sees R q None n S n'
         else if rc = MDBX_INCOMPATIBLE \<and> taken S name then sees R q None n S n'
         else spoilt R q n S n'"
  using store_okD(2) [OF assms(1)] assms(2-) unfolding dbi_ok_def by blast

lemma view_wf: "store_ok L R \<Longrightarrow> rd_view R n q = Some (e, wr, S) \<Longrightarrow> store_wf S"
  using store_okD(4) unfolding tables_ok_def by blast

lemma blockedD:
  assumes "store_ok L R" and "rd_view R n q = None"
  shows "L_dbi_open L q name flags n = (NRet (rc, d), n') \<Longrightarrow> rc \<noteq> MDBX_SUCCESS \<and> rc \<noteq> MDBX_NOTFOUND \<and> rd_view R n' q = None"
    and "L_get L q d k n = (NRet (rc, x), n') \<Longrightarrow> rc \<noteq> MDBX_SUCCESS \<and> rc \<noteq> MDBX_NOTFOUND \<and> rd_view R n' q = None"
    and "L_put L q d k x flags n = (NRet rc, n') \<Longrightarrow> rc \<noteq> MDBX_SUCCESS \<and> rc \<noteq> MDBX_KEYEXIST \<and> rd_view R n' q = None"
    and "L_del L q d k n = (NRet rc, n') \<Longrightarrow> rc \<noteq> MDBX_SUCCESS \<and> rc \<noteq> MDBX_NOTFOUND \<and> rd_view R n' q = None"
    and "L_drop L q d del n = (NRet rc, n') \<Longrightarrow> rc \<noteq> MDBX_SUCCESS \<and> rd_view R n' q = None"
    and "L_tables L q n = (NRet (names, rc), n') \<Longrightarrow> names = [] \<and> rc \<noteq> MDBX_SUCCESS \<and> rc \<noteq> MDBX_RESULT_TRUE \<and> rd_view R n' q = None"
    and "L_alloc L m n = (b, n') \<Longrightarrow> rd_view R n' q = None"
    and "L_txn_commit L q n = (NRet rc, n') \<Longrightarrow> rc \<noteq> MDBX_SUCCESS"
  using store_okD(5) [OF assms(1), unfolded blocked_ok_def, THEN spec, THEN spec, THEN mp, OF assms(2)]
  by (elim conjE; simp)+

lemmas blocked_dbi = blockedD(1)

lemma ensure_uncached:
  assumes "w_txns w t = Some th" and "cached_dbi th name = None"
  shows "ensure_dbi L t name w =
    bindM (guard (dbi_call L t name MDBX_DB_DEFAULTS) (Some (poison_txn t))) (\<lambda>r.
         thenM (case name of
                  Some n \<Rightarrow> whenM (fst r = MDBX_NOTFOUND) (stop_missing_dbi t n)
                | None \<Rightarrow> returnM ())
        (thenM (check L (fst r))
        (thenM (set_txn t (cache_dbi name (snd r)))
        (thenM (set_txn t (\<lambda>h. h\<lparr>th_dbi := snd r\<rparr>))
               (returnM (snd r)))))) w"
proof -
  have "bindM (txn_at t) f w = f th w" for f :: "_ \<Rightarrow> (_, nat) mem"
    using assms(1) by (simp add: bindM_def txn_at_def fetchM_def)
  then show ?thesis using assms(2) by (simp add: ensure_dbi_def)
qed

lemma missing_run:
  assumes "inv w" and "live_txn t w"
  shows "\<exists>p. stop_missing_dbi t n (w\<lparr>w_lib := k\<rparr>) = (Inl (MissingDbi n p), w\<lparr>w_lib := k\<rparr>)"
  using assms(2) by (auto simp: stop_missing_dbi_def bindM_def txn_at_def env_at_def fetchM_def stopM_def live_txn_def)

text \<open>The three ways a call inside a transaction may leave the transaction.\<close>

lemma tracks_failed:
  assumes "tracks R e wr i t S u" and "w_txns u t = Some th" and "th_txn th = Some q" and "grips R e wr S (w_lib u) q th"
    and "rd_view R (w_lib u) q = None \<Longrightarrow> rd_view R n q = None"
    and "rd_view R (w_lib u) q = Some (e, wr, S) \<Longrightarrow> spoilt R q (w_lib u) S n \<or> sees R q None (w_lib u) S n"
  shows "tracks R e wr i t S (u\<lparr>w_lib := n\<rparr>)"
proof (rule tracks_lib [OF assms(1-3)])
  show "grips R e wr S n q th"
  proof (cases "rd_view R (w_lib u) q")
    case None
    then show ?thesis using assms(4) blocked_grips [OF _ assms(5)] by (simp add: grips_def)
  next
    case (Some z)
    then have "rd_view R (w_lib u) q = Some (e, wr, S)" "caches R S (w_lib u) q th" using assms(4) by (simp_all add: grips_def)
    then show ?thesis using assms(6) spoilt_grips [of R q "w_lib u" S n] sees_grips [of R q "w_lib u" S n] by auto
  qed
qed

text \<open>The three outcomes of resolving a table.\<close>

definition resolves :: "'n reading \<Rightarrow> nat \<Rightarrow> bool \<Rightarrow> nat \<Rightarrow> nat \<Rightarrow> store \<Rightarrow> string option \<Rightarrow> err + nat \<Rightarrow> 'n world \<Rightarrow> bool" where
  "resolves R e wr i t S name r v \<longleftrightarrow> tracks R e wr i t S v \<and> (case r of
       Inr d \<Rightarrow> live_txn t v \<and> (\<exists>th q. w_txns v t = Some th \<and> th_write th = wr \<and> th_txn th = Some q \<and> th_dbi th = d
         \<and> grips R e wr S (w_lib v) q th \<and> cached_dbi th name = Some d
         \<and> (rd_view R (w_lib v) q = Some (e, wr, S) \<longrightarrow> rd_name R (w_lib v) q d = Some name \<and> table_of S name \<noteq> None))
     | Inl x \<Rightarrow> (\<exists>n p. name = Some n \<and> x = MissingDbi n p \<and> table_of S name = None \<and> \<not> taken S name)
         \<or> answer_of (Inl x) = A_incompatible \<and> table_of S name = None \<and> taken S name
         \<or> failure (answer_of (Inl x)) \<and> rd_fails R)"

lemma dbi_resolveD:
  assumes "store_ok L R" and "rd_view R n q = Some (e, wr, S)"
    and "L_dbi_open L q name MDBX_DB_DEFAULTS n = (NRet (rc, d), n')"
  shows "if rc = MDBX_SUCCESS then table_of S name \<noteq> None \<and> rd_name R n' q d = Some name \<and> sees R q None n S n'
         else if rc = MDBX_NOTFOUND then table_of S name = None \<and> \<not> taken S name \<and> sees R q None n S n'
         else rc = MDBX_INCOMPATIBLE \<and> table_of S name = None \<and> taken S name \<and> sees R q None n S n' \<or> spoilt R q n S n'"
  using dbi_okD [where create = False, OF assms(1,2), unfolded if_False, OF _ assms(3)]
    taken_no_table [OF view_wf [OF assms(1,2)], of name] by (auto split: if_splits)

lemma resolves_cached:
  assumes l: "live_txn t w" and T: "tracks R e wr i t S w"
    and t: "w_txns w t = Some th" "th_write th = wr" "th_txn th = Some q" "grips R e wr S (w_lib w) q th"
    and hit: "cached_dbi th name = Some d"
  shows "resolves R e wr i t S name (Inr d) (put_txn t (th\<lparr>th_dbi := d\<rparr>) w)"
proof -
  have "tracks R e wr i t S (put_txn t (th\<lparr>th_dbi := d\<rparr>) (w\<lparr>w_lib := w_lib w\<rparr>))"
    by (rule tracks_put [OF T t(1)]) (use t l in simp_all)
  moreover have "live_txn t (put_txn t (th\<lparr>th_dbi := d\<rparr>) (w\<lparr>w_lib := w_lib w\<rparr>))"
    by (rule live_txn_put [OF l t(1)]) simp_all
  moreover have "rd_name R (w_lib w) q d = Some name \<and> table_of S name \<noteq> None" if "rd_view R (w_lib w) q = Some (e, wr, S)"
    using t(4) that hit by (auto simp: grips_def caches_def)
  ultimately show ?thesis using t hit by (simp add: resolves_def)
qed

lemma resolves_found:
  assumes ok: "store_ok L R" and l: "live_txn t w" and T: "tracks R e wr i t S w"
    and t: "w_txns w t = Some th" "th_write th = wr" "th_txn th = Some q" "grips R e wr S (w_lib w) q th"
    and miss: "cached_dbi th name = None"
    and ans: "L_dbi_open L q name MDBX_DB_DEFAULTS (w_lib w) = (NRet (MDBX_SUCCESS, d), n)"
  shows "resolves R e wr i t S name (Inr d) (put_txn t ((cache_dbi name d th)\<lparr>th_dbi := d\<rparr>) (w\<lparr>w_lib := n\<rparr>))"
proof -
  let ?th = "(cache_dbi name d th)\<lparr>th_dbi := d\<rparr>"
  let ?v = "put_txn t ?th (w\<lparr>w_lib := n\<rparr>)"
  have view: "rd_view R (w_lib w) q = Some (e, wr, S)" "caches R S (w_lib w) q th"
    using t(4) blocked_dbi [OF ok _ ans] by (auto simp: grips_def)
  have d: "table_of S name \<noteq> None" "rd_name R n q d = Some name" "sees R q None (w_lib w) S n"
    using dbi_resolveD [OF ok view(1) ans] by simp_all
  have "caches R S n q (cache_dbi name d th)"
    using view(2) d unfolding caches_def by (auto simp: cached_after [OF miss] named_after [OF miss] sees_def)
  moreover have "rd_view R n q = Some (e, wr, S)" using d(3) view(1) by (auto simp: sees_def)
  ultimately have gr: "grips R e wr S n q ?th" by (simp add: grips_def)
  have "tracks R e wr i t S ?v" by (rule tracks_put [OF T t(1)]) (use t gr l in simp_all)
  moreover have "live_txn t ?v" by (rule live_txn_put [OF l t(1)]) simp_all
  moreover have "cached_dbi ?th name = Some d" using cached_after [OF miss, of d name] by simp
  ultimately show ?thesis using gr d t by (simp add: resolves_def)
qed

lemma resolves_not:
  assumes ok: "store_ok L R" and T: "tracks R e wr i t S w"
    and t: "w_txns w t = Some th" "th_txn th = Some q" "grips R e wr S (w_lib w) q th"
    and ans: "L_dbi_open L q name MDBX_DB_DEFAULTS (w_lib w) = (NRet (rc, d), n)" and bad: "rc \<noteq> MDBX_SUCCESS"
  shows "tracks R e wr i t S (w\<lparr>w_lib := n\<rparr>)" and "rc = MDBX_NOTFOUND \<Longrightarrow> table_of S name = None \<and> \<not> taken S name"
    and "rc \<noteq> MDBX_NOTFOUND \<Longrightarrow> rc = MDBX_INCOMPATIBLE \<and> table_of S name = None \<and> taken S name \<or> rd_fails R"
proof -
  note law = dbi_resolveD [OF ok _ ans, of e wr S]
    and blk = blocked_dbi [OF ok _ ans]
  show "tracks R e wr i t S (w\<lparr>w_lib := n\<rparr>)"
    by (rule tracks_failed [OF T t]) (use law blk bad in \<open>auto split: if_splits\<close>)
  show "rc = MDBX_NOTFOUND \<Longrightarrow> table_of S name = None \<and> \<not> taken S name"
    using t(3) law blk bad by (auto simp: grips_def split: if_splits)
  show "rc \<noteq> MDBX_NOTFOUND \<Longrightarrow> rc = MDBX_INCOMPATIBLE \<and> table_of S name = None \<and> taken S name \<or> rd_fails R"
    using t(3) law bad by (auto simp: grips_def spoilt_def split: if_splits)
qed

lemma ensure_resolves:
  assumes ok: "store_ok L R" and I: "inv w" and l: "live_txn t w" and T: "tracks R e wr i t S w"
    and run: "ensure_dbi L t name w = (r, v)"
  shows "resolves R e wr i t S name r v"
proof -
  obtain th q where t: "w_txns w t = Some th" "th_write th = wr" "th_txn th = Some q" "grips R e wr S (w_lib w) q th"
    using tracksD [OF T l] by blast
  show ?thesis
  proof (cases "cached_dbi th name")
    case (Some d)
    then show ?thesis using ensure_dbi_cached [OF t(1) Some, of L] run resolves_cached [OF l T t] by simp
  next
    case None
    note begins = ensure_uncached [OF t(1) None, of L]
    obtain g u where g: "guard (dbi_call L t name MDBX_DB_DEFAULTS) (Some (poison_txn t)) w = (g, u)" by fastforce
    from I l T g [unfolded dbi_call_def] calm_dbi [OF ok] show ?thesis
    proof (cases rule: guard_cases)
      case (panicked m g' l')
      then show ?thesis using run g unfolding begins by (auto simp: bindM_def resolves_def)
    next
      case (returned th' q' x n)
      obtain rc d where x: "x = (rc, d)" by (cases x)
      have ans: "L_dbi_open L q name MDBX_DB_DEFAULTS (w_lib w) = (NRet (rc, d), n)" using returned t x by simp
      have after: "(r, v) = (thenM (case name of
                  Some n \<Rightarrow> whenM (rc = MDBX_NOTFOUND) (stop_missing_dbi t n)
                | None \<Rightarrow> returnM ())
        (thenM (check L rc)
        (thenM (set_txn t (cache_dbi name d))
        (thenM (set_txn t (\<lambda>h. h\<lparr>th_dbi := d\<rparr>))
               (returnM d))))) (w\<lparr>w_lib := n\<rparr>)"
        using run g returned(6,7) by (simp only: begins bind_runs x fst_conv snd_conv)
      consider (found) "rc = MDBX_SUCCESS" | (absent) k where "rc = MDBX_NOTFOUND" "name = Some k"
        | (other) "rc \<noteq> MDBX_SUCCESS" "rc \<noteq> MDBX_NOTFOUND \<or> name = None" by (cases name) auto
      then show ?thesis
      proof cases
        case found
        have "r = Inr d" "v = put_txn t ((cache_dbi name d th)\<lparr>th_dbi := d\<rparr>) (w\<lparr>w_lib := n\<rparr>)"
          using after found t(1)
          by (auto simp: check_run thenM_def bindM_def set_txn_def txn_at_def fetchM_def modifyM_def returnM_def whenM_def put_txn_def
              split: option.splits)
        then show ?thesis using resolves_found [OF ok l T t None] ans found by simp
      next
        case (absent k)
        obtain p where "stop_missing_dbi t k (w\<lparr>w_lib := n\<rparr>) = (Inl (MissingDbi k p) :: err + unit, w\<lparr>w_lib := n\<rparr>)"
          using missing_run [OF I l] by blast
        then show ?thesis using after absent resolves_not [OF ok T t(1,3,4) ans]
          by (auto simp: resolves_def thenM_def bindM_def whenM_def)
      next
        case other
        then have "r = Inl (MdbxError (condition_of L rc))" "v = w\<lparr>w_lib := n\<rparr>"
          using after by (auto simp: check_run thenM_def bindM_def whenM_def returnM_def split: option.splits)
        moreover have "rc = MDBX_NOTFOUND \<Longrightarrow> table_of S name \<noteq> None" using other(2) by (simp add: table_of_def)
        ultimately show ?thesis using resolves_not [OF ok T t(1,3,4) ans] other by (cases "rc = MDBX_NOTFOUND") (auto simp: resolves_def)
      qed
    qed
  qed
qed

lemma ensure_cases:
  assumes ok: "store_ok L R" and I: "inv w" and l: "live_txn t w" and T: "tracks R e wr i t S w"
    and run: "ensure_dbi L t name w = (r, v)"
  obtains (resolved) th q d where "r = Inr d" "tracks R e wr i t S v" "inv v" "live_txn t v" "w_txns v t = Some th"
      "th_write th = wr" "th_txn th = Some q" "th_dbi th = d" "grips R e wr S (w_lib v) q th"
      "rd_view R (w_lib v) q = Some (e, wr, S) \<Longrightarrow> rd_name R (w_lib v) q d = Some name \<and> table_of S name \<noteq> None"
      "cached_dbi th name = Some d"
  | (missing) n p where "name = Some n" "r = Inl (MissingDbi n p)" "tracks R e wr i t S v" "table_of S name = None" "\<not> taken S name"
  | (occupied) x where "r = Inl x" "answer_of (Inl x) = A_incompatible" "tracks R e wr i t S v"
      "table_of S name = None" "taken S name"
  | (failed) x where "r = Inl x" "failure (answer_of (Inl x))" "tracks R e wr i t S v" "rd_fails R"
proof -
  have "inv v" if "r = Inr d" for d
    using safeD [OF keeps_ensure_dbi [unfolded keeps_def] I l, of L name] run that by (simp add: wp_def)
  with ensure_resolves [OF assms] show thesis
    by (cases r) (auto simp: resolves_def intro: that)
qed

end
