(* ===== verification/Mdbx_Isolation.thy ===== *)
theory Mdbx_Isolation
  imports Mdbx_Tracks
begin

text \<open>
  What other calls leave alone. While a transaction is open, R can do anything with its other
  handles: open environments, run and end their transactions, let the collector work. \<open>isolated\<close>
  says of libmdbx which transactions a call can disturb; \<open>kept\<close> is what one open transaction has
  and nobody else touches. \<open>Mdbx_Bystanders\<close> shows that every other call keeps it.
\<close>

section \<open>The hypothesis on libmdbx\<close>

text \<open>A transaction is undisturbed when it sees what it saw and its table handles are good.\<close>

definition undisturbed :: "'n reading \<Rightarrow> nat \<Rightarrow> 'n \<Rightarrow> 'n \<Rightarrow> bool" where
  "undisturbed R q n n' \<longleftrightarrow> rd_view R n' q = rd_view R n q
     \<and> (\<forall>d name. rd_name R n q d = Some name \<longrightarrow> rd_name R n' q d = Some name)"

lemma undisturbed_refl [simp]: "undisturbed R q n n"
  by (simp add: undisturbed_def)

lemma undisturbed_trans: "undisturbed R q n n' \<Longrightarrow> undisturbed R q n' n'' \<Longrightarrow> undisturbed R q n n''"
  by (simp add: undisturbed_def)

text \<open>The environment of a transaction that can go on.\<close>

definition home :: "'n reading \<Rightarrow> 'n \<Rightarrow> nat \<Rightarrow> nat option" where
  "home R n q = map_option fst (rd_view R n q)"

lemma undisturbed_home: "undisturbed R q n n' \<Longrightarrow> home R n' q = home R n q"
  by (simp add: undisturbed_def home_def)

text \<open>
  A call that disturbs nobody. A call on environment \<open>e\<close>: if it returns it disturbs nobody, if it
  panics, only transactions of \<open>e\<close>. A call on transaction \<open>p\<close>: whatever it does, it disturbs at
  most the transactions of the environment \<open>p\<close> is in; and a transaction does not move to another one.
\<close>

definition quiet :: "'n reading \<Rightarrow> ('n \<Rightarrow> 'a \<times> 'n) \<Rightarrow> bool" where
  "quiet R f \<longleftrightarrow> (\<forall>n q. undisturbed R q n (snd (f n)))"

definition within_env :: "'n reading \<Rightarrow> nat \<Rightarrow> ('n \<Rightarrow> 'a nres \<times> 'n) \<Rightarrow> bool" where
  "within_env R e f \<longleftrightarrow> (\<forall>n r n' q. f n = (r, n') \<and> (\<not> panics (r, n') \<or> home R n q \<noteq> Some e) \<longrightarrow> undisturbed R q n n')"

definition within_txn :: "'n reading \<Rightarrow> nat \<Rightarrow> ('n \<Rightarrow> 'a nres \<times> 'n) \<Rightarrow> bool" where
  "within_txn R p f \<longleftrightarrow> (\<forall>n r n' q. f n = (r, n') \<longrightarrow>
       (q \<noteq> p \<and> (home R n q = None \<or> home R n q \<noteq> home R n p) \<longrightarrow> undisturbed R q n n')
     \<and> (\<not> panics (r, n') \<longrightarrow> home R n' q = home R n q \<or> home R n' q = None))"

text \<open>Closing \<open>e\<close> is the end of the transactions of \<open>e\<close>, and of no other.\<close>

definition closes :: "'n reading \<Rightarrow> nat \<Rightarrow> ('n \<Rightarrow> 'a \<times> 'n) \<Rightarrow> bool" where
  "closes R e f \<longleftrightarrow> (\<forall>n r n' q. f n = (r, n') \<and> home R n q \<noteq> Some e \<longrightarrow> undisturbed R q n n')"

text \<open>Beginning \<open>p\<close> in \<open>e\<close> is a call on \<open>e\<close>, for all transactions but \<open>p\<close>.\<close>

definition begins_ok :: "'n libmdbx \<Rightarrow> 'n reading \<Rightarrow> bool" where
  "begins_ok L R \<longleftrightarrow> (\<forall>e flags p n r n' q. L_txn_begin L e flags p n = (r, n') \<and> q \<noteq> p
     \<and> (\<not> panics (r, n') \<or> home R n q \<noteq> Some e) \<longrightarrow> undisturbed R q n n')"

definition isolated :: "'n libmdbx \<Rightarrow> 'n reading \<Rightarrow> bool" where
  "isolated L R \<longleftrightarrow> begins_ok L R
   \<and> (\<forall>m. quiet R (L_alloc L m)) \<and> quiet R (L_setup_debug L) \<and> (\<forall>e. quiet R (L_env_create L e))
   \<and> (\<forall>c k opr. quiet R (L_cursor_get L c k opr)) \<and> (\<forall>c. quiet R (L_cursor_close L c))
   \<and> (\<forall>t. quiet R (L_commit_off_thread L t))
   \<and> (\<forall>e opt v. within_env R e (L_env_set_option L e opt v)) \<and> (\<forall>e v. within_env R e (L_env_set_geometry L e v))
   \<and> (\<forall>e path flags mode. within_env R e (L_env_open L e path flags mode)) \<and> (\<forall>e. within_env R e (L_env_get_flags L e))
   \<and> (\<forall>e bits on. within_env R e (L_env_set_flags L e bits on))
   \<and> (\<forall>e force nonblock. within_env R e (L_env_sync_ex L e force nonblock)) \<and> (\<forall>e. closes R e (L_env_close L e))
   \<and> (\<forall>e. within_env R e (L_reader_check L e)) \<and> (\<forall>e. within_env R e (L_env_get_path L e))
   \<and> (\<forall>e t. within_env R e (L_env_stat_ex L e t)) \<and> (\<forall>e t. within_env R e (L_env_info_ex L e t))
   \<and> (\<forall>t. within_txn R t (L_txn_commit L t)) \<and> (\<forall>t. within_txn R t (L_txn_abort L t))
   \<and> (\<forall>t. within_txn R t (L_txn_flags L t)) \<and> (\<forall>t. within_txn R t (L_txn_id L t))
   \<and> (\<forall>t name flags. within_txn R t (L_dbi_open L t name flags)) \<and> (\<forall>t d. within_txn R t (L_dbi_stat L t d))
   \<and> (\<forall>t d inc. within_txn R t (L_dbi_sequence L t d inc)) \<and> (\<forall>t d del. within_txn R t (L_drop L t d del))
   \<and> (\<forall>t. within_txn R t (L_tables L t)) \<and> (\<forall>t d k. within_txn R t (L_get L t d k))
   \<and> (\<forall>t d k x flags. within_txn R t (L_put L t d k x flags)) \<and> (\<forall>t d k. within_txn R t (L_del L t d k))
   \<and> (\<forall>t d. within_txn R t (L_cursor_open L t d)) \<and> (\<forall>t d a b. within_txn R t (L_cmp L t d a b))"

lemma isolated_begin: "isolated L R \<Longrightarrow> begins_ok L R"
  by (simp add: isolated_def)

lemma isolated_quiet:
  assumes "isolated L R"
  shows "quiet R (L_alloc L m)" "quiet R (L_setup_debug L)" "quiet R (L_env_create L e)"
    "quiet R (L_cursor_get L c k opr)" "quiet R (L_cursor_close L c)" "quiet R (L_commit_off_thread L t)"
  using assms unfolding isolated_def by simp_all

lemma isolated_env:
  assumes "isolated L R"
  shows "within_env R e (L_env_set_option L e opt v)" "within_env R e (L_env_set_geometry L e sz)"
    "within_env R e (L_env_open L e path flags mode)" "within_env R e (L_env_get_flags L e)"
    "within_env R e (L_env_set_flags L e bits on)" "within_env R e (L_env_sync_ex L e force nonblock)"
    "within_env R e (L_reader_check L e)" "within_env R e (L_env_get_path L e)"
    "within_env R e (L_env_stat_ex L e t)" "within_env R e (L_env_info_ex L e t)"
  using assms unfolding isolated_def by simp_all

lemma isolated_close: "isolated L R \<Longrightarrow> closes R e (L_env_close L e)"
  by (simp add: isolated_def)

lemma isolated_txn:
  assumes "isolated L R"
  shows "within_txn R t (L_txn_commit L t)" "within_txn R t (L_txn_abort L t)" "within_txn R t (L_txn_flags L t)"
    "within_txn R t (L_txn_id L t)" "within_txn R t (L_dbi_open L t name flags)" "within_txn R t (L_dbi_stat L t d)"
    "within_txn R t (L_dbi_sequence L t d inc)" "within_txn R t (L_drop L t d del)" "within_txn R t (L_tables L t)"
    "within_txn R t (L_get L t d k)" "within_txn R t (L_put L t d k x flags)" "within_txn R t (L_del L t d k)"
    "within_txn R t (L_cursor_open L t d)" "within_txn R t (L_cmp L t d k x)"
  using assms unfolding isolated_def by simp_all

lemma quiet_within: "quiet R f \<Longrightarrow> within_txn R p f" "quiet R f \<Longrightarrow> within_env R e f"
  unfolding quiet_def within_txn_def within_env_def by (metis snd_conv undisturbed_home)+

section \<open>What one transaction has\<close>

text \<open>
  My transaction: its native transaction and environment, the handle, the pointer that addresses
  it, the handle's owner, the pointer's and the handle's contents, the library's state at the start; and the
  pointer that the other call is given, which is not the one to my environment.
\<close>

record 'n mine =
  my_txn :: nat
  my_env :: nat
  my_handle :: nat
  my_ptr :: nat
  my_owner :: nat
  my_xp :: xptr
  my_th :: txn_handle
  my_start :: 'n
  my_other :: nat

text \<open>The part of the handle that operations rely on.\<close>

definition same_cache :: "txn_handle \<Rightarrow> txn_handle \<Rightarrow> bool" where
  "same_cache h k \<longleftrightarrow> th_write k = th_write h \<and> th_named k = th_named h \<and> th_main_ready k = th_main_ready h
     \<and> th_main_dbi k = th_main_dbi h"

definition handles_kept :: "'n mine \<Rightarrow> 'n world \<Rightarrow> bool" where
  "handles_kept M w \<longleftrightarrow>
     (my_handle M < w_next w \<and> my_ptr M < w_next w \<and> my_owner M < w_next w \<and> my_other M < w_next w)
   \<and> w_xps w (my_ptr M) = Some (my_xp M)
   \<and> (\<forall>y p. w_xps w y = Some p \<and> xp_addr p = ATxn (my_handle M) \<longrightarrow> y = my_ptr M)
   \<and> (\<forall>p. w_xps w (my_other M) = Some p \<longrightarrow> xp_addr p \<noteq> AEnv (my_owner M))
   \<and> (\<forall>k. w_txns w (my_handle M) = Some k \<longrightarrow>
         same_cache (my_th M) k \<and> (th_txn k = Some (my_txn M) \<or> th_txn k = None))
   \<and> (\<forall>s k. w_txns w s = Some k \<and> th_txn k = Some (my_txn M) \<longrightarrow> s = my_handle M)
   \<and> (\<forall>b k. w_envs w b = Some k \<and> (eh_env k = Some (my_env M) \<or> my_handle M \<in> set (eh_live k)) \<longrightarrow> b = my_owner M)"

text \<open>
  My transaction is undisturbed as long as it may be used, and no other one of its environment is
  in use; every transaction in use is in the environment it was begun in.
\<close>

definition orderly :: "'n reading \<Rightarrow> 'n world \<Rightarrow> bool" where
  "orderly R w \<longleftrightarrow> distinct (map fst (w_usable_txns w))
   \<and> (\<forall>p e. (p, e) \<in> set (w_usable_txns w) \<longrightarrow> p < w_ids w \<and> (home R (w_lib w) p = None \<or> home R (w_lib w) p = Some e))"

definition library_kept :: "'n reading \<Rightarrow> 'n mine \<Rightarrow> 'n world \<Rightarrow> bool" where
  "library_kept R M w \<longleftrightarrow> my_txn M < w_ids w \<and> my_env M < w_ids w \<and> orderly R w
   \<and> (\<forall>e. (my_txn M, e) \<in> set (w_usable_txns w) \<longrightarrow> e = my_env M \<and> undisturbed R (my_txn M) (my_start M) (w_lib w)
        \<and> (\<forall>p. (p, e) \<in> set (w_usable_txns w) \<longrightarrow> p = my_txn M))"

definition kept :: "'n reading \<Rightarrow> 'n mine \<Rightarrow> 'n world \<Rightarrow> bool" where
  "kept R M w \<longleftrightarrow> handles_kept M w \<and> library_kept R M w"

interpretation my_handles: handle_property "handles_kept M" for M
  by unfold_locales (simp add: handles_kept_def)

interpretation in_order: native_property "orderly R" for R
  by unfold_locales (simp add: orderly_def)

interpretation my_library: native_property "library_kept R M" for R M
  by unfold_locales (simp add: library_kept_def orderly_def)

interpretation mine: boundary_property "kept R M" for R M
  by unfold_locales (simp_all add: kept_def handles_kept_def library_kept_def orderly_def)

lemma stays_both: "stays (handles_kept M) m \<Longrightarrow> stays (library_kept R M) m \<Longrightarrow> stays (kept R M) m"
  unfolding stays_def kept_def wp_def by (auto split: prod.splits sum.splits)

section \<open>Calls into libmdbx\<close>

lemma orderlyD:
  assumes "orderly R w"
  shows "distinct (map fst (w_usable_txns w))" "\<And>p e. (p, e) \<in> set (w_usable_txns w) \<Longrightarrow> p < w_ids w"
    "\<And>p e. (p, e) \<in> set (w_usable_txns w) \<Longrightarrow> home R (w_lib w) p = None \<or> home R (w_lib w) p = Some e"
  using assms unfolding orderly_def by blast+

lemma library_keptD:
  assumes "library_kept R M w"
  shows "my_txn M < w_ids w" "my_env M < w_ids w" "orderly R w"
    "\<And>e. (my_txn M, e) \<in> set (w_usable_txns w) \<Longrightarrow> e = my_env M"
    "\<And>e. (my_txn M, e) \<in> set (w_usable_txns w) \<Longrightarrow> undisturbed R (my_txn M) (my_start M) (w_lib w)"
    "\<And>p e. (my_txn M, e) \<in> set (w_usable_txns w) \<Longrightarrow> (p, e) \<in> set (w_usable_txns w) \<Longrightarrow> p = my_txn M"
  using assms unfolding library_kept_def by blast+

text \<open>The general step: some transactions stop being usable, and those left are at home, mine undisturbed.\<close>

lemma orderly_step:
  assumes "orderly R w" and "w_ids v = w_ids w" and "w_usable_txns v = filter F (w_usable_txns w)"
    and "\<And>p e. (p, e) \<in> set (w_usable_txns w) \<Longrightarrow> F (p, e) \<Longrightarrow> home R (w_lib v) p = home R (w_lib w) p \<or> home R (w_lib v) p = None"
  shows "orderly R v"
proof -
  note K = orderlyD [OF assms(1)]
  have "home R (w_lib v) p = None \<or> home R (w_lib v) p = Some e" if "(p, e) \<in> set (w_usable_txns w)" "F (p, e)" for p e
    using K(3) assms(4) that by metis
  then show ?thesis using K(1,2) unfolding orderly_def assms(2,3) by (auto simp: distinct_map_filter)
qed

lemma library_kept_step:
  assumes "library_kept R M w" and "w_ids v = w_ids w" and "w_usable_txns v = filter F (w_usable_txns w)"
    and "\<And>p e. (p, e) \<in> set (w_usable_txns w) \<Longrightarrow> F (p, e) \<Longrightarrow> home R (w_lib v) p = home R (w_lib w) p \<or> home R (w_lib v) p = None"
    and "(my_txn M, my_env M) \<in> set (w_usable_txns w) \<Longrightarrow> F (my_txn M, my_env M) \<Longrightarrow> undisturbed R (my_txn M) (w_lib w) (w_lib v)"
  shows "library_kept R M v"
proof -
  note K = library_keptD [OF assms(1)]
  have "orderly R v" by (rule orderly_step [OF K(3) assms(2-4)])
  moreover have "undisturbed R (my_txn M) (my_start M) (w_lib v)" if "(my_txn M, e) \<in> set (w_usable_txns w)" "F (my_txn M, e)" for e
    using K(4,5) [OF that(1)] that assms(5) undisturbed_trans by metis
  ultimately show ?thesis
    using K(1,2,4,6) unfolding library_kept_def assms(2,3) by auto
qed

lemma library_kept_same:
  assumes "library_kept R M w" and "w_ids v = w_ids w" and "w_usable_txns v = w_usable_txns w"
    and "\<And>p. home R (w_lib v) p = home R (w_lib w) p \<or> home R (w_lib v) p = None"
    and "(my_txn M, my_env M) \<in> set (w_usable_txns w) \<Longrightarrow> undisturbed R (my_txn M) (w_lib w) (w_lib v)"
  shows "library_kept R M v"
  by (rule library_kept_step [where F = "\<lambda>_. True", OF assms(1,2)]) (use assms(3-) in simp_all)

lemma stays_quiet_native:
  assumes "quiet R f" and "damage = id \<or> damage = kill_env e"
  shows "stays (library_kept R M) (native damage f)"
proof (rule my_library.native_panics)
  fix w n m g l
  assume K: "library_kept R M w" and f: "f (w_lib w) = (NPanic m g l, n)"
  have q: "undisturbed R p (w_lib w) n" for p using assms(1) f by (metis quiet_def snd_conv)
  have u: "w_usable_txns (damage (w\<lparr>w_lib := n\<rparr>)) = filter (if damage = id then \<lambda>_. True else (\<lambda>p. snd p \<noteq> e)) (w_usable_txns w)"
    "w_ids (damage (w\<lparr>w_lib := n\<rparr>)) = w_ids w" "w_lib (damage (w\<lparr>w_lib := n\<rparr>)) = n"
    using assms(2) by auto
  show "library_kept R M (damage (w\<lparr>w_lib := n\<rparr>))"
    by (rule library_kept_step [OF K u(2,1)]) (use undisturbed_home [OF q] q u(3) in auto)
next
  fix w n r
  assume K: "library_kept R M w" and f: "f (w_lib w) = (NRet r, n)"
  have q: "undisturbed R p (w_lib w) n" for p using assms(1) f by (metis quiet_def snd_conv)
  show "library_kept R M (w\<lparr>w_lib := n\<rparr>)"
    by (rule library_kept_same [OF K]) (use undisturbed_home [OF q] q in simp_all)
qed

lemma stays_off_thread_kept:
  assumes "quiet R f"
  shows "stays (library_kept R M) (off_thread f)"
proof (rule stays_off_thread)
  fix w r n
  assume K: "library_kept R M w" and "f (w_lib w) = (r, n)"
  then have "undisturbed R q (w_lib w) n" for q using assms by (metis quiet_def snd_conv)
  then show "library_kept R M (w\<lparr>w_lib := n\<rparr>)"
    by (intro library_kept_same [OF K]) (auto dest: undisturbed_home)
qed

lemma stays_alloc_kept: "quiet R (L_alloc L m) \<Longrightarrow> stays (library_kept R M) (allocM L m)"
proof -
  assume Q: "quiet R (L_alloc L m)"
  show ?thesis
    unfolding stays_def
  proof (intro allI impI)
    fix w assume K: "library_kept R M w"
    obtain ok n where n: "L_alloc L m (w_lib w) = (ok, n)" by fastforce
    then have q: "undisturbed R p (w_lib w) n" for p using Q by (metis quiet_def snd_conv)
    have "library_kept R M (w\<lparr>w_lib := n\<rparr>)"
      by (rule library_kept_same [OF K]) (use undisturbed_home [OF q] q in simp_all)
    then show "wp (allocM L m) (\<lambda>_. library_kept R M) (\<lambda>_. library_kept R M) w" using n by (simp add: wp_def allocM_def)
  qed
qed

text \<open>A call on an environment.\<close>

lemma stays_env_native:
  assumes "within_env R e f"
  shows "stays (library_kept R M) (native (kill_env e) f)"
proof (rule my_library.native_panics)
  fix w n r
  assume K: "library_kept R M w" and f: "f (w_lib w) = (NRet r, n)"
  have q: "undisturbed R p (w_lib w) n" for p using assms f unfolding within_env_def by (metis panics_simps(2))
  show "library_kept R M (w\<lparr>w_lib := n\<rparr>)"
    by (rule library_kept_same [OF K]) (use undisturbed_home [OF q] q in simp_all)
next
  fix w n m g l
  assume K: "library_kept R M w" and f: "f (w_lib w) = (NPanic m g l, n)"
  have q: "undisturbed R p (w_lib w) n" if "home R (w_lib w) p \<noteq> Some e" for p
    using assms f that by (simp add: within_env_def)
  have q': "undisturbed R p (w_lib w) n" if "(p, d) \<in> set (w_usable_txns w)" "d \<noteq> e" for p d
    using orderlyD(3) [OF library_keptD(3) [OF K] that(1)] that(2) q by auto
  have same: "home R n p = home R (w_lib w) p" if "(p, d) \<in> set (w_usable_txns w)" "d \<noteq> e" for p d
    by (rule undisturbed_home [OF q' [OF that]])
  show "library_kept R M (kill_env e (w\<lparr>w_lib := n\<rparr>))"
    by (rule library_kept_step [OF K, where F = "\<lambda>p. snd p \<noteq> e"]) (use same q' in auto)
qed

lemma stays_env_call: "(\<And>e. within_env R e (f e)) \<Longrightarrow> stays (library_kept R M) (env_call p f)"
  unfolding env_call_def by (intro stays_rules stays_env_native)

text \<open>An environment is closed only when no transaction of it may be used.\<close>

lemma panic_stops: "\<exists>e v. mdbx_r_panic m g l w = (Inl e, v) \<and> (v = w \<or> (\<exists>q. v = w\<lparr>w_last_panic := q\<rparr>))"
  by (auto simp: mdbx_r_panic_def bindM_def getsM_def stopM_def thenM_def modifyM_def split: list.splits option.splits)

lemma panic_wp: "P w \<Longrightarrow> (\<And>v q. P v \<Longrightarrow> P (v\<lparr>w_last_panic := q\<rparr>)) \<Longrightarrow> wp (mdbx_r_panic m g l) (\<lambda>_. P) (\<lambda>_. P) w"
  by (auto simp: mdbx_r_panic_def wp_simps split: list.splits option.splits)

lemma env_close_wp:
  assumes "P w" and "\<And>x n. e \<notin> snd ` set (w_usable_txns w) \<Longrightarrow> L_env_close L e (w_lib w) = (x, n) \<Longrightarrow> P (w\<lparr>w_lib := n\<rparr>)"
    and "\<And>v. P v \<Longrightarrow> P (kill_env e v)" and "\<And>v q. P v \<Longrightarrow> P (v\<lparr>w_last_panic := q\<rparr>)"
  shows "wp (env_close_call L (Some e)) (\<lambda>_. P) (\<lambda>_. P) w"
proof (cases "e \<in> snd ` set (w_usable_txns w) \<or> e \<notin> set (w_usable_envs w)")
  case True
  then show ?thesis using assms(1) by (auto simp: env_close_call_def env_call_def wp_simps)
next
  case False
  obtain x n where x: "L_env_close L e (w_lib w) = (x, n)" by fastforce
  have P: "P (w\<lparr>w_lib := n\<rparr>)" "P (kill_env e (w\<lparr>w_lib := n\<rparr>))" using assms(2) [OF _ x] assms(3) False by simp_all
  show ?thesis
  proof (cases x)
    case (NPanic m g l)
    obtain z v where "mdbx_r_panic m g l (kill_env e (w\<lparr>w_lib := n\<rparr>)) = (Inl z :: err + int, v)"
        "v = kill_env e (w\<lparr>w_lib := n\<rparr>) \<or> (\<exists>q. v = kill_env e (w\<lparr>w_lib := n\<rparr>)\<lparr>w_last_panic := q\<rparr>)"
      using panic_stops by metis
    then show ?thesis
      using NPanic x False P assms(4) by (auto simp: env_close_call_def env_call_def native_def wp_def bindM_def getsM_def)
  qed (use P x False in \<open>simp add: env_close_call_def env_call_def native_def wp_def bindM_def thenM_def whenM_def modifyM_def
      returnM_def getsM_def\<close>)
qed

lemma closed_undisturbed:
  assumes "closes R e f" and "orderly R w" and "e \<notin> snd ` set (w_usable_txns w)" and "f (w_lib w) = (x, n)"
    and "(q, d) \<in> set (w_usable_txns w)"
  shows "undisturbed R q (w_lib w) n"
proof -
  have "d \<noteq> e" using assms(3,5) by force
  then have "home R (w_lib w) q \<noteq> Some e" using orderlyD(3) [OF assms(2,5)] by auto
  then show ?thesis using assms(1,4) unfolding closes_def by blast
qed

lemma library_closes:
  assumes "\<And>e. closes R e (L_env_close L e)"
  shows "stays (library_kept R M) (env_close_call L p)"
proof (cases p)
  case (Some e)
  have "wp (env_close_call L (Some e)) (\<lambda>_. library_kept R M) (\<lambda>_. library_kept R M) w" if K: "library_kept R M w" for w
  proof (rule env_close_wp [OF K _ _ my_library.ignores_panic])
    fix x n
    note und = closed_undisturbed [OF assms library_keptD(3) [OF K]]
    assume c: "e \<notin> snd ` set (w_usable_txns w)" "L_env_close L e (w_lib w) = (x, n)"
    show "library_kept R M (w\<lparr>w_lib := n\<rparr>)"
      by (rule library_kept_step [OF K, where F = "\<lambda>_. True"]) (use undisturbed_home [OF und [OF c]] und [OF c] in auto)
  next
    show "library_kept R M (kill_env e v)" if "library_kept R M v" for v
      by (rule library_kept_step [OF that, where F = "\<lambda>x. snd x \<noteq> e"]) simp_all
  qed
  then show ?thesis by (simp add: stays_def Some)
qed (simp add: env_close_call_def stays_rules)

lemma orderly_closes:
  assumes "\<And>e. closes R e (L_env_close L e)"
  shows "stays (orderly R) (env_close_call L p)"
proof (cases p)
  case (Some e)
  have "wp (env_close_call L (Some e)) (\<lambda>_. orderly R) (\<lambda>_. orderly R) w" if K: "orderly R w" for w
  proof (rule env_close_wp [OF K _ _ in_order.ignores_panic])
    fix x n
    assume c: "e \<notin> snd ` set (w_usable_txns w)" "L_env_close L e (w_lib w) = (x, n)"
    show "orderly R (w\<lparr>w_lib := n\<rparr>)"
      by (rule orderly_step [OF K, where F = "\<lambda>_. True"]) (use undisturbed_home [OF closed_undisturbed [OF assms K c]] in auto)
  next
    show "orderly R (kill_env e v)" if "orderly R v" for v
      by (rule orderly_step [OF that, where F = "\<lambda>x. snd x \<noteq> e"]) simp_all
  qed
  then show ?thesis by (simp add: stays_def Some)
qed (simp add: env_close_call_def stays_rules)

text \<open>A call on another transaction.\<close>

lemma other_txn_undisturbed:
  assumes K: "orderly R w" and f: "within_txn R p f" "f (w_lib w) = (r, n)"
    and p: "(p, e) \<in> set (w_usable_txns w)" and d: "(s, d) \<in> set (w_usable_txns w)" "d \<noteq> e"
  shows "undisturbed R s (w_lib w) n"
proof -
  have "s \<noteq> p" using eq_key_imp_eq_value [OF orderlyD(1) [OF K] p] d by metis
  moreover have "home R (w_lib w) s = None \<or> home R (w_lib w) s \<noteq> home R (w_lib w) p"
    using orderlyD(3) [OF K p] orderlyD(3) [OF K d(1)] d(2) by auto
  ultimately show ?thesis using f unfolding within_txn_def by blast
qed

text \<open>What holds after a call on \<open>p\<close>, whichever way it ends.\<close>

lemma txn_call_wp:
  assumes "\<And>e x n. (p, e) \<in> set (w_usable_txns w) \<Longrightarrow> f p (w_lib w) = (NRet x, n) \<Longrightarrow> P (w\<lparr>w_lib := n\<rparr>)"
    and "\<And>e m g l n. (p, e) \<in> set (w_usable_txns w) \<Longrightarrow> f p (w_lib w) = (NPanic m g l, n) \<Longrightarrow> P (kill_env e (w\<lparr>w_lib := n\<rparr>))"
    and "P w" and "\<And>v q. P v \<Longrightarrow> P (v\<lparr>w_last_panic := q\<rparr>)"
  shows "wp (txn_call (Some p) f) (\<lambda>_. P) (\<lambda>_. P) w"
proof (cases "map_of (w_usable_txns w) p")
  case (Some e)
  then have e: "(p, e) \<in> set (w_usable_txns w)" by (rule map_of_SomeD)
  obtain x n where x: "f p (w_lib w) = (x, n)" by fastforce
  show ?thesis
  proof (cases x)
    case (NPanic m g l)
    have "P (kill_env e (w\<lparr>w_lib := n\<rparr>))" using assms(2) [OF e] x NPanic by simp
    then have "wp (mdbx_r_panic m g l) (\<lambda>_. P) (\<lambda>_. P) (kill_env e (w\<lparr>w_lib := n\<rparr>))"
      by (rule panic_wp [where P = P]) (rule assms(4))
    then show ?thesis using NPanic x Some by (simp add: txn_call_def native_def wp_def bindM_def getsM_def)
  qed (use assms(1) [OF e] x Some in \<open>simp add: txn_call_def native_def wp_def bindM_def getsM_def\<close>)
qed (use assms(3) in \<open>simp add: txn_call_def wp_simps\<close>)

lemma orderly_txn_call:
  assumes f: "\<And>p. within_txn R p (f p)"
  shows "stays (orderly R) (txn_call r f)"
proof (cases r)
  case (Some p)
  have "wp (txn_call (Some p) f) (\<lambda>_. orderly R) (\<lambda>_. orderly R) w" if K: "orderly R w" for w
  proof (rule txn_call_wp [OF _ _ K in_order.ignores_panic])
    fix e x n
    assume "f p (w_lib w) = (NRet x, n)"
    then have "home R n s = home R (w_lib w) s \<or> home R n s = None" for s
      using f [of p] by (simp add: within_txn_def)
    then show "orderly R (w\<lparr>w_lib := n\<rparr>)" by (intro orderly_step [OF K, where F = "\<lambda>_. True"]) simp_all
  next
    fix e m g l n
    assume e: "(p, e) \<in> set (w_usable_txns w)" and x: "f p (w_lib w) = (NPanic m g l, n)"
    have same: "home R n s = home R (w_lib w) s" if "(s, d) \<in> set (w_usable_txns w)" "d \<noteq> e" for s d
      by (rule undisturbed_home [OF other_txn_undisturbed [OF K f x e that]])
    show "orderly R (kill_env e (w\<lparr>w_lib := n\<rparr>))"
      by (rule orderly_step [OF K, where F = "\<lambda>p. snd p \<noteq> e"]) (use same in auto)
  qed
  then show ?thesis by (simp add: stays_def Some)
qed (simp add: txn_call_def stays_rules)

lemma stays_txn_call:
  assumes f: "\<And>p. within_txn R p (f p)" and o: "r \<noteq> Some (my_txn M)"
  shows "stays (library_kept R M) (txn_call r f)"
proof (cases r)
  case (Some p)
  have "wp (txn_call (Some p) f) (\<lambda>_. library_kept R M) (\<lambda>_. library_kept R M) w" if K: "library_kept R M w" for w
  proof (rule txn_call_wp [OF _ _ K my_library.ignores_panic])
    have mine: "my_env M \<noteq> e" if "(p, e) \<in> set (w_usable_txns w)" "(my_txn M, my_env M) \<in> set (w_usable_txns w)" for e
      using library_keptD(6) [OF K that(2)] that(1) o Some by auto
    note und = other_txn_undisturbed [OF library_keptD(3) [OF K] f]
    fix e
    assume e: "(p, e) \<in> set (w_usable_txns w)"
    show "library_kept R M (w\<lparr>w_lib := n\<rparr>)" if x: "f p (w_lib w) = (NRet x, n)" for x n
    proof -
      have "home R n s = home R (w_lib w) s \<or> home R n s = None" for s using f [of p] x by (simp add: within_txn_def)
      then show ?thesis by (intro library_kept_same [OF K]) (use und [OF x e] mine [OF e] in simp_all)
    qed
    show "library_kept R M (kill_env e (w\<lparr>w_lib := n\<rparr>))" if x: "f p (w_lib w) = (NPanic m g l, n)" for m g l n
    proof -
      have same: "home R n s = home R (w_lib w) s" if "(s, d) \<in> set (w_usable_txns w)" "d \<noteq> e" for s d
        by (rule undisturbed_home [OF und [OF x e that]])
      show ?thesis
        by (rule library_kept_step [OF K, where F = "\<lambda>p. snd p \<noteq> e"]) (use same und [OF x e] mine [OF e] in auto)
    qed
  qed
  then show ?thesis by (simp add: stays_def Some)
qed (simp add: txn_call_def stays_rules)

section \<open>Beginning another transaction\<close>

text \<open>In another environment: a new native transaction, which is not mine.\<close>

definition yields :: "('s \<Rightarrow> bool) \<Rightarrow> ('e, 's, 'a) sem \<Rightarrow> ('a \<Rightarrow> bool) \<Rightarrow> bool" where
  "yields P m Q \<longleftrightarrow> (\<forall>s. P s \<longrightarrow> wp m (\<lambda>x s. P s \<and> Q x) (\<lambda>_. P) s)"

lemma yields_bind: "yields P m Q \<Longrightarrow> (\<And>x. Q x \<Longrightarrow> yields P (f x) T) \<Longrightarrow> yields P (bindM m f) T"
  unfolding yields_def wp_bind by (blast intro: wp_mono)

lemma stays_yields: "yields P m Q \<Longrightarrow> (\<And>x. Q x \<Longrightarrow> stays P (f x)) \<Longrightarrow> stays P (bindM m f)"
  unfolding yields_def stays_def wp_bind by (blast intro: wp_mono)

lemma yields_after: "stays P m \<Longrightarrow> (\<And>x. yields P (f x) T) \<Longrightarrow> yields P (bindM m f) T"
  unfolding yields_def stays_def wp_bind by (blast intro: wp_mono)

lemma yields_then: "stays P m \<Longrightarrow> yields P k T \<Longrightarrow> yields P (thenM m k) T"
  unfolding thenM_def by (rule yields_after)

lemma yields_basic: "Q x \<Longrightarrow> yields P (returnM x) Q" "yields P (stopM e) Q"
  by (simp_all add: yields_def wp_simps)

lemma yields_unwind: "yields P m Q \<Longrightarrow> stays P c \<Longrightarrow> yields P (unwindM m c) Q"
  unfolding yields_def stays_def wp_unwind by (blast intro: wp_mono)

lemma yields_stays: "yields P m Q \<Longrightarrow> stays P m"
  unfolding yields_def stays_def by (blast intro: wp_mono)

lemma yields_guard:
  assumes "yields (kept R M) f Q" and "stays (kept R M) (run_poison poison)"
  shows "yields (kept R M) (guard f poison) Q"
  unfolding yields_def
proof (intro allI impI)
  fix w assume K: "kept R M w"
  let ?K = "kept R M"
  have "?K (push_frame w)" using mine.ignores_guard [OF K] by (simp add: push_frame_def)
  then have "wp f (\<lambda>x s. ?K s \<and> Q x) (\<lambda>_. ?K) (push_frame w)" using assms(1) by (simp add: yields_def)
  then have "wp (mdbx_r_run_guarded f poison) (\<lambda>r s. ?K s \<and> (case r of GuardOk x \<Rightarrow> Q x | GuardPanic p \<Rightarrow> True)) (\<lambda>_. ?K) w"
    by (intro wp_run_guarded; elim wp_mono)
      (auto simp: set_guard_def mine.ignores_guard intro: wp_mono [OF staysD [OF assms(2)]])
  then show "wp (guard f poison) (\<lambda>x s. ?K s \<and> Q x) (\<lambda>_. ?K) w"
    unfolding guard_def wp_bind
    by (elim wp_mono) (auto simp: wp_simps stop_after_panic_def split: guard_result.splits)
qed

lemma txn_begin_wp:
  assumes "\<And>m g l n. L_txn_begin L e flags (w_ids w) (w_lib w) = (NPanic m g l, n) \<Longrightarrow> P (kill_env e (w\<lparr>w_lib := n\<rparr>))"
    and "\<And>rc n. L_txn_begin L e flags (w_ids w) (w_lib w) = (NRet rc, n) \<Longrightarrow> P (w\<lparr>w_lib := n\<rparr>)"
    and "\<And>n. L_txn_begin L e flags (w_ids w) (w_lib w) = (NRet MDBX_SUCCESS, n) \<Longrightarrow> P (txn_created e (w\<lparr>w_lib := n\<rparr>))"
    and "P w" and "\<And>v q. P v \<Longrightarrow> P (v\<lparr>w_last_panic := q\<rparr>)"
  shows "wp (txn_begin_call L (Some e) flags) (\<lambda>r v. P v \<and> (snd r = None \<or> snd r = Some (w_ids w))) (\<lambda>_. P) w"
proof (cases "e \<in> set (w_usable_envs w)")
  case True
  obtain x n where x: "L_txn_begin L e flags (w_ids w) (w_lib w) = (x, n)" by fastforce
  show ?thesis
  proof (cases x)
    case (NPanic m g l)
    then have "P (kill_env e (w\<lparr>w_lib := n\<rparr>))" using assms(1) x by simp
    moreover obtain z v where "mdbx_r_panic m g l (kill_env e (w\<lparr>w_lib := n\<rparr>)) = (Inl z :: err + int, v)"
        "v = kill_env e (w\<lparr>w_lib := n\<rparr>) \<or> (\<exists>q. v = kill_env e (w\<lparr>w_lib := n\<rparr>)\<lparr>w_last_panic := q\<rparr>)"
      using panic_stops by metis
    ultimately show ?thesis
      using NPanic x True assms(5) by (auto simp: txn_begin_call_def env_call_def native_def wp_def bindM_def getsM_def)
  next
    case (NRet rc)
    then show ?thesis
      using x True assms(2,3)
      by (auto simp: txn_begin_call_def env_call_def native_def wp_def bindM_def getsM_def thenM_def modifyM_def returnM_def)
  qed
qed (use assms(4) in \<open>simp add: txn_begin_call_def env_call_def wp_simps\<close>)

text \<open>In what order the transactions in use are afterwards.\<close>

lemma begins_undisturbed:
  assumes "isolated L R" and "L_txn_begin L e flags (w_ids w) (w_lib w) = (x, n)" and "orderly R w"
    and "(q, d) \<in> set (w_usable_txns w)" and "\<not> panics (x, n) \<or> d \<noteq> e"
  shows "undisturbed R q (w_lib w) n"
proof -
  have "q \<noteq> w_ids w" "home R (w_lib w) q = None \<or> home R (w_lib w) q = Some d"
    using orderlyD(2,3) [OF assms(3,4)] by simp_all
  then have "L_txn_begin L e flags (w_ids w) (w_lib w) = (x, n) \<and> q \<noteq> w_ids w \<and> (\<not> panics (x, n) \<or> home R (w_lib w) q \<noteq> Some e)"
    using assms(2,5) by auto
  then show ?thesis using isolated_begin [OF assms(1)] unfolding begins_ok_def by blast
qed

lemma orderly_begins:
  assumes "isolated L R" and "ends_ok L R"
  shows "stays (orderly R) (txn_begin_call L p flags)"
proof (cases p)
  case (Some e)
  have "wp (txn_begin_call L (Some e) flags) (\<lambda>r v. orderly R v \<and> (snd r = None \<or> snd r = Some (w_ids w))) (\<lambda>_. orderly R) w"
    if K: "orderly R w" for w
  proof (rule txn_begin_wp [OF _ _ _ K in_order.ignores_panic])
    note und = begins_undisturbed [OF assms(1) _ K]
    show "orderly R (kill_env e (w\<lparr>w_lib := n\<rparr>))" if "L_txn_begin L e flags (w_ids w) (w_lib w) = (NPanic m g l, n)" for m g l n
      by (rule orderly_step [OF K, where F = "\<lambda>p. snd p \<noteq> e"]) (use undisturbed_home [OF und [OF that]] in auto)
    show ends: "orderly R (w\<lparr>w_lib := n\<rparr>)" if "L_txn_begin L e flags (w_ids w) (w_lib w) = (NRet rc, n)" for rc n
      by (rule orderly_step [OF K, where F = "\<lambda>_. True"]) (use undisturbed_home [OF und [OF that]] in auto)
    show "orderly R (txn_created e (w\<lparr>w_lib := n\<rparr>))" if x: "L_txn_begin L e flags (w_ids w) (w_lib w) = (NRet MDBX_SUCCESS, n)" for n
    proof -
      have "home R n (w_ids w) = Some e" using assms(2) x by (simp add: ends_ok_def home_def)
      then show ?thesis using orderlyD [OF ends [OF x]] unfolding orderly_def by (fastforce simp: txn_created_def)
    qed
  qed
  then show ?thesis unfolding stays_def Some by (blast intro: wp_mono)
qed (simp add: txn_begin_call_def env_call_def stays_def wp_simps)

lemma library_begins:
  assumes "isolated L R" and "ends_ok L R" and o: "p \<noteq> Some (my_env M)"
  shows "yields (library_kept R M) (txn_begin_call L p flags) (\<lambda>r. snd r \<noteq> Some (my_txn M))"
proof (cases p)
  case (Some e)
  have other: "e \<noteq> my_env M" using o Some by simp
  let ?K = "library_kept R M"
  have "wp (txn_begin_call L (Some e) flags) (\<lambda>r v. ?K v \<and> (snd r = None \<or> snd r = Some (w_ids w))) (\<lambda>_. ?K) w" if K: "?K w" for w
  proof (rule txn_begin_wp [OF _ _ _ K my_library.ignores_panic])
    note und = begins_undisturbed [OF assms(1) _ library_keptD(3) [OF K]]
    show "?K (kill_env e (w\<lparr>w_lib := n\<rparr>))" if "L_txn_begin L e flags (w_ids w) (w_lib w) = (NPanic m g l, n)" for m g l n
      by (rule library_kept_step [OF K, where F = "\<lambda>p. snd p \<noteq> e"])
        (use undisturbed_home [OF und [OF that]] und [OF that] in auto)
    show ends: "?K (w\<lparr>w_lib := n\<rparr>)" if "L_txn_begin L e flags (w_ids w) (w_lib w) = (NRet rc, n)" for rc n
      by (rule library_kept_step [OF K, where F = "\<lambda>_. True"]) (use undisturbed_home [OF und [OF that]] und [OF that] in auto)
    show "?K (txn_created e (w\<lparr>w_lib := n\<rparr>))" if x: "L_txn_begin L e flags (w_ids w) (w_lib w) = (NRet MDBX_SUCCESS, n)" for n
    proof -
      note E = library_keptD [OF ends [OF x]]
      have "home R n (w_ids w) = Some e" using assms(2) x by (simp add: ends_ok_def home_def)
      then have "orderly R (txn_created e (w\<lparr>w_lib := n\<rparr>))"
        using orderlyD [OF E(3)] unfolding orderly_def by (fastforce simp: txn_created_def)
      then show ?thesis using E(1,2,4-6) other unfolding library_kept_def by (auto simp: txn_created_def)
    qed
  qed
  then show ?thesis
    using library_keptD(1) by (fastforce simp: yields_def Some elim!: wp_mono)
qed (simp add: txn_begin_call_def env_call_def yields_def wp_simps library_kept_def)

section \<open>Everybody keeps the order\<close>

lemma orderly_same: "orderly R w \<Longrightarrow> (\<And>q. undisturbed R q (w_lib w) n) \<Longrightarrow> orderly R (w\<lparr>w_lib := n\<rparr>)"
  by (rule orderly_step [where F = "\<lambda>_. True"]) (simp_all, blast dest: undisturbed_home)

lemma orderly_quiet:
  assumes "quiet R f"
  shows "stays (orderly R) (native (\<lambda>w. w) f)"
proof -
  have "undisturbed R q n m" if "f n = (r, m)" for q n m r using assms that by (metis quiet_def snd_conv)
  then show ?thesis by (intro in_order.native_panics) (blast intro: orderly_same)+
qed

lemma orderly_off_thread: "quiet R f \<Longrightarrow> stays (orderly R) (off_thread f)"
  by (rule stays_off_thread, rule orderly_same) (auto simp: quiet_def, metis snd_conv)

lemma orderly_alloc: "quiet R (L_alloc L m) \<Longrightarrow> stays (orderly R) (allocM L m)"
  by (auto simp: stays_def wp_def allocM_def quiet_def intro!: orderly_same split: prod.splits sum.splits) (metis snd_conv)

lemma orderly_env_call:
  assumes "\<And>e. within_env R e (f e)"
  shows "stays (orderly R) (env_call p f)"
proof -
  have "stays (orderly R) (native (kill_env e) (f e))" for e
  proof (rule in_order.native_panics)
    fix w n r
    assume "orderly R w" and "f e (w_lib w) = (NRet r, n)"
    then show "orderly R (w\<lparr>w_lib := n\<rparr>)" using assms [of e] unfolding within_env_def by (metis orderly_same panics_simps(2))
  next
    fix w n m g l
    assume K: "orderly R w" and f: "f e (w_lib w) = (NPanic m g l, n)"
    have "home R n q = home R (w_lib w) q" if "(q, d) \<in> set (w_usable_txns w)" "d \<noteq> e" for q d
    proof (rule undisturbed_home)
      have "home R (w_lib w) q \<noteq> Some e" using orderlyD(3) [OF K that(1)] that(2) by auto
      then show "undisturbed R q (w_lib w) n" using assms [of e] f unfolding within_env_def by blast
    qed
    then show "orderly R (kill_env e (w\<lparr>w_lib := n\<rparr>))"
      by (intro orderly_step [OF K, where F = "\<lambda>q. snd q \<noteq> e"]) auto
  qed
  then show ?thesis unfolding env_call_def by (intro stays_rules)
qed

lemma orderly_fewer: "stays (orderly R) (modifyM (txn_ended q))" "stays (orderly R) (modifyM (kill_env e))"
  "stays (orderly R) (modifyM env_created)"
proof -
  have "orderly R (txn_ended q w)" if "orderly R w" for w
    by (rule orderly_step [OF that, where F = "\<lambda>x. fst x \<noteq> q"]) (simp_all add: txn_ended_def)
  then show "stays (orderly R) (modifyM (txn_ended q))" by (simp add: stays_def wp_modify)
  have "orderly R (kill_env e w)" if "orderly R w" for w
    by (rule orderly_step [OF that, where F = "\<lambda>x. snd x \<noteq> e"]) simp_all
  then show "stays (orderly R) (modifyM (kill_env e))" by (simp add: stays_def wp_modify)
  show "stays (orderly R) (modifyM env_created)"
    by (auto simp: stays_def wp_modify orderly_def env_created_def less_Suc_eq)
qed

theorem orderly_whole:
  assumes "isolated L R" and "ends_ok L R"
  shows "whole_property (orderly R) L"
  by unfold_locales
    (rule orderly_alloc orderly_off_thread orderly_quiet orderly_fewer orderly_begins [OF assms] orderly_closes orderly_env_call orderly_txn_call
       | rule isolated_quiet [OF assms(1)] isolated_close [OF assms(1)] isolated_env [OF assms(1)] isolated_txn [OF assms(1)]
         quiet_within(1) [OF isolated_quiet(4) [OF assms(1)]] quiet_within(1) [OF isolated_quiet(5) [OF assms(1)]])+

end
