(* ===== verification/Mdbx_Bystanders.thy ===== *)
theory Mdbx_Bystanders
  imports Mdbx_Isolation
begin

unbundle bit_operations_syntax

text \<open>
  Every entry point on another handle, and every finalizer of another pointer, keeps what a
  transaction has: first the statements on the package's memory, then the functions handed to the
  guard, the operations, and what begins, ends and closes.
\<close>

section \<open>Statements\<close>

lemma kept_set_env:
  assumes "\<And>h. eh_env (f h) = eh_env h \<or> eh_env (f h) \<noteq> Some (my_env M)"
    and "\<And>h. my_handle M \<in> set (eh_live (f h)) \<Longrightarrow> my_handle M \<in> set (eh_live h)"
  shows "stays (kept R M) (set_env a f)"
  by (rule stays_both [OF _ my_library.memory(1)])
    (use assms in \<open>auto simp: stays_def wp_set_env handles_kept_def split: option.splits; metis\<close>)

lemma kept_set_txn:
  assumes "\<And>h. th_txn (f h) = th_txn h \<or> th_txn (f h) = None \<or> s \<noteq> my_handle M \<and> th_txn (f h) \<noteq> Some (my_txn M)"
    and "s \<noteq> my_handle M \<or> (\<forall>h. same_cache h (f h))"
  shows "stays (kept R M) (set_txn s f)"
proof (rule stays_both [OF _ my_library.memory(2)])
  have "handles_kept M (put_txn s (f h) w)" if K: "handles_kept M w" and h: "w_txns w s = Some h" for w h
  proof -
    have old: "s = my_handle M \<Longrightarrow> same_cache (my_th M) h \<and> (th_txn h = Some (my_txn M) \<or> th_txn h = None)"
      "th_txn h = Some (my_txn M) \<Longrightarrow> s = my_handle M"
      using K h unfolding handles_kept_def by auto
    have same: "s \<noteq> my_handle M \<or> same_cache h (f h)" using assms(2) by blast
    have "same_cache (my_th M) (f h) \<and> (th_txn (f h) = Some (my_txn M) \<or> th_txn (f h) = None)" if "s = my_handle M"
      using old(1) [OF that] same assms(1) [of h] that unfolding same_cache_def by (elim disjE conjE) simp_all
    then have mine: "\<forall>k. w_txns (put_txn s (f h) w) (my_handle M) = Some k
        \<longrightarrow> same_cache (my_th M) k \<and> (th_txn k = Some (my_txn M) \<or> th_txn k = None)"
      using K unfolding handles_kept_def by (cases "s = my_handle M") simp_all
    have "s = my_handle M" if "th_txn (f h) = Some (my_txn M)"
      using old(2) assms(1) [of h] that by (elim disjE conjE) simp_all
    then have "\<forall>r k. w_txns (put_txn s (f h) w) r = Some k \<and> th_txn k = Some (my_txn M) \<longrightarrow> r = my_handle M"
      using K unfolding handles_kept_def by (metis fun_upd_apply option.inject put_simps)
    then show ?thesis using mine K unfolding handles_kept_def by simp
  qed
  then show "stays (handles_kept M) (set_txn s f)"
    by (auto simp: stays_def wp_set_txn split: option.splits)
qed

lemma kept_set_xptr:
  assumes "x \<noteq> my_ptr M" and "\<And>p. xp_addr (f p) = xp_addr p \<or> xp_addr (f p) = ANull"
  shows "stays (kept R M) (set_xptr x f)"
proof (rule stays_both [OF _ my_library.memory(3)])
  have "handles_kept M (put_xptr x (f p) w)" if K: "handles_kept M w" and p: "w_xps w x = Some p" for w p
    using K p assms(1) assms(2) [of p] unfolding handles_kept_def by auto
  then show "stays (handles_kept M) (set_xptr x f)"
    by (auto simp: stays_def wp_set_xptr split: option.splits)
qed

lemma kept_new_env: "eh_env h = None \<Longrightarrow> eh_live h = [] \<Longrightarrow> stays (kept R M) (new_env h)"
  by (rule stays_both [OF _ my_library.fresh(1)]) (auto simp: stays_def new_env_def wp_simps handles_kept_def)

lemma kept_new_txn:
  assumes "th_txn h \<noteq> Some (my_txn M)"
  shows "yields (kept R M) (new_txn h) (\<lambda>s. s \<noteq> my_handle M)"
  using assms by (auto simp: yields_def new_txn_def wp_simps kept_def handles_kept_def library_kept_def orderly_def)

lemma kept_new_xptr:
  assumes "xp_addr p \<noteq> ATxn (my_handle M)"
  shows "yields (kept R M) (new_xptr p) (\<lambda>x. x \<noteq> my_ptr M)"
  using assms by (auto simp: yields_def new_xptr_def wp_simps kept_def handles_kept_def library_kept_def orderly_def)

lemma kept_delete: "stays (kept R M) (delete_env a)" "stays (kept R M) (delete_txn s)"
  by (rule stays_both [OF _ my_library.memory(4)] stays_both [OF _ my_library.memory(5)];
      auto simp: stays_def delete_env_def delete_txn_def wp_simps handles_kept_def split: option.splits)+

lemma kept_counts: "stays (kept R M) (modifyM (\<lambda>w. w\<lparr>w_live_env_handles := f w\<rparr>))"
  "stays (kept R M) (modifyM (\<lambda>w. w\<lparr>w_live_txn_handles := f w\<rparr>))"
  by (rule stays_both [OF my_handles.modify my_library.counts(1)] stays_both [OF my_handles.modify my_library.counts(2)]; simp)+

lemma kept_registries: "stays (kept R M) (register_env a)" "stays (kept R M) (unregister_env a)" "stays (kept R M) (abandon p)"
  "stays (kept R M) (abandon_env a)" "stays (kept R M) (heap_roots_call L q)"
  by (rule stays_both [OF my_handles.registries(1) my_library.registries(1)]
      stays_both [OF my_handles.registries(2) my_library.registries(2)]
      stays_both [OF my_handles.registries(3) my_library.registries(3)]
      stays_both [OF my_handles.registries(4) my_library.registries(4)]
      stays_both [OF my_handles.registries(5) my_library.registries(5)])+

lemma kept_poison: "stays (kept R M) (run_poison (Some (poison_txn s)))" "stays (kept R M) (run_poison (Some (poison_env a)))"
  "stays (kept R M) (run_poison None)"
  unfolding run_poison_simps poison_txn_def poison_env_def
  by (intro stays_rules kept_set_env kept_set_txn; simp add: same_cache_def)+

lemma kept_endings: "stays (kept R M) (record_heap_roots L a)" "stays (kept R M) (unregister_txn s)"
  "stays (kept R M) (mark_finished L s st)"
  unfolding mark_finished_def record_heap_roots_def unregister_txn_def
  by (intro stays_rules kept_registries kept_set_env kept_set_txn; simp add: same_cache_def live_remove_def)+

lemma kept_prot: "x \<noteq> R_ExtPtr (my_ptr M) \<Longrightarrow> stays (kept R M) (set_prot x v)"
  unfolding set_prot_def by (cases x) (auto intro!: stays_rules kept_set_xptr)

lemma kept_stop: "stays (kept R M) (modifyM (txn_ended p))" "stays (kept R M) (modifyM (kill_env e))"
proof -
  have "library_kept R M (txn_ended p w)" if "library_kept R M w" for w
    by (rule library_kept_step [OF that, where F = "\<lambda>q. fst q \<noteq> p"]) (simp_all add: txn_ended_def)
  then show "stays (kept R M) (modifyM (txn_ended p))"
    by (intro stays_both my_handles.modify) (simp_all add: txn_ended_def stays_def wp_modify)
  have "library_kept R M (kill_env e w)" if "library_kept R M w" for w
    by (rule library_kept_step [OF that, where F = "\<lambda>q. snd q \<noteq> e"]) simp_all
  then show "stays (kept R M) (modifyM (kill_env e))"
    by (intro stays_both my_handles.modify) (simp_all add: stays_def wp_modify)
qed

lemma kept_env_created: "stays (kept R M) (modifyM env_created)"
  by (intro stays_both my_handles.modify) (auto simp: env_created_def stays_def wp_modify library_kept_def orderly_def less_Suc_eq)

text \<open>Calls.\<close>

lemma kept_calls:
  "(\<And>e. within_env R e (f e)) \<Longrightarrow> stays (kept R M) (env_call p f)"
  "(\<And>t. within_txn R t (g t)) \<Longrightarrow> q \<noteq> Some (my_txn M) \<Longrightarrow> stays (kept R M) (txn_call q g)"
  "quiet R (L_alloc L m) \<Longrightarrow> stays (kept R M) (allocM L m)"
  "quiet R k \<Longrightarrow> stays (kept R M) (native (\<lambda>w. w) k)"
  by (rule stays_both [OF my_handles.calls(1) stays_env_call] stays_both [OF my_handles.calls(2) stays_txn_call]
      stays_both [OF my_handles.alloc stays_alloc_kept] stays_both [OF my_handles.native_call stays_quiet_native];
      simp add: id_def)+

lemma kept_off_thread: "quiet R f \<Longrightarrow> stays (kept R M) (off_thread f)"
  by (rule stays_both [OF my_handles.on_a_thread stays_off_thread_kept])

lemma kept_env_txn_call: "(\<And>e t. within_env R e (f e t)) \<Longrightarrow> stays (kept R M) (env_txn_call p q f)"
  unfolding env_txn_call_def by (intro stays_rules kept_calls)

section \<open>Reading\<close>

text \<open>What is read of the other handles is not mine.\<close>

lemma keptD:
  assumes "kept R M w"
  shows "\<And>s k. w_txns w s = Some k \<Longrightarrow> th_txn k = Some (my_txn M) \<Longrightarrow> s = my_handle M"
    "\<And>y p. w_xps w y = Some p \<Longrightarrow> xp_addr p = ATxn (my_handle M) \<Longrightarrow> y = my_ptr M"
    "\<And>p. w_xps w (my_other M) = Some p \<Longrightarrow> xp_addr p \<noteq> AEnv (my_owner M)"
    "\<And>b k. w_envs w b = Some k \<Longrightarrow> eh_env k = Some (my_env M) \<Longrightarrow> b = my_owner M"
    "\<And>b k. w_envs w b = Some k \<Longrightarrow> my_handle M \<in> set (eh_live k) \<Longrightarrow> b = my_owner M"
    "my_txn M < w_ids w" "my_env M < w_ids w"
  using assms unfolding kept_def handles_kept_def library_kept_def by blast+

lemma reads_txn: "s \<noteq> my_handle M \<Longrightarrow> yields (kept R M) (txn_at s) (\<lambda>k. th_txn k \<noteq> Some (my_txn M))"
  by (auto simp: yields_def wp_txn_at split: option.splits dest: keptD(1))

lemma reads_env: "b \<noteq> my_owner M \<Longrightarrow>
    yields (kept R M) (env_at b) (\<lambda>k. eh_env k \<noteq> Some (my_env M) \<and> my_handle M \<notin> set (eh_live k))"
  by (auto simp: yields_def wp_env_at split: option.splits dest: keptD(4,5))

lemma reads_ids: "yields (kept R M) (getsM w_ids) (\<lambda>n. n \<noteq> my_env M)"
  by (auto simp: yields_def wp_simps dest: keptD(7))

lemma reads_txn_addr: "x \<noteq> R_ExtPtr (my_ptr M) \<Longrightarrow> yields (kept R M) (txn_addr x) (\<lambda>r. r \<noteq> Some (my_handle M))"
  by (cases x) (auto simp: yields_def txn_addr_def wp_simps split: option.splits paddr.splits dest: keptD(2))

text \<open>The argument is not the pointer to my environment.\<close>

definition elsewhere :: "'n mine \<Rightarrow> rsexp \<Rightarrow> bool" where
  "elsewhere M x \<longleftrightarrow> (\<forall>y. x = R_ExtPtr y \<longrightarrow> y = my_other M)"

lemma reads_env_addr: "elsewhere M x \<Longrightarrow> yields (kept R M) (env_addr x) (\<lambda>r. r \<noteq> Some (my_owner M))"
  by (cases x) (auto simp: elsewhere_def yields_def env_addr_def wp_simps split: option.splits paddr.splits dest: keptD(3))

lemma yields_if: "(b \<Longrightarrow> yields P m Q) \<Longrightarrow> (\<not> b \<Longrightarrow> yields P k Q) \<Longrightarrow> yields P (if b then m else k) Q"
  by simp

lemma yields_option:
  "(v = None \<Longrightarrow> yields P m Q) \<Longrightarrow> (\<And>x. v = Some x \<Longrightarrow> yields P (k x) Q) \<Longrightarrow> yields P (case v of None \<Rightarrow> m | Some x \<Rightarrow> k x) Q"
  by (cases v) simp_all

lemmas yields_read = yields_after [OF stays_tag(1)] yields_after [OF stays_tag(2)] yields_after [OF stays_read(1)]
  yields_after [OF stays_read(2)] yields_after [OF stays_read(3)]

lemma reads_env_from_sexp: "elsewhere M x \<Longrightarrow> yields (kept R M) (env_from_sexp x) (\<lambda>a. a \<noteq> my_owner M)"
  unfolding env_from_sexp_def
  by (intro yields_bind [OF reads_env_addr] yields_read yields_if yields_option yields_basic; simp)

lemma reads_txn_from_sexp: "x \<noteq> R_ExtPtr (my_ptr M) \<Longrightarrow> yields (kept R M) (txn_from_sexp x) (\<lambda>s. s \<noteq> my_handle M)"
  unfolding txn_from_sexp_def
  by (intro yields_bind [OF reads_txn_addr] yields_read yields_if yields_option yields_basic; simp)

lemma reads_writable: "x \<noteq> R_ExtPtr (my_ptr M) \<Longrightarrow> yields (kept R M) (writable_txn x) (\<lambda>s. s \<noteq> my_handle M)"
  unfolding writable_txn_def
  by (intro yields_bind [OF reads_txn_from_sexp] yields_read yields_if yields_basic; simp)

text \<open>A handle read and then used.\<close>

lemmas kept_binds = stays_yields [OF reads_txn] stays_yields [OF reads_ids] stays_yields [OF reads_txn_addr]
  stays_yields [OF reads_txn_from_sexp] stays_yields [OF reads_writable]
  stays_yields [OF yields_if [OF reads_writable reads_txn_from_sexp]]

section \<open>Guarded functions\<close>

lemma kept_enumerate:
  assumes "isolated L R" and "s \<noteq> my_handle M" and "\<And>name ctx. stays (kept R M) (visitor name ctx)"
  shows "stays (kept R M) (enumerate_tables L s visitor ctx)"
  unfolding enumerate_tables_def
  by (intro kept_binds stays_rules stays_visit assms(3) kept_calls isolated_txn [OF assms(1)]; (rule assms(2) | assumption))

lemma kept_tables:
  assumes "isolated L R" and "s \<noteq> my_handle M"
  shows "stays (kept R M) (count_call L s)" "stays (kept R M) (list_call L s)"
  unfolding count_call_def list_call_def count_visit_def list_visit_def
  by (intro stays_rules kept_enumerate [OF assms] kept_calls isolated_quiet [OF assms(1)])+

lemma kept_cursor:
  assumes "isolated L R" and "p \<noteq> Some (my_txn M)"
  shows "stays (kept R M) (cursor_get L p c key opr)" "stays (kept R M) (reposition L p dbi c from_key r)"
  unfolding reposition_def cursor_get_def
  by (intro stays_rules kept_calls quiet_within(1) [OF isolated_quiet(4) [OF assms(1)]] isolated_txn [OF assms(1)] assms(2))+

lemma kept_scan_loop:
  assumes "isolated L R" and "p \<noteq> Some (my_txn M)"
  shows "stays (kept R M) (scan_loop L p dbi c limit want_values reverse start opr key positioning ks vs)"
proof (induction "limit - length ks" arbitrary: opr key positioning ks vs rule: less_induct)
  case less
  show ?case
    by (subst scan_loop.simps)
      (intro stays_rules kept_cursor [OF assms] kept_calls(3) isolated_quiet [OF assms(1)] less; simp)
qed

lemma kept_panic: "stays (kept R M) panic_immediately"
  unfolding panic_immediately_def by (intro stays_rules mine.panic)

text \<open>On another transaction, and on any environment.\<close>

lemma kept_txn_bodies:
  assumes "isolated L R" and "s \<noteq> my_handle M"
  shows "stays (kept R M) (dbi_call L s name flags)" "stays (kept R M) (get_call L s key)"
    "stays (kept R M) (put_call L s key data flags)" "stays (kept R M) (del_call L s key)"
    "stays (kept R M) (drop_call L s del)" "stays (kept R M) (sequence_call L s inc)"
    "stays (kept R M) (dbi_stat_call L s)" "stays (kept R M) (scan_call L s limit want_values reverse start)"
    "stays (kept R M) (finish_call L s commit)"
  unfolding dbi_call_def get_call_def put_call_def del_call_def drop_call_def sequence_call_def dbi_stat_call_def
    scan_call_def finish_call_def txn_end_call_def
  by (intro kept_binds stays_rules kept_scan_loop [OF assms(1)] kept_calls kept_stop
      quiet_within(1) [OF isolated_quiet(5) [OF assms(1)]] isolated_txn [OF assms(1)];
      (rule assms(2) | assumption | simp add: isolated_txn [OF assms(1)]))+

lemma kept_closing:
  assumes "isolated L R"
  shows "stays (kept R M) (env_close_call L p)"
proof (rule stays_both [OF _ library_closes [OF isolated_close [OF assms]]])
  show "stays (handles_kept M) (env_close_call L p)"
    unfolding env_close_call_def by (intro stays_rules my_handles.calls my_handles.modify; simp)
qed

lemma kept_env_bodies:
  assumes "isolated L R"
  shows "stays (kept R M) (reader_check_call L a)" "stays (kept R M) (path_call L a)"
    "stays (kept R M) (get_flags_call L a)" "stays (kept R M) (set_flags_call L a bits on)"
    "stays (kept R M) (sync_call L a force nonblock)" "stays (kept R M) (stat_call L q p)" "stays (kept R M) (info_call L q p)"
    "stays (kept R M) (close_call L a)" "stays (kept R M) (setup_call L)"
  unfolding reader_check_call_def path_call_def get_flags_call_def set_flags_call_def sync_call_def stat_call_def
    info_call_def close_call_def setup_call_def
  by (intro stays_rules kept_closing [OF assms] kept_calls kept_env_txn_call kept_stop isolated_env [OF assms] isolated_quiet [OF assms])+

section \<open>Operations\<close>

lemma kept_cache:
  assumes "s \<noteq> my_handle M"
  shows "stays (kept R M) (set_txn s (cache_dbi name d))" "stays (kept R M) (set_txn s (\<lambda>h. h\<lparr>th_dbi := d\<rparr>))"
    "stays (kept R M) (set_txn s (\<lambda>h. h\<lparr>th_named := g h\<rparr>))"
  by (rule kept_set_txn; simp add: assms cache_dbi_def split: option.splits)+

lemma kept_ensure_dbi:
  assumes "isolated L R" and "s \<noteq> my_handle M"
  shows "stays (kept R M) (ensure_dbi L s name)"
  unfolding ensure_dbi_def
  by (intro stays_bind stays_then stays_read stays_option stays_when stays_missing stays_check stays_basic kept_cache assms(2)
      mine.guarded kept_txn_bodies(1) [OF assms] kept_poison)

lemma kept_data:
  assumes "isolated L R" and "txn \<noteq> R_ExtPtr (my_ptr M)"
  shows "stays (kept R M) (mdbx_get L txn key db)" "stays (kept R M) (mdbx_put L txn key val overwrite db)"
    "stays (kept R M) (mdbx_del L txn key db)" "stays (kept R M) (mdbx_scan L txn limit values db start reverse)"
    "stays (kept R M) (mdbx_dbi_sequence L txn db increment)" "stays (kept R M) (mdbx_dbi_list L txn)"
    "stays (kept R M) (mdbx_dbi_open L txn name create)" "stays (kept R M) (mdbx_dbi_drop L txn db del)"
  unfolding mdbx_get_def mdbx_put_def mdbx_del_def mdbx_scan_def mdbx_dbi_sequence_def mdbx_dbi_list_def
    mdbx_dbi_open_def mdbx_dbi_drop_def count_named_tables_def
  by (intro kept_binds(4-6) stays_rules mine.guarded kept_poison kept_cache
      kept_ensure_dbi [OF assms(1)] kept_txn_bodies [OF assms(1)] kept_tables [OF assms(1)];
      (rule assms(2) | assumption))+

lemma kept_stats:
  assumes "isolated L R"
  shows "stays (kept R M) (run_stat L a q)" "stays (kept R M) (run_info L a q)"
  unfolding run_stat_def run_info_def by (intro stays_rules mine.guarded kept_poison kept_env_bodies [OF assms])+

lemma kept_txn_ops:
  assumes "isolated L R" and "txn \<noteq> R_ExtPtr (my_ptr M)"
  shows "stays (kept R M) (mdbx_txn_stat L txn db)" "stays (kept R M) (mdbx_txn_info L txn)" "stays (kept R M) (mdbx_txn_id L txn)"
    "stays (kept R M) (mdbx_test_panic_get txn)" "stays (kept R M) (mdbx_test_thread_mismatch L txn)"
  unfolding mdbx_txn_stat_def mdbx_txn_info_def mdbx_txn_id_def mdbx_test_panic_get_def mdbx_test_thread_mismatch_def
    commit_off_thread_def
  by (intro kept_binds(1,4) stays_rules mine.guarded kept_poison kept_panic kept_calls(2) isolated_txn [OF assms(1)]
      kept_off_thread isolated_quiet(6) [OF assms(1)] kept_stop kept_endings
      kept_ensure_dbi [OF assms(1)] kept_txn_bodies [OF assms(1)] kept_stats [OF assms(1)];
      (rule assms(2) | assumption))+

lemma stays_state: "stays P m \<Longrightarrow> stays P k \<Longrightarrow> stays P l \<Longrightarrow>
    stays P (case st of st_active \<Rightarrow> m | st_committed \<Rightarrow> k | st_aborted \<Rightarrow> l)"
  by (cases st) simp_all

lemma kept_txn_state:
  assumes "isolated L R" and "txn \<noteq> R_ExtPtr (my_ptr M)"
  shows "stays (kept R M) (mdbx_txn_state L txn)"
  unfolding mdbx_txn_state_def
  by (intro kept_binds(1,3) stays_state stays_rules kept_calls(2) isolated_txn [OF assms(1)]; (rule assms(2) | simp))

lemma kept_env_ops:
  assumes "isolated L R"
  shows "stays (kept R M) (mdbx_env_reader_check L env)" "stays (kept R M) (mdbx_env_path L env)"
    "stays (kept R M) (mdbx_env_get_flags L env)" "stays (kept R M) (mdbx_env_set_flags L env flags on)"
    "stays (kept R M) (mdbx_env_sync L env force nonblock)" "stays (kept R M) (mdbx_env_stat L env)"
    "stays (kept R M) (mdbx_env_info L env)" "stays (kept R M) (mdbx_env_is_open env)"
    "stays (kept R M) (mdbx_env_txn_count env)" "stays (kept R M) (mdbx_limits L pagesize)"
    "stays (kept R M) (mdbx_initialize L)" "stays (kept R M) (mdbx_test_check L rc)"
    "stays (kept R M) (mdbx_test_panic_stat env info)"
  unfolding mdbx_env_reader_check_def mdbx_env_path_def mdbx_env_get_flags_def mdbx_env_set_flags_def
    mdbx_env_sync_def mdbx_env_stat_def mdbx_env_info_def mdbx_env_is_open_def mdbx_env_txn_count_def
    mdbx_limits_def mdbx_initialize_def mdbx_test_check_def mdbx_test_panic_stat_def
  by (intro stays_rules mine.guarded kept_poison kept_panic stays_current_txn kept_stats [OF assms] kept_env_bodies [OF assms])+

section \<open>Ending and closing\<close>

lemma kept_finish:
  assumes "isolated L R" and "txn \<noteq> R_ExtPtr (my_ptr M)"
  shows "stays (kept R M) (finish_txn L txn commit)"
  unfolding finish_txn_def
  by (intro kept_binds(4) stays_rules mine.guarded kept_poison kept_endings kept_prot kept_txn_bodies [OF assms(1)];
      (rule assms(2) | assumption))

lemma kept_abort:
  assumes "isolated L R" and "txn \<noteq> R_ExtPtr (my_ptr M)"
  shows "stays (kept R M) (mdbx_txn_abort L txn)"
  unfolding mdbx_txn_abort_def broken_graph_def
  by (intro stays_rules kept_registries kept_endings kept_prot kept_finish [OF assms] assms(2))

lemma kept_close:
  assumes "isolated L R"
  shows "stays (kept R M) (close_handle L a propagate)"
  unfolding close_handle_def
  by (intro stays_rules kept_registries kept_set_env mine.run_guarded kept_poison kept_env_bodies [OF assms]; simp)

lemma kept_detach_one:
  assumes "isolated L R" and "s \<noteq> my_handle M"
  shows "stays (kept R M) (detach_one L u s)"
  unfolding detach_one_def
  by (intro stays_rules kept_registries kept_set_txn mine.run_guarded kept_poison kept_txn_bodies [OF assms]; simp add: assms(2))

lemma kept_detach:
  assumes "isolated L R" and "a \<noteq> my_owner M"
  shows "stays (kept R M) (detach_txns L a)"
  unfolding detach_txns_def
  by (intro stays_yields [OF reads_env [OF assms(2)]] stays_bind [OF stays_read(1)] stays_then stays_for kept_set_env
      kept_detach_one [OF assms(1)]; auto)

lemma kept_env_close:
  assumes "isolated L R" and "elsewhere M env"
  shows "stays (kept R M) (mdbx_env_close L env)"
  unfolding mdbx_env_close_def
  by (intro stays_bind [OF stays_tag(1)] stays_if stays_basic stays_yields [OF reads_env_addr [OF assms(2)]] stays_option
      stays_bind [OF stays_read(2)] stays_then stays_when kept_detach [OF assms(1)] kept_close [OF assms(1)]; simp)

lemma kept_finalize_env:
  assumes "isolated L R" and "elsewhere M (R_ExtPtr x)" and "x \<noteq> my_ptr M"
  shows "stays (kept R M) (finalize_env L x)"
  unfolding finalize_env_def
  by (intro stays_yields [OF reads_env_addr [OF assms(2)]] stays_option stays_basic stays_then kept_set_xptr assms(3)
      kept_detach [OF assms(1)] kept_close [OF assms(1)] kept_delete kept_counts; simp)

lemma kept_finalize_txn:
  assumes "isolated L R" and "x \<noteq> my_ptr M"
  shows "stays (kept R M) (finalize_txn L x)"
proof -
  have x: "R_ExtPtr x \<noteq> R_ExtPtr (my_ptr M)" using assms(2) by simp
  show ?thesis
    unfolding finalize_txn_def finalizer_may_abort_def
    by (intro kept_binds(3) [OF x] stays_rules kept_set_xptr assms(2) mine.run_guarded kept_poison kept_registries
        kept_endings kept_delete kept_counts kept_txn_bodies [OF assms(1)]; simp)
qed

section \<open>Opening and beginning\<close>

lemma kept_open_call:
  assumes "isolated L R"
  shows "stays (kept R M) (open_call L a path flags dbs readers sz mode)"
  unfolding open_call_def env_create_call_def
  by (intro kept_binds(2) stays_rules kept_set_env kept_calls(1,4) kept_env_created isolated_env [OF assms] isolated_quiet [OF assms];
      simp)

lemma kept_open_guarded:
  assumes "isolated L R"
  shows "stays (kept R M) (open_guarded L a path flags dbs readers sz mode)"
  unfolding open_guarded_def
  by (intro stays_bind stays_guard_result stays_then stays_stop_after kept_registries mine.run_guarded kept_open_call [OF assms]
      kept_poison stays_if stays_read stays_when kept_close [OF assms] stays_check stays_basic)

lemma kept_attrs:
  assumes "x \<noteq> my_ptr M"
  shows "stays (kept R M) (set_xptr x (\<lambda>p. p\<lparr>xp_attrs := ats\<rparr>))" "stays (kept R M) (set_xptr x (\<lambda>p. p\<lparr>xp_class := cs\<rparr>))"
  by (rule kept_set_xptr [OF assms]; simp)+

lemma kept_new_env_sexp: "stays (kept R M) (new_env_sexp a path r s)"
  unfolding new_env_sexp_def
  by (intro stays_yields [OF kept_new_xptr] stays_then kept_counts kept_attrs stays_basic; simp)

lemma kept_new_txn_sexp: "s \<noteq> my_handle M \<Longrightarrow> stays (kept R M) (new_txn_sexp s env is_write)"
  unfolding new_txn_sexp_def
  by (intro stays_yields [OF kept_new_xptr] stays_bind stays_then kept_counts kept_attrs stays_basic stays_read stays_option
      stays_raw kept_set_env; simp add: live_add_def)

lemma kept_env_open:
  assumes "isolated L R"
  shows "stays (kept R M) (mdbx_env_open L path key readonly subdir max_dbs map_size max_readers mode extra)"
  unfolding mdbx_env_open_def
  by (intro stays_bind [OF stays_lift] stays_let stays_if stays_basic stays_bind [OF stays_find_open] stays_option
      stays_bind [OF stays_read(2)] stays_bind [OF stays_read(1)] stays_bind [OF stays_cast]
      stays_bind [OF kept_new_env] stays_bind [OF stays_unwind] kept_open_guarded [OF assms] kept_delete stays_then kept_set_env
      kept_endings stays_bind [OF kept_new_env_sexp] kept_registries; simp add: fresh_env_handle_def)

lemma kept_begin_call:
  assumes "isolated L R" and "ends_ok L R" and "a \<noteq> my_owner M"
  shows "yields (kept R M) (begin_call L a flags) (\<lambda>r. snd r \<noteq> Some (my_txn M))"
proof -
  have "yields (kept R M) (txn_begin_call L p flags) (\<lambda>r. snd r \<noteq> Some (my_txn M))" if "p \<noteq> Some (my_env M)" for p
  proof -
    have "stays (handles_kept M) (txn_begin_call L p flags)"
      unfolding txn_begin_call_def
      by (intro stays_rules my_handles.calls my_handles.modify; simp add: txn_created_def)
    then show ?thesis
      using library_begins [OF assms(1,2) that, of flags]
      unfolding yields_def stays_def kept_def wp_def by (fastforce split: prod.splits sum.splits)
  qed
  then show ?thesis
    unfolding begin_call_def by (intro yields_bind [OF reads_env [OF assms(3)]]; simp)
qed

lemma kept_begun:
  assumes "isolated L R" and "ends_ok L R" and "a \<noteq> my_owner M"
  shows "yields (kept R M) (bindM (liftM f) (\<lambda>extra. bindM (guard (begin_call L a (fl extra)) (Some (poison_env a)))
      (\<lambda>outcome. thenM (check L (fst outcome)) (returnM (snd outcome))))) (\<lambda>q. q \<noteq> Some (my_txn M))"
  by (rule yields_after [OF stays_lift], rule yields_bind [OF yields_guard [OF kept_begin_call [OF assms] kept_poison(2)]],
      rule yields_then [OF stays_check], rule yields_basic(1))

lemma kept_txn_begin:
  assumes "isolated L R" and "ends_ok L R" and "elsewhere M env"
  shows "stays (kept R M) (mdbx_txn_begin L env is_write extra)"
  unfolding mdbx_txn_begin_def Let_def
  by (intro stays_yields [OF reads_env_from_sexp [OF assms(3)]] stays_bind [OF stays_read(2)] stays_bind [OF stays_read(1)]
      stays_if stays_basic stays_yields [OF kept_new_txn] stays_yields [OF yields_unwind [OF kept_begun [OF assms(1,2)]]]
      kept_delete stays_then kept_set_txn kept_new_txn_sexp; simp add: fresh_txn_handle_def)

section \<open>Every call on another handle\<close>

text \<open>Only the close and the begin of an environment look at what is registered with it.\<close>

fun env_wide :: "call \<Rightarrow> bool" where
  "env_wide (Do_env_close env) = True"
| "env_wide (Do_txn_begin env is_write extra) = True"
| "env_wide _ = False"

theorem kept_perform:
  assumes "isolated L R" and "ends_ok L R" and "handle_arg c \<noteq> R_ExtPtr (my_ptr M)"
    and "env_wide c \<Longrightarrow> elsewhere M (handle_arg c)"
  shows "stays (kept R M) (perform L c)"
  using assms(3,4)
  by (cases c; simp only: perform.simps handle_arg.simps env_wide.simps mdbx_txn_commit_def simp_thms)
    ((rule stays_ignore)?, rule kept_data kept_txn_ops kept_txn_state kept_env_ops kept_finish kept_abort kept_env_close
      kept_env_open kept_txn_begin, (rule assms | assumption)+)+

end
