(* ===== verification/Mdbx_StoreRuns.thy ===== *)
theory Mdbx_StoreRuns
  imports Mdbx_Tracks
begin

unbundle bit_operations_syntax

text \<open>
  The package implements the store: each operation on a transaction, through the handle checks,
  the guard, the cache of resolved databases and the translation of statuses, answers what the
  store answers and leaves what the store leaves, or it fails and leaves the store alone.
\<close>

section \<open>One operation\<close>

text \<open>The answer and the state after an operation, against the store.\<close>

definition follows :: "'n reading \<Rightarrow> nat \<Rightarrow> bool \<Rightarrow> nat \<Rightarrow> nat \<Rightarrow> op \<Rightarrow> store \<Rightarrow> answer \<Rightarrow> 'n world \<Rightarrow> bool" where
  "follows R e wr i t x S a v \<longleftrightarrow>
     failure a \<and> rd_fails R \<and> tracks R e wr i t S v
     \<or> agrees (fst (spec wr x S)) a \<and> tracks R e wr i t (snd (spec wr x S)) v"

text \<open>Resolve a table, then call libmdbx with it.\<close>

lemma on_table_cases:
  assumes ok: "store_ok L R" and I: "inv w" and l: "live_txn t w" and T: "tracks R e wr i t S w"
    and run: "bindM (ensure_dbi L t name) (\<lambda>_. bindM (guard (bindM (txn_at t) (\<lambda>h. txn_call (th_txn h) (f h))) (Some (poison_txn t))) k) w = (r, v)"
    and calm: "\<forall>th q n. panics (f th q n) \<longrightarrow> rd_fails R"
  obtains (missing) n p where "name = Some n" "r = Inl (MissingDbi n p)" "tracks R e wr i t S v" "table_of S name = None" "\<not> taken S name"
  | (occupied) y where "r = Inl y" "answer_of (Inl y) = A_incompatible" "tracks R e wr i t S v"
      "table_of S name = None" "taken S name"
  | (failed) y where "r = Inl y" "failure (answer_of (Inl y))" "tracks R e wr i t S v" "rd_fails R"
  | (called) u th q x n where "k x (u\<lparr>w_lib := n\<rparr>) = (r, v)" "f th q (w_lib u) = (NRet x, n)"
      "tracks R e wr i t S u" "w_txns u t = Some th" "th_txn th = Some q" "grips R e wr S (w_lib u) q th"
      "cached_dbi th name = Some (th_dbi th)"
      "rd_view R (w_lib u) q = Some (e, wr, S) \<Longrightarrow> rd_name R (w_lib u) q (th_dbi th) = Some name \<and> table_of S name \<noteq> None"
      "live_txn t u"
proof -
  obtain r1 u where u: "ensure_dbi L t name w = (r1, u)" by fastforce
  from ok I l T u show thesis
  proof (cases rule: ensure_cases)
    case (missing n p)
    then show thesis using that(1) run u by (auto simp: bindM_def)
  next
    case (occupied x)
    then show thesis using that(2) run u by (auto simp: bindM_def)
  next
    case (failed x)
    then show thesis using that(3) run u by (auto simp: bindM_def)
  next
    case (resolved th q d)
    obtain r2 u2 where g: "guard (bindM (txn_at t) (\<lambda>h. txn_call (th_txn h) (f h))) (Some (poison_txn t)) u = (r2, u2)" by fastforce
    have k: "bindM (guard (bindM (txn_at t) (\<lambda>h. txn_call (th_txn h) (f h))) (Some (poison_txn t))) k u = (r, v)"
      using run u resolved(1) by (simp add: bindM_def)
    from resolved(3,4,2) g calm show thesis
    proof (cases rule: guard_cases)
      case (panicked m g' l')
      then show thesis using that(3) [of "panic_error m g' l'"] k g by (auto simp: bindM_def)
    next
      case (returned th' q' x n)
      then show thesis using that(4) [of x n u th q] resolved k g by (simp add: bindM_def)
    qed
  qed
qed

lemma rows_okD:
  assumes "store_ok L R" and "rd_view R n q = Some (e, wr, S)" and "rd_name R n q d = Some name" and "table_of S name = Some m"
  shows "L_get L q d k n = (NRet (rc, x), n') \<Longrightarrow>
       if rc = MDBX_SUCCESS then (is_record S name k \<or> m k = Some x) \<and> sees R q None n S n'
       else if rc = MDBX_NOTFOUND then \<not> is_record S name k \<and> m k = None \<and> sees R q None n S n'
       else spoilt R q n S n'"
    and "wr \<Longrightarrow> L_put L q d k y (if overwrite then MDBX_UPSERT else MDBX_NOOVERWRITE) n = (NRet rc, n') \<Longrightarrow>
       if rc = MDBX_SUCCESS
       then (overwrite \<or> m k = None \<and> \<not> is_record S name k)
         \<and> sees R q None n (if is_record S name k then S else set_table name (m(k \<mapsto> y)) S) n'
       else if rc = MDBX_KEYEXIST then \<not> overwrite \<and> (m k \<noteq> None \<or> is_record S name k) \<and> sees R q None n S n'
       else if rc = MDBX_INCOMPATIBLE \<and> overwrite \<and> is_record S name k then sees R q None n S n'
       else spoilt R q n S n'"
    and "wr \<Longrightarrow> L_del L q d k n = (NRet rc, n') \<Longrightarrow>
       if rc = MDBX_SUCCESS
       then m k \<noteq> None \<and> \<not> is_record S name k \<and> sees R q None n (set_table name (m(k := None)) S) n'
       else if rc = MDBX_NOTFOUND then m k = None \<and> \<not> is_record S name k \<and> sees R q None n S n'
       else if rc = MDBX_INCOMPATIBLE \<and> is_record S name k then sees R q None n S n'
       else spoilt R q n S n'"
proof -
  have "rd_view R n q = Some (e, wr, S) \<and> rd_name R n q d = Some name \<and> table_of S name = Some m" using assms by simp
  note law = store_okD(3) [OF assms(1), unfolded rows_ok_def, THEN spec, THEN spec, THEN spec, THEN spec, THEN spec, THEN spec,
      THEN spec, THEN spec, THEN spec, THEN mp, OF this]
  show "L_get L q d k n = (NRet (rc, x), n') \<Longrightarrow>
       if rc = MDBX_SUCCESS then (is_record S name k \<or> m k = Some x) \<and> sees R q None n S n'
       else if rc = MDBX_NOTFOUND then \<not> is_record S name k \<and> m k = None \<and> sees R q None n S n'
       else spoilt R q n S n'"
    using law by blast
  show "wr \<Longrightarrow> L_put L q d k y (if overwrite then MDBX_UPSERT else MDBX_NOOVERWRITE) n = (NRet rc, n') \<Longrightarrow>
       if rc = MDBX_SUCCESS
       then (overwrite \<or> m k = None \<and> \<not> is_record S name k)
         \<and> sees R q None n (if is_record S name k then S else set_table name (m(k \<mapsto> y)) S) n'
       else if rc = MDBX_KEYEXIST then \<not> overwrite \<and> (m k \<noteq> None \<or> is_record S name k) \<and> sees R q None n S n'
       else if rc = MDBX_INCOMPATIBLE \<and> overwrite \<and> is_record S name k then sees R q None n S n'
       else spoilt R q n S n'"
    using law by blast
  show "wr \<Longrightarrow> L_del L q d k n = (NRet rc, n') \<Longrightarrow>
       if rc = MDBX_SUCCESS
       then m k \<noteq> None \<and> \<not> is_record S name k \<and> sees R q None n (set_table name (m(k := None)) S) n'
       else if rc = MDBX_NOTFOUND then m k = None \<and> \<not> is_record S name k \<and> sees R q None n S n'
       else if rc = MDBX_INCOMPATIBLE \<and> is_record S name k then sees R q None n S n'
       else spoilt R q n S n'"
    using law by blast
qed

lemma tracks_seen:
  assumes "tracks R e wr i t S u" and "w_txns u t = Some th" and "th_txn th = Some q" and "grips R e wr S (w_lib u) q th"
    and "rd_view R (w_lib u) q = Some (e, wr, S)" and "sees R q None (w_lib u) S' n"
    and "\<And>name. table_of S name \<noteq> None \<Longrightarrow> table_of S' name \<noteq> None"
  shows "tracks R e wr i t S' (u\<lparr>w_lib := n\<rparr>)"
  by (rule tracks_lib [OF assms(1-3)], rule sees_grips [OF assms(6,5) _ assms(7)]) (use assms(4,5) in \<open>simp_all add: grips_def\<close>)

lemma tracks_view:
  "grips R e wr S n q th \<Longrightarrow> rd_view R n q = None \<or> rd_view R n q = Some (e, wr, S)"
  by (auto simp: grips_def)

lemma tables_stay: "table_of S name = Some m \<Longrightarrow> store_wf S \<Longrightarrow> table_of S other \<noteq> None \<Longrightarrow> table_of (set_table name m' S) other \<noteq> None"
  by (simp add: table_of_set)

text \<open>
  An operation on rows: what it does with libmdbx's answer is either the failure of a status, or
  the store's answer when the transaction now sees what the store says.
\<close>

definition fails_as :: "('n, answer) mem \<Rightarrow> bool" where
  "fails_as m \<longleftrightarrow> (\<exists>c. m = stopM (MdbxError c))"

lemma fails_as_stop [simp]: "fails_as (stopM (MdbxError c))"
  unfolding fails_as_def by blast

text \<open>What is made of the answer is one the store gives.\<close>

definition gives :: "('n, answer) mem \<Rightarrow> answer \<Rightarrow> bool" where
  "gives m b \<longleftrightarrow> (\<exists>r. (\<forall>s. m s = (r, s)) \<and> agrees b (answer_of r))"

lemma gives_return [simp]: "gives (returnM a) b \<longleftrightarrow> agrees b a"
  by (simp add: gives_def returnM_def answer_of_def)

lemma gives_stop [simp]: "gives (stopM x) b \<longleftrightarrow> agrees b (answer_of (Inl x))"
  by (simp add: gives_def stopM_def)

lemma check_then: "thenM (check L rc) m = (if rc = MDBX_SUCCESS then m else stopM (MdbxError (condition_of L rc)))"
  by (simp add: fun_eq_iff thenM_def bindM_def check_run stopM_def)

lemma row_follows:
  assumes ok: "store_ok L R" and I: "inv w" and l: "live_txn t w" and T: "tracks R e wr i t S w"
    and run: "bindM (ensure_dbi L t (db_arg db)) (\<lambda>_. bindM (guard (bindM (txn_at t) (\<lambda>h. txn_call (th_txn h) (f h))) (Some (poison_txn t))) k) w = (r, v)"
    and calm: "\<And>th q n. panics (f th q n) \<Longrightarrow> rd_fails R"
    and absent: "table_of S (db_arg db) = None
        \<Longrightarrow> spec wr x S = (if taken S (db_arg db) then A_incompatible else A_missing, S)"
    and blocked: "\<And>n th q y n'. rd_view R n q = None \<Longrightarrow> f th q n = (NRet y, n') \<Longrightarrow> rd_view R n' q = None \<and> fails_as (k y)"
    and answered: "\<And>n th q y n' m. rd_view R n q = Some (e, wr, S) \<Longrightarrow> rd_name R n q (th_dbi th) = Some (db_arg db)
        \<Longrightarrow> table_of S (db_arg db) = Some m \<Longrightarrow> f th q n = (NRet y, n')
        \<Longrightarrow> spoilt R q n S n' \<and> fails_as (k y)
          \<or> (\<exists>S'. sees R q None n S' n' \<and> (S' = S \<or> (\<exists>m'. S' = set_table (db_arg db) m' S))
                \<and> gives (k y) (fst (spec wr x S)) \<and> snd (spec wr x S) = S')"
  shows "follows R e wr i t x S (answer_of r) v"
proof -
  have calm': "\<forall>th q n. panics (f th q n) \<longrightarrow> rd_fails R" using calm by blast
  from ok I l T run calm' show ?thesis
proof (cases rule: on_table_cases)
  case (missing n p)
  then show ?thesis using absent by (simp add: follows_def answer_of_def)
next
  case (occupied y)
  then show ?thesis using absent by (simp add: follows_def)
next
  case (failed y)
  then show ?thesis by (simp add: follows_def)
next
  case (called u th q y n)
  show ?thesis
  proof (cases "rd_view R (w_lib u) q")
    case None
    then show ?thesis
      using called(1) blocked [OF None called(2)] tracks_failed [OF called(3-6)] grips_blocked [OF called(6) None] by (auto simp: follows_def fails_as_def stopM_def)
  next
    case (Some z)
    then have view: "rd_view R (w_lib u) q = Some (e, wr, S)" using tracks_view [OF called(6)] by simp
    then obtain m where m: "table_of S (db_arg db) = Some m" "rd_name R (w_lib u) q (th_dbi th) = Some (db_arg db)"
      using called(8) by auto
    consider (bad) "spoilt R q (w_lib u) S n" "fails_as (k y)"
      | (good) S' where "sees R q None (w_lib u) S' n" "S' = S \<or> (\<exists>m'. S' = set_table (db_arg db) m' S)"
        "gives (k y) (fst (spec wr x S))" "snd (spec wr x S) = S'"
      using answered [OF view m(2,1) called(2)] by blast
    then show ?thesis
    proof cases
      case bad
      then show ?thesis
        using called(1) tracks_failed [OF called(3-6)] view spoilt_fails [OF bad(1)] by (auto simp: follows_def fails_as_def stopM_def)
    next
      case S': (good S')
      have "tracks R e wr i t S' (u\<lparr>w_lib := n\<rparr>)"
        by (rule tracks_seen [OF called(3-6) view S'(1)]) (use S'(2) tables_stay [OF m(1) view_wf [OF ok view]] in auto)
      then show ?thesis using called(1) S'(3,4) by (auto simp: follows_def gives_def)
    qed
  qed
qed
qed

lemma get_follows:
  assumes ok: "store_ok L R" and I: "inv w" and l: "live_txn t w" and T: "tracks R e wr i t S w"
    and run: "op_call L (R_ExtPtr i) (Op_get db k) w = (r, v)"
  shows "follows R e wr i t (Op_get db k) S (answer_of r) v"
proof (rule row_follows [OF ok I l T, where f = "\<lambda>h q. L_get L q (th_dbi h) k" and db = db and
      k = "\<lambda>x. if fst x = MDBX_NOTFOUND then returnM (A_value None) else thenM (check L (fst x)) (returnM (A_value (Some (snd x))))"])
  have p: "txn_ptr w i t" using T by (simp add: tracks_def)
  show "bindM (ensure_dbi L t (db_arg db)) (\<lambda>_. bindM (guard (bindM (txn_at t) (\<lambda>h. txn_call (th_txn h) (\<lambda>q. L_get L q (th_dbi h) k)))
      (Some (poison_txn t))) (\<lambda>x. if fst x = MDBX_NOTFOUND then returnM (A_value None)
        else thenM (check L (fst x)) (returnM (A_value (Some (snd x)))))) w = (r, v)"
    using run txn_from_sexp_live [OF I p l]
    by (auto simp: mdbx_get_def get_call_def bindM_def thenM_def val_from_raw_def returnM_def check_run split: prod.splits sum.splits)
next
  fix n th q y n'
  assume n: "rd_view R n q = None" "L_get L q (th_dbi th) k n = (NRet y, n')"
  show "rd_view R n' q = None \<and> fails_as (if fst y = MDBX_NOTFOUND then returnM (A_value None)
      else thenM (check L (fst y)) (returnM (A_value (Some (snd y)))))"
    using blockedD(2) [OF ok n(1), of _ k "fst y" "snd y"] n(2) by (simp add: check_then)
next
  fix n th q y n' m
  assume n: "rd_view R n q = Some (e, wr, S)" "rd_name R n q (th_dbi th) = Some (db_arg db)" "table_of S (db_arg db) = Some m"
    "L_get L q (th_dbi th) k n = (NRet y, n')"
  note law = rows_okD(1) [OF ok n(1-3), of k "fst y" "snd y" n']
  show "spoilt R q n S n' \<and> fails_as (if fst y = MDBX_NOTFOUND then returnM (A_value None)
        else thenM (check L (fst y)) (returnM (A_value (Some (snd y)))))
      \<or> (\<exists>S'. sees R q None n S' n' \<and> (S' = S \<or> (\<exists>m'. S' = set_table (db_arg db) m' S))
        \<and> gives (if fst y = MDBX_NOTFOUND then returnM (A_value None)
            else thenM (check L (fst y)) (returnM (A_value (Some (snd y))))) (fst (spec wr (Op_get db k) S))
        \<and> snd (spec wr (Op_get db k) S) = S')"
    using law n(3,4) by (auto simp: check_then on_table_def split: if_splits)
qed (use calmD(2) [OF ok] in \<open>auto simp: on_table_def\<close>)

lemma tracks_writable:
  assumes "inv w" and "live_txn t w" and "tracks R e wr i t S w"
  shows "writable_txn (R_ExtPtr i) w = (if wr then Inr t else Inl ReadOnlyTxn, w)"
  using assms writable_run [OF assms(1) _ assms(2)] by (auto simp: tracks_def)

lemma put_follows:
  assumes ok: "store_ok L R" and I: "inv w" and l: "live_txn t w" and T: "tracks R e wr i t S w"
    and run: "op_call L (R_ExtPtr i) (Op_put db k y overwrite) w = (r, v)"
  shows "follows R e wr i t (Op_put db k y overwrite) S (answer_of r) v"
proof (cases wr)
  case False
  then show ?thesis using run T tracks_writable [OF I l T]
    by (auto simp: mdbx_put_def bindM_def follows_def answer_of_def)
next
  case wr: True
  let ?fl = "if overwrite then MDBX_UPSERT else MDBX_NOOVERWRITE"
  show ?thesis
  proof (rule row_follows [OF ok I l T, where f = "\<lambda>h q. L_put L q (th_dbi h) k y ?fl" and db = db and
        k = "\<lambda>rc. if rc = MDBX_KEYEXIST then returnM (A_flag False) else thenM (check L rc) (returnM (A_flag True))"])
    show "bindM (ensure_dbi L t (db_arg db)) (\<lambda>_. bindM (guard (bindM (txn_at t) (\<lambda>h. txn_call (th_txn h) (\<lambda>q. L_put L q (th_dbi h) k y ?fl)))
        (Some (poison_txn t))) (\<lambda>rc. if rc = MDBX_KEYEXIST then returnM (A_flag False)
          else thenM (check L rc) (returnM (A_flag True)))) w = (r, v)"
      using run wr tracks_writable [OF I l T]
      by (auto simp: mdbx_put_def put_call_def bindM_def thenM_def val_from_raw_def returnM_def check_run split: prod.splits sum.splits)
  next
    fix n th q rc n'
    assume n: "rd_view R n q = None" "L_put L q (th_dbi th) k y ?fl n = (NRet rc, n')"
    show "rd_view R n' q = None \<and> fails_as (if rc = MDBX_KEYEXIST then returnM (A_flag False) else thenM (check L rc) (returnM (A_flag True)))"
      using blockedD(3) [OF ok n] by (simp add: check_then)
  next
    fix n th q rc n' m
    assume n: "rd_view R n q = Some (e, wr, S)" "rd_name R n q (th_dbi th) = Some (db_arg db)" "table_of S (db_arg db) = Some m"
      "L_put L q (th_dbi th) k y ?fl n = (NRet rc, n')"
    show "spoilt R q n S n' \<and> fails_as (if rc = MDBX_KEYEXIST then returnM (A_flag False) else thenM (check L rc) (returnM (A_flag True)))
      \<or> (\<exists>S'. sees R q None n S' n' \<and> (S' = S \<or> (\<exists>m'. S' = set_table (db_arg db) m' S))
        \<and> gives (if rc = MDBX_KEYEXIST then returnM (A_flag False) else thenM (check L rc) (returnM (A_flag True)))
            (fst (spec wr (Op_put db k y overwrite) S))
        \<and> snd (spec wr (Op_put db k y overwrite) S) = S')"
      using rows_okD(2) [OF ok n(1-3) wr n(4)] n(3) wr by (auto simp: check_then on_table_def split: if_splits)
  qed (use calmD(3) [OF ok] wr in \<open>auto simp: on_table_def\<close>)
qed

lemma del_follows:
  assumes ok: "store_ok L R" and I: "inv w" and l: "live_txn t w" and T: "tracks R e wr i t S w"
    and run: "op_call L (R_ExtPtr i) (Op_del db k) w = (r, v)"
  shows "follows R e wr i t (Op_del db k) S (answer_of r) v"
proof (cases wr)
  case False
  then show ?thesis using run T tracks_writable [OF I l T]
    by (auto simp: mdbx_del_def bindM_def follows_def answer_of_def)
next
  case wr: True
  show ?thesis
  proof (rule row_follows [OF ok I l T, where f = "\<lambda>h q. L_del L q (th_dbi h) k" and db = db and
        k = "\<lambda>rc. if rc = MDBX_NOTFOUND then returnM (A_flag False) else thenM (check L rc) (returnM (A_flag True))"])
    show "bindM (ensure_dbi L t (db_arg db)) (\<lambda>_. bindM (guard (bindM (txn_at t) (\<lambda>h. txn_call (th_txn h) (\<lambda>q. L_del L q (th_dbi h) k)))
        (Some (poison_txn t))) (\<lambda>rc. if rc = MDBX_NOTFOUND then returnM (A_flag False)
          else thenM (check L rc) (returnM (A_flag True)))) w = (r, v)"
      using run wr tracks_writable [OF I l T]
      by (auto simp: mdbx_del_def del_call_def bindM_def thenM_def val_from_raw_def returnM_def check_run split: prod.splits sum.splits)
  next
    fix n th q rc n'
    assume n: "rd_view R n q = None" "L_del L q (th_dbi th) k n = (NRet rc, n')"
    show "rd_view R n' q = None \<and> fails_as (if rc = MDBX_NOTFOUND then returnM (A_flag False) else thenM (check L rc) (returnM (A_flag True)))"
      using blockedD(4) [OF ok n] by (simp add: check_then)
  next
    fix n th q rc n' m
    assume n: "rd_view R n q = Some (e, wr, S)" "rd_name R n q (th_dbi th) = Some (db_arg db)" "table_of S (db_arg db) = Some m"
      "L_del L q (th_dbi th) k n = (NRet rc, n')"
    show "spoilt R q n S n' \<and> fails_as (if rc = MDBX_NOTFOUND then returnM (A_flag False) else thenM (check L rc) (returnM (A_flag True)))
      \<or> (\<exists>S'. sees R q None n S' n' \<and> (S' = S \<or> (\<exists>m'. S' = set_table (db_arg db) m' S))
        \<and> gives (if rc = MDBX_NOTFOUND then returnM (A_flag False) else thenM (check L rc) (returnM (A_flag True)))
            (fst (spec wr (Op_del db k) S))
        \<and> snd (spec wr (Op_del db k) S) = S')"
      using rows_okD(3) [OF ok n(1-3) wr n(4)] n(3) wr by (auto simp: check_then on_table_def split: if_splits)
  qed (use calmD(4) [OF ok] wr in \<open>auto simp: on_table_def\<close>)
qed

section \<open>Opening and dropping tables\<close>

lemma cached_recache: "cached_dbi (th\<lparr>th_named := recache n d (th_named th)\<rparr>) name
    = (if name = Some n then Some d else cached_dbi th name)"
  by (cases name) (auto simp: cached_dbi_def find_recache)

lemma recache_caches:
  assumes "caches R S k q th" and "sees R q None k S' k'" and "rd_name R k' q d = Some (Some n)" and "table_of S' (Some n) \<noteq> None"
    and "\<And>name. table_of S name \<noteq> None \<Longrightarrow> table_of S' name \<noteq> None"
  shows "caches R S' k' q (th\<lparr>th_named := recache n d (th_named th)\<rparr>)"
  using assms unfolding caches_def sees_def by (auto simp: cached_recache distinct_recache)

text \<open>What \<open>mdbx_dbi_open_\<close> does with libmdbx's answer.\<close>

abbreviation open_rest :: "'n libmdbx \<Rightarrow> nat \<Rightarrow> string \<Rightarrow> int \<times> nat \<Rightarrow> ('n, answer) mem" where
  "open_rest L t name r \<equiv> bindM (thenM (whenM (fst r = MDBX_NOTFOUND) (stop_missing_dbi t name))
    (thenM (check L (fst r)) (set_txn t (\<lambda>h. h\<lparr>th_named := recache name (snd r) (th_named h)\<rparr>)))) (\<lambda>_. returnM A_done)"

abbreviation open_flags_of :: "bool \<Rightarrow> u32" where
  "open_flags_of create \<equiv> (if create then MDBX_CREATE else MDBX_DB_DEFAULTS)"

lemma open_found:
  assumes ok: "store_ok L R" and l: "live_txn t w" and T: "tracks R e wr i t S w"
    and t: "w_txns w t = Some th" "th_write th = wr" "th_txn th = Some q" "grips R e wr S (w_lib w) q th"
    and ans: "L_dbi_open L q (Some name) (open_flags_of create) (w_lib w) = (NRet (MDBX_SUCCESS, d), n)"
    and allowed: "create \<longrightarrow> wr" and run: "open_rest L t name (MDBX_SUCCESS, d) (w\<lparr>w_lib := n\<rparr>) = (r, v)"
  shows "follows R e wr i t (Op_open name create) S (answer_of r) v"
proof -
  let ?th = "th\<lparr>th_named := recache name d (th_named th)\<rparr>"
  let ?S = "if table_of S (Some name) = None then set_table (Some name) Map.empty S else S"
  have view: "rd_view R (w_lib w) q = Some (e, wr, S)" "caches R S (w_lib w) q th"
    using t(4) blocked_dbi [OF ok _ ans] by (auto simp: grips_def)
  have d: "(create \<or> table_of S (Some name) \<noteq> None) \<and> \<not> taken S (Some name)" "rd_name R n q d = Some (Some name)" "sees R q None (w_lib w) ?S n"
    using dbi_okD [OF ok view(1) _ ans] allowed by (auto split: if_splits)
  have "caches R ?S n q ?th"
    by (rule recache_caches [OF view(2) d(3,2)]) (auto simp: table_of_set [OF view_wf [OF ok view(1)]])
  moreover have "rd_view R n q = Some (e, wr, ?S)" using d(3) view(1) by (auto simp: sees_def)
  ultimately have gr: "grips R e wr ?S n q ?th" by (simp add: grips_def)
  have v: "r = Inr A_done" "v = put_txn t ?th (w\<lparr>w_lib := n\<rparr>)"
    using run t(1)
    by (auto simp: check_run thenM_def bindM_def set_txn_def txn_at_def fetchM_def modifyM_def returnM_def whenM_def)
  have "tracks R e wr i t ?S v" unfolding v(2) by (rule tracks_put [OF T t(1)]) (use t gr l in simp_all)
  moreover have "spec wr (Op_open name create) S = (A_done, ?S)" using d(1) allowed by (auto split: option.splits)
  ultimately show ?thesis using v(1) by (simp add: follows_def answer_of_def)
qed

lemma open_not_found:
  assumes ok: "store_ok L R" and I: "inv w" and l: "live_txn t w" and T: "tracks R e wr i t S w"
    and t: "w_txns w t = Some th" "th_txn th = Some q" "grips R e wr S (w_lib w) q th"
    and ans: "L_dbi_open L q (Some name) (open_flags_of create) (w_lib w) = (NRet (rc, d), n)"
    and allowed: "create \<longrightarrow> wr" and bad: "rc \<noteq> MDBX_SUCCESS"
    and run: "open_rest L t name (rc, d) (w\<lparr>w_lib := n\<rparr>) = (r, v)"
  shows "follows R e wr i t (Op_open name create) S (answer_of r) v"
proof -
  note law = dbi_okD [OF ok _ _ ans, of e wr S] and blk = blocked_dbi [OF ok _ ans]
  have fine: "tracks R e wr i t S (w\<lparr>w_lib := n\<rparr>)"
    by (rule tracks_failed [OF T t]) (use blk law allowed bad in \<open>auto split: if_splits\<close>)
  show ?thesis
  proof (cases "rc = MDBX_NOTFOUND")
    case True
    obtain p where "stop_missing_dbi t name (w\<lparr>w_lib := n\<rparr>) = (Inl (MissingDbi name p) :: err + unit, w\<lparr>w_lib := n\<rparr>)"
      using missing_run [OF I l] by blast
    then have v: "r = Inl (MissingDbi name p)" "v = w\<lparr>w_lib := n\<rparr>"
      using run True by (auto simp: thenM_def bindM_def whenM_def)
    have "\<not> create \<and> table_of S (Some name) = None \<and> \<not> taken S (Some name)"
      using t(3) blk law True allowed by (auto simp: grips_def split: if_splits)
    then show ?thesis using v fine by (simp add: follows_def answer_of_def)
  next
    case False
    then have "r = Inl (MdbxError (condition_of L rc))" "v = w\<lparr>w_lib := n\<rparr>"
      using run bad by (auto simp: check_run thenM_def bindM_def whenM_def returnM_def)
    moreover have "rd_fails R \<or> rc = MDBX_INCOMPATIBLE \<and> taken S (Some name) \<and> table_of S (Some name) = None"
      using t(3) law False bad allowed taken_no_table [OF view_wf [OF ok], of _ q e wr S]
      by (auto simp: grips_def spoilt_def split: if_splits)
    ultimately show ?thesis using fine allowed by (auto simp: follows_def)
  qed
qed

lemma open_follows:
  assumes ok: "store_ok L R" and I: "inv w" and l: "live_txn t w" and T: "tracks R e wr i t S w"
    and run: "op_call L (R_ExtPtr i) (Op_open name create) w = (r, v)"
  shows "follows R e wr i t (Op_open name create) S (answer_of r) v"
proof -
  have p: "txn_ptr w i t" using T by (simp add: tracks_def)
  obtain th q where t: "w_txns w t = Some th" "th_write th = wr" "th_txn th = Some q" "grips R e wr S (w_lib w) q th"
    using tracksD [OF T l] by blast
  note start = bind_assoc bind_stop bind_runs txn_from_sexp_live [OF I p l] txn_at_run [OF t(1)] t(2) stop_run
  show ?thesis
  proof (cases "create \<and> \<not> wr")
    case True
    then show ?thesis using run T by (auto simp: mdbx_dbi_open_def start follows_def answer_of_def)
  next
    case False
    let ?call = "guard (dbi_call L t (Some name) (open_flags_of create)) (Some (poison_txn t))"
    obtain g u where g: "?call w = (g, u)" by fastforce
    then have k: "bindM ?call (open_rest L t name) w = (r, v)"
      using run by (simp only: op_call.simps mdbx_dbi_open_def start if_not_P [OF False])
    from I l T g [unfolded dbi_call_def] calm_dbi [OF ok] show ?thesis
    proof (cases rule: guard_cases)
      case (panicked m g' l')
      then show ?thesis using k g by (auto simp: bindM_def follows_def)
    next
      case (returned th' q' x n)
      obtain rc d where x: "x = (rc, d)" by (cases x)
      have ans: "L_dbi_open L q (Some name) (open_flags_of create) (w_lib w) = (NRet (rc, d), n)" using returned t x by simp
      have after: "open_rest L t name (rc, d) (w\<lparr>w_lib := n\<rparr>) = (r, v)" using k g returned(6,7) by (simp only: bind_runs x)
      then show ?thesis
        using open_found [OF ok l T t] open_not_found [OF ok I l T t(1,3,4) ans] ans False by (cases "rc = MDBX_SUCCESS") auto
    qed
  qed
qed

text \<open>Dropping a table: the erased name no longer resolves, and the handle it had is no other name's.\<close>

lemma drop_okD:
  assumes "store_ok L R" and "rd_view R n q = Some (e, wr, S)" and "rd_name R n q d = Some name" and "table_of S name \<noteq> None"
    and "wr" and "name = None \<longrightarrow> \<not> del \<and> st_named S = []" and "L_drop L q d del n = (NRet rc, n')"
  shows "if rc = MDBX_SUCCESS
         then sees R q (if del then Some d else None) n (if del then drop_table (the name) S else set_table name Map.empty S) n'
         else spoilt R q n S n'"
  using store_okD(4) [OF assms(1)] assms(2-) unfolding tables_ok_def by blast

lemma cached_erase: "distinct (map fst (th_named th)) \<Longrightarrow>
    cached_dbi (th\<lparr>th_named := erase_name n (th_named th)\<rparr>) name = (if name = Some n then None else cached_dbi th name)"
  by (cases name) (auto simp: cached_dbi_def find_erase)

lemma erase_caches:
  assumes "caches R S k q th" and "sees R q (Some d) k (drop_table n S) k'" and "rd_name R k q d = Some (Some n)"
  shows "caches R (drop_table n S) k' q (th\<lparr>th_named := erase_name n (th_named th)\<rparr>)"
proof -
  have "rd_name R k' q c = Some name \<and> table_of (drop_table n S) name \<noteq> None"
    if "cached_dbi th name = Some c" "name \<noteq> Some n" for name c
  proof -
    have c: "rd_name R k q c = Some name" "table_of S name \<noteq> None" using assms(1) that(1) by (auto simp: caches_def)
    then have "c \<noteq> d" using assms(3) that(2) by auto
    then show ?thesis using c assms(2) that(2) by (auto simp: sees_def table_of_drop)
  qed
  then show ?thesis using assms(1) by (auto simp: caches_def cached_erase distinct_erase)
qed

lemma put_txn_id: "w_txns w t = Some th \<Longrightarrow> put_txn t th w = w"
  by (simp add: put_txn_def fun_upd_idem)

lemma erase_run:
  "w_txns w t = Some th \<Longrightarrow> (case name of Some n \<Rightarrow> whenM del (set_txn t (\<lambda>h. h\<lparr>th_named := erase_name n (th_named h)\<rparr>)) | None \<Rightarrow> returnM ()) w
    = (Inr (), if del \<and> name \<noteq> None then put_txn t (th\<lparr>th_named := erase_name (the name) (th_named th)\<rparr>) w else w)"
  by (auto simp: whenM_def set_txn_def bindM_def txn_at_def fetchM_def modifyM_def returnM_def split: option.splits)

text \<open>The last part of \<open>mdbx_dbi_drop_\<close>: resolve, drop, forget.\<close>

abbreviation drop_rest :: "'n libmdbx \<Rightarrow> nat \<Rightarrow> string list \<Rightarrow> bool \<Rightarrow> ('n, answer) mem" where
  "drop_rest L t db del \<equiv>
     bindM (ensure_dbi L t (db_arg db)) (\<lambda>_. bindM (guard (drop_call L t del) (Some (poison_txn t))) (\<lambda>rc.
       thenM (check L rc) (thenM (case db_arg db of
              Some n \<Rightarrow> whenM del (set_txn t (\<lambda>h. h\<lparr>th_named := erase_name n (th_named h)\<rparr>))
            | None \<Rightarrow> returnM ()) (returnM A_done))))"

text \<open>After a drop the cache is right again.\<close>

lemma dropped_grips:
  assumes ok: "store_ok L R" and view: "rd_view R m q = Some (e, wr, S)" "caches R S m q th"
    and s: "sees R q (if del then Some (th_dbi th) else None) m
      (if del then drop_table (the name) S else set_table name Map.empty S) n"
    and d: "rd_name R m q (th_dbi th) = Some name" and named: "del \<longrightarrow> name \<noteq> None"
  shows "grips R e wr (if del then drop_table (the name) S else set_table name Map.empty S) n q
    (if del then th\<lparr>th_named := erase_name (the name) (th_named th)\<rparr> else th)"
proof -
  have "caches R (if del then drop_table (the name) S else set_table name Map.empty S) n q
    (if del then th\<lparr>th_named := erase_name (the name) (th_named th)\<rparr> else th)"
  proof (cases del)
    case True
    then obtain nm where nm: "name = Some nm" using named by blast
    have "caches R (drop_table nm S) n q (th\<lparr>th_named := erase_name nm (th_named th)\<rparr>)"
      by (rule erase_caches [OF view(2)]) (use s d nm True in simp_all)
    then show ?thesis using True nm by simp
  next
    case False
    then show ?thesis using view(2) s view_wf [OF ok view(1)] unfolding caches_def sees_def by (auto simp: table_of_set)
  qed
  then show ?thesis using s view(1) by (auto simp: grips_def sees_def)
qed

lemma drop_rest_follows:
  assumes ok: "store_ok L R" and I: "inv w" and l: "live_txn t w" and T: "tracks R e wr i t S w"
    and run: "drop_rest L t db del w = (r, v)" and wr and named: "db_arg db = None \<longrightarrow> \<not> del \<and> st_named S = []"
    and absent: "table_of S (db_arg db) = None
        \<Longrightarrow> spec wr x S = (if taken S (db_arg db) then A_incompatible else A_missing, S)"
    and present: "table_of S (db_arg db) \<noteq> None \<Longrightarrow>
      spec wr x S = (A_done, if del then drop_table (the (db_arg db)) S else set_table (db_arg db) Map.empty S)"
  shows "follows R e wr i t x S (answer_of r) v"
  using ok I l T run [unfolded drop_call_def] calm_drop [OF ok]
proof (cases rule: on_table_cases)
  case (missing n p)
  then show ?thesis using absent by (simp add: follows_def answer_of_def)
next
  case (occupied y)
  then show ?thesis using absent by (simp add: follows_def)
next
  case (failed y)
  then show ?thesis by (simp add: follows_def)
next
  case (called u th q rc n)
  have fine: "tracks R e wr i t S (u\<lparr>w_lib := n\<rparr>)" if "rc \<noteq> MDBX_SUCCESS"
    by (rule tracks_failed [OF called(3-6)])
      (use that blockedD(5) [OF ok _ called(2)] drop_okD [OF ok _ _ _ \<open>wr\<close> named called(2), of e] called(8) in auto)
  show ?thesis
  proof (cases "rc = MDBX_SUCCESS")
    case False
    have "rd_fails R"
    proof (cases "rd_view R (w_lib u) q")
      case (Some z)
      then have "rd_view R (w_lib u) q = Some (e, wr, S)" using called(6) by (simp add: grips_def)
      then show ?thesis using drop_okD [OF ok _ _ _ \<open>wr\<close> named called(2), of e] called(8) False by (simp add: spoilt_def)
    qed (rule grips_blocked [OF called(6)])
    then show ?thesis using False called(1) fine by (auto simp: follows_def check_then stop_run)
  next
    case True
    let ?S = "if del then drop_table (the (db_arg db)) S else set_table (db_arg db) Map.empty S"
    have view: "rd_view R (w_lib u) q = Some (e, wr, S)" "caches R S (w_lib u) q th"
      using called(6) blockedD(5) [OF ok _ called(2)] True by (auto simp: grips_def)
    note d = called(8) [OF view(1), THEN conjunct1] called(8) [OF view(1), THEN conjunct2]
    have s: "sees R q (if del then Some (th_dbi th) else None) (w_lib u) ?S n"
      using drop_okD [OF ok view(1) d \<open>wr\<close> named called(2)] True by simp
    let ?th = "if del then th\<lparr>th_named := erase_name (the (db_arg db)) (th_named th)\<rparr> else th"
    have at: "w_txns (u\<lparr>w_lib := n\<rparr>) t = Some th" using called(4) by simp
    have k: "returnM A_done (if del \<and> db_arg db \<noteq> None
        then put_txn t (th\<lparr>th_named := erase_name (the (db_arg db)) (th_named th)\<rparr>) (u\<lparr>w_lib := n\<rparr>) else u\<lparr>w_lib := n\<rparr>) = (r, v)"
      using called(1) [unfolded True check_then if_P [OF refl]] erase_run [OF at, where name = "db_arg db" and del = del]
      by (simp only: thenM_def bind_runs)
    have v: "r = Inr A_done" "v = put_txn t ?th (u\<lparr>w_lib := n\<rparr>)"
      using k named put_txn_id [OF at] by (auto simp: returnM_def split: if_splits)
    have "grips R e wr ?S n q ?th"
      by (rule dropped_grips [OF ok view s d(1)]) (use named in blast)
    then have "tracks R e wr i t ?S v" unfolding v(2)
      by (intro tracks_put [OF called(3,4)]) (use called(5,9) in simp_all)
    then show ?thesis using v(1) present [OF d(2)] by (simp add: follows_def answer_of_def)
  qed
qed

section \<open>Enumerating\<close>

lemma tables_okD:
  assumes "store_ok L R" and "rd_view R n q = Some (e, wr, S)" and "L_tables L q n = (NRet (names, rc), n')"
  shows "if rc = MDBX_SUCCESS then names = map fst (st_named S) \<and> sees R q None n S n'
     else (names \<noteq> [] \<longrightarrow> st_named S \<noteq> []) \<and> rc \<noteq> MDBX_RESULT_TRUE \<and> spoilt R q n S n'"
  using store_okD(4) [OF assms(1)] assms(2,3) unfolding tables_ok_def by blast

lemma alloc_sees:
  assumes "store_ok L R" and "rd_view R n q = Some (e, wr, S)" and "L_alloc L m n = (b, n')"
  shows "sees R q None n S n'"
  using store_okD(4) [OF assms(1)] assms(2,3) unfolding tables_ok_def by blast

lemma alloc_grips: "store_ok L R \<Longrightarrow> grips R e wr S n q th \<Longrightarrow> L_alloc L m n = (b, n') \<Longrightarrow> grips R e wr S n' q th"
  using sees_grips [OF alloc_sees, of L R n q e wr S m b n'] blockedD(7) [of L R n q m b n']
  by (auto simp: grips_def)

lemma allocs_grip:
  "store_ok L R \<Longrightarrow> grips R e wr S n q th \<Longrightarrow> grips R e wr S (snd (list_allocs L names n)) q th"
proof (induction names arbitrary: n)
  case (Cons x xs)
  obtain b n' where "L_alloc L (length x) n = (b, n')" by fastforce
  then show ?case using Cons alloc_grips [of L R e wr S n q th "length x" b n'] by simp
qed simp

lemma allocs_calm: "store_ok L R \<Longrightarrow> \<not> fst (list_allocs L names n) \<Longrightarrow> rd_fails R"
proof (induction names arbitrary: n)
  case (Cons x xs)
  obtain b n' where a: "L_alloc L (length x) n = (b, n')" by fastforce
  show ?case
  proof (cases b)
    case True
    then show ?thesis using Cons a by simp
  next
    case False
    then show ?thesis using calmD(7) [OF Cons.prems(1), of "length x" n] a by simp
  qed
qed simp

lemma enumerate_split: "enumerate_tables L t visitor ctx =
    bindM (bindM (txn_at t) (\<lambda>h. txn_call (th_txn h) (L_tables L))) (\<lambda>r. visit_tables visitor (snd r) (fst r) ctx)"
  by (simp add: enumerate_tables_def bind_assoc)

text \<open>libmdbx lists the tables for a guarded function that starts with that, or panics.\<close>

lemma tables_cases:
  assumes ok: "store_ok L R" and I: "inv w" and l: "live_txn t w" and T: "tracks R e wr i t S w"
    and g: "guard (bindM (bindM (txn_at t) (\<lambda>h. txn_call (th_txn h) (L_tables L))) k) (Some (poison_txn t)) w = (r, v)"
  obtains (panicked) m g l where "r = Inl (panic_error m g l)" "tracks R e wr i t S v" "rd_fails R"
  | (listed) th q e' names rc n where "w_txns w t = Some th" "th_txn th = Some q" "txn_usable q e' w"
      "L_tables L q (w_lib w) = (NRet (names, rc), n)" "grips R e wr S (w_lib w) q th" "grips R e wr S n q th"
proof -
  obtain th q where t: "w_txns w t = Some th" "th_write th = wr" "th_txn th = Some q" "grips R e wr S (w_lib w) q th"
    using tracksD [OF T l] by blast
  obtain a h e' where o: "th_owner th = Some a" "w_envs w a = Some h" "txn_usable q e' w"
    using live_txn_ready [OF I l] t(1,3) by (metis option.inject)
  obtain res n where f: "L_tables L q (w_lib w) = (res, n)" by fastforce
  show thesis
  proof (cases res)
    case (NRet x)
    obtain names rc where "x = (names, rc)" by (cases x)
    then have f': "L_tables L q (w_lib w) = (NRet (names, rc), n)" using f NRet by simp
    have "grips R e wr S n q th"
    proof (cases "rd_view R (w_lib w) q")
      case None
      then show ?thesis using blockedD(6) [OF ok None f'] t(4) by (simp add: grips_def)
    next
      case (Some z)
      then have view: "rd_view R (w_lib w) q = Some (e, wr, S)" "caches R S (w_lib w) q th" using t(4) by (simp_all add: grips_def)
      then show ?thesis using tables_okD [OF ok view(1) f'] sees_grips [OF _ view] spoilt_grips [OF _ view] by (auto split: if_splits)
    qed
    then show thesis by (rule listed [OF t(1,3) o(3) f' t(4)])
  next
    case (NPanic m g' l')
    then have "L_tables L q (w_lib w) = (NPanic m g' l', n)" using f by simp
    from guard_panics_anyhow [where f = "\<lambda>_. L_tables L", OF I t(1,3) o(3,1,2) this, of k] g
    obtain r' where "r = Inl (panic_error m g' l')" "v = panicked_txn e' t th a h n r' w" by auto
    moreover have "rd_fails R" using calmD(6) [OF ok, of q "w_lib w"] f NPanic by simp
    ultimately show thesis using panicked tracks_panicked [OF T t(1) o(1)] by auto
  qed
qed

lemma list_follows:
  assumes ok: "store_ok L R" and I: "inv w" and l: "live_txn t w" and T: "tracks R e wr i t S w"
    and run: "op_call L (R_ExtPtr i) Op_list w = (r, v)"
  shows "follows R e wr i t Op_list S (answer_of r) v"
proof -
  have p: "txn_ptr w i t" using T by (simp add: tracks_def)
  obtain g u where g: "guard (list_call L t) (Some (poison_txn t)) w = (g, u)" by fastforce
  have k: "(case g of Inl x \<Rightarrow> (Inl x, u) | Inr y \<Rightarrow>
      (if snd (snd y) then (Inl ListOutOfMemory, u)
       else if fst y = MDBX_SUCCESS then (Inr (A_names (fst (snd y))), u) else (Inl (MdbxError (condition_of L (fst y))), u))) = (r, v)"
    using run g by (auto simp: mdbx_dbi_list_def bind_assoc bind_runs txn_from_sexp_live [OF I p l] bindM_def check_then stop_run returnM_def
        split: sum.splits)
  from ok I l T g [unfolded list_call_def enumerate_split] show ?thesis
  proof (cases rule: tables_cases)
    case (panicked m g' l')
    then show ?thesis using k by (auto simp: follows_def)
  next
    case (listed th q e' names rc n)
    obtain rc' out where vis: "visit_tables (list_visit L) rc names ([], False) ((push_frame w)\<lparr>w_lib := n\<rparr>)
        = (Inr (rc', out, \<not> fst (list_allocs L names n)), (push_frame w)\<lparr>w_lib := snd (list_allocs L names n)\<rparr>)"
        "fst (list_allocs L names n) \<longrightarrow> rc' = rc \<and> out = names"
      using list_visit_run [OF store_okD(1) [OF ok], of rc names "[]" "(push_frame w)\<lparr>w_lib := n\<rparr>"] by auto
    have "guard (list_call L t) (Some (poison_txn t)) w
        = (Inr (rc', out, \<not> fst (list_allocs L names n)), w\<lparr>w_lib := snd (list_allocs L names n)\<rparr>)"
      by (rule guard_return) (simp add: list_call_def tables_run [OF listed(1-4)] vis(1))
    then have gu: "g = Inr (rc', out, \<not> fst (list_allocs L names n))" "u = w\<lparr>w_lib := snd (list_allocs L names n)\<rparr>"
      using g by simp_all
    have fine: "tracks R e wr i t S u"
      unfolding gu(2) by (rule tracks_lib [OF T listed(1,2)]) (rule allocs_grip [OF ok listed(6)])
    have "names = map fst (st_named S)" if "rc = MDBX_SUCCESS"
      using tables_okD [OF ok _ listed(4)] tracks_view [OF listed(5)] blockedD(6) [OF ok _ listed(4)] that by auto
    moreover have "rd_fails R" if "\<not> fst (list_allocs L names n) \<or> rc \<noteq> MDBX_SUCCESS"
      using that allocs_calm [OF ok] tables_okD [OF ok _ listed(4), of e wr S] listed(5) by (auto simp: grips_def spoilt_def)
    ultimately show ?thesis using k gu(1) vis(2) fine by (auto simp: follows_def answer_of_def split: if_splits)
  qed
qed

lemma counting_run:
  assumes "w_txns w t = Some th" and "th_txn th = Some q" and "txn_usable q e w"
    and "L_tables L q (w_lib w) = (NRet (names, rc), n)"
  shows "count_named_tables L t w =
    (if names \<noteq> [] then Inr 1 else if rc = MDBX_SUCCESS \<or> rc = MDBX_RESULT_TRUE then Inr 0 else Inl (MdbxError (condition_of L rc)),
     w\<lparr>w_lib := n\<rparr>)"
proof -
  have "guard (count_call L t) (Some (poison_txn t)) w =
      (Inr (if names \<noteq> [] then (MDBX_SUCCESS, 1) else (if rc = MDBX_RESULT_TRUE then MDBX_SUCCESS else rc, 0)), w\<lparr>w_lib := n\<rparr>)"
    by (rule guard_return)
      (cases names; simp add: count_call_def bindM_def tables_run [OF assms] count_visit_def returnM_def code_defs)
  then show ?thesis by (simp add: count_named_tables_def op_run)
qed

text \<open>Emptying the main table looks for named ones first.\<close>

lemma empty_main_follows:
  assumes ok: "store_ok L R" and I: "inv w" and l: "live_txn t w" and T: "tracks R e True i t S w"
    and run: "bindM (count_named_tables L t) (\<lambda>n. if n > 0 then stopM EmptyMainWithNamed else drop_rest L t [] False) w = (r, v)"
  shows "follows R e True i t (Op_drop [] False) S (answer_of r) v"
proof -
  obtain g u where g: "guard (count_call L t) (Some (poison_txn t)) w = (g, u)" by fastforce
  have split: "count_call L t = bindM (bindM (txn_at t) (\<lambda>h. txn_call (th_txn h) (L_tables L)))
      (\<lambda>r. bindM (visit_tables count_visit (snd r) (fst r) 0)
        (\<lambda>r. returnM (if fst r = MDBX_RESULT_TRUE then MDBX_SUCCESS else fst r, snd r)))"
    by (simp add: count_call_def enumerate_split bind_assoc)
  from ok I l T g [unfolded split] show ?thesis
  proof (cases rule: tables_cases)
    case (panicked m g' l')
    then have "count_named_tables L t w = (Inl (panic_error m g' l'), u)"
      using g by (simp add: count_named_tables_def bindM_def)
    then show ?thesis using run panicked(2,3) by (auto simp: bindM_def follows_def)
  next
    case (listed th q e' names rc n)
    have T': "tracks R e True i t S (w\<lparr>w_lib := n\<rparr>)" by (rule tracks_lib [OF T listed(1,2,6)])
    have l': "live_txn t (w\<lparr>w_lib := n\<rparr>)" using l by (simp add: live_txn_def healthy_def)
    note count = counting_run [OF listed(1-4)]
    note law = tables_okD [OF ok _ listed(4), of e True S] blockedD(6) [OF ok _ listed(4)] tracks_view [OF listed(5)]
    consider "names \<noteq> []" | "names = []" "rc = MDBX_SUCCESS" | "names = []" "rc \<noteq> MDBX_SUCCESS" by blast
    then show ?thesis
    proof cases
      case 1
      then have "r = Inl EmptyMainWithNamed" "v = w\<lparr>w_lib := n\<rparr>" using run count by (auto simp: bindM_def stop_run)
      moreover have "st_named S \<noteq> []" using law 1 by (auto split: if_splits)
      ultimately show ?thesis using T' by (simp add: follows_def answer_of_def db_arg_def)
    next
      case 2
      then have named: "st_named S = []" using law by auto
      have "drop_rest L t [] False (w\<lparr>w_lib := n\<rparr>) = (r, v)" using run count 2 by (simp add: bind_runs)
      then show ?thesis
        by (rule drop_rest_follows [OF ok inv_lib [OF I] l' T' _ TrueI])
          (use named in \<open>auto simp: db_arg_def table_of_def\<close>)
    next
      case 3
      then have "rc \<noteq> MDBX_RESULT_TRUE" using law by auto
      then have "r = Inl (MdbxError (condition_of L rc))" "v = w\<lparr>w_lib := n\<rparr>" using run count 3 by (auto simp: bindM_def)
      moreover have "rd_fails R" using law 3 listed(5) by (auto simp: grips_def spoilt_def)
      ultimately show ?thesis using T' by (simp add: follows_def)
    qed
  qed
qed

lemma drop_follows:
  assumes ok: "store_ok L R" and I: "inv w" and l: "live_txn t w" and T: "tracks R e wr i t S w"
    and run: "op_call L (R_ExtPtr i) (Op_drop db del) w = (r, v)"
  shows "follows R e wr i t (Op_drop db del) S (answer_of r) v"
proof (cases wr)
  case False
  then show ?thesis using run T tracks_writable [OF I l T]
    by (auto simp: mdbx_dbi_drop_def bindM_def follows_def answer_of_def split: option.splits)
next
  case wr: True
  note start = thenM_def bind_assoc bind_stop bind_runs tracks_writable [OF I l T] stop_run
  consider (named) n where "db_arg db = Some n" "db \<noteq> []" | (main) "db = []" "del" | (empty) "db = []" "\<not> del"
    by (cases db) (auto simp: db_arg_def)
  then show ?thesis
  proof cases
    case main
    then show ?thesis using run wr T by (auto simp: mdbx_dbi_drop_def start whenM_def returnM_def follows_def answer_of_def db_arg_def)
  next
    case (named n)
    have "drop_rest L t db del w = (r, v)"
      using run wr named(2) by (simp add: mdbx_dbi_drop_def start whenM_def bind_return)
    then show ?thesis
      by (rule drop_rest_follows [OF ok I l T _ wr]) (use named(1) wr in \<open>auto simp: on_table_def\<close>)
  next
    case empty
    have "bindM (if n > 0 then stopM EmptyMainWithNamed else returnM ()) (\<lambda>_. m) = (if n > 0 then stopM EmptyMainWithNamed else m)"
      for n :: nat and m :: "('a, answer) mem"
      by (simp add: bind_stop bind_return)
    moreover have d: "db = []" "del = False" using empty by simp_all
    ultimately have k: "bindM (count_named_tables L t) (\<lambda>n. if n > 0 then stopM EmptyMainWithNamed else drop_rest L t [] False) w = (r, v)"
      using run wr unfolding d thenM_def by (simp add: mdbx_dbi_drop_def start whenM_def bind_return)
    show ?thesis using empty_main_follows [OF ok I l _ k] T wr unfolding d by simp
  qed
qed

section \<open>A run of operations\<close>

lemma refuses_dead:
  assumes I: "inv w" and p: "txn_ptr w i t" and dead: "\<not> live_txn t w"
  shows "\<exists>x. txn_from_sexp (R_ExtPtr i) w = (Inl x, w) \<and> answer_of (Inl x) = A_failed"
proof -
  have ok: "sexp_ok (R_ExtPtr i) w" using p by (auto simp: sexp_ok_def txn_ptr_def)
  obtain r v where r: "txn_from_sexp (R_ExtPtr i) w = (r, v)" by fastforce
  note acc = txn_from_sexp_wp [OF I ok, unfolded wp_def r]
  show ?thesis
  proof (cases r)
    case (Inr t')
    then have "txn_ptr w i t'" "live_txn t' w" using txn_from_sexp_accepts [of "R_ExtPtr i" w t' v] r acc by auto
    then show ?thesis using p dead by (auto simp: txn_ptr_def)
  next
    case (Inl x)
    have "answer_of (Inl x) = A_failed"
      using r Inl p
      by (auto simp: txn_from_sexp_def refusal_run txn_ptr_def answer_of_def split: option.splits if_splits)
    then show ?thesis using r Inl acc by auto
  qed
qed

lemma op_call_refused:
  "txn_from_sexp txn w = (Inl x, w) \<Longrightarrow> op_call L txn y w = (Inl x, w)"
  by (cases y) (simp_all add: mdbx_get_def mdbx_put_def mdbx_del_def mdbx_dbi_open_def mdbx_dbi_drop_def mdbx_dbi_list_def
      writable_txn_def bind_refused thenM_def)

text \<open>The state an operation leaves is the one the entry point leaves.\<close>

lemma snd_bind_return: "snd (bindM m (\<lambda>x. returnM (f x)) w) = snd (m w)"
  by (simp add: bindM_def returnM_def split: prod.split sum.split)

lemma op_entry: "\<exists>c. handle_arg c = txn \<and> \<not> may_publish c \<and> snd (perform L c w) = snd (op_call L txn x w)"
proof (cases x)
  case (Op_get db k)
  then show ?thesis by (intro exI [of _ "Do_get txn (R_Raw k) db"]) (simp add: ignoreM_def snd_bind_return)
next
  case (Op_put db k y overwrite)
  then show ?thesis by (intro exI [of _ "Do_put txn (R_Raw k) (R_Raw y) overwrite db"]) (simp add: ignoreM_def snd_bind_return)
next
  case (Op_del db k)
  then show ?thesis by (intro exI [of _ "Do_del txn (R_Raw k) db"]) (simp add: ignoreM_def snd_bind_return)
next
  case (Op_open n create)
  then show ?thesis by (intro exI [of _ "Do_dbi_open txn n create"]) (simp add: snd_bind_return)
next
  case (Op_drop db del)
  then show ?thesis by (intro exI [of _ "Do_dbi_drop txn db del"]) (simp add: snd_bind_return)
next
  case Op_list
  then show ?thesis by (intro exI [of _ "Do_dbi_list txn"]) (simp add: ignoreM_def snd_bind_return)
qed

lemma op_step:
  assumes lib: "library_ok L" and ok: "store_ok L R" and I: "inv w" and T: "tracks R e wr i t S w"
    and run: "run_op L (R_ExtPtr i) x w = (a, v)"
  shows "follows R e wr i t x S a v \<and> inv v \<and> rd_committed R (w_lib v) = rd_committed R (w_lib w)"
proof -
  obtain r where r: "op_call L (R_ExtPtr i) x w = (r, v)" "a = answer_of r"
    using run by (auto simp: run_op_def split: prod.splits)
  have p: "txn_ptr w i t" using T by (simp add: tracks_def)
  then have arg: "sexp_ok (R_ExtPtr i) w" by (auto simp: sexp_ok_def txn_ptr_def)
  obtain c where c: "handle_arg c = R_ExtPtr i" "\<not> may_publish c" "snd (perform L c w) = v"
    using op_entry [of "R_ExtPtr i" L w x] r(1) by auto
  then obtain rc where "perform L c w = (rc, v)" by (metis prod.collapse)
  then have "inv v" "rd_committed R (w_lib v) = rd_committed R (w_lib w)"
    using perform_outcome [OF lib I, of c] c(1) arg stays_run [OF published_perform [OF store_okD(7) [OF ok] c(2)] refl]
    by auto
  moreover have "follows R e wr i t x S a v"
  proof (cases "live_txn t w")
    case True
    then show ?thesis
      using r get_follows [OF ok I True T] put_follows [OF ok I True T] del_follows [OF ok I True T]
        open_follows [OF ok I True T] drop_follows [OF ok I True T] list_follows [OF ok I True T]
      by (cases x) simp_all
  next
    case False
    then have "rd_fails R" using T by (simp add: tracks_def)
    then show ?thesis using refuses_dead [OF I p False] op_call_refused [of "R_ExtPtr i" w _ L x] r T
      by (auto simp: follows_def)
  qed
  ultimately show ?thesis by simp
qed

text \<open>A refusal of a record is an answer of the store that leaves it alone.\<close>

lemma agreed_failure: "agrees (fst (spec wr x S)) a \<Longrightarrow> failure a \<Longrightarrow> snd (spec wr x S) = S"
  by (cases x) (auto simp: failure_def on_table_def split: option.splits if_splits)

lemma spec_answers [simp]: "\<not> agrees (fst (spec wr x S)) A_failed"
  by (cases x) (auto simp: on_table_def split: option.splits)

lemma runs_follow:
  assumes lib: "library_ok L" and ok: "store_ok L R"
  shows "inv w \<Longrightarrow> tracks R e wr i t S w \<Longrightarrow> run_ops L (R_ExtPtr i) xs w = (as, v)
    \<Longrightarrow> \<exists>S'. explains (rd_fails R) wr xs as S = Some S' \<and> tracks R e wr i t S' v \<and> inv v
       \<and> rd_committed R (w_lib v) = rd_committed R (w_lib w)"
proof (induction xs arbitrary: w S as)
  case (Cons x xs)
  obtain a u where u: "run_op L (R_ExtPtr i) x w = (a, u)" by fastforce
  obtain bs where bs: "run_ops L (R_ExtPtr i) xs u = (bs, v)" "as = a # bs"
    using Cons.prems(3) u by (auto split: prod.splits)
  note step = op_step [OF lib ok Cons.prems(1,2) u]
  let ?S = "if agrees (fst (spec wr x S)) a then snd (spec wr x S) else S"
  have "tracks R e wr i t ?S u" "\<not> agrees (fst (spec wr x S)) a \<Longrightarrow> failure a \<and> rd_fails R"
    using step agreed_failure [of wr x S a] by (auto simp: follows_def)
  then show ?case using Cons.IH [of u ?S bs] step bs by auto
qed simp

end
