(* ===== verification/Mdbx_Shelf.thy ===== *)
theory Mdbx_Shelf
  imports Mdbx_StoreRuns
begin

unbundle bit_operations_syntax

text \<open>
  A library that keeps stores: committed ones by environment, and one per open transaction. It
  shows that the hypotheses of \<open>Mdbx_Store\<close> can hold together, and the witnesses run on it.
\<close>

record shelf =
  sh_committed :: "nat \<Rightarrow> store"
  sh_views :: "nat \<rightharpoonup> nat \<times> bool \<times> store"
  sh_dbis :: "string option list"

definition shelf_view :: "shelf \<Rightarrow> nat \<Rightarrow> (nat \<times> bool \<times> store) option" where
  "shelf_view s q = (case sh_views s q of None \<Rightarrow> None | Some v \<Rightarrow> if store_wf (snd (snd v)) then Some v else None)"

definition shelf_name :: "shelf \<Rightarrow> nat \<Rightarrow> string option option" where
  "shelf_name s d = (if d < length (sh_dbis s) then Some (sh_dbis s ! d) else None)"

definition shelf_set :: "nat \<Rightarrow> nat \<times> bool \<times> store \<Rightarrow> shelf \<Rightarrow> shelf" where
  "shelf_set q v s = s\<lparr>sh_views := (sh_views s)(q \<mapsto> v)\<rparr>"

text \<open>Inside a transaction, on the table a handle denotes.\<close>

definition shelf_on ::
  "nat \<Rightarrow> nat \<Rightarrow> (int \<Rightarrow> 'a) \<Rightarrow> (bool \<Rightarrow> string option \<Rightarrow> table \<Rightarrow> store \<Rightarrow> 'a \<times> store) \<Rightarrow> shelf \<Rightarrow> 'a nres \<times> shelf" where
  "shelf_on q d bad f s =
     (case shelf_view s q of
        None \<Rightarrow> (NRet (bad MDBX_BAD_TXN), s)
      | Some (e, wr, S) \<Rightarrow> (case shelf_name s d of
          None \<Rightarrow> (NRet (bad MDBX_BAD_DBI), s)
        | Some name \<Rightarrow> (case table_of S name of
            None \<Rightarrow> (NRet (bad MDBX_BAD_DBI), s)
          | Some m \<Rightarrow> (case f wr name m S of (x, S') \<Rightarrow> (NRet x, shelf_set q (e, wr, S') s)))))"

definition shelf_get :: "nat \<Rightarrow> nat \<Rightarrow> bytes \<Rightarrow> shelf \<Rightarrow> (int \<times> bytes) nres \<times> shelf" where
  "shelf_get q d k = shelf_on q d (\<lambda>rc. (rc, []))
     (\<lambda>wr name m S. (if is_record S name k then (MDBX_SUCCESS, ''tree'')
        else case m k of None \<Rightarrow> (MDBX_NOTFOUND, []) | Some x \<Rightarrow> (MDBX_SUCCESS, x), S))"

definition shelf_put :: "nat \<Rightarrow> nat \<Rightarrow> bytes \<Rightarrow> bytes \<Rightarrow> u32 \<Rightarrow> shelf \<Rightarrow> int nres \<times> shelf" where
  "shelf_put q d k x flags = shelf_on q d id
     (\<lambda>wr name m S. if \<not> wr then (MDBX_BAD_TXN, S)
        else if flags AND MDBX_NOOVERWRITE \<noteq> 0 \<and> (m k \<noteq> None \<or> is_record S name k) then (MDBX_KEYEXIST, S)
        else if is_record S name k then (MDBX_INCOMPATIBLE, S)
        else (MDBX_SUCCESS, set_table name (m(k \<mapsto> x)) S))"

definition shelf_del :: "nat \<Rightarrow> nat \<Rightarrow> bytes \<Rightarrow> shelf \<Rightarrow> int nres \<times> shelf" where
  "shelf_del q d k = shelf_on q d id
     (\<lambda>wr name m S. if \<not> wr then (MDBX_BAD_TXN, S)
        else if is_record S name k then (MDBX_INCOMPATIBLE, S)
        else if m k = None then (MDBX_NOTFOUND, S) else (MDBX_SUCCESS, set_table name (m(k := None)) S))"

definition shelf_drop :: "nat \<Rightarrow> nat \<Rightarrow> bool \<Rightarrow> shelf \<Rightarrow> int nres \<times> shelf" where
  "shelf_drop q d del = shelf_on q d id
     (\<lambda>wr name m S. if \<not> wr then (MDBX_BAD_TXN, S)
        else if name = None \<and> (del \<or> st_named S \<noteq> []) then (MDBX_BAD_DBI, S)
        else (MDBX_SUCCESS, if del then drop_table (the name) S else set_table name Map.empty S))"

fun position :: "'a \<Rightarrow> 'a list \<Rightarrow> nat" where
  "position x [] = 0"
| "position x (y # ys) = (if y = x then 0 else Suc (position x ys))"

definition shelf_dbi_open :: "nat \<Rightarrow> string option \<Rightarrow> u32 \<Rightarrow> shelf \<Rightarrow> (int \<times> nat) nres \<times> shelf" where
  "shelf_dbi_open q name flags s =
     (case shelf_view s q of
        None \<Rightarrow> (NRet (MDBX_BAD_TXN, 0), s)
      | Some (e, wr, S) \<Rightarrow>
          if taken S name then (NRet (MDBX_INCOMPATIBLE, 0), s)
          else if table_of S name = None \<and> \<not> (wr \<and> flags AND MDBX_CREATE \<noteq> 0) then (NRet (MDBX_NOTFOUND, 0), s)
          else (NRet (MDBX_SUCCESS, position name (sh_dbis s)),
                shelf_set q (e, wr, if table_of S name = None then set_table name Map.empty S else S)
                  (s\<lparr>sh_dbis := if name \<in> set (sh_dbis s) then sh_dbis s else sh_dbis s @ [name]\<rparr>)))"

definition shelf_tables :: "nat \<Rightarrow> shelf \<Rightarrow> (bytes list \<times> int) nres \<times> shelf" where
  "shelf_tables q s =
     (case shelf_view s q of
        None \<Rightarrow> (NRet ([], MDBX_BAD_TXN), s)
      | Some (e, wr, S) \<Rightarrow> (NRet (map fst (st_named S), MDBX_SUCCESS), s))"

definition shelf_begin :: "nat \<Rightarrow> u32 \<Rightarrow> nat \<Rightarrow> shelf \<Rightarrow> int nres \<times> shelf" where
  "shelf_begin e flags q s =
     (if store_wf (sh_committed s e)
      then (NRet MDBX_SUCCESS, shelf_set q (e, flags AND MDBX_TXN_RDONLY = 0, sh_committed s e) s)
      else (NRet MDBX_CORRUPTED, s))"

definition shelf_commit :: "nat \<Rightarrow> shelf \<Rightarrow> int nres \<times> shelf" where
  "shelf_commit q s =
     (case shelf_view s q of
        None \<Rightarrow> (NRet MDBX_BAD_TXN, s)
      | Some (e, wr, S) \<Rightarrow>
          (NRet MDBX_SUCCESS, s\<lparr>sh_views := (sh_views s)(q := None),
             sh_committed := if wr then (sh_committed s)(e := S) else sh_committed s\<rparr>))"

definition shelf_abort :: "nat \<Rightarrow> shelf \<Rightarrow> int nres \<times> shelf" where
  "shelf_abort q s = (NRet MDBX_SUCCESS, s\<lparr>sh_views := (sh_views s)(q := None)\<rparr>)"

definition shelf_idle :: "'a \<Rightarrow> shelf \<Rightarrow> 'a nres \<times> shelf" where
  "shelf_idle x s = (NRet x, s)"

definition shelf_lib :: "shelf libmdbx" where
  "shelf_lib = \<lparr>
     L_sizeof_voidp = 8,
     L_sizeof_mode = 4,
     L_ENOMEM = 12,
     L_alloc = (\<lambda>n s. (True, s)),
     L_strerror = (\<lambda>rc. ''failed''),
     L_setup_debug = shelf_idle 0,
     L_env_create = (\<lambda>e. shelf_idle MDBX_SUCCESS),
     L_env_set_option = (\<lambda>e opt v. shelf_idle MDBX_SUCCESS),
     L_env_set_geometry = (\<lambda>e v. shelf_idle MDBX_SUCCESS),
     L_env_open = (\<lambda>e path flags mode. shelf_idle MDBX_SUCCESS),
     L_env_get_flags = (\<lambda>e. shelf_idle (MDBX_SUCCESS, 0)),
     L_env_set_flags = (\<lambda>e bits on. shelf_idle MDBX_SUCCESS),
     L_env_sync_ex = (\<lambda>e force nonblock. shelf_idle MDBX_SUCCESS),
     L_env_close = (\<lambda>e. shelf_idle MDBX_SUCCESS),
     L_reader_check = (\<lambda>e. shelf_idle (MDBX_SUCCESS, 0)),
     L_env_get_path = (\<lambda>e. shelf_idle (MDBX_SUCCESS, Some ''/db'')),
     L_heap_roots = (\<lambda>e s. (None, None)),
     L_env_stat_ex = (\<lambda>e t. shelf_idle (MDBX_SUCCESS, demo_zero_stat)),
     L_env_info_ex = (\<lambda>e t. shelf_idle (MDBX_SUCCESS, demo_zero_info)),
     L_txn_begin = shelf_begin,
     L_txn_commit = shelf_commit,
     L_commit_off_thread = (\<lambda>t. shelf_idle MDBX_THREAD_MISMATCH),
     L_txn_abort = shelf_abort,
     L_txn_flags = (\<lambda>t. shelf_idle 0),
     L_txn_id = (\<lambda>t. shelf_idle 1),
     L_dbi_open = shelf_dbi_open,
     L_dbi_stat = (\<lambda>t dbi. shelf_idle (MDBX_SUCCESS, demo_zero_stat)),
     L_dbi_sequence = (\<lambda>t dbi inc. shelf_idle (MDBX_SUCCESS, 0)),
     L_drop = shelf_drop,
     L_tables = shelf_tables,
     L_get = shelf_get,
     L_put = shelf_put,
     L_del = shelf_del,
     L_cursor_open = (\<lambda>t dbi. shelf_idle (MDBX_SUCCESS, 0)),
     L_cursor_get = (\<lambda>c k opr. shelf_idle (MDBX_NOTFOUND, [], [])),
     L_cursor_close = (\<lambda>c. shelf_idle ()),
     L_cmp = (\<lambda>t dbi a b. shelf_idle (if b < a then 1 else if a = b then 0 else - 1)),
     L_limits = (\<lambda>ps. (10, 20, 30, 40, 50)),
     L_keysize_min = 0,
     L_valsize_min = 0,
     L_default_pagesize = 4096\<rparr>"

definition shelf_reading :: "shelf reading" where
  "shelf_reading = \<lparr>rd_committed = sh_committed, rd_view = shelf_view, rd_name = (\<lambda>s q. shelf_name s),
     rd_fails = False\<rparr>"

lemma shelf_fields [simp]:
  "rd_committed shelf_reading = sh_committed" "rd_view shelf_reading = shelf_view"
  "rd_name shelf_reading s q = shelf_name s" "\<not> rd_fails shelf_reading"
  by (simp_all add: shelf_reading_def)

section \<open>It keeps the promises\<close>

lemma shelf_keeps_pub [simp]: "keeps_pub sh_committed (shelf_idle x)" "keeps_pub sh_committed (shelf_on q d bad f)"
  "keeps_pub sh_committed (shelf_begin e fl q)" "keeps_pub sh_committed (shelf_abort q)" "keeps_pub sh_committed (shelf_tables q)"
  "keeps_pub sh_committed (shelf_dbi_open q name fl)" "keeps_pub sh_committed (\<lambda>s. (b, s))"
  by (auto simp: keeps_pub_def shelf_idle_def shelf_on_def shelf_begin_def shelf_abort_def shelf_tables_def shelf_dbi_open_def
      shelf_set_def split: option.splits prod.splits)

lemma shelf_commits: "commit_only shelf_lib sh_committed"
  unfolding commit_only_def
  by (auto simp: shelf_lib_def shelf_get_def shelf_put_def shelf_del_def shelf_drop_def shelf_commit_def
      split: option.splits prod.splits if_splits)

lemma shelf_library_ok: "library_ok shelf_lib"
  by (auto simp: library_ok_def readers_return_def abort_ends_def checks_owner_def shelf_lib_def shelf_idle_def shelf_abort_def branch_codes_distinct)

lemma shelf_view_wf: "shelf_view s q = Some (e, wr, S) \<Longrightarrow> store_wf S"
  by (auto simp: shelf_view_def split: option.splits if_splits)

lemma shelf_view_set: "store_wf S' \<Longrightarrow> shelf_view (shelf_set q (e, wr, S') s) q = Some (e, wr, S')"
  by (simp add: shelf_view_def shelf_set_def)

lemma shelf_name_set [simp]: "shelf_name (shelf_set q v s) d = shelf_name s d"
  by (simp add: shelf_name_def shelf_set_def)

lemma shelf_sees:
  "shelf_view s q = Some (e, wr, S) \<Longrightarrow> store_wf S' \<Longrightarrow> sees shelf_reading q gone s S' (shelf_set q (e, wr, S') s)"
  by (simp add: sees_def shelf_view_set)

lemma shelf_sees_same: "shelf_view s q = Some (e, wr, S) \<Longrightarrow> sees shelf_reading q gone s S s"
  by (simp add: sees_def)

lemma position_nth: "x \<in> set xs \<Longrightarrow> position x xs < length xs \<and> xs ! position x xs = x"
  by (induction xs) auto

lemma position_new: "x \<notin> set xs \<Longrightarrow> position x xs = length xs"
  by (induction xs) auto

section \<open>It keeps stores\<close>

lemma codes_apart [simp]:
  "MDBX_BAD_TXN \<noteq> MDBX_SUCCESS" "MDBX_BAD_TXN \<noteq> MDBX_NOTFOUND" "MDBX_BAD_TXN \<noteq> MDBX_KEYEXIST" "MDBX_BAD_TXN \<noteq> MDBX_RESULT_TRUE"
  "MDBX_INCOMPATIBLE \<noteq> MDBX_SUCCESS" "MDBX_INCOMPATIBLE \<noteq> MDBX_NOTFOUND" "MDBX_INCOMPATIBLE \<noteq> MDBX_KEYEXIST"
  "MDBX_NOTFOUND \<noteq> MDBX_SUCCESS" "MDBX_KEYEXIST \<noteq> MDBX_SUCCESS" "MDBX_CORRUPTED \<noteq> MDBX_SUCCESS"
  by (simp_all add: code_defs)

lemma shelf_set_dbis [simp]: "sh_dbis (shelf_set q v s) = sh_dbis s"
  by (simp add: shelf_set_def)

lemma shelf_dbi_ok: "dbi_ok shelf_lib shelf_reading"
  unfolding dbi_ok_def
proof (intro allI impI; elim conjE)
  fix q n e wr S name create rc d n'
  assume v: "rd_view shelf_reading n q = Some (e, wr, S)" and c: "create \<longrightarrow> wr \<and> name \<noteq> None"
    and o: "L_dbi_open shelf_lib q name (if create then MDBX_CREATE else MDBX_DB_DEFAULTS) n = (NRet (rc, d), n')"
  have view: "shelf_view n q = Some (e, wr, S)" and wf: "store_wf S" using v shelf_view_wf by simp_all
  let ?dbis = "if name \<in> set (sh_dbis n) then sh_dbis n else sh_dbis n @ [name]"
  let ?S = "if table_of S name = None then set_table name Map.empty S else S"
  show "if rc = MDBX_SUCCESS
         then (create \<or> table_of S name \<noteq> None) \<and> \<not> taken S name \<and> rd_name shelf_reading n' q d = Some name
            \<and> sees shelf_reading q None n ?S n'
         else if rc = MDBX_NOTFOUND then \<not> create \<and> table_of S name = None \<and> \<not> taken S name \<and> sees shelf_reading q None n S n'
         else if rc = MDBX_INCOMPATIBLE \<and> taken S name then sees shelf_reading q None n S n'
         else spoilt shelf_reading q n S n'"
  proof -
    consider (occupied) "taken S name" | (absent) "\<not> taken S name" "table_of S name = None \<and> \<not> create"
      | (opened) "\<not> taken S name" "\<not> (table_of S name = None \<and> \<not> create)" by blast
    then show ?thesis
    proof cases
      case occupied
      then have "rc = MDBX_INCOMPATIBLE" "n' = n" using o view by (simp_all add: shelf_lib_def shelf_dbi_open_def)
      then show ?thesis using occupied shelf_sees_same [OF view] by simp
    next
      case absent
      then have "rc = MDBX_NOTFOUND" "n' = n" using o view by (simp_all add: shelf_lib_def shelf_dbi_open_def flag_defs)
      then show ?thesis using absent shelf_sees_same [OF view] by simp
    next
      case opened
      then have r: "rc = MDBX_SUCCESS" "d = position name (sh_dbis n)" "n' = shelf_set q (e, wr, ?S) (n\<lparr>sh_dbis := ?dbis\<rparr>)"
        using o view c by (cases create; auto simp: shelf_lib_def shelf_dbi_open_def flag_defs)+
      have "shelf_name n' d = Some name"
        unfolding r(2,3) using position_nth [of name "sh_dbis n"] position_new [of name "sh_dbis n"]
        by (auto simp: shelf_name_def)
      moreover have "store_wf ?S"
        using wf opened(1) store_wf_set [OF wf] writable_new by (cases name) (auto simp: table_of_def)
      then have "sees shelf_reading q None n ?S n'"
        unfolding r(3) sees_def using view by (auto simp: shelf_view_set shelf_name_def nth_append)
      ultimately show ?thesis using opened r(1) by auto
    qed
  qed
qed

lemma shelf_rows_ok: "rows_ok shelf_lib shelf_reading"
  unfolding rows_ok_def
proof (intro allI impI; elim conjE)
  fix q n e wr S d name m k
  assume v: "rd_view shelf_reading n q = Some (e, wr, S)" and d: "rd_name shelf_reading n q d = Some name" "table_of S name = Some m"
  have view: "shelf_view n q = Some (e, wr, S)" and wf: "store_wf S" using v shelf_view_wf by simp_all
  note run = shelf_lib_def shelf_get_def shelf_put_def shelf_del_def shelf_on_def view d [simplified]
  have seen: "sees shelf_reading q None n S' (shelf_set q (e, b, S') n)" if "b = wr" "store_wf S'" for b S'
    using shelf_sees [OF view that(2)] that(1) by simp
  have put: "store_wf (set_table name (m(k \<mapsto> x)) S)" if "\<not> is_record S name k" for x
    by (rule store_wf_set [OF wf writable_rows(1) [OF wf d(2) that]])
  have del: "store_wf (set_table name (m(k := None)) S)"
    by (rule store_wf_set [OF wf writable_rows(2) [OF wf d(2)]])
  have record_row: "m k = None" if "is_record S name k" using table_not_record [OF wf d(2), of k] that by blast
  show "(\<forall>rc x n'. L_get shelf_lib q d k n = (NRet (rc, x), n') \<longrightarrow>
           (if rc = MDBX_SUCCESS then (is_record S name k \<or> m k = Some x) \<and> sees shelf_reading q None n S n'
            else if rc = MDBX_NOTFOUND then \<not> is_record S name k \<and> m k = None \<and> sees shelf_reading q None n S n'
            else spoilt shelf_reading q n S n'))
      \<and> (wr \<longrightarrow> (\<forall>x overwrite rc n'. L_put shelf_lib q d k x (if overwrite then MDBX_UPSERT else MDBX_NOOVERWRITE) n = (NRet rc, n') \<longrightarrow>
           (if rc = MDBX_SUCCESS
            then (overwrite \<or> m k = None \<and> \<not> is_record S name k)
               \<and> sees shelf_reading q None n (if is_record S name k then S else set_table name (m(k \<mapsto> x)) S) n'
            else if rc = MDBX_KEYEXIST then \<not> overwrite \<and> (m k \<noteq> None \<or> is_record S name k) \<and> sees shelf_reading q None n S n'
            else if rc = MDBX_INCOMPATIBLE \<and> overwrite \<and> is_record S name k then sees shelf_reading q None n S n'
            else spoilt shelf_reading q n S n')))
      \<and> (wr \<longrightarrow> (\<forall>rc n'. L_del shelf_lib q d k n = (NRet rc, n') \<longrightarrow>
           (if rc = MDBX_SUCCESS
            then m k \<noteq> None \<and> \<not> is_record S name k \<and> sees shelf_reading q None n (set_table name (m(k := None)) S) n'
            else if rc = MDBX_NOTFOUND then m k = None \<and> \<not> is_record S name k \<and> sees shelf_reading q None n S n'
            else if rc = MDBX_INCOMPATIBLE \<and> is_record S name k then sees shelf_reading q None n S n'
            else spoilt shelf_reading q n S n')))"
    by (auto simp: run flag_defs record_row split: if_splits option.splits intro!: seen wf put del)
qed

lemma shelf_tables_ok: "tables_ok shelf_lib shelf_reading"
  unfolding tables_ok_def
proof (intro allI impI)
  fix q n e wr S
  assume "rd_view shelf_reading n q = Some (e, wr, S)"
  then have view: "shelf_view n q = Some (e, wr, S)" and wf: "store_wf S" using shelf_view_wf by simp_all
  note seen = shelf_sees [OF view]
  have drop: "if rc = MDBX_SUCCESS
      then sees shelf_reading q (if del then Some d else None) n (if del then drop_table (the name) S else set_table name Map.empty S) n'
      else spoilt shelf_reading q n S n'"
    if "shelf_name n d = Some name" "table_of S name \<noteq> None" "wr" "name = None \<longrightarrow> \<not> del \<and> st_named S = []" "shelf_drop q d del n = (NRet rc, n')"
    for d name del rc n'
  proof -
    from \<open>table_of S name \<noteq> None\<close> obtain m where m: "table_of S name = Some m" by blast
    then have "rc = MDBX_SUCCESS"
      "n' = shelf_set q (e, wr, if del then drop_table (the name) S else set_table name Map.empty S) n"
      using that by (auto simp: shelf_drop_def shelf_on_def view)
    then show ?thesis
      using seen [OF store_wf_set [OF wf writable_rows(3) [OF wf m]]] seen [OF store_wf_drop [OF wf]] by simp
  qed
  have list: "names = map fst (st_named S) \<and> rc = MDBX_SUCCESS \<and> n' = n" if "shelf_tables q n = (NRet (names, rc), n')" for names rc n'
    using that view by (simp add: shelf_tables_def)
  show "store_wf S
      \<and> (\<forall>names rc n'. L_tables shelf_lib q n = (NRet (names, rc), n') \<longrightarrow>
           (if rc = MDBX_SUCCESS then names = map fst (st_named S) \<and> sees shelf_reading q None n S n'
            else (names \<noteq> [] \<longrightarrow> st_named S \<noteq> []) \<and> rc \<noteq> MDBX_RESULT_TRUE \<and> spoilt shelf_reading q n S n'))
      \<and> (\<forall>d name del rc n'. rd_name shelf_reading n q d = Some name \<and> table_of S name \<noteq> None \<and> wr \<and> (name = None \<longrightarrow> \<not> del \<and> st_named S = [])
           \<and> L_drop shelf_lib q d del n = (NRet rc, n') \<longrightarrow>
           (if rc = MDBX_SUCCESS
            then sees shelf_reading q (if del then Some d else None) n
                   (if del then drop_table (the name) S else set_table name Map.empty S) n'
            else spoilt shelf_reading q n S n'))
      \<and> (\<forall>m ok n'. L_alloc shelf_lib m n = (ok, n') \<longrightarrow> sees shelf_reading q None n S n')"
  proof (intro conjI allI impI; (elim conjE)?)
    show "store_wf S" by (rule wf)
  next
    fix names rc n'
    assume "L_tables shelf_lib q n = (NRet (names, rc), n')"
    then show "if rc = MDBX_SUCCESS then names = map fst (st_named S) \<and> sees shelf_reading q None n S n'
            else (names \<noteq> [] \<longrightarrow> st_named S \<noteq> []) \<and> rc \<noteq> MDBX_RESULT_TRUE \<and> spoilt shelf_reading q n S n'"
      using list shelf_sees_same [OF view] by (simp add: shelf_lib_def)
  next
    fix d name del rc n'
    assume "rd_name shelf_reading n q d = Some name" "table_of S name \<noteq> None" wr "name = None \<longrightarrow> \<not> del \<and> st_named S = []"
      and "L_drop shelf_lib q d del n = (NRet rc, n')"
    then show "if rc = MDBX_SUCCESS
            then sees shelf_reading q (if del then Some d else None) n
                   (if del then drop_table (the name) S else set_table name Map.empty S) n'
            else spoilt shelf_reading q n S n'"
      by (intro drop) (simp_all add: shelf_lib_def)
  next
    fix m ok n'
    assume "L_alloc shelf_lib m n = (ok, n')"
    then show "sees shelf_reading q None n S n'" using shelf_sees_same [OF view] by (simp add: shelf_lib_def)
  qed
qed

lemma shelf_blocked_ok: "blocked_ok shelf_lib shelf_reading"
  unfolding blocked_ok_def
  by (auto simp: shelf_lib_def shelf_dbi_open_def shelf_get_def shelf_put_def shelf_del_def shelf_drop_def shelf_on_def
      shelf_tables_def shelf_commit_def split: option.splits)

lemma shelf_ends_ok: "ends_ok shelf_lib shelf_reading"
  unfolding ends_ok_def
  by (auto simp: shelf_lib_def shelf_begin_def shelf_commit_def shelf_view_set split: if_splits option.splits)

lemma shelf_steady: "steady shelf_lib"
  by (auto simp: steady_def shelf_lib_def shelf_dbi_open_def shelf_get_def shelf_put_def shelf_del_def shelf_drop_def shelf_on_def
      shelf_tables_def panics_def split: option.splits prod.splits)

lemma shelf_store_ok: "store_ok shelf_lib shelf_reading"
proof -
  have "L_ENOMEM shelf_lib \<noteq> 0" by (simp add: shelf_lib_def)
  then show ?thesis
    using shelf_dbi_ok shelf_rows_ok shelf_tables_ok shelf_blocked_ok shelf_ends_ok shelf_commits shelf_steady
    unfolding store_ok_def by simp
qed

section \<open>Two worlds\<close>

text \<open>An open environment over empty stores, and a write transaction in it: the worlds of \<open>Mdbx_Demo\<close>.\<close>

definition empty_store :: store where
  "empty_store = \<lparr>st_main = Map.empty, st_named = []\<rparr>"

definition shelf_zero :: shelf where
  "shelf_zero = \<lparr>sh_committed = (\<lambda>e. empty_store), sh_views = Map.empty, sh_dbis = []\<rparr>"

definition shelf_opened :: "shelf world" where
  "shelf_opened =
     \<lparr>w_pid = 7, w_next = 2, w_envs = [0 \<mapsto> demo_env], w_txns = Map.empty, w_xps = [1 \<mapsto> demo_env_ptr],
      w_live_env_handles = 1, w_live_txn_handles = 0, w_open = [0], w_abandoned = None,
      w_guard = [], w_last_panic = zero_panic, w_lib = shelf_zero, w_ids = 1,
      w_usable_envs = [0], w_usable_txns = []\<rparr>"

definition shelf_begun :: "shelf world" where
  "shelf_begun =
     \<lparr>w_pid = 7, w_next = 4, w_envs = [0 \<mapsto> demo_env\<lparr>eh_live := [2]\<rparr>], w_txns = [2 \<mapsto> demo_txn],
      w_xps = [1 \<mapsto> demo_env_ptr, 3 \<mapsto> demo_txn_ptr],
      w_live_env_handles = 1, w_live_txn_handles = 1, w_open = [0], w_abandoned = None,
      w_guard = [], w_last_panic = zero_panic, w_lib = shelf_set 1 (0, True, empty_store) shelf_zero, w_ids = 2,
      w_usable_envs = [0], w_usable_txns = [(1, 0)]\<rparr>"

lemmas shelf_run =
  run_simps ignoreM_def unwindM_def env_at_def txn_at_def xptr_at_def set_env_def set_txn_def set_xptr_def
  put_env_def put_txn_def put_xptr_def new_env_def new_txn_def new_xptr_def current_pid_def
  has_tag_def is_env_sexp_def is_txn_sexp_def env_addr_def txn_addr_def env_from_sexp_def txn_from_sexp_def
  guard_def mdbx_r_run_guarded_def push_frame_def set_guard_def env_call_def txn_call_def native_def
  check_def shelf_lib_def shelf_idle_def Let_def

lemma shelf_open_runs:
  "perform shelf_lib (Do_env_open ''/db'' ''/db'' False True (Fin 0) (Fin 0) (Fin 0) 420 []) (initial_world 7 shelf_zero)
     = (Inr (), shelf_opened)"
  by (simp add: shelf_run shelf_opened_def demo_env_def demo_env_ptr_def initial_world_def
      mdbx_env_open_def env_flags_from_names_def bits_from_def open_flags_def max_exact_integer_def
      max_native_integer_def find_open_env_def castM_def positive_or_zero_def cast_unsigned_def cast_signed_def
      trunc_rat_def open_guarded_def open_call_def env_create_call_def env_created_def fresh_env_handle_def
      record_heap_roots_def heap_roots_call_def new_env_sexp_def register_env_def open_add_def)

lemma shelf_begin_runs: "mdbx_txn_begin shelf_lib (R_ExtPtr 1) True [] shelf_opened = (Inr (R_ExtPtr 3), shelf_begun)"
  by (simp add: shelf_run shelf_opened_def shelf_begun_def demo_env_def demo_env_ptr_def demo_txn_def demo_txn_ptr_def
      shelf_zero_def empty_store_def mdbx_txn_begin_def txn_flags_from_names_def bits_from_def shelf_begin_def store_wf_def
      begin_call_def txn_begin_call_def txn_created_def fresh_txn_handle_def new_txn_sexp_def get_attrib_def
      live_add_def flag_defs)

end
