(* ===== verification/Mdbx_Atomic.thy ===== *)
theory Mdbx_Atomic
  imports Mdbx_Shelf
begin

unbundle bit_operations_syntax

text \<open>
  Transactions as a whole: what a transaction sees when it begins, what a run of operations in it
  answers, and what is left for everybody when it ends.
\<close>

section \<open>Beginning\<close>










section \<open>Ending\<close>


section \<open>Transactions\<close>







lemma shelf_opened_reachable: "reachable shelf_lib shelf_opened"
  by (rule reachable.later [OF reachable.loaded], rule step.call [OF _ shelf_open_runs]) (simp add: sexp_ok_def)

lemma shelf_begun_reachable: "reachable shelf_lib shelf_begun"
  by (rule reachable.later [OF shelf_opened_reachable], rule step.call [where c = "Do_txn_begin (R_ExtPtr 1) True []"])
    (simp add: sexp_ok_def shelf_opened_def, simp add: ignoreM_def thenM_def bindM_def returnM_def shelf_begin_runs sexp_ok_def del: One_nat_def)




section \<open>Who publishes\<close>

text \<open>C5: nothing is published but by a commit the caller asked for and was told of. If a call other
  than opening an environment changes what the databases hold, it is \<open>mdbx_txn_commit_\<close> on a live
  transaction, and it reported success, or that libmdbx panicked in the middle; the test hook that commits from
  another thread, which libmdbx refuses, publishes nothing, and no finalizer ever does, whatever
  transactions it finds open.\<close>

theorem only_commit_publishes:
  assumes "library_ok L" and "reachable L w" and "commit_only L pub"
  shows "(\<forall>c r w'. sexp_ok (handle_arg c) w \<and> \<not> opens c \<and> perform L c w = (r, w') \<and> pub (w_lib w') \<noteq> pub (w_lib w)
           \<longrightarrow> (\<exists>i t. c = Do_txn_commit (R_ExtPtr i) \<and> txn_ptr w i t \<and> live_txn t w
                 \<and> (r = Inr () \<or> (\<exists>m g l. r = Inl (AssertFailed m g l)))))
       \<and> (\<forall>x r w'. finalize_env L x w = (r, w') \<or> finalize_txn L x w = (r, w') \<longrightarrow> pub (w_lib w') = pub (w_lib w))"
proof (intro conjI allI impI; (elim conjE)?)
  fix c r w'
  assume c: "sexp_ok (handle_arg c) w" "\<not> opens c" "perform L c w = (r, w')" "pub (w_lib w') \<noteq> pub (w_lib w)"
  have "may_publish c" using stays_run [OF published_perform [OF assms(3)] refl c(3)] c(4) by blast
  then obtain txn where txn: "c = Do_txn_commit txn" using c(2) by (cases c) simp_all
  then show "\<exists>i t. c = Do_txn_commit (R_ExtPtr i) \<and> txn_ptr w i t \<and> live_txn t w
                 \<and> (r = Inr () \<or> (\<exists>m g l. r = Inl (AssertFailed m g l)))"
    using commit_publishes [OF inv_reachable [OF assms(2,1)] _ assms(3)] c by auto
next
  fix x r w'
  assume "finalize_env L x w = (r, w') \<or> finalize_txn L x w = (r, w')"
  then show "pub (w_lib w') = pub (w_lib w)"
    using stays_run [OF published_finalizers(1) [OF assms(3)] refl] stays_run [OF published_finalizers(2) [OF assms(3)] refl]
    by blast
qed

theorem only_commit_publishes_witness:
  "sh_committed (w_lib (snd (perform shelf_lib (Do_put (R_ExtPtr 3) (R_Raw ''k'') (R_Raw ''x'') True []) shelf_begun))) = (\<lambda>e. empty_store)
   \<and> sh_committed (w_lib (snd (finalize_txn shelf_lib 3 shelf_begun))) = (\<lambda>e. empty_store)"
proof -
  note law = only_commit_publishes [OF shelf_library_ok shelf_begun_reachable shelf_commits]
  have same: "sh_committed (w_lib shelf_begun) = (\<lambda>e. empty_store)" by (simp add: shelf_begun_def shelf_set_def shelf_zero_def)
  let ?c = "Do_put (R_ExtPtr 3) (R_Raw ''k'') (R_Raw ''x'') True []"
  obtain r v where r: "perform shelf_lib ?c shelf_begun = (r, v)" by fastforce
  obtain s u where s: "finalize_txn shelf_lib 3 shelf_begun = (s, u)" by fastforce
  have "sexp_ok (handle_arg ?c) shelf_begun" by (simp add: sexp_ok_def shelf_begun_def)
  then have "sh_committed (w_lib v) = sh_committed (w_lib shelf_begun)"
    using conjunct1 [OF law, rule_format, of ?c r v] r by fastforce
  moreover have "sh_committed (w_lib u) = sh_committed (w_lib shelf_begun)" using conjunct2 [OF law] s by blast
  ultimately show ?thesis using same r s by simp
qed

end
