(* ===== verification/Mdbx_Interleaved.thy ===== *)
theory Mdbx_Interleaved
  imports Mdbx_Bystanders Mdbx_Atomic
begin

unbundle bit_operations_syntax

text \<open>
  A transaction among others. Between its operations R does anything with other handles, the
  collector runs finalizers, other processes use the database. The transaction still answers as the
  store it began with would, changed by its own operations alone, and its commit publishes that store.
\<close>

section \<open>Everybody else\<close>

text \<open>
  The steps that are not operations on the pointers in \<open>X\<close>. Another process leaves the snapshots of open
  transactions alone. An environment may even be finalized, or the process fork; then its
  transaction is over here.
\<close>

inductive others :: "'n libmdbx \<Rightarrow> 'n reading \<Rightarrow> nat set \<Rightarrow> 'n world \<Rightarrow> 'n world \<Rightarrow> bool" for L R X where
  call: "sexp_ok (handle_arg c) w \<Longrightarrow> handle_arg c \<notin> R_ExtPtr ` X \<Longrightarrow> perform L c w = (r, w') \<Longrightarrow> others L R X w w'"
| collect_env: "w_xps w x = Some p \<Longrightarrow> xp_tag p = env_tag \<Longrightarrow> finalize_env L x w = (r, w') \<Longrightarrow> others L R X w w'"
| collect_txn: "w_xps w x = Some p \<Longrightarrow> xp_tag p = txn_tag \<Longrightarrow> x \<notin> X \<Longrightarrow> finalize_txn L x w = (r, w') \<Longrightarrow> others L R X w w'"
| restyle: "w_xps w x = Some p \<Longrightarrow> x \<notin> X \<Longrightarrow> others L R X w (put_xptr x (p\<lparr>xp_class := cs, xp_attrs := ats\<rparr>) w)"
| other_pointer: "xp_addr p = ANull \<or> xp_addr p = AForeign \<and> xp_tag p \<noteq> env_tag \<and> xp_tag p \<noteq> txn_tag
    \<Longrightarrow> others L R X w (put_xptr (w_next w) p (w\<lparr>w_next := w_next w + 1\<rparr>))"
| outside: "(\<And>q. undisturbed R q (w_lib w) n) \<Longrightarrow> others L R X w (w\<lparr>w_lib := n\<rparr>)"
| forking: "(\<forall>a h. w_envs w a = Some h \<longrightarrow> eh_pid h \<noteq> pid) \<Longrightarrow> others L R X w (forked pid w)"

text \<open>A session: from the loading of the package on, whatever happens, other processes leaving snapshots alone.\<close>

inductive settled :: "'n libmdbx \<Rightarrow> 'n reading \<Rightarrow> 'n world \<Rightarrow> bool" for L R where
  loaded: "settled L R (initial_world pid n)"
| later: "settled L R w \<Longrightarrow> others L R {} w w' \<Longrightarrow> settled L R w'"

text \<open>A run of operations on pointer \<open>i\<close>, with anything of the others in between.\<close>

inductive mixed :: "'n libmdbx \<Rightarrow> 'n reading \<Rightarrow> nat \<Rightarrow> 'n world \<Rightarrow> op list \<Rightarrow> answer list \<Rightarrow> 'n world \<Rightarrow> bool" for L R i where
  done_: "mixed L R i w [] [] w"
| mine: "sexp_ok (R_ExtPtr i) w \<Longrightarrow> run_op L (R_ExtPtr i) x w = (a, v) \<Longrightarrow> mixed L R i v xs as w' \<Longrightarrow> mixed L R i w (x # xs) (a # as) w'"
| other: "others L R {i} w v \<Longrightarrow> mixed L R i v xs as w' \<Longrightarrow> mixed L R i w xs as w'"

lemma others_step:
  assumes "others L R X w v"
  shows "step L w v"
  using assms
proof cases
  case (call c r)
  then show ?thesis by (blast intro: step.call)
next
  case (collect_env x p r)
  then show ?thesis by (blast intro: step.collect_env)
next
  case (collect_txn x p r)
  then show ?thesis by (blast intro: step.collect_txn)
next
  case (restyle x p cs ats)
  then show ?thesis by (simp add: step.restyle)
next
  case (other_pointer p)
  show ?thesis unfolding other_pointer(1) by (rule step.other_pointer [OF other_pointer(2)])
next
  case (outside n)
  then show ?thesis by (simp add: step.outside)
next
  case (forking pid)
  then show ?thesis by (simp add: step.forking)
qed

lemma own_step:
  assumes "sexp_ok (R_ExtPtr i) w" and "run_op L (R_ExtPtr i) x w = (a, v)"
  shows "step L w v"
proof -
  obtain c where c: "handle_arg c = R_ExtPtr i" "snd (perform L c w) = v"
    using op_entry [of "R_ExtPtr i" L w x] assms(2) by (auto simp: run_op_def split: prod.splits)
  then show ?thesis using assms(1) by (intro step.call [of c _ _ "fst (perform L c w)"]) auto
qed

lemma others_orderly:
  assumes iso: "isolated L R" "ends_ok L R" and ord: "orderly R w" and s: "others L R X w v"
  shows "orderly R v"
proof -
  have run: "orderly R v" if "stays (orderly R) m" "m w = (r, v)" for m :: "('a, unit) mem" and r
    using staysD [OF that(1) ord] that(2) by (auto simp: wp_def split: sum.splits)
  note whole = orderly_whole [OF iso]
  from s show ?thesis
  proof cases
    case (call c r)
    then show ?thesis by (intro run [OF whole_property.every [OF whole]])
  next
    case (collect_env x p r)
    then show ?thesis by (intro run [OF calls_property.finalizers(1) [OF whole_property.axioms(1) [OF whole]]])
  next
    case (collect_txn x p r)
    then show ?thesis by (intro run [OF calls_property.finalizers(2) [OF whole_property.axioms(1) [OF whole]]])
  qed (use ord orderly_same [OF ord] in \<open>auto simp: orderly_def forked_def\<close>)
qed

lemma own_orderly:
  assumes "isolated L R" "ends_ok L R" and "orderly R w" and "run_op L (R_ExtPtr i) x w = (a, v)"
  shows "orderly R v"
proof -
  obtain c where "snd (perform L c w) = v"
    using op_entry [of "R_ExtPtr i" L w x] assms(4) by (auto simp: run_op_def split: prod.splits)
  then show ?thesis
    using staysD [OF whole_property.every [OF orderly_whole [OF assms(1,2)], of c] assms(3)]
    by (auto simp: wp_def split: prod.splits sum.splits)
qed

lemma settled_reachable: "settled L R w \<Longrightarrow> reachable L w"
  by (induction rule: settled.induct) (auto intro: reachable.intros others_step)

lemma settled_orderly: "settled L R w \<Longrightarrow> isolated L R \<Longrightarrow> ends_ok L R \<Longrightarrow> orderly R w"
  by (induction rule: settled.induct) (simp add: orderly_def initial_world_def, blast intro: others_orderly)

text \<open>A transaction that is over stays so.\<close>

lemma step_pid: "step L w v \<Longrightarrow> w_pid v = w_pid w \<or> (\<exists>pid. v = forked pid w \<and> (\<forall>a h. w_envs w a = Some h \<longrightarrow> eh_pid h \<noteq> pid))"
  by (erule step.cases) (auto dest: perform_pid finalize_pid)

lemma live_before:
  assumes "library_ok L" and I: "inv w" and s: "step L w v" and t: "t < w_next w" and l: "live_txn t v"
  shows "live_txn t w"
proof -
  note F = forward_step [OF assms(1) I s]
  obtain k a g p e where k: "w_txns v t = Some k" "th_txn k = Some p" "th_owner k = Some a" "w_envs v a = Some g"
      "eh_env g = Some e" "healthy v g"
    using l by (auto simp: live_txn_def)
  obtain h where h: "w_txns w t = Some h" "txn_forward (live_txn t w) h k" using forwardD(3) [OF F k(1) t] by blast
  then have o: "th_owner h = Some a" using k(3) by (auto simp: txn_forward_def)
  obtain f q where f: "w_envs w a = Some f" "th_txn h = Some q"
    by (rule inv_owner [OF I h(1) o]) blast
  have fg: "env_forward f g"
    using forwardD(2) [OF F k(4) heap_invD(3) [OF inv_D(1) [OF I] f(1)]] f(1) by auto
  have "eh_pid f = w_pid v" using fg k(6) by (simp add: healthy_def env_forward_def)
  then have "w_pid v = w_pid w" using step_pid [OF s] f(1) by (auto simp: forked_def)
  then have "healthy w f" "eh_env f = Some e" using fg k(5,6) by (auto simp: healthy_def env_forward_def)
  then show ?thesis using h(1) f o by (auto simp: live_txn_def)
qed

section \<open>One step of somebody else\<close>

text \<open>My transaction in a world where it is live; \<open>y\<close> is a pointer that does not address my environment.\<close>

definition me :: "'n world \<Rightarrow> nat \<Rightarrow> nat \<Rightarrow> nat \<Rightarrow> nat \<Rightarrow> nat \<Rightarrow> txn_handle \<Rightarrow> xptr \<Rightarrow> nat \<Rightarrow> 'n mine" where
  "me w q e t i a th p y = \<lparr>my_txn = q, my_env = e, my_handle = t, my_ptr = i, my_owner = a, my_xp = p, my_th = th,
     my_start = w_lib w, my_other = y\<rparr>"

lemma me_simps [simp]:
  "my_txn (me w q e t i a th p y) = q" "my_env (me w q e t i a th p y) = e" "my_handle (me w q e t i a th p y) = t"
  "my_ptr (me w q e t i a th p y) = i" "my_owner (me w q e t i a th p y) = a" "my_xp (me w q e t i a th p y) = p"
  "my_th (me w q e t i a th p y) = th" "my_start (me w q e t i a th p y) = w_lib w" "my_other (me w q e t i a th p y) = y"
  by (simp_all add: me_def)

lemma kept_start:
  assumes I: "inv w" and ord: "orderly R w" and t: "w_txns w t = Some th" "th_txn th = Some q" "th_owner th = Some a"
    and h: "w_envs w a = Some h" "eh_env h = Some e" "healthy w h"
    and p: "w_xps w i = Some p" "xp_addr p = ATxn t"
    and y: "y < w_next w" "\<And>r. w_xps w y = Some r \<Longrightarrow> xp_addr r \<noteq> AEnv a"
  shows "kept R (me w q e t i a th p y) w"
proof -
  note J = inv_D [OF I]
  have "handles_kept (me w q e t i a th p y) w"
    unfolding handles_kept_def me_simps
  proof (intro conjI allI impI)
    show "t < w_next w" by (rule heap_invD(4) [OF J(1) t(1)])
    show "i < w_next w" by (rule heap_invD(5) [OF J(1) p(1)])
    show "a < w_next w" by (rule heap_invD(3) [OF J(1) h(1)])
    show "z = i" if "w_xps w z = Some r \<and> xp_addr r = ATxn t" for z r
      using ptr_invD(5) [OF J(2), of z r i p] that p by simp
    show "s = t" if "w_txns w s = Some k \<and> th_txn k = Some q" for s k
      using use_invD(5) [OF J(5), of s k t th q] that t by simp
    show "b = a" if "w_envs w b = Some k \<and> (eh_env k = Some e \<or> t \<in> set (eh_live k))" for b k
      using use_invD(4) [OF J(5), of b k a h e] own_invD(1) [OF J(3), of b k t] that h t by auto
    show "same_cache th k" "th_txn k = Some q \<or> th_txn k = None" if "w_txns w t = Some k" for k
      using that t by (simp_all add: same_cache_def)
  qed (use p y in auto)
  moreover have "library_kept R (me w q e t i a th p y) w"
    unfolding library_kept_def me_simps
  proof (intro conjI allI impI)
    show "q < w_ids w" by (rule use_invD(3) [OF J(5) t(1,2)])
    show "e < w_ids w" by (rule use_invD(1) [OF J(5) h(1,2)])
    have mine: "(q, e) \<in> set (w_usable_txns w)" by (rule use_invD(6) [OF J(5) t h])
    fix d assume d: "(q, d) \<in> set (w_usable_txns w)"
    show de: "d = e" by (rule eq_key_imp_eq_value [OF use_invD(7) [OF J(5)] d mine])
    obtain f where f: "w_envs w a = Some f" "eh_live f = [t]" by (rule inv_owner [OF I t(1,3)]) blast
    fix r assume "(r, d) \<in> set (w_usable_txns w)"
    then show "r = q" using use_invD(9) [OF J(5) _ h, of r] f h(1) t de by auto
  qed (use ord in simp_all)
  ultimately show ?thesis by (simp add: kept_def)
qed

text \<open>If it is live afterwards, it sees what it saw.\<close>

lemma kept_end:
  assumes K: "kept R (me w q e t i a th p y) v" and I: "inv v" and l: "live_txn t v"
    and T: "tracks R d wr i t S w" and w: "live_txn t w" "w_txns w t = Some th" "th_txn th = Some q" "w_xps w i = Some p"
  shows "tracks R d wr i t S v \<and> orderly R v"
proof -
  obtain k a' g q' e' where k: "w_txns v t = Some k" "th_txn k = Some q'" "th_owner k = Some a'" "w_envs v a' = Some g"
      "eh_env g = Some e'" "healthy v g"
    using l by (auto simp: live_txn_def)
  have H: "handles_kept (me w q e t i a th p y) v" and B: "library_kept R (me w q e t i a th p y) v"
    using K by (simp_all add: kept_def)
  have "same_cache th k \<and> (th_txn k = Some q \<or> th_txn k = None)"
    using H k(1) unfolding handles_kept_def me_simps by (elim conjE allE [of _ k]) simp
  then have c: "same_cache th k" "q' = q" using k(2) by simp_all
  have "(q, e') \<in> set (w_usable_txns v)" using use_invD(6) [OF inv_D(5) [OF I] k] c(2) by simp
  then have und: "undisturbed R q (w_lib w) (w_lib v)" using library_keptD(5) [OF B] by simp
  have th: "th_write th = wr" "grips R d wr S (w_lib w) q th"
    using T w(1-3) by (simp_all add: tracks_def)
  have cd: "cached_dbi k = cached_dbi th" "th_named k = th_named th" "th_write k = th_write th"
    using c(1) by (auto simp: same_cache_def cached_dbi_def fun_eq_iff split: option.splits)
  have "grips R d wr S (w_lib v) q k"
    using th(2) und unfolding grips_def caches_def undisturbed_def cd by auto
  moreover have "txn_ptr v i t" using H w(4) T unfolding handles_kept_def me_simps by (simp add: tracks_def txn_ptr_def)
  ultimately have "tracks R d wr i t S v" using k(1,2) c(2) l cd(3) th(1) by (simp add: tracks_def)
  then show ?thesis using library_keptD(3) [OF B] by simp
qed

lemma own_env_refused:
  assumes "w_envs w a = Some h" and "eh_live h = [t]" and "healthy w h" and "w_xps w x = Some r" "xp_addr r = AEnv a"
    and "env_wide c" and "handle_arg c = R_ExtPtr x"
  shows "snd (perform L c w) = w"
  using assms
  by (cases c)
    (auto simp: healthy_def mdbx_env_close_def mdbx_txn_begin_def env_from_sexp_def is_env_sexp_def has_tag_def env_addr_def
      xptr_at_def env_at_def current_pid_def ignoreM_def bindM_def thenM_def whenM_def getsM_def fetchM_def returnM_def stopM_def)

lemma wp_then_later: "(\<And>s. wp k Q (\<lambda>_ _. True) s) \<Longrightarrow> wp (thenM m k) Q (\<lambda>_ _. True) s"
  by (auto simp: wp_then wp_def [of m] split: prod.splits sum.splits)

lemma env_finalized:
  assumes "w_xps w x = Some r" and "xp_addr r = AEnv a" and "finalize_env L x w = (Inr (), v)"
  shows "w_envs v a = None"
proof -
  have "wp (thenM (delete_env a) (modifyM (\<lambda>w. w\<lparr>w_live_env_handles := w_live_env_handles w - 1\<rparr>)))
      (\<lambda>_ v. w_envs v a = None) (\<lambda>_ _. True) u" for u
    by (simp add: delete_env_def wp_simps split: option.splits)
  then have "wp (thenM (detach_txns L a) (thenM (close_handle L a False) (thenM (delete_env a)
      (modifyM (\<lambda>w. w\<lparr>w_live_env_handles := w_live_env_handles w - 1\<rparr>))))) (\<lambda>_ v. w_envs v a = None) (\<lambda>_ _. True) u" for u
    by (intro wp_then_later [of _ _ "detach_txns L a"] wp_then_later [of _ _ "close_handle L a False"])
  then have "wp (finalize_env L x) (\<lambda>_ v. w_envs v a = None) (\<lambda>_ _. True) w"
    using assms(1,2)
    by (auto simp: finalize_env_def env_addr_def wp_bind wp_xptr_at wp_return wp_set_xptr wp_then [of "set_xptr x f" for f])
  then show ?thesis using assms(3) by (simp add: wp_def)
qed

text \<open>My environment's handle goes only with my transaction.\<close>

lemma no_owner_not_live:
  assumes "library_ok L" and "inv w" and "step L w v" and "w_txns w t = Some th" "th_owner th = Some a" and "w_envs v a = None"
  shows "\<not> live_txn t v"
proof
  assume "live_txn t v"
  then obtain k b g where k: "w_txns v t = Some k" "th_owner k = Some b" "w_envs v b = Some g" by (auto simp: live_txn_def)
  have "\<exists>h. w_txns w t = Some h \<and> txn_forward (live_txn t w) h k"
    by (rule forwardD(3) [OF forward_step [OF assms(1-3)] k(1) heap_invD(4) [OF inv_D(1) [OF assms(2)] assms(4)]])
  then have "b = a" using assms(4,5) k(2) by (auto simp: txn_forward_def)
  then show False using k(3) assms(6) by simp
qed

text \<open>Somebody else's call, and the finalizer of somebody else's environment, keep mine.\<close>

lemma kept_run:
  assumes "stays (kept R M) m" and "kept R M w" and "m w = (r, v)"
  shows "kept R M v"
  using staysD [OF assms(1,2)] assms(3) by (auto simp: wp_def split: sum.splits)

lemma kept_called:
  assumes iso: "isolated L R" "ends_ok L R" and K: "kept R (me w q e t i a th p i) w"
    and start: "\<And>y. w_xps w y \<noteq> None \<Longrightarrow> (\<And>r. w_xps w y = Some r \<Longrightarrow> xp_addr r \<noteq> AEnv a) \<Longrightarrow> kept R (me w q e t i a th p y) w"
    and h: "w_envs w a = Some h" "eh_live h = [t]" "healthy w h"
    and c: "sexp_ok (handle_arg c) w" "handle_arg c \<noteq> R_ExtPtr i" "perform L c w = (r, v)"
  shows "\<exists>y. kept R (me w q e t i a th p y) v"
proof (cases "\<exists>x z. handle_arg c = R_ExtPtr x \<and> env_wide c \<and> w_xps w x = Some z \<and> xp_addr z = AEnv a")
  case True
  then obtain x z where x: "handle_arg c = R_ExtPtr x" "env_wide c" "w_xps w x = Some z" "xp_addr z = AEnv a" by blast
  have "v = w" using own_env_refused [OF h x(3,4,2,1), of L] c(3) by simp
  then show ?thesis using K by blast
next
  case other: False
  define y where "y = (case handle_arg c of R_ExtPtr x \<Rightarrow> if env_wide c then x else i | _ \<Rightarrow> i)"
  have "kept R (me w q e t i a th p y) w"
  proof (cases "y = i")
    case False
    then have y: "handle_arg c = R_ExtPtr y" "env_wide c"
      unfolding y_def by (cases "handle_arg c"; simp split: if_splits)+
    obtain z where z: "w_xps w y = Some z" using c(1) unfolding y(1) by (auto simp: sexp_ok_def)
    with y have "xp_addr z \<noteq> AEnv a" using other by blast
    then show ?thesis by (intro start) (use z in simp_all)
  qed (use K in simp)
  moreover have "elsewhere (me w q e t i a th p y) (handle_arg c)" if "env_wide c"
    using that by (simp add: elsewhere_def y_def)
  ultimately have "kept R (me w q e t i a th p y) v"
    by (intro kept_run [OF kept_perform [OF iso] _ c(3)]) (use c(2) in simp_all)
  then show ?thesis by blast
qed

lemma kept_collected:
  assumes lib: "library_ok L" and iso: "isolated L R" and I: "inv w"
    and start: "\<And>y. w_xps w y \<noteq> None \<Longrightarrow> (\<And>r. w_xps w y = Some r \<Longrightarrow> xp_addr r \<noteq> AEnv a) \<Longrightarrow> kept R (me w q e t i a th p y) w"
    and t: "w_txns w t = Some th" "th_owner th = Some a" and p: "w_xps w i = Some p" "xp_addr p = ATxn t"
    and x: "w_xps w x = Some z" "xp_tag z = env_tag" "finalize_env L x w = (r, v)"
  shows "(\<exists>y. kept R (me w q e t i a th p y) v) \<or> \<not> live_txn t v"
proof (cases "xp_addr z = AEnv a")
  case True
  have "r = Inr ()" using finalize_env_ends [OF I _ x(1,2)] x(3) lib by (fastforce simp: library_ok_def)
  then have "w_envs v a = None" using env_finalized [OF x(1) True] x(3) by simp
  then show ?thesis using no_owner_not_live [OF lib I step.collect_env [OF x] t] by simp
next
  case False
  have "x \<noteq> i" using ptr_invD(4) [OF inv_D(2) [OF I] p] p(1) x(1,2) tags_differ by auto
  then have "stays (kept R (me w q e t i a th p x)) (finalize_env L x)"
    by (intro kept_finalize_env iso) (simp_all add: elsewhere_def)
  moreover have "kept R (me w q e t i a th p x) w" by (rule start) (use x(1) False in auto)
  ultimately have "kept R (me w q e t i a th p x) v" using x(3) by (rule kept_run)
  then show ?thesis by blast
qed

lemma kept_other:
  assumes lib: "library_ok L" and iso: "isolated L R" "ends_ok L R" and I: "inv w"
    and start: "\<And>y. y < w_next w \<Longrightarrow> (\<And>r. w_xps w y = Some r \<Longrightarrow> xp_addr r \<noteq> AEnv a) \<Longrightarrow> kept R (me w q e t i a th p y) w"
    and t: "w_txns w t = Some th" "th_owner th = Some a" and h: "w_envs w a = Some h" "eh_live h = [t]" "healthy w h"
    and p: "w_xps w i = Some p" "xp_addr p = ATxn t"
    and s: "others L R {i} w v"
  shows "(\<exists>y. kept R (me w q e t i a th p y) v) \<or> \<not> live_txn t v"
proof -
  have lt: "x < w_next w" if "w_xps w x \<noteq> None" for x using heap_invD(5) [OF inv_D(1) [OF I]] that by blast
  have K: "kept R (me w q e t i a th p i) w" by (rule start) (use lt p in auto)
  from s show ?thesis
  proof cases
    case (call c r)
    then have c: "handle_arg c \<noteq> R_ExtPtr i" by blast
    show ?thesis using kept_called [OF iso K start [OF lt] h call(1) c call(3)] by blast
  next
    case (collect_env x z r)
    then show ?thesis by (intro kept_collected [OF lib iso(1) I start [OF lt] t p])
  next
    case (collect_txn x z r)
    have "kept R (me w q e t i a th p i) v"
      by (rule kept_run [OF kept_finalize_txn [OF iso(1)] K collect_txn(4)]) (use collect_txn(3) in simp)
    then show ?thesis by blast
  next
    case (restyle x z cs ats)
    then have "kept R (me w q e t i a th p i) v"
      using K p unfolding kept_def handles_kept_def library_kept_def orderly_def by auto
    then show ?thesis by blast
  next
    case (other_pointer z)
    then have "kept R (me w q e t i a th p i) v"
      using K unfolding kept_def handles_kept_def library_kept_def orderly_def by auto
    then show ?thesis by blast
  next
    case (outside n)
    have "library_kept R (me w q e t i a th p i) (w\<lparr>w_lib := n\<rparr>)"
      using library_kept_same [of R "me w q e t i a th p i" w "w\<lparr>w_lib := n\<rparr>"] K outside(2) undisturbed_home [OF outside(2)]
      by (simp add: kept_def)
    moreover have "handles_kept (me w q e t i a th p i) (w\<lparr>w_lib := n\<rparr>)"
      using K by (simp add: kept_def handles_kept_def)
    ultimately show ?thesis using outside(1) by (auto simp: kept_def)
  next
    case (forking pid)
    then have "kept R (me w q e t i a th p i) v"
      using K by (auto simp: kept_def handles_kept_def library_kept_def orderly_def forked_def)
    then show ?thesis by blast
  qed
qed

lemma others_keep:
  assumes lib: "library_ok L" and iso: "isolated L R" "ends_ok L R" and I: "inv w" and T: "tracks R d wr i t S w"
    and ord: "orderly R w" and s: "others L R {i} w v" and l: "live_txn t v"
  shows "tracks R d wr i t S v \<and> orderly R v"
proof -
  obtain p where p: "w_xps w i = Some p" "xp_addr p = ATxn t" using T by (auto simp: tracks_def txn_ptr_def)
  have w: "live_txn t w"
    by (rule live_before [OF lib I others_step [OF s] _ l])
      (use T heap_invD(4) [OF inv_D(1) [OF I]] in \<open>auto simp: tracks_def\<close>)
  then obtain th q a h e where t: "w_txns w t = Some th" "th_txn th = Some q" "th_owner th = Some a"
      "w_envs w a = Some h" "eh_env h = Some e" "healthy w h"
    by (auto simp: live_txn_def)
  have live: "eh_live h = [t]" using inv_owner [OF I t(1,3)] t(4) by (metis option.inject)
  obtain y where "kept R (me w q e t i a th p y) v"
    using kept_other [OF lib iso I kept_start [OF I ord t p] t(1,3,4) live t(6) p s] l by blast
  then show ?thesis by (rule kept_end [OF _ inv_step [OF lib I others_step [OF s]] l T w t(1,2) p(1)])
qed

end
