(* ===== verification/Mdbx_Probes.thy ===== *)
theory Mdbx_Probes
  imports Mdbx_Runs Mdbx_EnvOps
begin

text \<open>
  The parts around the operations: the console logger and the panic-boundary test of
  \<open>r_mdbx_hooks.cpp\<close>, the version and build lists, the copies of bytes into R values, and the
  constants the tests ask for.
\<close>

section \<open>The console logger\<close>

text \<open>
  \<open>mdbx_r_log_va\<close>: what it prints. \<open>vprintf\<close> is the C formatting of \<open>fmt\<close> with the caller's
  arguments; a null \<open>function\<close> is \<open>None\<close>.
\<close>

definition mdbx_r_log_va :: "(string \<Rightarrow> 'v \<Rightarrow> string) \<Rightarrow> string option \<Rightarrow> int \<Rightarrow> string \<Rightarrow> 'v \<Rightarrow> string" where
  "mdbx_r_log_va vprintf func line fmt args =
     (case func of
        Some f \<Rightarrow> if line > 0 then f @ '':'' @ show_int line @ '' '' else f @ '': ''
      | None \<Rightarrow> if line > 0 then show_int line @ '': '' else [])
     @ vprintf fmt args"

lemma log_without_place: "line \<le> 0 \<Longrightarrow> mdbx_r_log_va vprintf None line fmt args = vprintf fmt args"
  by (simp add: mdbx_r_log_va_def)

section \<open>Version and build\<close>

text \<open>The constants compiled into libmdbx; a null string is \<open>None\<close>.\<close>

record mdbx_version_info =
  vi_major :: "16 word"
  vi_minor :: "16 word"
  vi_patch :: "16 word"
  vi_tweak :: "16 word"
  vi_git_tree :: "string option"
  vi_git_commit :: "string option"
  vi_git_describe :: "string option"

record mdbx_build_info =
  bi_datetime :: "string option"
  bi_target :: "string option"
  bi_compiler :: "string option"
  bi_options :: "string option"
  bi_flags :: "string option"

datatype rfield = F_int int | F_text string | F_list "(string \<times> string) list"

definition text_of :: "string option \<Rightarrow> string" where
  "text_of s = (case s of Some s \<Rightarrow> s | None \<Rightarrow> [])"

definition mdbx_build_list :: "mdbx_build_info \<Rightarrow> (string \<times> string) list" where
  "mdbx_build_list b =
     [(''datetime'', text_of (bi_datetime b)), (''target'', text_of (bi_target b)),
      (''compiler'', text_of (bi_compiler b)), (''options'', text_of (bi_options b)),
      (''flags'', text_of (bi_flags b))]"

definition mdbx_version :: "mdbx_version_info \<Rightarrow> mdbx_build_info \<Rightarrow> (string \<times> rfield) list" where
  "mdbx_version v b =
     [(''major'', F_int (uint (vi_major v))), (''minor'', F_int (uint (vi_minor v))),
      (''patch'', F_int (uint (vi_patch v))), (''tweak'', F_int (uint (vi_tweak v))),
      (''describe'', F_text (text_of (vi_git_describe v))),
      (''commit'', F_text (text_of (vi_git_tree v))),
      (''build'', F_list (mdbx_build_list b))]"

text \<open>
  The component \<open>commit\<close> is libmdbx's tree hash. The two agree only for a library built from no
  repository; in the vendored one \<open>describe\<close> names a commit, and \<open>commit\<close> another object.
\<close>

definition vendored_version :: mdbx_version_info where
  "vendored_version = \<lparr>vi_major = 0, vi_minor = 14, vi_patch = 3, vi_tweak = 0,
     vi_git_tree = Some ''e4baa5caf1001120895ba9282f645236e2fb160b'',
     vi_git_commit = Some ''251562b2dc55266d8e6d0e6627ec88ecb410702f'',
     vi_git_describe = Some ''v0.14.3-0-g251562b2''\<rparr>"

lemma version_reports_tree:
  "map_of (mdbx_version v b) ''commit'' = Some (F_text (text_of (vi_git_tree v)))"
  "map_of (mdbx_version vendored_version b) ''commit'' \<noteq> Some (F_text (text_of (vi_git_commit vendored_version)))"
  "map_of (mdbx_version vendored_version b) ''describe''
     = Some (F_text (''v0.14.3-0-g'' @ take 8 (text_of (vi_git_commit vendored_version))))"
  by (simp_all add: mdbx_version_def vendored_version_def text_of_def)

text \<open>The numbers are R integers: a 16-bit field never overflows one.\<close>

lemma version_numbers_fit: "(f, F_int i) \<in> set (mdbx_version v b) \<Longrightarrow> 0 \<le> i \<and> i < 2 ^ 16"
  using uint_lt2p [where 'a = 16] by (auto simp: mdbx_version_def)

section \<open>Bytes into R values\<close>

definition raw_from_val :: "bytes \<Rightarrow> rsexp" where
  "raw_from_val value = R_Raw value"

definition raw_from_string :: "bytes \<Rightarrow> rsexp" where
  "raw_from_string bytes = R_Raw bytes"

text \<open>A list of the right size, filled by index; the fuel is the number of items left.\<close>

function list_of_raws_loop :: "bytes list \<Rightarrow> nat \<Rightarrow> rsexp list \<Rightarrow> rsexp list" where
  "list_of_raws_loop items i out =
     (if i < length items then list_of_raws_loop items (Suc i) (out[i := raw_from_string (items ! i)]) else out)"
  by pat_completeness auto
termination by (relation "measure (\<lambda>(items, i, out). length items - i)") auto

declare list_of_raws_loop.simps [simp del]

definition list_of_raws :: "bytes list \<Rightarrow> rsexp list" where
  "list_of_raws items = list_of_raws_loop items 0 (replicate (length items) R_NilValue)"

lemma list_of_raws_loop_run:
  "i \<le> length items \<Longrightarrow> length out = length items
    \<Longrightarrow> list_of_raws_loop items i out = take i out @ map raw_from_string (drop i items)"
proof (induction items i out rule: list_of_raws_loop.induct)
  case (1 items i out)
  show ?case
  proof (cases "i < length items")
    case True
    let ?out = "out[i := raw_from_string (items ! i)]"
    have "list_of_raws_loop items i out = take (Suc i) ?out @ map raw_from_string (drop (Suc i) items)"
      using True 1 by (simp add: list_of_raws_loop.simps [of items i out])
    moreover have "take (Suc i) ?out = take i out @ [raw_from_string (items ! i)]"
      using True 1(3) by (simp add: take_Suc_conv_app_nth)
    ultimately show ?thesis using True by (simp add: Cons_nth_drop_Suc [symmetric])
  qed (use 1(2,3) in \<open>simp add: list_of_raws_loop.simps [of items "length items" out]\<close>)
qed

lemma list_of_raws_map: "list_of_raws items = map raw_from_string items"
  by (simp add: list_of_raws_def list_of_raws_loop_run)

section \<open>The panic-boundary test\<close>

text \<open>
  The test's context is a variable of the C frame. It is carried beside the library's state while
  the frame lives.
\<close>

definition carry :: "'x \<Rightarrow> 'n world \<Rightarrow> ('n \<times> 'x) world" where
  "carry x w =
     \<lparr>w_pid = w_pid w, w_next = w_next w, w_envs = w_envs w, w_txns = w_txns w, w_xps = w_xps w,
      w_live_env_handles = w_live_env_handles w, w_live_txn_handles = w_live_txn_handles w,
      w_open = w_open w, w_abandoned = w_abandoned w, w_guard = w_guard w, w_last_panic = w_last_panic w,
      w_lib = (w_lib w, x), w_ids = w_ids w, w_usable_envs = w_usable_envs w, w_usable_txns = w_usable_txns w\<rparr>"

definition uncarry :: "('n \<times> 'x) world \<Rightarrow> 'n world" where
  "uncarry w =
     \<lparr>w_pid = w_pid w, w_next = w_next w, w_envs = w_envs w, w_txns = w_txns w, w_xps = w_xps w,
      w_live_env_handles = w_live_env_handles w, w_live_txn_handles = w_live_txn_handles w,
      w_open = w_open w, w_abandoned = w_abandoned w, w_guard = w_guard w, w_last_panic = w_last_panic w,
      w_lib = fst (w_lib w), w_ids = w_ids w, w_usable_envs = w_usable_envs w, w_usable_txns = w_usable_txns w\<rparr>"

definition mdbx_r_test_panic_call :: "('n, unit) mem" where
  "mdbx_r_test_panic_call = mdbx_r_panic (Some ''panic-boundary test'') (Some ''mdbx_r_test_panic_call'') 1"

definition mdbx_r_test_poison :: "('n \<times> bool, unit) mem" where
  "mdbx_r_test_poison = modifyM (\<lambda>w. w\<lparr>w_lib := (fst (w_lib w), True)\<rparr>)"

definition mdbx_r_test_panic_boundary :: "('n, unit guard_result \<times> bool) mem" where
  "mdbx_r_test_panic_boundary w =
     (case mdbx_r_run_guarded mdbx_r_test_panic_call (Some mdbx_r_test_poison) (carry False w) of
        (Inr result, v) \<Rightarrow> (Inr (result, snd (w_lib v)), uncarry v)
      | (Inl e, v) \<Rightarrow> (Inl e, uncarry v))"

definition mdbx_test_panic_boundary :: "('n, unit) mem" where
  "mdbx_test_panic_boundary =
     bindM mdbx_r_test_panic_boundary (\<lambda>r.
       case fst r of
         GuardOk x \<Rightarrow> stopM PanicNotSeen
       | GuardPanic panic \<Rightarrow> if \<not> snd r then stopM PanicNotPoisoned else stop_after_panic panic)"

text \<open>
  The test does what it says: whatever the state, the panic is seen, the poison callback has run
  before it reaches C++, the texts are the ones given, and only the panic record changed.
\<close>

lemma panic_boundary_run:
  assumes "panic_wf (w_last_panic w)"
  shows "\<exists>q. panic_wf q \<and> mdbx_test_panic_boundary w
     = (Inl (AssertFailed ''panic-boundary test'' ''mdbx_r_test_panic_call'' 1), w\<lparr>w_last_panic := q\<rparr>)"
proof -
  let ?w = "carry False w"
  obtain q where q: "panic_wf q" "record_panic (Some ''panic-boundary test'') (Some ''mdbx_r_test_panic_call'') 1 (w_last_panic w) = Some q"
      "pi_line q = 1" "c_string (pi_message q) = take 255 (c_string ''panic-boundary test'')"
      "c_string (pi_function q) = take 127 (c_string ''mdbx_r_test_panic_call'')"
    using record_panic_spec [OF assms, of "Some ''panic-boundary test''" "Some ''mdbx_r_test_panic_call''" 1] by auto
  have "mdbx_r_test_panic_call (push_frame ?w) = (Inl (Longjmp (length (w_guard w))), (push_frame ?w)\<lparr>w_last_panic := q\<rparr>)"
    using q(2) by (simp add: mdbx_r_test_panic_call_def mdbx_r_panic_def run_simps push_frame_def carry_def)
  then have "mdbx_r_run_guarded mdbx_r_test_panic_call (Some mdbx_r_test_poison) ?w
      = (Inr (GuardPanic q), ?w\<lparr>w_last_panic := q, w_lib := (w_lib w, True)\<rparr>)"
    by (simp add: mdbx_r_run_guarded_def run_simps mdbx_r_test_poison_def set_guard_def push_frame_def carry_def)
  moreover have "uncarry (?w\<lparr>w_last_panic := q, w_lib := (w_lib w, True)\<rparr>) = w\<lparr>w_last_panic := q\<rparr>"
    by (simp add: uncarry_def carry_def)
  moreover have "c_string ''panic-boundary test'' = ''panic-boundary test''"
      "c_string ''mdbx_r_test_panic_call'' = ''mdbx_r_test_panic_call''"
    by (simp_all add: c_string_def)
  ultimately show ?thesis
    using q by (auto simp: mdbx_test_panic_boundary_def mdbx_r_test_panic_boundary_def run_simps stop_after_panic_def)
qed

section \<open>Constants for the tests\<close>

definition mdbx_test_result_true :: int where
  "mdbx_test_result_true = MDBX_RESULT_TRUE"

definition mdbx_thread_mismatch_code :: int where
  "mdbx_thread_mismatch_code = MDBX_THREAD_MISMATCH"

end
