(* ===== verification/Mdbx_Glue.thy ===== *)
theory Mdbx_Glue
  imports Mdbx_Demo Mdbx_Probes
begin

text \<open>
  The whole surface R can call: the routines of \<open>cpp11.cpp\<close>, each of which converts its arguments
  and calls one function of the package, and the table under which R finds them. The conversions
  are cpp11's, which throws when a value has the wrong type or length; \<open>END_CPP11\<close> turns what is
  thrown into an R error. Results are dropped, as in \<open>perform\<close>.
\<close>

section \<open>Arguments\<close>

text \<open>
  R's values are \<open>'v\<close>. \<open>cv_sexp\<close> is what the package sees of a value it receives as it is; the others are
  \<open>as_cpp\<close> at the type. The constants libmdbx was built with are here too.
\<close>

record 'v conversions =
  cv_sexp :: "'v \<Rightarrow> rsexp"
  cv_string :: "'v \<Rightarrow> err + string"
  cv_bool :: "'v \<Rightarrow> err + bool"
  cv_double :: "'v \<Rightarrow> err + dbl"
  cv_int :: "'v \<Rightarrow> err + int"
  cv_strings :: "'v \<Rightarrow> err + string list"
  cv_version :: mdbx_version_info
  cv_build :: mdbx_build_info

text \<open>
  A routine is a C function of a fixed number of arguments; called through a pointer with any
  other number, its behaviour is undefined.
\<close>

type_synonym ('v, 'n) routine = "'v conversions \<Rightarrow> 'n libmdbx \<Rightarrow> 'v list \<Rightarrow> ('n, unit) mem"

section \<open>The routines\<close>

definition wrap_flags :: "('v, 'n) routine" where
  "wrap_flags cv L args =
     (case args of
        [] \<Rightarrow>
        ignoreM (returnM (mdbx_flags))
      | _ \<Rightarrow> stopM Undefined)"

definition wrap_env_get_flags :: "('v, 'n) routine" where
  "wrap_env_get_flags cv L args =
     (case args of
        [env] \<Rightarrow>
        ignoreM (mdbx_env_get_flags L (cv_sexp cv env))
      | _ \<Rightarrow> stopM Undefined)"

definition wrap_env_set_flags :: "('v, 'n) routine" where
  "wrap_env_set_flags cv L args =
     (case args of
        [env, flags, on] \<Rightarrow>
        bindM (liftM (cv_strings cv flags)) (\<lambda>flags.
        bindM (liftM (cv_bool cv on)) (\<lambda>on.
        mdbx_env_set_flags L (cv_sexp cv env) flags on))
      | _ \<Rightarrow> stopM Undefined)"

definition wrap_env_sync :: "('v, 'n) routine" where
  "wrap_env_sync cv L args =
     (case args of
        [env, force, nonblock] \<Rightarrow>
        bindM (liftM (cv_bool cv force)) (\<lambda>force.
        bindM (liftM (cv_bool cv nonblock)) (\<lambda>nonblock.
        ignoreM (mdbx_env_sync L (cv_sexp cv env) force nonblock)))
      | _ \<Rightarrow> stopM Undefined)"

definition wrap_initialize :: "('v, 'n) routine" where
  "wrap_initialize cv L args =
     (case args of
        [] \<Rightarrow>
        mdbx_initialize L
      | _ \<Rightarrow> stopM Undefined)"

definition wrap_version :: "('v, 'n) routine" where
  "wrap_version cv L args =
     (case args of
        [] \<Rightarrow>
        ignoreM (returnM (mdbx_version (cv_version cv) (cv_build cv)))
      | _ \<Rightarrow> stopM Undefined)"

definition wrap_env_open :: "('v, 'n) routine" where
  "wrap_env_open cv L args =
     (case args of
        [path, key, readonly, subdir, max_dbs, map_size, max_readers, mode, extra_flags] \<Rightarrow>
        bindM (liftM (cv_string cv path)) (\<lambda>path.
        bindM (liftM (cv_string cv key)) (\<lambda>key.
        bindM (liftM (cv_bool cv readonly)) (\<lambda>readonly.
        bindM (liftM (cv_bool cv subdir)) (\<lambda>subdir.
        bindM (liftM (cv_double cv max_dbs)) (\<lambda>max_dbs.
        bindM (liftM (cv_double cv map_size)) (\<lambda>map_size.
        bindM (liftM (cv_double cv max_readers)) (\<lambda>max_readers.
        bindM (liftM (cv_int cv mode)) (\<lambda>mode.
        bindM (liftM (cv_strings cv extra_flags)) (\<lambda>extra_flags.
        ignoreM (mdbx_env_open L path key readonly subdir max_dbs map_size max_readers mode extra_flags))))))))))
      | _ \<Rightarrow> stopM Undefined)"

definition wrap_env_close :: "('v, 'n) routine" where
  "wrap_env_close cv L args =
     (case args of
        [env] \<Rightarrow>
        mdbx_env_close L (cv_sexp cv env)
      | _ \<Rightarrow> stopM Undefined)"

definition wrap_env_is_open :: "('v, 'n) routine" where
  "wrap_env_is_open cv L args =
     (case args of
        [env] \<Rightarrow>
        ignoreM (mdbx_env_is_open (cv_sexp cv env))
      | _ \<Rightarrow> stopM Undefined)"

definition wrap_env_reader_check :: "('v, 'n) routine" where
  "wrap_env_reader_check cv L args =
     (case args of
        [env] \<Rightarrow>
        ignoreM (mdbx_env_reader_check L (cv_sexp cv env))
      | _ \<Rightarrow> stopM Undefined)"

definition wrap_env_path :: "('v, 'n) routine" where
  "wrap_env_path cv L args =
     (case args of
        [env] \<Rightarrow>
        ignoreM (mdbx_env_path L (cv_sexp cv env))
      | _ \<Rightarrow> stopM Undefined)"

definition wrap_txn_begin :: "('v, 'n) routine" where
  "wrap_txn_begin cv L args =
     (case args of
        [env, is_write, extra_flags] \<Rightarrow>
        bindM (liftM (cv_bool cv is_write)) (\<lambda>is_write.
        bindM (liftM (cv_strings cv extra_flags)) (\<lambda>extra_flags.
        ignoreM (mdbx_txn_begin L (cv_sexp cv env) is_write extra_flags)))
      | _ \<Rightarrow> stopM Undefined)"

definition wrap_txn_commit :: "('v, 'n) routine" where
  "wrap_txn_commit cv L args =
     (case args of
        [txn] \<Rightarrow>
        mdbx_txn_commit L (cv_sexp cv txn)
      | _ \<Rightarrow> stopM Undefined)"

definition wrap_txn_abort :: "('v, 'n) routine" where
  "wrap_txn_abort cv L args =
     (case args of
        [txn] \<Rightarrow>
        mdbx_txn_abort L (cv_sexp cv txn)
      | _ \<Rightarrow> stopM Undefined)"

definition wrap_txn_state :: "('v, 'n) routine" where
  "wrap_txn_state cv L args =
     (case args of
        [txn] \<Rightarrow>
        ignoreM (mdbx_txn_state L (cv_sexp cv txn))
      | _ \<Rightarrow> stopM Undefined)"

definition wrap_txn_id :: "('v, 'n) routine" where
  "wrap_txn_id cv L args =
     (case args of
        [txn] \<Rightarrow>
        ignoreM (mdbx_txn_id L (cv_sexp cv txn))
      | _ \<Rightarrow> stopM Undefined)"

definition wrap_get :: "('v, 'n) routine" where
  "wrap_get cv L args =
     (case args of
        [txn, key, db] \<Rightarrow>
        bindM (liftM (cv_strings cv db)) (\<lambda>db.
        ignoreM (mdbx_get L (cv_sexp cv txn) (cv_sexp cv key) db))
      | _ \<Rightarrow> stopM Undefined)"

definition wrap_put :: "('v, 'n) routine" where
  "wrap_put cv L args =
     (case args of
        [txn, key, val, overwrite, db] \<Rightarrow>
        bindM (liftM (cv_bool cv overwrite)) (\<lambda>overwrite.
        bindM (liftM (cv_strings cv db)) (\<lambda>db.
        ignoreM (mdbx_put L (cv_sexp cv txn) (cv_sexp cv key) (cv_sexp cv val) overwrite db)))
      | _ \<Rightarrow> stopM Undefined)"

definition wrap_del :: "('v, 'n) routine" where
  "wrap_del cv L args =
     (case args of
        [txn, key, db] \<Rightarrow>
        bindM (liftM (cv_strings cv db)) (\<lambda>db.
        ignoreM (mdbx_del L (cv_sexp cv txn) (cv_sexp cv key) db))
      | _ \<Rightarrow> stopM Undefined)"

definition wrap_env_stat :: "('v, 'n) routine" where
  "wrap_env_stat cv L args =
     (case args of
        [env] \<Rightarrow>
        ignoreM (mdbx_env_stat L (cv_sexp cv env))
      | _ \<Rightarrow> stopM Undefined)"

definition wrap_txn_stat :: "('v, 'n) routine" where
  "wrap_txn_stat cv L args =
     (case args of
        [txn, db] \<Rightarrow>
        bindM (liftM (cv_strings cv db)) (\<lambda>db.
        ignoreM (mdbx_txn_stat L (cv_sexp cv txn) db))
      | _ \<Rightarrow> stopM Undefined)"

definition wrap_env_info :: "('v, 'n) routine" where
  "wrap_env_info cv L args =
     (case args of
        [env] \<Rightarrow>
        ignoreM (mdbx_env_info L (cv_sexp cv env))
      | _ \<Rightarrow> stopM Undefined)"

definition wrap_txn_info :: "('v, 'n) routine" where
  "wrap_txn_info cv L args =
     (case args of
        [txn] \<Rightarrow>
        ignoreM (mdbx_txn_info L (cv_sexp cv txn))
      | _ \<Rightarrow> stopM Undefined)"

definition wrap_scan :: "('v, 'n) routine" where
  "wrap_scan cv L args =
     (case args of
        [txn, limit, vals, db, start, reverse] \<Rightarrow>
        bindM (liftM (cv_double cv limit)) (\<lambda>limit.
        bindM (liftM (cv_bool cv vals)) (\<lambda>vals.
        bindM (liftM (cv_strings cv db)) (\<lambda>db.
        bindM (liftM (cv_bool cv reverse)) (\<lambda>reverse.
        ignoreM (mdbx_scan L (cv_sexp cv txn) limit vals db (cv_sexp cv start) reverse)))))
      | _ \<Rightarrow> stopM Undefined)"

definition wrap_txn_live_count :: "('v, 'n) routine" where
  "wrap_txn_live_count cv L args =
     (case args of
        [] \<Rightarrow>
        ignoreM (mdbx_txn_live_count)
      | _ \<Rightarrow> stopM Undefined)"

definition wrap_env_txn_count :: "('v, 'n) routine" where
  "wrap_env_txn_count cv L args =
     (case args of
        [env] \<Rightarrow>
        ignoreM (mdbx_env_txn_count (cv_sexp cv env))
      | _ \<Rightarrow> stopM Undefined)"

definition wrap_env_live_count :: "('v, 'n) routine" where
  "wrap_env_live_count cv L args =
     (case args of
        [] \<Rightarrow>
        ignoreM (mdbx_env_live_count)
      | _ \<Rightarrow> stopM Undefined)"

definition wrap_env_open_count :: "('v, 'n) routine" where
  "wrap_env_open_count cv L args =
     (case args of
        [] \<Rightarrow>
        ignoreM (mdbx_env_open_count)
      | _ \<Rightarrow> stopM Undefined)"

definition wrap_limits :: "('v, 'n) routine" where
  "wrap_limits cv L args =
     (case args of
        [pagesize] \<Rightarrow>
        bindM (liftM (cv_double cv pagesize)) (\<lambda>pagesize.
        ignoreM (mdbx_limits L pagesize))
      | _ \<Rightarrow> stopM Undefined)"

definition wrap_dbi_open :: "('v, 'n) routine" where
  "wrap_dbi_open cv L args =
     (case args of
        [txn, name, create] \<Rightarrow>
        bindM (liftM (cv_string cv name)) (\<lambda>name.
        bindM (liftM (cv_bool cv create)) (\<lambda>create.
        mdbx_dbi_open L (cv_sexp cv txn) name create))
      | _ \<Rightarrow> stopM Undefined)"

definition wrap_dbi_sequence :: "('v, 'n) routine" where
  "wrap_dbi_sequence cv L args =
     (case args of
        [txn, db, increment] \<Rightarrow>
        bindM (liftM (cv_strings cv db)) (\<lambda>db.
        bindM (liftM (cv_double cv increment)) (\<lambda>increment.
        ignoreM (mdbx_dbi_sequence L (cv_sexp cv txn) db increment)))
      | _ \<Rightarrow> stopM Undefined)"

definition wrap_dbi_drop :: "('v, 'n) routine" where
  "wrap_dbi_drop cv L args =
     (case args of
        [txn, db, del] \<Rightarrow>
        bindM (liftM (cv_strings cv db)) (\<lambda>db.
        bindM (liftM (cv_bool cv del)) (\<lambda>del.
        mdbx_dbi_drop L (cv_sexp cv txn) db del))
      | _ \<Rightarrow> stopM Undefined)"

definition wrap_dbi_list :: "('v, 'n) routine" where
  "wrap_dbi_list cv L args =
     (case args of
        [txn] \<Rightarrow>
        ignoreM (mdbx_dbi_list L (cv_sexp cv txn))
      | _ \<Rightarrow> stopM Undefined)"

definition wrap_test_check :: "('v, 'n) routine" where
  "wrap_test_check cv L args =
     (case args of
        [rc] \<Rightarrow>
        bindM (liftM (cv_int cv rc)) (\<lambda>rc.
        mdbx_test_check L rc)
      | _ \<Rightarrow> stopM Undefined)"

definition wrap_test_error_codes :: "('v, 'n) routine" where
  "wrap_test_error_codes cv L args =
     (case args of
        [] \<Rightarrow>
        ignoreM (returnM (mdbx_test_error_codes))
      | _ \<Rightarrow> stopM Undefined)"

definition wrap_test_result_true :: "('v, 'n) routine" where
  "wrap_test_result_true cv L args =
     (case args of
        [] \<Rightarrow>
        ignoreM (returnM (mdbx_test_result_true))
      | _ \<Rightarrow> stopM Undefined)"

definition wrap_test_thread_mismatch :: "('v, 'n) routine" where
  "wrap_test_thread_mismatch cv L args =
     (case args of
        [txn] \<Rightarrow>
        ignoreM (mdbx_test_thread_mismatch L (cv_sexp cv txn))
      | _ \<Rightarrow> stopM Undefined)"

definition wrap_thread_mismatch_code :: "('v, 'n) routine" where
  "wrap_thread_mismatch_code cv L args =
     (case args of
        [] \<Rightarrow>
        ignoreM (returnM (mdbx_thread_mismatch_code))
      | _ \<Rightarrow> stopM Undefined)"

definition wrap_test_panic_stat :: "('v, 'n) routine" where
  "wrap_test_panic_stat cv L args =
     (case args of
        [env, info] \<Rightarrow>
        bindM (liftM (cv_bool cv info)) (\<lambda>info.
        mdbx_test_panic_stat (cv_sexp cv env) info)
      | _ \<Rightarrow> stopM Undefined)"

definition wrap_test_panic_get :: "('v, 'n) routine" where
  "wrap_test_panic_get cv L args =
     (case args of
        [txn] \<Rightarrow>
        mdbx_test_panic_get (cv_sexp cv txn)
      | _ \<Rightarrow> stopM Undefined)"

definition wrap_test_panic_boundary :: "('v, 'n) routine" where
  "wrap_test_panic_boundary cv L args =
     (case args of
        [] \<Rightarrow>
        mdbx_test_panic_boundary
      | _ \<Rightarrow> stopM Undefined)"

lemmas wrap_defs =
  wrap_flags_def wrap_env_get_flags_def wrap_env_set_flags_def wrap_env_sync_def wrap_initialize_def
  wrap_version_def wrap_env_open_def wrap_env_close_def wrap_env_is_open_def wrap_env_reader_check_def
  wrap_env_path_def wrap_txn_begin_def wrap_txn_commit_def wrap_txn_abort_def wrap_txn_state_def
  wrap_txn_id_def wrap_get_def wrap_put_def wrap_del_def wrap_env_stat_def
  wrap_txn_stat_def wrap_env_info_def wrap_txn_info_def wrap_scan_def wrap_txn_live_count_def
  wrap_env_txn_count_def wrap_env_live_count_def wrap_env_open_count_def wrap_limits_def wrap_dbi_open_def
  wrap_dbi_sequence_def wrap_dbi_drop_def wrap_dbi_list_def wrap_test_check_def wrap_test_error_codes_def
  wrap_test_result_true_def wrap_test_thread_mismatch_def wrap_thread_mismatch_code_def wrap_test_panic_stat_def wrap_test_panic_get_def
  wrap_test_panic_boundary_def

section \<open>The table\<close>

definition CallEntries :: "(string \<times> ('v, 'n) routine \<times> nat) list" where
  "CallEntries =
     [(''_mdbx_mdbx_dbi_drop_'', wrap_dbi_drop, 3),
      (''_mdbx_mdbx_dbi_list_'', wrap_dbi_list, 1),
      (''_mdbx_mdbx_dbi_open_'', wrap_dbi_open, 3),
      (''_mdbx_mdbx_dbi_sequence_'', wrap_dbi_sequence, 3),
      (''_mdbx_mdbx_del_'', wrap_del, 3),
      (''_mdbx_mdbx_env_close_'', wrap_env_close, 1),
      (''_mdbx_mdbx_env_get_flags_'', wrap_env_get_flags, 1),
      (''_mdbx_mdbx_env_info_'', wrap_env_info, 1),
      (''_mdbx_mdbx_env_is_open_'', wrap_env_is_open, 1),
      (''_mdbx_mdbx_env_live_count_'', wrap_env_live_count, 0),
      (''_mdbx_mdbx_env_open_'', wrap_env_open, 9),
      (''_mdbx_mdbx_env_open_count_'', wrap_env_open_count, 0),
      (''_mdbx_mdbx_env_path_'', wrap_env_path, 1),
      (''_mdbx_mdbx_env_reader_check_'', wrap_env_reader_check, 1),
      (''_mdbx_mdbx_env_set_flags_'', wrap_env_set_flags, 3),
      (''_mdbx_mdbx_env_stat_'', wrap_env_stat, 1),
      (''_mdbx_mdbx_env_sync_'', wrap_env_sync, 3),
      (''_mdbx_mdbx_env_txn_count_'', wrap_env_txn_count, 1),
      (''_mdbx_mdbx_flags_'', wrap_flags, 0),
      (''_mdbx_mdbx_get_'', wrap_get, 3),
      (''_mdbx_mdbx_initialize_'', wrap_initialize, 0),
      (''_mdbx_mdbx_limits_'', wrap_limits, 1),
      (''_mdbx_mdbx_put_'', wrap_put, 5),
      (''_mdbx_mdbx_scan_'', wrap_scan, 6),
      (''_mdbx_mdbx_test_check_'', wrap_test_check, 1),
      (''_mdbx_mdbx_test_error_codes_'', wrap_test_error_codes, 0),
      (''_mdbx_mdbx_test_panic_boundary_'', wrap_test_panic_boundary, 0),
      (''_mdbx_mdbx_test_panic_get_'', wrap_test_panic_get, 1),
      (''_mdbx_mdbx_test_panic_stat_'', wrap_test_panic_stat, 2),
      (''_mdbx_mdbx_test_result_true_'', wrap_test_result_true, 0),
      (''_mdbx_mdbx_test_thread_mismatch_'', wrap_test_thread_mismatch, 1),
      (''_mdbx_mdbx_thread_mismatch_code_'', wrap_thread_mismatch_code, 0),
      (''_mdbx_mdbx_txn_abort_'', wrap_txn_abort, 1),
      (''_mdbx_mdbx_txn_begin_'', wrap_txn_begin, 3),
      (''_mdbx_mdbx_txn_commit_'', wrap_txn_commit, 1),
      (''_mdbx_mdbx_txn_id_'', wrap_txn_id, 1),
      (''_mdbx_mdbx_txn_info_'', wrap_txn_info, 1),
      (''_mdbx_mdbx_txn_live_count_'', wrap_txn_live_count, 0),
      (''_mdbx_mdbx_txn_stat_'', wrap_txn_stat, 2),
      (''_mdbx_mdbx_txn_state_'', wrap_txn_state, 1),
      (''_mdbx_mdbx_version_'', wrap_version, 0)]"

section \<open>Every routine is safe\<close>

text \<open>What cpp11 throws is an R error like any other.\<close>

definition conversions_ok :: "'v conversions \<Rightarrow> bool" where
  "conversions_ok cv \<longleftrightarrow>
     (\<forall>v e. (cv_string cv v = Inl e \<longrightarrow> harmless e) \<and> (cv_bool cv v = Inl e \<longrightarrow> harmless e)
       \<and> (cv_double cv v = Inl e \<longrightarrow> harmless e) \<and> (cv_int cv v = Inl e \<longrightarrow> harmless e)
       \<and> (cv_strings cv v = Inl e \<longrightarrow> harmless e))"

definition args_ok :: "'v conversions \<Rightarrow> 'v list \<Rightarrow> 'n world \<Rightarrow> bool" where
  "args_ok cv args w \<longleftrightarrow> (\<forall>v\<in>set args. sexp_ok (cv_sexp cv v) w)"

definition routine_ok :: "('v, 'n) routine \<Rightarrow> nat \<Rightarrow> bool" where
  "routine_ok f n \<longleftrightarrow> (\<forall>cv L args. library_ok L \<longrightarrow> conversions_ok cv \<longrightarrow> length args = n
     \<longrightarrow> safe (args_ok cv args) (f cv L args) (\<lambda>_ _. True))"

lemma safe_convert:
  assumes "\<And>e. r = Inl e \<Longrightarrow> harmless e" and "\<And>x. safe P (k x) Q"
  shows "safe P (bindM (liftM r) k) Q"
proof (cases r)
  case (Inl e)
  then have "bindM (liftM r) k = stopM e" by (simp add: liftM_def bindM_def stopM_def fun_eq_iff)
  then show ?thesis using safe_stop [OF assms(1) [OF Inl]] by simp
next
  case (Inr x)
  then have "bindM (liftM r) k = k x" by (simp add: liftM_def bindM_def returnM_def fun_eq_iff)
  then show ?thesis using assms(2) by simp
qed

lemma safe_convert_each:
  assumes "conversions_ok cv"
  shows "(\<And>x. safe P (ks x) Q) \<Longrightarrow> safe P (bindM (liftM (cv_string cv v)) ks) Q"
    "(\<And>x. safe P (kb x) Q) \<Longrightarrow> safe P (bindM (liftM (cv_bool cv v)) kb) Q"
    "(\<And>x. safe P (kd x) Q) \<Longrightarrow> safe P (bindM (liftM (cv_double cv v)) kd) Q"
    "(\<And>x. safe P (ki x) Q) \<Longrightarrow> safe P (bindM (liftM (cv_int cv v)) ki) Q"
    "(\<And>x. safe P (kl x) Q) \<Longrightarrow> safe P (bindM (liftM (cv_strings cv v)) kl) Q"
  using assms unfolding conversions_ok_def by (auto intro!: safe_convert)

lemma safe_first:
  fixes m :: "('n, 'a) mem"
  assumes "safe (sexp_ok s) m Q" and "\<And>w :: 'n world. args_ok cv args w \<Longrightarrow> sexp_ok s w"
  shows "safe (args_ok cv args) m Q"
  by (rule safe_weaken [OF assms(1)]) (simp_all add: assms(2))

lemma safe_probes:
  "safe P (returnM x) (\<lambda>_ _. True)" "safe P (ignoreM mdbx_txn_live_count) (\<lambda>_ _. True)"
  "safe P (ignoreM mdbx_env_live_count) (\<lambda>_ _. True)" "safe P (ignoreM mdbx_env_open_count) (\<lambda>_ _. True)"
  by (auto intro!: safe_return safeI
      simp: ignoreM_def mdbx_txn_live_count_def mdbx_env_live_count_def mdbx_env_open_count_def wp_simps)

lemma safe_panic_boundary: "safe P mdbx_test_panic_boundary (\<lambda>_ _. True)"
proof (rule safeI)
  fix w :: "'a world" assume I: "inv w"
  obtain q where q: "panic_wf q" "mdbx_test_panic_boundary w
      = (Inl (AssertFailed ''panic-boundary test'' ''mdbx_r_test_panic_call'' 1), w\<lparr>w_last_panic := q\<rparr>)"
    using panic_boundary_run [OF inv_calm(2) [OF I]] by blast
  have "inv (w\<lparr>w_last_panic := q\<rparr>)" by (rule inv_panic_record [OF I q(1)])
  then show "wp mdbx_test_panic_boundary (\<lambda>x w'. inv w' \<and> True) (\<lambda>e w'. inv w' \<and> harmless e) w"
    using q(2) by (simp add: wp_def)
qed

lemma routines_ok:
  shows "routine_ok wrap_dbi_drop 3" "routine_ok wrap_dbi_list 1" "routine_ok wrap_dbi_open 3"
    "routine_ok wrap_dbi_sequence 3" "routine_ok wrap_del 3" "routine_ok wrap_env_close 1"
    "routine_ok wrap_env_get_flags 1" "routine_ok wrap_env_info 1" "routine_ok wrap_env_is_open 1"
    "routine_ok wrap_env_live_count 0" "routine_ok wrap_env_open 9" "routine_ok wrap_env_open_count 0"
    "routine_ok wrap_env_path 1" "routine_ok wrap_env_reader_check 1" "routine_ok wrap_env_set_flags 3"
    "routine_ok wrap_env_stat 1" "routine_ok wrap_env_sync 3" "routine_ok wrap_env_txn_count 1"
    "routine_ok wrap_flags 0" "routine_ok wrap_get 3" "routine_ok wrap_initialize 0"
    "routine_ok wrap_limits 1" "routine_ok wrap_put 5" "routine_ok wrap_scan 6"
    "routine_ok wrap_test_check 1" "routine_ok wrap_test_error_codes 0" "routine_ok wrap_test_panic_boundary 0"
    "routine_ok wrap_test_panic_get 1" "routine_ok wrap_test_panic_stat 2" "routine_ok wrap_test_result_true 0"
    "routine_ok wrap_test_thread_mismatch 1" "routine_ok wrap_thread_mismatch_code 0" "routine_ok wrap_txn_abort 1"
    "routine_ok wrap_txn_begin 3" "routine_ok wrap_txn_commit 1" "routine_ok wrap_txn_id 1"
    "routine_ok wrap_txn_info 1" "routine_ok wrap_txn_live_count 0" "routine_ok wrap_txn_stat 2"
    "routine_ok wrap_txn_state 1" "routine_ok wrap_version 0"
  unfolding routine_ok_def wrap_defs
  by (clarsimp simp: eval_nat_numeral length_Suc_conv;
    (rule safe_ignore safe_convert_each safe_probes safe_panic_boundary safe_first safe_entry_points | simp add: args_ok_def library_ok_def)+)+

section \<open>What R does with the table\<close>

text \<open>
  \<open>.Call\<close> looks the name up among the registered routines and compares the number of arguments;
  otherwise it raises an R error of its own and nothing of the package runs.
\<close>

definition dot_call :: "'v conversions \<Rightarrow> 'n libmdbx \<Rightarrow> string \<Rightarrow> 'v list \<Rightarrow> ('n, unit) mem option" where
  "dot_call cv L name args =
     (case map_of CallEntries name of
        None \<Rightarrow> None
      | Some (f, n) \<Rightarrow> if length args = n then Some (f cv L args) else None)"

lemma entries_ok: "(name, f, n) \<in> set CallEntries \<Longrightarrow> routine_ok f n"
  unfolding CallEntries_def by (simp only: list.set insert_iff empty_iff prod.inject) (elim disjE conjE; simp add: routines_ok del: One_nat_def)

text \<open>C6: the surface R can reach. Whatever name and arguments \<open>.Call\<close> is given, of any types, in
  any reachable state: it runs nothing, or a routine with the number of arguments it was registered
  with, test hooks included, and that routine has no undefined behaviour, does not jump to a dead guard frame, and leaves
  the invariant and an empty guard chain. Undefined behaviour is what the model calls so: of freed
  memory, null and mistyped pointers, dead native objects, the guard chain and the casts. R's own jump out of \<open>RAW()\<close> over C++
  frames, when a key or value is not a raw vector, is the condition \<open>NotRaw\<close> here.\<close>

theorem dot_call_safe:
  assumes "library_ok L" and "reachable L w" and "conversions_ok cv" and "args_ok cv args w"
    and "dot_call cv L name args = Some m" and "m w = (r, w')"
  shows "r \<noteq> Inl Undefined \<and> (\<forall>k. r \<noteq> Inl (Longjmp k)) \<and> inv w' \<and> w_guard w' = []"
proof -
  obtain f n where f: "map_of CallEntries name = Some (f, n)" "length args = n" "m = f cv L args"
    using assms(5) by (auto simp: dot_call_def split: option.splits if_splits)
  have "safe (args_ok cv args) m (\<lambda>_ _. True)"
    using entries_ok [OF map_of_SomeD [OF f(1)]] assms(1,3) f(2,3) by (simp add: routine_ok_def)
  from safeD [OF this inv_reachable [OF assms(2,1)] assms(4)] assms(6)
  show ?thesis by (auto simp: wp_def harmless_def inv_calm split: sum.splits)
qed

text \<open>The witness: a database opened through \<open>.Call\<close>, with values converted by a concrete table.\<close>

definition demo_conversions :: "string conversions" where
  "demo_conversions = \<lparr>cv_sexp = (\<lambda>v. R_Other), cv_string = Inr, cv_bool = (\<lambda>v. Inr (v = ''TRUE'')),
     cv_double = (\<lambda>v. Inr (Fin 0)), cv_int = (\<lambda>v. Inr 420), cv_strings = (\<lambda>v. if v = [] then Inr [] else Inl NotRaw),
     cv_version = vendored_version,
     cv_build = \<lparr>bi_datetime = None, bi_target = None, bi_compiler = None, bi_options = None, bi_flags = None\<rparr>\<rparr>"

theorem dot_call_safe_witness:
  "\<exists>m w'. dot_call demo_conversions demo_lib ''_mdbx_mdbx_env_open_''
       [''/db'', ''/db'', ''FALSE'', ''TRUE'', ''0'', ''0'', ''0'', ''420'', []] = Some m
     \<and> m demo_start = (Inr (), w') \<and> inv w' \<and> w_guard w' = []"
proof -
  let ?args = "[''/db'', ''/db'', ''FALSE'', ''TRUE'', ''0'', ''0'', ''0'', ''420'', []]"
  let ?m = "wrap_env_open demo_conversions demo_lib ?args"
  have m: "dot_call demo_conversions demo_lib ''_mdbx_mdbx_env_open_'' ?args = Some ?m"
    by (simp add: dot_call_def CallEntries_def)
  have r: "?m demo_start = (Inr (), demo_opened)"
    using demo_open_runs by (simp add: wrap_env_open_def demo_conversions_def liftM_def bindM_def returnM_def)
  have "reachable demo_lib demo_start" unfolding demo_start_def by (rule reachable.loaded)
  moreover have "conversions_ok demo_conversions" by (auto simp: conversions_ok_def demo_conversions_def)
  moreover have "args_ok demo_conversions ?args demo_start" by (simp add: args_ok_def sexp_ok_def demo_conversions_def)
  ultimately show ?thesis using dot_call_safe [OF demo_ok _ _ _ m r] m r by fastforce
qed

end
