(* ===== verification/Spec2Isabelle.thy ===== *)
theory Spec2Isabelle
  imports Mdbx_ScanSpec Mdbx_Vocabulary Mdbx_Openings Mdbx_Phases Mdbx_Drain Mdbx_Sessions Mdbx_Glue
begin

text \<open>
  A verification development for the native side of the R package mdbx (\<open>src/src\<close>): the C++ that
  puts libmdbx, a transactional key-value store, behind R's \<open>.Call\<close>.

  \<^bold>\<open>The program.\<close> R holds environments and transactions as external pointers. Behind each is a
  C++ handle (\<open>env_handle\<close>, \<open>txn_handle\<close> of \<open>r_mdbx.h\<close>) that owns a native object of libmdbx. An
  entry point (\<open>r_mdbx.cpp\<close>, \<open>r_flags.cpp\<close>) checks the pointer and the handle, calls libmdbx
  through a guard, translates the status it answers into a result or an R condition, and keeps the
  handles, the registry of open environments and the counters in step. libmdbx may fail an
  assertion at any call; the guard (\<open>r_mdbx_hooks.cpp\<close>) turns that into a \<open>longjmp\<close> to a C frame of
  the package, which marks the handles as poisoned before anything becomes an R error. R's
  collector runs the finalizers of the pointers whenever and in whatever order it likes; and the
  process may fork, after which the child must not touch what the parent opened.

  \<^bold>\<open>The model.\<close> The process is the record \<open>world\<close> (\<open>Mdbx_State\<close>): maps from addresses to handles
  and external pointers, the registry, the abandoned pointers, the counters, the chain of guard
  frames, the last panic, libmdbx's own state \<open>w_lib\<close> of an arbitrary type, and which native objects
  may still be used, which the C++ does not know and the model checks. Every function that
  touches memory is a computation in a state monad with failures (\<open>Mdbx_Prelude\<close>); one error is
  \<open>Undefined\<close>, which reading a freed handle, confusing two pointer types, calling libmdbx with a dead
  object or narrowing a number out of range produces, and one is \<open>Longjmp\<close>. The others are the R
  conditions of the source, one constructor per message. libmdbx is the record \<open>libmdbx\<close> of functions
  on its own state, a parameter of everything: only the constants of \<open>mdbx.h\<close> are taken from it
  (\<open>Mdbx_Codes\<close>). Numbers that C++ narrows are words or bounded integers, and R's doubles are
  exact rationals with infinities and NaN (\<open>Mdbx_Double\<close>).

  \<^item> \<open>Mdbx_Text\<close>, \<open>Mdbx_Hooks\<close>: the text buffers, \<open>mdbx_r_panic\<close>, \<open>mdbx_r_run_guarded\<close>, \<open>guard\<close>.
  \<^item> \<open>Mdbx_Errors\<close>, \<open>Mdbx_Flags\<close>: \<open>check\<close> and the error table; the flag tables, names and bits.
  \<^item> \<open>Mdbx_Handles\<close>: recognising pointers, handing out usable handles, the registries, the ends of a
    transaction; \<open>Mdbx_Lifecycle\<close>: open, close, begin, commit, abort and the two finalizers.
  \<^item> \<open>Mdbx_Data\<close>, \<open>Mdbx_Scan\<close>, \<open>Mdbx_EnvOps\<close>: get, put, del, named databases and sequences; the scan;
    statistics, flags, sync, limits, initialization, the test hooks.
  \<^item> \<open>Mdbx_Probes\<close>, \<open>Mdbx_Glue\<close>: logging, versions, byte copies; the routines of \<open>cpp11.cpp\<close> and the table
    R finds them in.
  \<^item> \<open>Mdbx_System\<close>: the transition relation \<open>step\<close> of the whole process and its \<open>reachable\<close> states. R may
    call any entry point on any value it can hold, run any finalizer, change classes and attributes,
    make pointers of its own; another process may change the database; the process may fork.

  \<^bold>\<open>What is proved.\<close>
  \<^item> Memory safety, in every reachable state and for any arguments. The invariant \<open>inv\<close> (\<open>Mdbx_Inv\<close>) is
    kept by the moves of \<open>Mdbx_Moves\<close>; \<open>safe\<close> (\<open>Mdbx_Safety\<close>) composes; \<open>Mdbx_Guarded\<close>, \<open>Mdbx_LifeSafe\<close>,
    \<open>Mdbx_OpsSafe\<close>, \<open>Mdbx_EndSafe\<close>, \<open>Mdbx_CloseSafe\<close>, \<open>Mdbx_FinalSafe\<close>, \<open>Mdbx_BirthSafe\<close> and \<open>Mdbx_OpenSafe\<close> go through
    the operations. The properties below read the invariant: no undefined behaviour, exact registry
    and counters, one transaction per environment, typed pointers; \<open>dot_call_safe\<close> lifts it to \<open>.Call\<close>.
  \<^item> The package as a store. \<open>Mdbx_Store\<close> specifies a store of tables, a named one being a record of the main one that
    can be read there and not written; \<open>txn_refines_store\<close> shows that any
    run of operations in a transaction answers what the store answers, \<open>transaction_atomic\<close> that a
    transaction publishes exactly that, once, when its commit succeeds, and \<open>only_commit_publishes\<close>
    that nothing else ever does (\<open>Mdbx_Publish\<close>, \<open>Mdbx_Tracks\<close>, \<open>Mdbx_StoreRuns\<close>, \<open>Mdbx_Atomic\<close>). \<open>Mdbx_ScanSpec\<close> shows that
    a scan is a list function on the sorted table.
  \<^item> Transactions side by side. \<open>Mdbx_Isolation\<close> says what one open transaction has that no other call
    may touch, \<open>Mdbx_Bystanders\<close> that every entry point on another handle and every other finalizer
    leaves it, and \<open>Mdbx_Interleaved\<close> that so does each step of the process; \<open>snapshot_isolation\<close>
    (\<open>Mdbx_Sessions\<close>) is what a transaction answers and commits with anything else in between.
  \<^item> The life of handles. \<open>Mdbx_Forward\<close> and \<open>Mdbx_Progress\<close> show that every statement only takes handles
    forward, \<open>Mdbx_Phases\<close> the order of phases they refine; \<open>Mdbx_Drain\<close> that running the finalizers frees
    everything; \<open>Mdbx_Refusals\<close>, \<open>Mdbx_Silent\<close> and \<open>Mdbx_Unusable\<close> that a closed, poisoned or inherited handle is
    refused by name and never reaches libmdbx again.
  \<^item> The interfaces are locales: what a property has to read for the guard, the calls and the package's own
    statements to keep it (\<open>boundary_property\<close>, \<open>handle_property\<close>, \<open>native_property\<close>, \<open>library_property\<close>), and
    which calls of libmdbx keep it, so that all entry points do (\<open>calls_property\<close>, \<open>whole_property\<close>).
  \<^item> Every operation, on every branch: \<open>Mdbx_Runs\<close>, \<open>Mdbx_Outcomes\<close>, \<open>Mdbx_Openings\<close>, \<open>Mdbx_Ops\<close> and \<open>Mdbx_Named\<close> say what
    it answers and leaves for each status libmdbx can answer; \<open>Mdbx_Vocabulary\<close> has the tables, the round
    trips of flags, the error translation and the bounds of buffers and numbers.
  The witnesses run on two concrete libraries, \<open>Mdbx_Demo\<close> and \<open>Mdbx_Shelf\<close>.

  \<^bold>\<open>What is assumed of libmdbx.\<close> \<open>library_ok\<close>: pointers have at least four bytes, the two calls made
  outside the guard do not panic, an abort on the owning thread never answers
  \<open>MDBX_THREAD_MISMATCH\<close>, and a commit on any other thread always does (libmdbx is built with
  \<open>MDBX_TXN_CHECKOWNER\<close>, and the test hook \<open>mdbx_test_thread_mismatch_\<close> is such a commit); everything about
  safety needs no more than this, whatever else libmdbx does, panics included. \<open>cursor_ok\<close> (scan): a cursor
  goes to either end of the table, to the start key of the scan, and to the neighbours of a row it
  stands at; of a cursor that stands nowhere it says nothing about neighbours. \<open>commit_only\<close> and \<open>store_ok\<close>
  (store): a call that is not a commit publishes nothing, and each call inside a transaction does
  what its documentation says, table records of the main table included, or fails and leaves the
  transaction as it was or fit only to be ended; \<open>rd_fails\<close> says whether it may fail at all. \<open>isolated\<close> (sessions): a call on one transaction or
  environment leaves the snapshots of the others alone. \<open>conversions_ok\<close> (glue): what cpp11 throws on a bad
  argument is an R error.

  \<^bold>\<open>Bounds and termination.\<close> No fuel is used. The loops are structural, or have a measure: the bytes
  left in \<open>copy_loop\<close>, the rows left up to the limit in \<open>scan_loop\<close>, the items left in
  \<open>list_of_raws_loop\<close>. A scan without a limit has the limit
  \<open>SIZE_MAX\<close> in the code too.

  \<^bold>\<open>Not modelled.\<close> libmdbx itself (\<open>vendor/\<close>), a parameter. The R code over the entry points, which
  validates arguments: the model lets R pass anything. The values the routines of \<open>cpp11.cpp\<close> return
  to R. A C++ allocation, or a thread, that fails to be made outside a guarded call, which would be an R error.
  The second thread of \<open>mdbx_test_thread_mismatch_\<close> has no state of its own: the caller waits for it, and its one call of
  libmdbx happens in between. Destructors that R's \<open>longjmp\<close> skips when \<open>RAW()\<close> refuses a value (\<open>val_from_raw\<close>). The
  overflow of the two counters of type \<open>int\<close>, undefined in C++, wraps here, past \<open>2 ^ 31 - 1\<close> handles alive at once.
  Finalizers run between two
  calls, although R could run one inside a call that allocates an R object. \<open>tools/valgrind/fake-ram.c\<close>
  replaces a system call in one CI job. Of the store, the operations by key and by table are specified; a scan, a
  sequence or a statistic is a step of somebody else's transaction only.
\<close>

section \<open>Properties of the whole system\<close>

text \<open>C1: from package load on, in every state the process can reach, no entry point called with
  any arguments has undefined behaviour (a freed handle read, a confused pointer type, a libmdbx
  contract broken, a narrowing cast out of range) or jumps to a guard frame that is gone; and it
  leaves the chain of guard frames empty.\<close>

theorem no_undefined_behaviour:
  assumes "library_ok L" and "reachable L w" and "sexp_ok (handle_arg c) w"
    and "perform L c w = (r, w')"
  shows "r \<noteq> Inl Undefined \<and> (\<forall>k. r \<noteq> Inl (Longjmp k)) \<and> w_guard w' = []"
  using perform_outcome [OF assms(1) inv_reachable [OF assms(2,1)] assms(3,4)] inv_calm
  by (auto simp: harmless_def)

theorem no_undefined_behaviour_witness:
  "library_ok demo_lib \<and> reachable demo_lib demo_opened
   \<and> sexp_ok (handle_arg (Do_txn_begin (R_ExtPtr 1) True [])) demo_opened \<and> w_guard demo_begun = []"
proof -
  have s: "sexp_ok (handle_arg (Do_txn_begin (R_ExtPtr 1) True [])) demo_opened"
    by (simp add: sexp_ok_def demo_opened_def)
  show ?thesis
    using no_undefined_behaviour [OF demo_ok demo_opened_reachable s demo_begin_runs]
      demo_ok demo_opened_reachable s by blast
qed

text \<open>C7: a finalizer, run by R's collector at any reachable state and in any order, always returns
  normally: it raises no condition (there is no C++ frame to catch one) and nothing undefined
  happens, whether the handle is healthy, poisoned, already finished or inherited across a fork.\<close>

theorem finalizers_return:
  assumes "library_ok L" and "reachable L w" and "w_xps w x = Some p"
    and "xp_tag p = env_tag \<and> fin = finalize_env L x \<or> xp_tag p = txn_tag \<and> fin = finalize_txn L x"
  shows "\<exists>w'. fin w = (Inr (), w') \<and> reachable L w'"
proof -
  have I: "inv w" and A: "abort_ends L"
    using inv_reachable [OF assms(2,1)] assms(1) by (simp_all add: library_ok_def)
  show ?thesis
    using assms(4) finalize_env_ends [OF I A assms(3)] finalize_txn_ends [OF I A assms(3)]
      step.collect_env [OF assms(3)] step.collect_txn [OF assms(3)] reachable.later [OF assms(2)] by metis
qed

theorem finalizers_return_witness:
  "\<exists>w'. finalize_env demo_lib 1 demo_begun = (Inr (), w') \<and> reachable demo_lib w'"
  by (rule finalizers_return [OF demo_ok demo_begun_reachable, where p = demo_env_ptr])
    (simp_all add: demo_begun_def demo_env_ptr_def)

text \<open>C8: in every reachable state an environment registers at most one transaction, that
  transaction is active, holds a native transaction and names the environment as its owner, and a
  transaction without an owner is over and holds no native transaction.\<close>

theorem one_live_transaction:
  assumes "library_ok L" and "reachable L w"
  shows "(\<forall>a h. w_envs w a = Some h \<longrightarrow>
            eh_live h = [] \<or>
            (\<exists>t th. eh_live h = [t] \<and> w_txns w t = Some th \<and> th_owner th = Some a
               \<and> th_state th = st_active \<and> th_txn th \<noteq> None \<and> eh_env h \<noteq> None))
       \<and> (\<forall>t th. w_txns w t = Some th \<and> th_owner th = None \<longrightarrow> th_txn th = None \<and> th_state th \<noteq> st_active)"
proof -
  have I: "inv w" by (rule inv_reachable [OF assms(2,1)])
  have "eh_live h = [] \<or>
      (\<exists>t th. eh_live h = [t] \<and> w_txns w t = Some th \<and> th_owner th = Some a
         \<and> th_state th = st_active \<and> th_txn th \<noteq> None \<and> eh_env h \<noteq> None)"
    if h: "w_envs w a = Some h" for a h
  proof (cases "eh_live h")
    case (Cons t ts)
    then have "t \<in> set (eh_live h)" by simp
    then obtain th p where t: "w_txns w t = Some th" "th_owner th = Some a" "th_txn th = Some p"
        "eh_live h = [t]" "eh_env h \<noteq> None"
      by (rule inv_live [OF I h])
    then have "th_state th = st_active" using own_invD(5) [OF inv_D(3) [OF I]] by blast
    with t show ?thesis by simp
  qed simp
  then show ?thesis using own_invD(4) [OF inv_D(3) [OF I]] by blast
qed

theorem one_live_transaction_witness:
  "library_ok demo_lib \<and> reachable demo_lib demo_begun
   \<and> (\<exists>t th. [2] = [t] \<and> w_txns demo_begun t = Some th \<and> th_owner th = Some 0 \<and> th_txn th \<noteq> None)"
proof -
  have e: "w_envs demo_begun 0 = Some (demo_env\<lparr>eh_live := [2]\<rparr>)" by (simp add: demo_begun_def)
  show ?thesis
    using one_live_transaction [OF demo_ok demo_begun_reachable] e demo_ok demo_begun_reachable
    by fastforce
qed

text \<open>C9: in every reachable state the open registry lists, once each, exactly the handles whose
  environment is not closed, and two open environments of one process never have the same key.\<close>

theorem open_registry_exact:
  assumes "library_ok L" and "reachable L w"
  shows "distinct (w_open w)
       \<and> set (w_open w) = {a. \<exists>h. w_envs w a = Some h \<and> eh_env h \<noteq> None}
       \<and> (\<forall>a b h k. w_envs w a = Some h \<and> w_envs w b = Some k \<and> eh_env h \<noteq> None \<and> eh_env k \<noteq> None
            \<and> eh_pid h = eh_pid k \<and> eh_key h = eh_key k \<longrightarrow> a = b)"
proof -
  note O = open_invD [OF inv_D(4) [OF inv_reachable [OF assms(2,1)]]]
  show ?thesis using O(1) O(2) O(3) by blast
qed

theorem open_registry_exact_witness:
  "library_ok demo_lib \<and> reachable demo_lib demo_begun
   \<and> {0} = {a. \<exists>h. w_envs demo_begun a = Some h \<and> eh_env h \<noteq> None}"
proof -
  have "set (w_open demo_begun) = {0}" by (simp add: demo_begun_def)
  then have "{0} = {a. \<exists>h. w_envs demo_begun a = Some h \<and> eh_env h \<noteq> None}"
    using open_registry_exact [OF demo_ok demo_begun_reachable] by (elim conjE) (simp only:)
  then show ?thesis using demo_ok demo_begun_reachable by blast
qed

text \<open>C10: in every reachable state the counters the tests read are exact: as long as fewer than \<open>2 ^ 31\<close> handles are allocated, they
  count the environment handles and transaction handles that are allocated, and the environments that are open. They are
  C integers: in every state they are those numbers as 32 bits with a sign show them.\<close>

theorem counters_exact:
  assumes "library_ok L" and "reachable L w"
  shows "(card (dom (w_envs w)) < 2 ^ 31 \<longrightarrow> mdbx_env_live_count w = (Inr (int (card (dom (w_envs w)))), w))
       \<and> (card (dom (w_txns w)) < 2 ^ 31 \<longrightarrow> mdbx_txn_live_count w = (Inr (int (card (dom (w_txns w)))), w))
       \<and> (card {a. \<exists>h. w_envs w a = Some h \<and> eh_env h \<noteq> None} < 2 ^ 31 \<longrightarrow>
            mdbx_env_open_count w = (Inr (int (card {a. \<exists>h. w_envs w a = Some h \<and> eh_env h \<noteq> None})), w))
       \<and> mdbx_env_live_count w = (Inr (size_to_int (card (dom (w_envs w)))), w)
       \<and> mdbx_txn_live_count w = (Inr (size_to_int (card (dom (w_txns w)))), w)
       \<and> mdbx_env_open_count w = (Inr (size_to_int (card {a. \<exists>h. w_envs w a = Some h \<and> eh_env h \<noteq> None})), w)"
proof -
  have I: "heap_inv w" "open_inv w" using inv_reachable [OF assms(2,1)] by (simp_all add: inv_def)
  have "{a. \<exists>h. w_envs w a = Some h \<and> eh_env h \<noteq> None} = set (w_open w)" "distinct (w_open w)"
    using I(2) by (auto simp: open_inv_def)
  then have "mdbx_env_live_count w = (Inr (size_to_int (card (dom (w_envs w)))), w)"
      "mdbx_txn_live_count w = (Inr (size_to_int (card (dom (w_txns w)))), w)"
      "mdbx_env_open_count w = (Inr (size_to_int (card {a. \<exists>h. w_envs w a = Some h \<and> eh_env h \<noteq> None})), w)"
    using I(1) by (simp_all add: heap_inv_def mdbx_env_live_count_def mdbx_txn_live_count_def
        mdbx_env_open_count_def size_to_int_def run_simps distinct_card)
  then show ?thesis by (simp add: size_to_int_exact)
qed

theorem counters_exact_witness:
  "mdbx_txn_live_count demo_begun = (Inr 1, demo_begun) \<and> mdbx_env_live_count demo_begun = (Inr 1, demo_begun)
   \<and> mdbx_env_open_count demo_begun = (Inr 1, demo_begun)"
proof -
  have "card (dom (w_txns demo_begun)) = 1" "card (dom (w_envs demo_begun)) = 1"
      "{a. \<exists>h. w_envs demo_begun a = Some h \<and> eh_env h \<noteq> None} = {0}"
    by (auto simp: demo_begun_def demo_env_def split: if_splits)
  then show ?thesis using counters_exact [OF demo_ok demo_begun_reachable] by simp
qed

text \<open>C11: the private tags are types. In every reachable state an external pointer tagged as an
  environment addresses an allocated environment handle or nothing, one tagged as a transaction a
  transaction handle or nothing, an untagged one neither, and no handle has two pointers; whatever
  class R code gave the pointer, \<open>is_env_sexp\<close> and \<open>is_txn_sexp\<close> never both accept it.\<close>

theorem pointers_typed:
  assumes "library_ok L" and "reachable L w" and "w_xps w x = Some p"
  shows "(xp_tag p = env_tag \<longrightarrow> xp_addr p = ANull \<or> (\<exists>a h. xp_addr p = AEnv a \<and> w_envs w a = Some h))
       \<and> (xp_tag p = txn_tag \<longrightarrow> xp_addr p = ANull \<or> (\<exists>t h. xp_addr p = ATxn t \<and> w_txns w t = Some h))
       \<and> (xp_tag p \<noteq> env_tag \<and> xp_tag p \<noteq> txn_tag \<longrightarrow> xp_addr p = ANull \<or> xp_addr p = AForeign)
       \<and> (\<forall>y q. w_xps w y = Some q \<and> xp_addr q = xp_addr p \<and> xp_addr p \<noteq> ANull \<and> xp_addr p \<noteq> AForeign \<longrightarrow> y = x)
       \<and> \<not> (is_env_sexp (R_ExtPtr x) w = (Inr True, w) \<and> is_txn_sexp (R_ExtPtr x) w = (Inr True, w))"
proof -
  have P: "ptr_inv w" using inv_reachable [OF assms(2,1)] by (simp add: inv_def)
  have "\<not> (is_env_sexp (R_ExtPtr x) w = (Inr True, w) \<and> is_txn_sexp (R_ExtPtr x) w = (Inr True, w))"
    using assms(3) by (auto simp: is_env_sexp_def is_txn_sexp_def has_tag_def xptr_at_def run_simps)
  moreover have "xp_addr p = ANull \<or> xp_addr p = AForeign" if "xp_tag p \<noteq> env_tag" "xp_tag p \<noteq> txn_tag"
    using ptr_invD(3,4) [OF P assms(3)] that by (cases "xp_addr p") auto
  moreover have "y = x" if "w_xps w y = Some q" "xp_addr q = xp_addr p" "xp_addr p \<noteq> ANull" "xp_addr p \<noteq> AForeign"
    for y q
    using ptr_invD(5) [OF P that(1) assms(3)] that by simp
  ultimately show ?thesis using ptr_invD(1,2) [OF P assms(3)] by blast
qed

theorem pointers_typed_witness:
  "xp_tag demo_txn_ptr = txn_tag
   \<and> (xp_addr demo_txn_ptr = ANull \<or> (\<exists>t h. xp_addr demo_txn_ptr = ATxn t \<and> w_txns demo_begun t = Some h))"
proof -
  have p: "w_xps demo_begun 3 = Some demo_txn_ptr" "xp_tag demo_txn_ptr = txn_tag"
    by (simp_all add: demo_begun_def demo_txn_ptr_def)
  show ?thesis using pointers_typed [OF demo_ok demo_begun_reachable p(1)] p(2) by blast
qed

end
